(* ===== verification/HSL_Prelude.thy ===== *)
theory HSL_Prelude
  imports Main "HOL-Library.Word" "HOL-Library.AList" "HOL-Library.Char_ord" "HOL-Library.List_Lexorder"
begin

text \<open>
  The shared part of the development: the C++ vocabulary the components are written in.
  Bytes and strings (\<open>std::string\<close> is a list of 8-bit \<open>char\<close>), the exceptions the
  sources throw, decimal printing and the \<open>std::stoull\<close> family, ordered maps
  (\<open>std::map\<close>) as sorted association lists and unordered maps as association lists with
  distinct keys. \<open>cpp_string\<close>, \<open>cpp_num\<close> and \<open>cpp_map\<close> collect the facts the
  component proofs rewrite with.
\<close>

unbundle bit_operations_syntax

named_theorems cpp_string \<open>facts about strings, characters and searches\<close>
named_theorems cpp_num \<open>facts about number printing and scanning\<close>
named_theorems cpp_map \<open>facts about the map types\<close>

type_synonym u64 = "64 word"
type_synonym byte = "8 word"

section \<open>Exceptions and results\<close>

text \<open>
  The exceptions of the program that derive from \<open>std::exception\<close>. A function that may
  throw returns a value of \<open>exn + 'a\<close>, with \<open>Inl\<close> for the exception.
\<close>

datatype exn =
    Invalid_argument string
  | Out_of_range string
  | Runtime_error string
  | Db_exception string
  | Short_code_conflict
  | Orphan_short_link string

fun exn_what :: "exn \<Rightarrow> string" where
  "exn_what (Invalid_argument m) = m"
| "exn_what (Out_of_range m) = m"
| "exn_what (Runtime_error m) = m"
| "exn_what (Db_exception m) = m"
| "exn_what Short_code_conflict = ''Short code already exists''"
| "exn_what (Orphan_short_link code) =
     ''access event does not reference an existing short link: '' @ code"

section \<open>Characters\<close>

definition is_digit :: "char \<Rightarrow> bool" where
  "is_digit c \<longleftrightarrow> CHR ''0'' \<le> c \<and> c \<le> CHR ''9''"

definition is_lower :: "char \<Rightarrow> bool" where
  "is_lower c \<longleftrightarrow> CHR ''a'' \<le> c \<and> c \<le> CHR ''z''"

definition is_upper :: "char \<Rightarrow> bool" where
  "is_upper c \<longleftrightarrow> CHR ''A'' \<le> c \<and> c \<le> CHR ''Z''"

text \<open>\<open>isspace\<close> in the C locale: space, tab, line feed, vertical tab, form feed, return.\<close>

definition is_space :: "char \<Rightarrow> bool" where
  "is_space c \<longleftrightarrow> c = CHR '' '' \<or> CHR 0x09 \<le> c \<and> c \<le> CHR 0x0D"

text \<open>\<open>tolower\<close> in the C locale, and the lambda of \<open>normalizeUsername\<close> and \<open>asciiLower\<close>.\<close>

definition to_lower :: "char \<Rightarrow> char" where
  "to_lower c = (if is_upper c then char_of ((of_char c :: nat) - 65 + 97) else c)"

definition lower_string :: "string \<Rightarrow> string" where
  "lower_string = map to_lower"

definition digit_val :: "char \<Rightarrow> nat" where
  "digit_val c = of_char c - 48"

definition digit_char :: "nat \<Rightarrow> char" where
  "digit_char n = char_of (48 + n)"

lemma less_eq_char_iff: "(c :: char) \<le> d \<longleftrightarrow> (of_char c :: nat) \<le> of_char d"
  by (simp add: less_eq_char_def)

lemma less_char_iff: "(c :: char) < d \<longleftrightarrow> (of_char c :: nat) < of_char d"
  by (simp add: less_char_def)

lemma is_digit_iff: "is_digit c \<longleftrightarrow> 48 \<le> (of_char c :: nat) \<and> (of_char c :: nat) \<le> 57"
  by (simp add: is_digit_def less_eq_char_iff)

lemma is_upper_iff: "is_upper c \<longleftrightarrow> 65 \<le> (of_char c :: nat) \<and> (of_char c :: nat) \<le> 90"
  by (simp add: is_upper_def less_eq_char_iff)

lemma of_char_digit_char: "n < 10 \<Longrightarrow> (of_char (digit_char n) :: nat) = 48 + n"
  by (simp add: digit_char_def of_char_of)

lemma is_digit_digit_char [simp]: "n < 10 \<Longrightarrow> is_digit (digit_char n)"
  by (simp add: is_digit_iff of_char_digit_char)

lemma digit_val_digit_char [simp]: "n < 10 \<Longrightarrow> digit_val (digit_char n) = n"
  by (simp add: digit_val_def of_char_digit_char)

lemma digit_char_digit_val [simp]: "is_digit c \<Longrightarrow> digit_char (digit_val c) = c"
  by (simp add: is_digit_iff digit_val_def digit_char_def)

lemma digit_val_less [simp]: "is_digit c \<Longrightarrow> digit_val c < 10"
  by (auto simp: is_digit_iff digit_val_def)

lemma digit_char_neq:
  assumes "n < 10" and "\<not> is_digit c"
  shows "digit_char n \<noteq> c"
  using assms by auto

lemma of_char_to_lower:
  "(of_char (to_lower c) :: nat) = (if is_upper c then of_char c + 32 else of_char c)"
proof (cases "is_upper c")
  case True
  then have "(of_char c :: nat) - 65 + 97 = of_char c + 32" "(of_char c :: nat) + 32 < 256"
    by (auto simp: is_upper_iff)
  then show ?thesis using True by (simp add: to_lower_def of_char_of)
qed (simp add: to_lower_def)

lemma to_lower_idem [simp]: "to_lower (to_lower c) = to_lower c"
proof -
  have "\<not> is_upper (to_lower c)"
    by (auto simp: is_upper_iff of_char_to_lower)
  then show ?thesis by (simp add: to_lower_def [of "to_lower c"])
qed

lemma lower_string_idem [simp]: "lower_string (lower_string s) = lower_string s"
  by (simp add: lower_string_def)

lemma length_lower_string [simp]: "length (lower_string s) = length s"
  by (simp add: lower_string_def)

section \<open>Searching strings\<close>

text \<open>\<open>value.compare(0, prefix.size(), prefix) == 0\<close> on a long enough value.\<close>

fun starts_with :: "string \<Rightarrow> string \<Rightarrow> bool" where
  "starts_with [] s = True"
| "starts_with (c # p) [] = False"
| "starts_with (c # p) (d # s) = (c = d \<and> starts_with p s)"

lemma starts_with_iff [cpp_string]: "starts_with p s \<longleftrightarrow> (\<exists>t. s = p @ t)"
  by (induction p s rule: starts_with.induct) auto

lemma starts_with_append [simp]: "starts_with p (p @ t)"
  by (simp add: starts_with_iff)

text \<open>\<open>s.find(pat) != npos\<close>.\<close>

fun contains_sub :: "string \<Rightarrow> string \<Rightarrow> bool" where
  "contains_sub pat [] = (pat = [])"
| "contains_sub pat (c # s) = (starts_with pat (c # s) \<or> contains_sub pat s)"

lemma contains_sub_iff [cpp_string]: "contains_sub pat s \<longleftrightarrow> (\<exists>u v. s = u @ pat @ v)"
proof (induction s)
  case (Cons c s)
  show ?case
  proof
    assume "contains_sub pat (c # s)"
    then consider "starts_with pat (c # s)" | "contains_sub pat s" by auto
    then show "\<exists>u v. c # s = u @ pat @ v"
    proof cases
      case 1
      then obtain t where "c # s = pat @ t" by (auto simp: starts_with_iff)
      then show ?thesis by (intro exI [of _ "[]"] exI [of _ t]) simp
    next
      case 2
      then obtain u v where "s = u @ pat @ v" using Cons.IH by blast
      then show ?thesis by (intro exI [of _ "c # u"] exI [of _ v]) simp
    qed
  next
    assume "\<exists>u v. c # s = u @ pat @ v"
    then obtain u v where uv: "c # s = u @ pat @ v" by blast
    show "contains_sub pat (c # s)"
    proof (cases u)
      case Nil
      then have "starts_with pat (c # s)" using uv by simp
      then show ?thesis by simp
    next
      case (Cons d u')
      then show ?thesis using uv Cons.IH by auto
    qed
  qed
qed simp

text \<open>
  The index loops \<open>end = s.find(ch, begin)\<close> of the sources are recursions over the
  unread suffix: \<open>cut_at ch s\<close> is the text before the first \<open>ch\<close> and, unless there is
  none (\<open>npos\<close>), the text after it.
\<close>

fun cut_at :: "char \<Rightarrow> string \<Rightarrow> string \<times> string option" where
  "cut_at c [] = ([], None)"
| "cut_at c (x # s) =
     (if x = c then ([], Some s) else (case cut_at c s of (u, r) \<Rightarrow> (x # u, r)))"

lemma cut_at_append [cpp_string]: "c \<notin> set u \<Longrightarrow> cut_at c (u @ c # v) = (u, Some v)"
  by (induction u) auto

lemma cut_at_none [cpp_string]: "c \<notin> set u \<Longrightarrow> cut_at c u = (u, None)"
  by (induction u) auto

lemma cut_at_SomeD: "cut_at c s = (u, Some v) \<Longrightarrow> s = u @ c # v \<and> c \<notin> set u"
  by (induction s arbitrary: u) (auto split: if_splits prod.splits)

lemma cut_at_NoneD: "cut_at c s = (u, None) \<Longrightarrow> u = s \<and> c \<notin> set s"
  by (induction s arbitrary: u) (auto split: if_splits prod.splits)

lemma cut_at_shorter: "cut_at c s = (u, Some v) \<Longrightarrow> length v < length s"
  by (auto dest: cut_at_SomeD)

section \<open>Decimal numbers\<close>

text \<open>\<open>std::to_string\<close> on unsigned and signed integers.\<close>

fun dec_string :: "nat \<Rightarrow> string" where
  "dec_string n =
     (if n < 10 then [digit_char n] else dec_string (n div 10) @ [digit_char (n mod 10)])"

declare dec_string.simps [simp del]

definition to_string_u64 :: "u64 \<Rightarrow> string" where
  "to_string_u64 w = dec_string (unat w)"

definition to_string_int :: "int \<Rightarrow> string" where
  "to_string_int i = (if i < 0 then CHR ''-'' # dec_string (nat (- i)) else dec_string (nat i))"

fun dec_value :: "nat \<Rightarrow> string \<Rightarrow> nat" where
  "dec_value acc [] = acc"
| "dec_value acc (c # cs) = dec_value (acc * 10 + digit_val c) cs"

lemma dec_value_append: "dec_value acc (s @ [c]) = dec_value acc s * 10 + digit_val c"
  by (induction s arbitrary: acc) simp_all

lemma dec_string_digits: "list_all is_digit (dec_string n)"
proof (induction n rule: dec_string.induct)
  case (1 n)
  then show ?case by (subst dec_string.simps) simp
qed

lemma dec_string_nonempty [simp]: "dec_string n \<noteq> []"
  by (subst dec_string.simps) simp

lemma dec_value_dec_string [cpp_num]: "dec_value 0 (dec_string n) = n"
proof (induction n rule: dec_string.induct)
  case (1 n)
  then show ?case by (subst dec_string.simps) (simp add: dec_value_append)
qed

lemma dec_string_is_digit: "c \<in> set (dec_string n) \<Longrightarrow> is_digit c"
  using dec_string_digits [of n] by (auto simp: list_all_iff)

lemma hd_dec_string: "is_digit (hd (dec_string n))"
  by (rule dec_string_is_digit) (rule hd_in_set, simp)

lemma dec_string_no_char: "\<not> is_digit c \<Longrightarrow> c \<notin> set (dec_string n)"
  using dec_string_is_digit by blast

lemma to_string_int_no_char:
  "\<not> is_digit c \<Longrightarrow> c \<noteq> CHR ''-'' \<Longrightarrow> c \<notin> set (to_string_int i)"
  using dec_string_no_char by (auto simp: to_string_int_def)

section \<open>The std::stoull family\<close>

text \<open>
  \<open>strtoull\<close>, \<open>strtoll\<close> and \<open>strtol\<close> in base 10: leading white space, one optional
  sign, then the longest run of digits. The result is the sign, the magnitude and the number
  of characters read; no digits is the \<open>std::invalid_argument\<close> of the callers.
\<close>

definition scan_integer :: "string \<Rightarrow> (bool \<times> nat \<times> nat) option" where
  "scan_integer s =
     (let blank = takeWhile is_space s;
          rest = dropWhile is_space s;
          neg = (case rest of c # _ \<Rightarrow> c = CHR ''-'' | [] \<Rightarrow> False);
          signed = (case rest of c # _ \<Rightarrow> c = CHR ''-'' \<or> c = CHR ''+'' | [] \<Rightarrow> False);
          digits = takeWhile is_digit (if signed then tl rest else rest)
      in if digits = [] then None
         else Some (neg, dec_value 0 digits,
                    length blank + (if signed then 1 else 0) + length digits))"

definition stoull :: "string \<Rightarrow> exn + u64" where
  "stoull s =
     (case scan_integer s of
        None \<Rightarrow> Inl (Invalid_argument ''stoull'')
      | Some (neg, v, _) \<Rightarrow>
          if v \<ge> 2 ^ 64 then Inl (Out_of_range ''stoull'')
          else Inr (if neg then - word_of_nat v else word_of_nat v))"

definition stoll :: "string \<Rightarrow> exn + int" where
  "stoll s =
     (case scan_integer s of
        None \<Rightarrow> Inl (Invalid_argument ''stoll'')
      | Some (neg, v, _) \<Rightarrow>
          (let i = (if neg then - int v else int v)
           in if i < - (2 ^ 63) \<or> i \<ge> 2 ^ 63 then Inl (Out_of_range ''stoll'') else Inr i))"

definition stoi :: "string \<Rightarrow> exn + int \<times> nat" where
  "stoi s =
     (case scan_integer s of
        None \<Rightarrow> Inl (Invalid_argument ''stoi'')
      | Some (neg, v, n) \<Rightarrow>
          (let i = (if neg then - int v else int v)
           in if i < - (2 ^ 31) \<or> i \<ge> 2 ^ 31 then Inl (Out_of_range ''stoi'') else Inr (i, n)))"

lemma not_space_digit: "is_digit c \<Longrightarrow> \<not> is_space c"
  by (auto simp: is_digit_iff is_space_def less_eq_char_iff)

lemma sign_not_digit [simp]: "\<not> is_digit CHR ''-''" "\<not> is_digit CHR ''+''" "\<not> is_space CHR ''-''"
  by (simp_all add: is_digit_def is_space_def)

lemma takeWhile_dec_string: "takeWhile is_digit (dec_string n) = dec_string n"
  using dec_string_digits by (simp add: takeWhile_eq_all_conv list_all_iff)

lemma scan_dec_string:
  "scan_integer (dec_string n) = Some (False, n, length (dec_string n))"
proof -
  obtain c cs where d: "dec_string n = c # cs" by (meson dec_string_nonempty neq_Nil_conv)
  then have c: "is_digit c" using hd_dec_string [of n] by simp
  then have "c \<noteq> CHR ''-''" "c \<noteq> CHR ''+''" "\<not> is_space c" using not_space_digit by auto
  then show ?thesis
    using d takeWhile_dec_string [of n] dec_value_dec_string [of n]
    by (simp add: scan_integer_def Let_def del: takeWhile_eq_all_conv)
qed

lemma scan_neg_dec_string:
  "scan_integer (CHR ''-'' # dec_string n) = Some (True, n, Suc (length (dec_string n)))"
  by (simp add: scan_integer_def Let_def takeWhile_dec_string dec_value_dec_string
      del: takeWhile_eq_all_conv)

lemma stoull_to_string [cpp_num]: "stoull (to_string_u64 w) = Inr w"
  using unsigned_less [of w, where ?'a = nat] by (simp add: stoull_def to_string_u64_def scan_dec_string)

lemma stoll_to_string [cpp_num]:
  "- (2 ^ 63) \<le> i \<Longrightarrow> i < 2 ^ 63 \<Longrightarrow> stoll (to_string_int i) = Inr i"
  by (auto simp: stoll_def to_string_int_def scan_dec_string scan_neg_dec_string)

section \<open>Hexadecimal numbers\<close>

definition hex_char :: "nat \<Rightarrow> char" where
  "hex_char n = ''0123456789abcdef'' ! n"

definition is_lower_hex :: "char \<Rightarrow> bool" where
  "is_lower_hex c \<longleftrightarrow> is_digit c \<or> CHR ''a'' \<le> c \<and> c \<le> CHR ''f''"

text \<open>\<open>%0kllx\<close>: exactly \<open>k\<close> hexadecimal digits.\<close>

fun hex_fixed :: "nat \<Rightarrow> nat \<Rightarrow> string" where
  "hex_fixed 0 n = []"
| "hex_fixed (Suc k) n = hex_fixed k (n div 16) @ [hex_char (n mod 16)]"

lemma nat_less_16_cases:
  "(n::nat) < 16 \<Longrightarrow> n \<in> {0, 1, 2, 3, 4, 5, 6, 7, 8, 9, 10, 11, 12, 13, 14, 15}"
  by simp presburger

lemma hex_char_inj: "m < 16 \<Longrightarrow> n < 16 \<Longrightarrow> hex_char m = hex_char n \<Longrightarrow> m = n"
proof -
  assume mn: "m < 16" "n < 16" and eq: "hex_char m = hex_char n"
  have "distinct ''0123456789abcdef''" by simp
  moreover have "length ''0123456789abcdef'' = 16" by simp
  ultimately show ?thesis
    using mn eq nth_eq_iff_index_eq [of "''0123456789abcdef''" m n] by (simp add: hex_char_def)
qed

lemma is_lower_hex_hex_char [simp]: "n < 16 \<Longrightarrow> is_lower_hex (hex_char n)"
  by (drule nat_less_16_cases) (auto simp: hex_char_def is_lower_hex_def is_digit_def)

lemma length_hex_fixed [simp]: "length (hex_fixed k n) = k"
  by (induction k arbitrary: n) auto

lemma hex_fixed_lower_hex: "list_all is_lower_hex (hex_fixed k n)"
  by (induction k arbitrary: n) auto

lemma hex_fixed_inj:
  "m < 16 ^ k \<Longrightarrow> n < 16 ^ k \<Longrightarrow> hex_fixed k m = hex_fixed k n \<Longrightarrow> m = n"
proof (induction k arbitrary: m n)
  case (Suc k)
  then have "hex_fixed k (m div 16) = hex_fixed k (n div 16)"
    and r: "hex_char (m mod 16) = hex_char (n mod 16)" by auto
  moreover have "m div 16 < 16 ^ k" "n div 16 < 16 ^ k"
    using Suc.prems(1,2) by (auto simp: less_mult_imp_div_less mult.commute)
  ultimately have "m div 16 = n div 16" using Suc.IH by blast
  moreover have "m mod 16 = n mod 16" using r hex_char_inj by simp
  ultimately show ?case by (metis div_mult_mod_eq)
qed auto

text \<open>\<open>toHex\<close> (\<open>PasswordHasher.cpp\<close> and \<open>AuthService.cpp\<close> have the same copy).\<close>

fun to_hex :: "byte list \<Rightarrow> string" where
  "to_hex [] = []"
| "to_hex (b # bs) = hex_char (unat (drop_bit 4 b)) # hex_char (unat (b AND 15)) # to_hex bs"

lemma length_to_hex [simp]: "length (to_hex bs) = 2 * length bs"
  by (induction bs) auto

section \<open>Maps\<close>

text \<open>
  \<open>std::map\<close> is a list of pairs sorted by key: \<open>omap_put\<close> is \<open>operator[]\<close> followed by an
  assignment, and iteration is the list. \<open>std::unordered_map\<close> is an association list with
  distinct keys (\<open>AList.update\<close>, \<open>AList.delete\<close>); nothing depends on its order.
\<close>

fun omap_put :: "'k::linorder \<Rightarrow> 'v \<Rightarrow> ('k \<times> 'v) list \<Rightarrow> ('k \<times> 'v) list" where
  "omap_put k v [] = [(k, v)]"
| "omap_put k v ((k', v') # m) =
     (if k < k' then (k, v) # (k', v') # m
      else if k = k' then (k, v) # m
      else (k', v') # omap_put k v m)"

definition omap_ok :: "('k::linorder \<times> 'v) list \<Rightarrow> bool" where
  "omap_ok m \<longleftrightarrow> sorted_wrt (<) (map fst m)"

lemma map_of_omap_put [cpp_map, simp]: "map_of (omap_put k v m) = (map_of m)(k \<mapsto> v)"
  by (induction k v m rule: omap_put.induct) (auto simp: fun_eq_iff)

lemma keys_omap_put [cpp_map]: "set (map fst (omap_put k v m)) = insert k (set (map fst m))"
  by (induction k v m rule: omap_put.induct) auto

lemma omap_ok_put [cpp_map]: "omap_ok m \<Longrightarrow> omap_ok (omap_put k v m)"
proof (induction k v m rule: omap_put.induct)
  case (2 k v k' v' m)
  then show ?case
    using keys_omap_put [of k v m] by (auto simp: omap_ok_def)
qed (simp add: omap_ok_def)

lemma omap_ok_empty [simp]: "omap_ok []"
  by (simp add: omap_ok_def)

lemmas umap_simps [cpp_map] = update_conv' delete_conv' distinct_update distinct_delete

section \<open>The 64-bit counters\<close>

lemma unat_u64_less: "unat (w :: u64) < 2 ^ 64"
  using unsigned_less [of w, where ?'a = nat] by simp

lemma unat_add_one_u64 [cpp_num]: "(w :: u64) \<noteq> - 1 \<Longrightarrow> unat (w + 1) = unat w + 1"
proof -
  assume "w \<noteq> - 1"
  then have "unat w \<noteq> unat (- 1 :: u64)" by (simp only: word_unat_eq_iff not_False_eq_True)
  moreover have "unat (- 1 :: u64) = 2 ^ 64 - 1"
    using unsigned_minus_1_eq_mask [where ?'a = nat and ?'b = 64] by (simp add: mask_eq_exp_minus_1)
  ultimately have "unat w + 1 < 2 ^ 64" using unat_u64_less [of w] by simp
  then show ?thesis by (simp add: unat_word_ariths)
qed

lemma unat_max_u64 [simp]: "unat (- 1 :: u64) = 2 ^ 64 - 1"
  using unsigned_minus_1_eq_mask [where ?'a = nat and ?'b = 64] by (simp add: mask_eq_exp_minus_1)

lemma unat_inj_u64: "unat (v :: u64) = unat w \<longleftrightarrow> v = w"
  by (simp add: word_unat_eq_iff)

end
