(* ===== verification/ShortLinkMetrics.thy ===== *)
theory ShortLinkMetrics
  imports HSL_Prelude
begin

text \<open>
  \<open>ShortLinkMetrics.h\<close> and \<open>.cpp\<close>: the counters of the short link server. Every counter
  family is one array of unsigned 64-bit cells, indexed as the code indexes it
  (\<open>outer * inner_count + inner\<close>); \<open>fetch_add\<close> wraps. The lemmas show that the index
  arithmetic keeps distinct label pairs in distinct cells, so that each \<open>record\<close> call counts
  exactly its own labels.
\<close>

section \<open>Labels\<close>

datatype storage = Storage_memory | Storage_mysql
datatype create_result = Create_success | Create_invalid | Create_error
datatype redirect_source = From_memory | From_mysql | From_redis
datatype redirect_result =
  Redirect_success | Redirect_not_found | Redirect_disabled | Redirect_expired | Redirect_error
datatype cache_operation = Cache_get | Cache_set | Cache_delete
datatype cache_result = Cache_hit | Cache_miss | Cache_success | Cache_error
datatype backend = Backend_mysql | Backend_redis
datatype backend_operation =
  Op_create | Op_find | Op_list | Op_update | Op_statistics | Op_get | Op_set | Op_delete
| Op_rate_limit
datatype rate_limit_result = Rate_allowed | Rate_limited | Rate_error
datatype enqueue_result = Enqueue_accepted | Enqueue_queue_full | Enqueue_error
datatype delivery_result = Delivery_success | Delivery_failure

text \<open>\<open>static_cast<std::size_t>\<close> of the enumerators.\<close>

fun storage_index :: "storage \<Rightarrow> nat" where
  "storage_index Storage_memory = 0" | "storage_index Storage_mysql = 1"

fun create_result_index :: "create_result \<Rightarrow> nat" where
  "create_result_index Create_success = 0"
| "create_result_index Create_invalid = 1"
| "create_result_index Create_error = 2"

fun redirect_source_index :: "redirect_source \<Rightarrow> nat" where
  "redirect_source_index From_memory = 0"
| "redirect_source_index From_mysql = 1"
| "redirect_source_index From_redis = 2"

fun redirect_result_index :: "redirect_result \<Rightarrow> nat" where
  "redirect_result_index Redirect_success = 0"
| "redirect_result_index Redirect_not_found = 1"
| "redirect_result_index Redirect_disabled = 2"
| "redirect_result_index Redirect_expired = 3"
| "redirect_result_index Redirect_error = 4"

fun cache_operation_index :: "cache_operation \<Rightarrow> nat" where
  "cache_operation_index Cache_get = 0"
| "cache_operation_index Cache_set = 1"
| "cache_operation_index Cache_delete = 2"

fun cache_result_index :: "cache_result \<Rightarrow> nat" where
  "cache_result_index Cache_hit = 0"
| "cache_result_index Cache_miss = 1"
| "cache_result_index Cache_success = 2"
| "cache_result_index Cache_error = 3"

fun backend_index :: "backend \<Rightarrow> nat" where
  "backend_index Backend_mysql = 0" | "backend_index Backend_redis = 1"

fun backend_operation_index :: "backend_operation \<Rightarrow> nat" where
  "backend_operation_index Op_create = 0"
| "backend_operation_index Op_find = 1"
| "backend_operation_index Op_list = 2"
| "backend_operation_index Op_update = 3"
| "backend_operation_index Op_statistics = 4"
| "backend_operation_index Op_get = 5"
| "backend_operation_index Op_set = 6"
| "backend_operation_index Op_delete = 7"
| "backend_operation_index Op_rate_limit = 8"

fun rate_limit_result_index :: "rate_limit_result \<Rightarrow> nat" where
  "rate_limit_result_index Rate_allowed = 0"
| "rate_limit_result_index Rate_limited = 1"
| "rate_limit_result_index Rate_error = 2"

fun enqueue_result_index :: "enqueue_result \<Rightarrow> nat" where
  "enqueue_result_index Enqueue_accepted = 0"
| "enqueue_result_index Enqueue_queue_full = 1"
| "enqueue_result_index Enqueue_error = 2"

fun delivery_result_index :: "delivery_result \<Rightarrow> nat" where
  "delivery_result_index Delivery_success = 0" | "delivery_result_index Delivery_failure = 1"

section \<open>State and operations\<close>

record sl_metrics =
  create_counters :: "u64 list"
  redirect_counters :: "u64 list"
  cache_counters :: "u64 list"
  backend_error_counters :: "u64 list"
  rate_limit_counters :: "u64 list"
  enqueue_counters :: "u64 list"
  delivery_counters :: "u64 list"
  access_event_queue_size :: u64

definition init_metrics :: sl_metrics where
  "init_metrics =
     \<lparr>create_counters = replicate 6 0, redirect_counters = replicate 15 0,
      cache_counters = replicate 12 0, backend_error_counters = replicate 18 0,
      rate_limit_counters = replicate 3 0, enqueue_counters = replicate 3 0,
      delivery_counters = replicate 2 0, access_event_queue_size = 0\<rparr>"

definition fetch_add_one :: "nat \<Rightarrow> u64 list \<Rightarrow> u64 list" where
  "fetch_add_one i xs = xs[i := xs ! i + 1]"

definition create_cell :: "create_result \<Rightarrow> storage \<Rightarrow> nat" where
  "create_cell r s = storage_index s * 3 + create_result_index r"

definition redirect_cell :: "redirect_result \<Rightarrow> redirect_source \<Rightarrow> nat" where
  "redirect_cell r s = redirect_source_index s * 5 + redirect_result_index r"

definition cache_cell :: "cache_operation \<Rightarrow> cache_result \<Rightarrow> nat" where
  "cache_cell oper r = cache_operation_index oper * 4 + cache_result_index r"

definition backend_cell :: "backend \<Rightarrow> backend_operation \<Rightarrow> nat" where
  "backend_cell b oper = backend_index b * 9 + backend_operation_index oper"

definition record_create :: "create_result \<Rightarrow> storage \<Rightarrow> sl_metrics \<Rightarrow> sl_metrics" where
  "record_create r s m =
     m\<lparr>create_counters := fetch_add_one (create_cell r s) (create_counters m)\<rparr>"

definition record_redirect :: "redirect_result \<Rightarrow> redirect_source \<Rightarrow> sl_metrics \<Rightarrow> sl_metrics" where
  "record_redirect r s m =
     m\<lparr>redirect_counters := fetch_add_one (redirect_cell r s) (redirect_counters m)\<rparr>"

definition record_cache :: "cache_operation \<Rightarrow> cache_result \<Rightarrow> sl_metrics \<Rightarrow> sl_metrics" where
  "record_cache oper r m =
     m\<lparr>cache_counters := fetch_add_one (cache_cell oper r) (cache_counters m)\<rparr>"

definition record_backend_error :: "backend \<Rightarrow> backend_operation \<Rightarrow> sl_metrics \<Rightarrow> sl_metrics" where
  "record_backend_error b oper m =
     m\<lparr>backend_error_counters := fetch_add_one (backend_cell b oper) (backend_error_counters m)\<rparr>"

definition record_rate_limit :: "rate_limit_result \<Rightarrow> sl_metrics \<Rightarrow> sl_metrics" where
  "record_rate_limit r m =
     m\<lparr>rate_limit_counters := fetch_add_one (rate_limit_result_index r) (rate_limit_counters m)\<rparr>"

definition record_enqueue :: "enqueue_result \<Rightarrow> sl_metrics \<Rightarrow> sl_metrics" where
  "record_enqueue r m =
     m\<lparr>enqueue_counters := fetch_add_one (enqueue_result_index r) (enqueue_counters m)\<rparr>"

definition record_delivery :: "delivery_result \<Rightarrow> sl_metrics \<Rightarrow> sl_metrics" where
  "record_delivery r m =
     m\<lparr>delivery_counters := fetch_add_one (delivery_result_index r) (delivery_counters m)\<rparr>"

definition set_access_event_queue_size :: "u64 \<Rightarrow> sl_metrics \<Rightarrow> sl_metrics" where
  "set_access_event_queue_size n m = m\<lparr>access_event_queue_size := n\<rparr>"

section \<open>The Prometheus text\<close>

definition nl :: string where
  "nl = [CHR 0x0A]"

definition quoted :: "string \<Rightarrow> string" where
  "quoted s = CHR 0x22 # s @ [CHR 0x22]"

definition metric_head :: "string \<Rightarrow> string \<Rightarrow> string \<Rightarrow> string" where
  "metric_head name help kind =
     ''# HELP '' @ name @ '' '' @ help @ nl @ ''# TYPE '' @ name @ '' '' @ kind @ nl"

definition sample1 :: "string \<Rightarrow> string \<Rightarrow> string \<Rightarrow> u64 \<Rightarrow> string" where
  "sample1 name k v n = name @ ''{'' @ k @ ''='' @ quoted v @ ''} '' @ to_string_u64 n @ nl"

definition sample2 :: "string \<Rightarrow> string \<Rightarrow> string \<Rightarrow> string \<Rightarrow> string \<Rightarrow> u64 \<Rightarrow> string" where
  "sample2 name k v k' v' n =
     name @ ''{'' @ k @ ''='' @ quoted v @ '','' @ k' @ ''='' @ quoted v' @ ''} '' @
     to_string_u64 n @ nl"

definition storage_labels :: "string list" where
  "storage_labels = [''memory'', ''mysql'']"
definition create_result_labels :: "string list" where
  "create_result_labels = [''success'', ''invalid'', ''error'']"
definition redirect_source_labels :: "string list" where
  "redirect_source_labels = [''memory'', ''mysql'', ''redis'']"
definition redirect_result_labels :: "string list" where
  "redirect_result_labels = [''success'', ''not_found'', ''disabled'', ''expired'', ''error'']"
definition cache_operation_labels :: "string list" where
  "cache_operation_labels = [''get'', ''set'', ''delete'']"
definition cache_result_labels :: "string list" where
  "cache_result_labels = [''hit'', ''miss'', ''success'', ''error'']"
definition backend_labels :: "string list" where
  "backend_labels = [''mysql'', ''redis'']"
definition backend_operation_labels :: "string list" where
  "backend_operation_labels =
     [''create'', ''find'', ''list'', ''update'', ''statistics'', ''get'', ''set'', ''delete'',
      ''rate_limit'']"
definition rate_limit_result_labels :: "string list" where
  "rate_limit_result_labels = [''allowed'', ''limited'', ''error'']"
definition enqueue_result_labels :: "string list" where
  "enqueue_result_labels = [''accepted'', ''queue_full'', ''error'']"
definition delivery_result_labels :: "string list" where
  "delivery_result_labels = [''success'', ''failure'']"

text \<open>The two \<open>validCombination\<close> filters, on the numeric indices as in the code.\<close>

definition valid_cache_combination :: "nat \<Rightarrow> nat \<Rightarrow> bool" where
  "valid_cache_combination oper r \<longleftrightarrow>
     (oper = cache_operation_index Cache_get \<and> r \<noteq> cache_result_index Cache_success) \<or>
     ((oper = cache_operation_index Cache_set \<or> oper = cache_operation_index Cache_delete) \<and>
      (r = cache_result_index Cache_success \<or> r = cache_result_index Cache_error))"

definition valid_backend_combination :: "nat \<Rightarrow> nat \<Rightarrow> bool" where
  "valid_backend_combination b oper \<longleftrightarrow>
     (b = backend_index Backend_mysql \<and> oper \<le> backend_operation_index Op_statistics) \<or>
     (b = backend_index Backend_redis \<and> oper \<ge> backend_operation_index Op_get)"

definition render_create_counters :: "sl_metrics \<Rightarrow> string" where
  "render_create_counters m =
     metric_head ''haohttp_shortlink_create_total'' ''Short link creation results.'' ''counter'' @
     concat (map (\<lambda>s. concat (map (\<lambda>r.
         sample2 ''haohttp_shortlink_create_total'' ''result'' (create_result_labels ! r)
           ''storage'' (storage_labels ! s) (create_counters m ! (s * 3 + r)))
       [0..<length create_result_labels])) [0..<length storage_labels])"

definition render_redirect_counters :: "sl_metrics \<Rightarrow> string" where
  "render_redirect_counters m =
     metric_head ''haohttp_shortlink_redirect_total'' ''Short link redirect lookup results.''
       ''counter'' @
     concat (map (\<lambda>s. concat (map (\<lambda>r.
         sample2 ''haohttp_shortlink_redirect_total'' ''result'' (redirect_result_labels ! r)
           ''source'' (redirect_source_labels ! s) (redirect_counters m ! (s * 5 + r)))
       [0..<length redirect_result_labels])) [0..<length redirect_source_labels])"

definition render_cache_counters :: "sl_metrics \<Rightarrow> string" where
  "render_cache_counters m =
     metric_head ''haohttp_shortlink_cache_operations_total'' ''Redis cache operation results.''
       ''counter'' @
     concat (map (\<lambda>oper. concat (map (\<lambda>r.
         if \<not> valid_cache_combination oper r then []
         else sample2 ''haohttp_shortlink_cache_operations_total'' ''operation''
                (cache_operation_labels ! oper) ''result'' (cache_result_labels ! r)
                (cache_counters m ! (oper * 4 + r)))
       [0..<length cache_result_labels])) [0..<length cache_operation_labels])"

definition render_backend_counters :: "sl_metrics \<Rightarrow> string" where
  "render_backend_counters m =
     metric_head ''haohttp_shortlink_backend_errors_total''
       ''Short link backend operation errors.'' ''counter'' @
     concat (map (\<lambda>b. concat (map (\<lambda>oper.
         if \<not> valid_backend_combination b oper then []
         else sample2 ''haohttp_shortlink_backend_errors_total'' ''backend'' (backend_labels ! b)
                ''operation'' (backend_operation_labels ! oper)
                (backend_error_counters m ! (b * 9 + oper)))
       [0..<length backend_operation_labels])) [0..<length backend_labels])"

definition render_simple_counters :: "string \<Rightarrow> string \<Rightarrow> string list \<Rightarrow> u64 list \<Rightarrow> string" where
  "render_simple_counters name help labels cells =
     metric_head name help ''counter'' @
     concat (map (\<lambda>r. sample1 name ''result'' (labels ! r) (cells ! r)) [0..<length labels])"

definition render_prometheus :: "sl_metrics \<Rightarrow> string" where
  "render_prometheus m =
     render_create_counters m @ render_redirect_counters m @ render_cache_counters m @
     render_backend_counters m @
     render_simple_counters ''haohttp_shortlink_rate_limit_checks_total''
       ''Short link create rate limit check results.'' rate_limit_result_labels
       (rate_limit_counters m) @
     render_simple_counters ''haohttp_shortlink_access_event_enqueue_total''
       ''Kafka access event enqueue results.'' enqueue_result_labels (enqueue_counters m) @
     render_simple_counters ''haohttp_shortlink_access_event_delivery_total''
       ''Kafka access event delivery results.'' delivery_result_labels (delivery_counters m) @
     metric_head ''haohttp_shortlink_access_event_queue_size''
       ''Kafka access events awaiting delivery.'' ''gauge'' @
     ''haohttp_shortlink_access_event_queue_size '' @
     to_string_u64 (access_event_queue_size m) @ nl"

section \<open>The counters count what they name\<close>

definition metrics_ok :: "sl_metrics \<Rightarrow> bool" where
  "metrics_ok m \<longleftrightarrow>
     length (create_counters m) = 6 \<and> length (redirect_counters m) = 15 \<and>
     length (cache_counters m) = 12 \<and> length (backend_error_counters m) = 18 \<and>
     length (rate_limit_counters m) = 3 \<and> length (enqueue_counters m) = 3 \<and>
     length (delivery_counters m) = 2"

lemma length_fetch_add_one [simp]: "length (fetch_add_one i xs) = length xs"
  by (simp add: fetch_add_one_def)

lemma nth_fetch_add_one:
  "i < length xs \<Longrightarrow> fetch_add_one i xs ! j = xs ! j + (if i = j then 1 else 0)"
  by (auto simp: fetch_add_one_def nth_list_update)

lemmas record_defs =
  record_create_def record_redirect_def record_cache_def record_backend_error_def
  record_rate_limit_def record_enqueue_def record_delivery_def set_access_event_queue_size_def

lemma metrics_ok_init [simp]: "metrics_ok init_metrics"
  by (simp add: metrics_ok_def init_metrics_def)

lemma metrics_ok_record [simp]:
  "metrics_ok (record_create cr st m) = metrics_ok m"
  "metrics_ok (record_redirect rr rs m) = metrics_ok m"
  "metrics_ok (record_cache co ca m) = metrics_ok m"
  "metrics_ok (record_backend_error b bo m) = metrics_ok m"
  "metrics_ok (record_rate_limit rl m) = metrics_ok m"
  "metrics_ok (record_enqueue en m) = metrics_ok m"
  "metrics_ok (record_delivery de m) = metrics_ok m"
  "metrics_ok (set_access_event_queue_size q m) = metrics_ok m"
  by (simp_all add: record_defs metrics_ok_def)

lemma create_cell_less: "create_cell r s < 6"
  by (cases r; cases s) (simp_all add: create_cell_def)

lemma redirect_cell_less: "redirect_cell r s < 15"
  by (cases r; cases s) (simp_all add: redirect_cell_def)

lemma cache_cell_less: "cache_cell oper r < 12"
  by (cases r; cases oper) (simp_all add: cache_cell_def)

lemma backend_cell_less: "backend_cell b oper < 18"
  by (cases b; cases oper) (simp_all add: backend_cell_def)

lemma create_cell_inj: "create_cell r s = create_cell r' s' \<longleftrightarrow> r = r' \<and> s = s'"
  by (cases r; cases s; cases r'; cases s') (simp_all add: create_cell_def)

lemma redirect_cell_inj: "redirect_cell r s = redirect_cell r' s' \<longleftrightarrow> r = r' \<and> s = s'"
  by (cases r; cases s; cases r'; cases s') (simp_all add: redirect_cell_def)

lemma cache_cell_inj: "cache_cell oper r = cache_cell oper' r' \<longleftrightarrow> oper = oper' \<and> r = r'"
  by (cases r; cases oper; cases r'; cases oper') (simp_all add: cache_cell_def)

lemma backend_cell_inj: "backend_cell b oper = backend_cell b' oper' \<longleftrightarrow> b = b' \<and> oper = oper'"
  by (cases b; cases oper; cases b'; cases oper') (simp_all add: backend_cell_def)

text \<open>What a scrape reads for one label pair.\<close>

definition redirect_count :: "sl_metrics \<Rightarrow> redirect_result \<Rightarrow> redirect_source \<Rightarrow> u64" where
  "redirect_count m r s = redirect_counters m ! redirect_cell r s"

definition create_count :: "sl_metrics \<Rightarrow> create_result \<Rightarrow> storage \<Rightarrow> u64" where
  "create_count m r s = create_counters m ! create_cell r s"

definition cache_count :: "sl_metrics \<Rightarrow> cache_operation \<Rightarrow> cache_result \<Rightarrow> u64" where
  "cache_count m oper r = cache_counters m ! cache_cell oper r"

definition backend_error_count :: "sl_metrics \<Rightarrow> backend \<Rightarrow> backend_operation \<Rightarrow> u64" where
  "backend_error_count m b oper = backend_error_counters m ! backend_cell b oper"

lemma redirect_count_record:
  "metrics_ok m \<Longrightarrow>
   redirect_count (record_redirect r s m) r' s' =
     redirect_count m r' s' + (if r = r' \<and> s = s' then 1 else 0)"
  by (simp add: redirect_count_def record_redirect_def metrics_ok_def nth_fetch_add_one
      redirect_cell_less redirect_cell_inj)

lemma create_count_record:
  "metrics_ok m \<Longrightarrow>
   create_count (record_create r s m) r' s' =
     create_count m r' s' + (if r = r' \<and> s = s' then 1 else 0)"
  by (simp add: create_count_def record_create_def metrics_ok_def nth_fetch_add_one
      create_cell_less create_cell_inj)

lemma cache_count_record:
  "metrics_ok m \<Longrightarrow>
   cache_count (record_cache oper r m) oper' r' =
     cache_count m oper' r' + (if oper = oper' \<and> r = r' then 1 else 0)"
  by (simp add: cache_count_def record_cache_def metrics_ok_def nth_fetch_add_one
      cache_cell_less cache_cell_inj)

lemma backend_error_count_record:
  "metrics_ok m \<Longrightarrow>
   backend_error_count (record_backend_error b oper m) b' oper' =
     backend_error_count m b' oper' + (if b = b' \<and> oper = oper' then 1 else 0)"
  by (simp add: backend_error_count_def record_backend_error_def metrics_ok_def nth_fetch_add_one
      backend_cell_less backend_cell_inj)

end
