(* ===== verification/LinkStore.thy ===== *)
theory LinkStore
  imports HSL_Prelude ShortLinkMetrics
begin

text \<open>
  \<open>ShortLinkRepository.h/.cpp\<close> and \<open>MemoryShortLinkRepository.h/.cpp\<close>: the link record, the
  repository interface as a record of operations (the virtual functions), base 62 codes, the
  in-memory repository, and the contract every repository promises as the locale
  \<open>link_repository\<close>, interpreted on the in-memory repository.
\<close>

section \<open>Data\<close>

datatype link_state = Active | Disabled

datatype lookup_source = Source_memory | Source_mysql | Source_redis

record link_record =
  link_id :: u64
  owner_id :: u64
  link_code :: string
  original_url :: string
  link_status :: link_state
  expires_at :: "int option"
  created_at :: int
  updated_at :: int

record lookup_result =
  lookup_record :: "link_record option"
  lookup_from :: lookup_source

record list_query =
  q_cursor :: u64
  q_limit :: nat
  q_owner :: "u64 option"
  q_status :: "link_state option"

record lifecycle_update =
  upd_status :: "link_state option"
  expires_at_provided :: bool
  upd_expires_at :: "int option"
  upd_owner :: "u64 option"

definition status_to_string :: "link_state \<Rightarrow> string" where
  "status_to_string s = (if s = Active then ''active'' else ''disabled'')"

definition parse_status :: "string \<Rightarrow> link_state option" where
  "parse_status v =
     (if v = ''active'' then Some Active else if v = ''disabled'' then Some Disabled else None)"

lemma parse_status_to_string [simp]: "parse_status (status_to_string s) = Some s"
  by (cases s) (simp_all add: parse_status_def status_to_string_def)

lemma status_to_string_no_char: "c \<notin> set ''activedisabled'' \<Longrightarrow> c \<notin> set (status_to_string s)"
  by (cases s) (auto simp: status_to_string_def)

section \<open>The repository interface\<close>

text \<open>
  A world is what the storage operations read and write: the store of one repository and the
  metrics object that repository, service and handlers share. The operations take the reading
  of the system clock they make (\<open>now\<close>, in epoch seconds) as an argument.
\<close>

record 's world =
  store :: 's
  metrics :: sl_metrics

record 's link_repo =
  repo_create :: "int \<Rightarrow> string \<Rightarrow> int option \<Rightarrow> u64 \<Rightarrow> string option \<Rightarrow>
    's world \<Rightarrow> (exn + link_record option) \<times> 's world"
  repo_find :: "int \<Rightarrow> string \<Rightarrow> 's world \<Rightarrow> (exn + lookup_result) \<times> 's world"
  repo_find_for_owner :: "string \<Rightarrow> u64 \<Rightarrow> 's world \<Rightarrow> (exn + link_record option) \<times> 's world"
  repo_default_source :: lookup_source
  repo_list :: "list_query \<Rightarrow> 's world \<Rightarrow> (exn + link_record list) \<times> 's world"
  repo_update :: "int \<Rightarrow> string \<Rightarrow> lifecycle_update \<Rightarrow>
    's world \<Rightarrow> (exn + link_record option) \<times> 's world"

section \<open>Base 62 codes\<close>

definition base62_chars :: string where
  "base62_chars = ''0123456789ABCDEFGHIJKLMNOPQRSTUVWXYZabcdefghijklmnopqrstuvwxyz''"

text \<open>The digits in the order the loop pushes them, least significant first.\<close>

fun base62_digits :: "nat \<Rightarrow> string" where
  "base62_digits n =
     (if n = 0 then [] else base62_chars ! (n mod 62) # base62_digits (n div 62))"

declare base62_digits.simps [simp del]

definition pad_code :: "string \<Rightarrow> string" where
  "pad_code s = s @ replicate (6 - length s) CHR ''0''"

definition encode_base62 :: "u64 \<Rightarrow> string" where
  "encode_base62 v =
     (if v = 0 then replicate 6 CHR ''0'' else rev (pad_code (base62_digits (unat v))))"

text \<open>The reading of a code as a number, the left inverse of the encoder.\<close>

fun index_of :: "char \<Rightarrow> string \<Rightarrow> nat" where
  "index_of c [] = 0"
| "index_of c (d # s) = (if c = d then 0 else Suc (index_of c s))"

fun base62_value :: "string \<Rightarrow> nat" where
  "base62_value [] = 0"
| "base62_value (c # s) = index_of c base62_chars + 62 * base62_value s"

definition decode_base62 :: "string \<Rightarrow> nat" where
  "decode_base62 s = base62_value (rev s)"

lemma index_of_nth: "distinct s \<Longrightarrow> i < length s \<Longrightarrow> index_of (s ! i) s = i"
proof (induction s arbitrary: i)
  case (Cons d s)
  then show ?case by (cases i) (auto simp: nth_Cons)
qed simp

lemma distinct_base62_chars: "distinct base62_chars"
  by (simp add: base62_chars_def)

lemma length_base62_chars [simp]: "length base62_chars = 62"
  by (simp add: base62_chars_def)

lemma index_of_base62: "i < 62 \<Longrightarrow> index_of (base62_chars ! i) base62_chars = i"
  by (simp add: index_of_nth distinct_base62_chars)

lemma base62_value_zeros: "base62_value (replicate k CHR ''0'') = 0"
  by (induction k) (simp_all add: base62_chars_def)

lemma base62_value_pad: "base62_value (s @ replicate k CHR ''0'') = base62_value s"
  by (induction s) (simp_all add: base62_value_zeros)

lemma base62_value_digits: "base62_value (base62_digits n) = n"
proof (induction n rule: base62_digits.induct)
  case (1 n)
  show ?case
  proof (cases "n = 0")
    case False
    then have "base62_value (base62_digits n) = n mod 62 + 62 * (n div 62)"
      using "1.IH" by (subst base62_digits.simps) (simp add: index_of_base62)
    then show ?thesis by presburger
  qed (simp add: base62_digits.simps)
qed

lemma decode_encode_base62: "decode_base62 (encode_base62 v) = unat v"
  using base62_value_zeros [of 6]
  by (simp add: decode_base62_def encode_base62_def pad_code_def base62_value_pad
      base62_value_digits)

lemma encode_base62_inj: "encode_base62 v = encode_base62 w \<Longrightarrow> v = w"
  by (metis decode_encode_base62 word_unat_eq_iff)

lemma base62_digits_chars: "set (base62_digits n) \<subseteq> set base62_chars"
proof (induction n rule: base62_digits.induct)
  case (1 n)
  then show ?case by (subst base62_digits.simps) (auto intro: nth_mem)
qed

lemma zero_in_base62: "CHR ''0'' \<in> set base62_chars"
  by (simp add: base62_chars_def)

lemma encode_base62_chars: "set (encode_base62 v) \<subseteq> set base62_chars"
  using base62_digits_chars zero_in_base62 by (auto simp: encode_base62_def pad_code_def)

lemma encode_base62_min_length: "6 \<le> length (encode_base62 v)"
  by (auto simp: encode_base62_def pad_code_def)

text \<open>A 64-bit id never needs more than eleven digits.\<close>

lemma length_base62_digits: "n < 62 ^ k \<Longrightarrow> length (base62_digits n) \<le> k"
proof (induction n arbitrary: k rule: base62_digits.induct)
  case (1 n)
  show ?case
  proof (cases "n = 0")
    case False
    with "1.prems" obtain j where k: "k = Suc j" by (cases k) auto
    then have "n div 62 < 62 ^ j" using "1.prems" by (simp add: less_mult_imp_div_less mult.commute)
    then have "length (base62_digits (n div 62)) \<le> j" using "1.IH" False by blast
    then show ?thesis using False k by (subst base62_digits.simps) simp
  qed (simp add: base62_digits.simps)
qed

lemma encode_base62_max_length: "length (encode_base62 v) \<le> 11"
proof -
  have "unat v < 2 ^ 64" using unsigned_less [of v, where ?'a = nat] by simp
  also have "(2::nat) ^ 64 \<le> 62 ^ 11" by simp
  finally have "length (base62_digits (unat v)) \<le> 11" by (rule length_base62_digits)
  then show ?thesis by (auto simp: encode_base62_def pad_code_def)
qed

section \<open>The in-memory repository\<close>

record mem_repo =
  links :: "(string \<times> link_record) list"
  next_id :: u64

definition init_mem_repo :: mem_repo where
  "init_mem_repo = \<lparr>links = [], next_id = 1\<rparr>"

definition mem_create ::
  "int \<Rightarrow> string \<Rightarrow> int option \<Rightarrow> u64 \<Rightarrow> string option \<Rightarrow>
   mem_repo \<Rightarrow> (exn + link_record option) \<times> mem_repo" where
  "mem_create now url expires owner custom s =
     (let id = next_id s;
          s' = s\<lparr>next_id := next_id s + 1\<rparr>;
          cd = (case custom of Some c \<Rightarrow> c | None \<Rightarrow> encode_base62 id)
      in if map_of (links s') cd \<noteq> None then (Inl Short_code_conflict, s')
         else (let r = \<lparr>link_id = id, owner_id = owner, link_code = cd, original_url = url,
                        link_status = Active, expires_at = expires,
                        created_at = now, updated_at = now\<rparr>
               in (Inr (Some r), s'\<lparr>links := AList.update cd r (links s')\<rparr>)))"

definition mem_find_for_owner :: "string \<Rightarrow> u64 \<Rightarrow> mem_repo \<Rightarrow> link_record option" where
  "mem_find_for_owner cd owner s =
     (case map_of (links s) cd of
        None \<Rightarrow> None
      | Some r \<Rightarrow> if owner_id r \<noteq> owner then None else Some r)"

definition mem_find :: "string \<Rightarrow> mem_repo \<Rightarrow> lookup_result" where
  "mem_find cd s =
     (case map_of (links s) cd of
        None \<Rightarrow> \<lparr>lookup_record = None, lookup_from = Source_memory\<rparr>
      | Some r \<Rightarrow> \<lparr>lookup_record = Some r, lookup_from = Source_memory\<rparr>)"

definition skipped :: "list_query \<Rightarrow> link_record \<Rightarrow> bool" where
  "skipped q r \<longleftrightarrow>
     link_id r \<le> q_cursor q \<or>
     (case q_owner q of Some own \<Rightarrow> owner_id r \<noteq> own | None \<Rightarrow> False) \<or>
     (case q_status q of Some st \<Rightarrow> link_status r \<noteq> st | None \<Rightarrow> False)"

definition mem_list :: "list_query \<Rightarrow> mem_repo \<Rightarrow> link_record list" where
  "mem_list q s =
     (let records = sort_key link_id (filter (\<lambda>r. \<not> skipped q r) (map snd (links s)))
      in if length records > q_limit q then take (q_limit q) records else records)"

definition apply_update :: "int \<Rightarrow> lifecycle_update \<Rightarrow> link_record \<Rightarrow> link_record" where
  "apply_update now u r =
     (let r1 = (case upd_status u of Some st \<Rightarrow> r\<lparr>link_status := st\<rparr> | None \<Rightarrow> r);
          r2 = (if expires_at_provided u then r1\<lparr>expires_at := upd_expires_at u\<rparr> else r1)
      in r2\<lparr>updated_at := now\<rparr>)"

definition mem_update :: "int \<Rightarrow> string \<Rightarrow> lifecycle_update \<Rightarrow> mem_repo \<Rightarrow> link_record option \<times> mem_repo" where
  "mem_update now cd u s =
     (case map_of (links s) cd of
        None \<Rightarrow> (None, s)
      | Some r \<Rightarrow>
          if (case upd_owner u of Some own \<Rightarrow> owner_id r \<noteq> own | None \<Rightarrow> False) then (None, s)
          else (let r' = apply_update now u r
                in (Some r', s\<lparr>links := AList.update cd r' (links s)\<rparr>)))"

text \<open>The class \<open>MemoryShortLinkRepository\<close>: the operations on the shared world.\<close>

definition on_store :: "('s \<Rightarrow> 'a \<times> 's) \<Rightarrow> 's world \<Rightarrow> 'a \<times> 's world" where
  "on_store f w = (case f (store w) of (a, s) \<Rightarrow> (a, w\<lparr>store := s\<rparr>))"

definition memory_repo :: "mem_repo link_repo" where
  "memory_repo =
     \<lparr>repo_create = (\<lambda>now url ex own cu. on_store (mem_create now url ex own cu)),
      repo_find = (\<lambda>now cd. on_store (\<lambda>s. (Inr (mem_find cd s), s))),
      repo_find_for_owner = (\<lambda>cd own. on_store (\<lambda>s. (Inr (mem_find_for_owner cd own s), s))),
      repo_default_source = Source_memory,
      repo_list = (\<lambda>q. on_store (\<lambda>s. (Inr (mem_list q s), s))),
      repo_update = (\<lambda>now cd u. on_store (\<lambda>s. case mem_update now cd u s of
                                             (r, s') \<Rightarrow> (Inr r, s')))\<rparr>"

section \<open>The invariant of the in-memory repository\<close>

text \<open>
  Keys are distinct and every record is stored under its own code, ids are distinct, at least
  one and below \<open>next_id\<close>. The counter is a \<open>std::uint64_t\<close>: the operations keep the invariant
  until it has handed out \<open>2^64 - 1\<close> ids, which the create lemma states as its premise.
\<close>

definition mem_ok :: "mem_repo \<Rightarrow> bool" where
  "mem_ok s \<longleftrightarrow>
     distinct (map fst (links s)) \<and>
     (\<forall>c r. map_of (links s) c = Some r \<longrightarrow>
        link_code r = c \<and> 0 < unat (link_id r) \<and> unat (link_id r) < unat (next_id s)) \<and>
     (\<forall>c c' r r'. map_of (links s) c = Some r \<longrightarrow> map_of (links s) c' = Some r' \<longrightarrow>
        link_id r = link_id r' \<longrightarrow> c = c')"

lemma mem_ok_init [simp]: "mem_ok init_mem_repo"
  by (simp add: mem_ok_def init_mem_repo_def)

lemma mem_ok_lookup:
  assumes "mem_ok s" and "map_of (links s) c = Some r"
  shows "link_code r = c" and "0 < unat (link_id r)" and "unat (link_id r) < unat (next_id s)"
  using assms by (auto simp: mem_ok_def)

lemma mem_ok_id_inj:
  assumes "mem_ok s" and "map_of (links s) c = Some r" and "map_of (links s) c' = Some r'"
    and "link_id r = link_id r'"
  shows "c = c' \<and> r = r'"
proof -
  have "c = c'" using assms unfolding mem_ok_def by blast
  then show ?thesis using assms(2,3) by simp
qed

lemma mem_okI:
  assumes "distinct (map fst (links s))"
    and "\<And>c r. map_of (links s) c = Some r \<Longrightarrow>
           link_code r = c \<and> 0 < unat (link_id r) \<and> unat (link_id r) < unat (next_id s)"
    and "\<And>c c' r r'. map_of (links s) c = Some r \<Longrightarrow> map_of (links s) c' = Some r' \<Longrightarrow>
           link_id r = link_id r' \<Longrightarrow> c = c'"
  shows "mem_ok s"
  using assms unfolding mem_ok_def by blast

lemma mem_ok_distinct: "mem_ok s \<Longrightarrow> distinct (map fst (links s))"
  by (simp add: mem_ok_def)

lemma mem_ok_records:
  "mem_ok s \<Longrightarrow> r \<in> snd ` set (links s) \<longleftrightarrow> map_of (links s) (link_code r) = Some r"
proof
  assume ok: "mem_ok s" and "r \<in> snd ` set (links s)"
  then obtain c where "(c, r) \<in> set (links s)" by auto
  then have "map_of (links s) c = Some r" using mem_ok_distinct [OF ok] by simp
  then show "map_of (links s) (link_code r) = Some r" using mem_ok_lookup(1) [OF ok] by simp
next
  assume "map_of (links s) (link_code r) = Some r"
  then show "r \<in> snd ` set (links s)" by (force dest: map_of_SomeD)
qed

text \<open>Creating: the branches of \<open>create\<close> and the invariant.\<close>

definition create_code :: "mem_repo \<Rightarrow> string option \<Rightarrow> string" where
  "create_code s custom = (case custom of Some c \<Rightarrow> c | None \<Rightarrow> encode_base62 (next_id s))"

lemma mem_create_conflict:
  "map_of (links s) (create_code s cu) \<noteq> None \<Longrightarrow>
   mem_create now url ex own cu s = (Inl Short_code_conflict, s\<lparr>next_id := next_id s + 1\<rparr>)"
  by (cases cu) (auto simp: mem_create_def create_code_def Let_def)

definition fresh_record :: "int \<Rightarrow> string \<Rightarrow> int option \<Rightarrow> u64 \<Rightarrow> string option \<Rightarrow> mem_repo \<Rightarrow> link_record" where
  "fresh_record now url ex own cu s =
     \<lparr>link_id = next_id s, owner_id = own, link_code = create_code s cu, original_url = url,
      link_status = Active, expires_at = ex, created_at = now, updated_at = now\<rparr>"

lemma mem_create_fresh:
  "map_of (links s) (create_code s cu) = None \<Longrightarrow>
   mem_create now url ex own cu s =
     (Inr (Some (fresh_record now url ex own cu s)),
      \<lparr>links = AList.update (create_code s cu) (fresh_record now url ex own cu s) (links s),
       next_id = next_id s + 1\<rparr>)"
  by (cases cu) (auto simp: mem_create_def create_code_def fresh_record_def Let_def)

lemma mem_ok_bump:
  "mem_ok s \<Longrightarrow> next_id s \<noteq> - 1 \<Longrightarrow> mem_ok (s\<lparr>next_id := next_id s + 1\<rparr>)"
  by (fastforce simp: mem_ok_def unat_add_one_u64)

lemma mem_ok_create:
  assumes ok: "mem_ok s" and bound: "next_id s \<noteq> - 1" and pos: "next_id s \<noteq> 0"
  shows "mem_ok (snd (mem_create now url ex own cu s))"
proof (cases "map_of (links s) (create_code s cu)")
  case (Some r)
  then show ?thesis using ok bound by (simp add: mem_create_conflict mem_ok_bump)
next
  case None
  let ?c = "create_code s cu" and ?r = "fresh_record now url ex own cu s"
  let ?s' = "snd (mem_create now url ex own cu s)"
  have s': "next_id ?s' = next_id s + 1" "map_of (links ?s') = (map_of (links s))(?c \<mapsto> ?r)"
    "distinct (map fst (links ?s'))"
    using None mem_ok_distinct [OF ok] by (simp_all add: mem_create_fresh umap_simps)
  have new: "link_code ?r = ?c" "link_id ?r = next_id s" by (simp_all add: fresh_record_def)
  have old: "link_id r \<noteq> next_id s" if "map_of (links s) c = Some r" for c r
    using mem_ok_lookup(3) [OF ok that] by auto
  have pos': "0 < unat (next_id s)" using pos by (simp add: unat_gt_0)
  show ?thesis
  proof (rule mem_okI)
    fix c r assume "map_of (links ?s') c = Some r"
    then show "link_code r = c \<and> 0 < unat (link_id r) \<and> unat (link_id r) < unat (next_id ?s')"
      using mem_ok_lookup [OF ok, of c r] new pos' s'(1,2) bound
      by (auto simp: unat_add_one_u64 split: if_splits)
  next
    fix c c' r r'
    assume "map_of (links ?s') c = Some r" "map_of (links ?s') c' = Some r'" "link_id r = link_id r'"
    then show "c = c'"
      using mem_ok_id_inj [OF ok, of c r c' r'] old [of c r] old [of c' r'] new s'(2)
      by (auto split: if_splits)
  qed (rule s'(3))
qed

lemma mem_ok_update: "mem_ok s \<Longrightarrow> mem_ok (snd (mem_update now c u s))"
proof (cases "fst (mem_update now c u s)")
  case (Some r')
  assume ok: "mem_ok s"
  from Some obtain r where r: "map_of (links s) c = Some r" and r': "r' = apply_update now u r"
    and s': "snd (mem_update now c u s) = s\<lparr>links := AList.update c r' (links s)\<rparr>"
    by (auto simp: mem_update_def Let_def split: option.splits if_splits)
  have same: "link_id r' = link_id r" "link_code r' = link_code r"
    using r' by (auto simp: apply_update_def Let_def split: option.splits)
  show ?thesis
    using ok r same s' by (auto simp: mem_ok_def umap_simps)
next
  case None
  assume "mem_ok s"
  moreover have "snd (mem_update now c u s) = s"
    using None by (auto simp: mem_update_def Let_def split: option.splits if_splits)
  ultimately show ?thesis by simp
qed

section \<open>The contract of a repository\<close>

text \<open>
  What the service may rely on, whatever the store: a repository is a list of records in
  ascending id order with distinct codes (\<open>all w\<close>), \<open>view\<close> is the lookup in it, and each
  operation is described by what it returns and what it does to that list. \<open>room\<close> says that
  the id counter has not run out.
\<close>

definition view :: "link_record list \<Rightarrow> string \<Rightarrow> link_record option" where
  "view rs c = find (\<lambda>r. link_code r = c) rs"

definition owned_by :: "u64 \<Rightarrow> link_record option \<Rightarrow> link_record option" where
  "owned_by own ro = (case ro of Some r \<Rightarrow> if owner_id r = own then Some r else None | None \<Rightarrow> None)"

definition update_target :: "lifecycle_update \<Rightarrow> link_record option \<Rightarrow> link_record option" where
  "update_target u ro = (case upd_owner u of Some own \<Rightarrow> owned_by own ro | None \<Rightarrow> ro)"

definition replace_record :: "link_record \<Rightarrow> link_record list \<Rightarrow> link_record list" where
  "replace_record r' = map (\<lambda>r. if link_code r = link_code r' then r' else r)"

definition ids_ascending :: "link_record list \<Rightarrow> bool" where
  "ids_ascending rs \<longleftrightarrow> sorted_wrt (\<lambda>r r'. link_id r < link_id r') rs"

lemma view_Some: "distinct (map link_code rs) \<Longrightarrow> view rs c = Some r \<longleftrightarrow> r \<in> set rs \<and> link_code r = c"
  unfolding view_def by (induction rs) auto

lemma view_None: "view rs c = None \<longleftrightarrow> c \<notin> link_code ` set rs"
  unfolding view_def by (auto simp: find_None_iff)

lemma view_append_new:
  "view rs (link_code r) = None \<Longrightarrow> view (rs @ [r]) = (view rs)(link_code r \<mapsto> r)"
  unfolding view_def by (induction rs) (auto simp: fun_eq_iff split: if_splits)

lemma ids_ascending_cong: "map link_id xs = map link_id ys \<Longrightarrow> ids_ascending xs = ids_ascending ys"
  unfolding ids_ascending_def by (metis sorted_wrt_map)

lemma ids_ascending_unique:
  "ids_ascending xs \<Longrightarrow> ids_ascending ys \<Longrightarrow> set xs = set ys \<Longrightarrow> xs = ys"
proof (induction xs arbitrary: ys)
  case (Cons x xs)
  then obtain y ys' where ys: "ys = y # ys'" by (cases ys) auto
  have "x = y"
  proof (rule ccontr)
    assume "x \<noteq> y"
    then have "x \<in> set ys'" "y \<in> set xs" using Cons.prems(3) ys by auto
    then have "link_id y < link_id x" "link_id x < link_id y"
      using Cons.prems(1,2) ys by (auto simp: ids_ascending_def)
    then show False by simp
  qed
  moreover have "x \<notin> set xs" "y \<notin> set ys'" using Cons.prems ys by (auto simp: ids_ascending_def)
  ultimately have "set xs = set ys'" using Cons.prems(3) ys by auto
  then show ?case using Cons ys \<open>x = y\<close> by (simp add: ids_ascending_def)
qed simp

locale link_repository =
  fixes repo :: "'s link_repo"
    and inv :: "'s world \<Rightarrow> bool"
    and room :: "'s world \<Rightarrow> bool"
    and all :: "'s world \<Rightarrow> link_record list"
  assumes metrics_law: "inv (w\<lparr>metrics := m\<rparr>) = inv w \<and> all (w\<lparr>metrics := m\<rparr>) = all w"
    and ascending: "inv w \<Longrightarrow> ids_ascending (all w)"
    and codes_distinct: "inv w \<Longrightarrow> distinct (map link_code (all w))"
    and create_law: "inv w \<Longrightarrow> room w \<Longrightarrow> repo_create repo now url ex own cu w = (res, w') \<Longrightarrow>
          inv w' \<and> (case res of
            Inl e \<Rightarrow> all w' = all w
          | Inr None \<Rightarrow> all w' = all w
          | Inr (Some r) \<Rightarrow> view (all w) (link_code r) = None \<and> all w' = all w @ [r] \<and>
              original_url r = url \<and> owner_id r = own \<and> expires_at r = ex \<and>
              link_status r = Active \<and> (\<forall>c. cu = Some c \<longrightarrow> link_code r = c))"
    and find_law: "inv w \<Longrightarrow> \<exists>lr w'. repo_find repo now c w = (Inr lr, w') \<and> inv w' \<and>
          all w' = all w \<and> lookup_record lr = view (all w) c"
    and owner_law: "inv w \<Longrightarrow> \<exists>w'. repo_find_for_owner repo c own w =
          (Inr (owned_by own (view (all w) c)), w') \<and> inv w' \<and> all w' = all w"
    and list_law: "inv w \<Longrightarrow> \<exists>w'. repo_list repo q w =
          (Inr (take (q_limit q) (filter (\<lambda>r. \<not> skipped q r) (all w))), w') \<and>
          inv w' \<and> all w' = all w"
    and update_law: "inv w \<Longrightarrow> \<exists>w'. repo_update repo now c u w =
          (Inr (map_option (apply_update now u) (update_target u (view (all w) c))), w') \<and>
          inv w' \<and> all w' = (case update_target u (view (all w) c) of
                               None \<Rightarrow> all w
                             | Some r \<Rightarrow> replace_record (apply_update now u r) (all w))"

text \<open>
  Reading the pages of a listing: each page is requested with the last id of the previous one
  as its cursor, until a page is not full.
\<close>

fun read_pages :: "nat \<Rightarrow> 's link_repo \<Rightarrow> list_query \<Rightarrow> 's world \<Rightarrow> link_record list" where
  "read_pages 0 rp q w = []"
| "read_pages (Suc k) rp q w =
     (case repo_list rp q w of
        (Inr rs, w') \<Rightarrow>
          if length rs < q_limit q \<or> rs = [] then rs
          else rs @ read_pages k rp (q\<lparr>q_cursor := link_id (last rs)\<rparr>) w'
      | (Inl e, w') \<Rightarrow> [])"

lemma filter_after_cursor:
  assumes "ids_ascending rs"
    and cut: "filter (\<lambda>r. \<not> skipped q r) rs = ys @ zs" and "ys \<noteq> []"
  shows "filter (\<lambda>r. \<not> skipped (q\<lparr>q_cursor := link_id (last ys)\<rparr>) r) rs = zs"
proof -
  let ?f = "filter (\<lambda>r. \<not> skipped q r) rs" and ?q = "q\<lparr>q_cursor := link_id (last ys)\<rparr>"
  have asc: "ids_ascending ?f" using assms(1) by (simp add: ids_ascending_def sorted_wrt_filter)
  have last: "last ys \<in> set ?f" using cut \<open>ys \<noteq> []\<close> by simp
  have after: "skipped ?q r \<longleftrightarrow> skipped q r \<or> link_id r \<le> link_id (last ys)" for r
    using last by (auto simp: skipped_def)
  have below: "link_id y \<le> link_id (last ys)" if "y \<in> set ys" for y
  proof -
    obtain ys' where ys: "ys = ys' @ [last ys]" using \<open>ys \<noteq> []\<close> by (metis append_butlast_last_id)
    then have "y = last ys \<or> y \<in> set ys'" using that by (metis Un_iff set_append set_ConsD empty_iff list.set(1) list.set_intros(1) set_ConsD)
    moreover have "\<forall>x\<in>set ys'. link_id x < link_id (last ys)"
      using asc cut ys by (simp add: ids_ascending_def) (metis append_assoc append_Cons list.set_intros(1) sorted_wrt_append)
    ultimately show ?thesis by auto
  qed
  have above: "link_id (last ys) < link_id z" if "z \<in> set zs" for z
    using asc cut that \<open>ys \<noteq> []\<close> by (simp add: ids_ascending_def sorted_wrt_append)
  have "filter (\<lambda>r. \<not> skipped ?q r) rs = filter (\<lambda>r. \<not> link_id r \<le> link_id (last ys)) ?f"
    by (simp add: after conj_commute)
  also have "\<dots> = filter (\<lambda>r. \<not> link_id r \<le> link_id (last ys)) ys
                 @ filter (\<lambda>r. \<not> link_id r \<le> link_id (last ys)) zs" by (simp only: cut filter_append)
  also have "\<dots> = zs"
  proof -
    have "filter (\<lambda>r. \<not> link_id r \<le> link_id (last ys)) ys = []" using below by (simp add: filter_empty_conv)
    moreover have "filter (\<lambda>r. \<not> link_id r \<le> link_id (last ys)) zs = zs"
      using above by (simp add: filter_id_conv not_le)
    ultimately show ?thesis by simp
  qed
  finally show ?thesis .
qed

context link_repository
begin

lemma read_pages_complete:
  "inv w \<Longrightarrow> 0 < q_limit q \<Longrightarrow> length (filter (\<lambda>r. \<not> skipped q r) (all w)) < k \<Longrightarrow>
   read_pages k repo q w = filter (\<lambda>r. \<not> skipped q r) (all w)"
proof (induction k arbitrary: q w)
  case (Suc k)
  let ?f = "filter (\<lambda>r. \<not> skipped q r) (all w)" and ?l = "q_limit q"
  obtain w' where l: "repo_list repo q w = (Inr (take ?l ?f), w')" and w': "inv w'" "all w' = all w"
    using list_law [OF Suc.prems(1)] by blast
  show ?case
  proof (cases "length ?f < ?l \<or> ?f = []")
    case True
    then show ?thesis using l by auto
  next
    case False
    let ?q = "q\<lparr>q_cursor := link_id (last (take ?l ?f))\<rparr>"
    have ne: "take ?l ?f \<noteq> []" using False Suc.prems(2) by auto
    have rest: "filter (\<lambda>r. \<not> skipped ?q r) (all w') = drop ?l ?f"
      using filter_after_cursor [OF ascending [OF Suc.prems(1)], of q "take ?l ?f" "drop ?l ?f"] ne w'
      by simp
    have "0 < length ?f" "length ?f < Suc k" using False Suc.prems(3) by auto
    then have "length ?f - ?l < k" using Suc.prems(2) by linarith
    then have "read_pages k repo ?q w' = drop ?l ?f"
      using Suc.IH [OF w'(1), of ?q] rest Suc.prems(2) by simp
    then show ?thesis using l ne False by (simp del: take_eq_Nil)
  qed
qed simp

text \<open>Owner isolation: what is done for one owner does not show or change another's links.\<close>

lemma update_other_owner:
  assumes "inv w" and "upd_owner u = Some own" and "view (all w) c = Some r" and "owner_id r \<noteq> own"
  shows "\<exists>w'. repo_update repo now c u w = (Inr None, w') \<and> all w' = all w"
  using update_law [OF assms(1), of now c u] assms(2-) by (auto simp: update_target_def owned_by_def)

lemma create_view:
  assumes "inv w" and "room w" and "repo_create repo now url ex own cu w = (Inr (Some r), w')"
  shows "view (all w') = (view (all w))(link_code r \<mapsto> r)"
  using create_law [OF assms] view_append_new by auto

end

section \<open>The in-memory repository fulfils the contract\<close>

definition mem_all :: "mem_repo \<Rightarrow> link_record list" where
  "mem_all s = sort_key link_id (map snd (links s))"

lemma set_mem_all [simp]: "set (mem_all s) = snd ` set (links s)"
  by (simp add: mem_all_def)

lemma mem_all_id_inj:
  assumes ok: "mem_ok s" and "r \<in> set (mem_all s)" "r' \<in> set (mem_all s)" "link_id r = link_id r'"
  shows "r = r'"
  using assms mem_ok_records [OF ok] mem_ok_id_inj [OF ok] by auto

lemma distinct_mem_records:
  assumes "mem_ok s"
  shows "distinct (map link_code (map snd (links s)))"
proof -
  have "link_code (snd p) = fst p" if "p \<in> set (links s)" for p
    using mem_ok_lookup(1) [OF assms, of "fst p" "snd p"] mem_ok_distinct [OF assms] that by simp
  then have "map link_code (map snd (links s)) = map fst (links s)" by simp
  then show ?thesis using mem_ok_distinct [OF assms] by (simp only:)
qed

lemma mem_all_codes: "mem_ok s \<Longrightarrow> distinct (map link_code (mem_all s))"
  unfolding mem_all_def using distinct_mem_records [of s]
  by (metis distinct_map distinct_sort set_sort)

lemma mem_all_ascending:
  assumes ok: "mem_ok s"
  shows "ids_ascending (mem_all s)"
proof -
  have "sorted (map link_id (mem_all s))" by (simp add: mem_all_def)
  moreover have "distinct (map link_id (mem_all s))"
    using mem_all_codes [OF ok] mem_all_id_inj [OF ok] by (auto simp: distinct_map inj_on_def)
  ultimately have "sorted_wrt (<) (map link_id (mem_all s))" by (simp add: strict_sorted_iff)
  then show ?thesis by (simp add: ids_ascending_def sorted_wrt_map)
qed

lemma view_mem_all: "mem_ok s \<Longrightarrow> view (mem_all s) c = map_of (links s) c"
proof -
  assume ok: "mem_ok s"
  have "view (mem_all s) c = Some r \<longleftrightarrow> map_of (links s) c = Some r" for r
    using view_Some [OF mem_all_codes [OF ok]] mem_ok_records [OF ok, of r] mem_ok_lookup(1) [OF ok, of c r]
    by auto
  then show ?thesis by (metis option.exhaust)
qed

lemma mem_all_eqI:
  assumes "mem_ok s" and "ids_ascending rs" and "\<And>r. r \<in> set rs \<longleftrightarrow> map_of (links s) (link_code r) = Some r"
  shows "mem_all s = rs"
  using ids_ascending_unique [OF mem_all_ascending [OF assms(1)] assms(2)] mem_ok_records [OF assms(1)] assms(3)
  by auto

lemma mem_all_create:
  assumes ok: "mem_ok s" and bound: "next_id s \<noteq> - 1" "next_id s \<noteq> 0"
    and new: "map_of (links s) (create_code s cu) = None"
  shows "mem_all (snd (mem_create now url ex own cu s)) = mem_all s @ [fresh_record now url ex own cu s]"
proof (rule mem_all_eqI [OF mem_ok_create [OF ok bound]])
  let ?r = "fresh_record now url ex own cu s"
  have "link_id r < link_id ?r" if "r \<in> set (mem_all s)" for r
    using mem_ok_lookup(3) [OF ok] mem_ok_records [OF ok] that
    by (auto simp: fresh_record_def word_less_nat_alt)
  then show "ids_ascending (mem_all s @ [?r])"
    using mem_all_ascending [OF ok] by (simp add: ids_ascending_def sorted_wrt_append)
next
  fix r
  have "link_code (fresh_record now url ex own cu s) = create_code s cu" by (simp add: fresh_record_def)
  then show "r \<in> set (mem_all s @ [fresh_record now url ex own cu s]) \<longleftrightarrow>
        map_of (links (snd (mem_create now url ex own cu s))) (link_code r) = Some r"
    using new mem_ok_records [OF ok, of r] by (auto simp: mem_create_fresh update_conv')
qed

lemma apply_update_same [simp]:
  "link_id (apply_update now u r) = link_id r" "link_code (apply_update now u r) = link_code r"
  "owner_id (apply_update now u r) = owner_id r"
  "original_url (apply_update now u r) = original_url r"
  "created_at (apply_update now u r) = created_at r"
  "updated_at (apply_update now u r) = now"
  by (auto simp: apply_update_def Let_def split: option.splits)

lemma mem_update_target:
  "mem_ok s \<Longrightarrow> mem_update now c u s =
     (case update_target u (view (mem_all s) c) of
        None \<Rightarrow> (None, s)
      | Some r \<Rightarrow> (Some (apply_update now u r),
                   s\<lparr>links := AList.update c (apply_update now u r) (links s)\<rparr>))"
  by (auto simp: mem_update_def update_target_def owned_by_def view_mem_all Let_def split: option.splits)

lemma mem_all_update:
  assumes ok: "mem_ok s" and tgt: "update_target u (view (mem_all s) c) = Some r"
  shows "mem_all (snd (mem_update now c u s)) = replace_record (apply_update now u r) (mem_all s)"
proof (rule mem_all_eqI [OF mem_ok_update [OF ok]])
  let ?r = "apply_update now u r"
  have r: "map_of (links s) c = Some r" "link_code r = c"
    using tgt mem_ok_lookup(1) [OF ok, of c r]
    by (auto simp: update_target_def owned_by_def view_mem_all [OF ok] split: option.splits if_splits)
  have same: "link_id (if link_code x = link_code ?r then ?r else x) = link_id x"
    if "x \<in> set (mem_all s)" for x
  proof -
    have "map_of (links s) (link_code x) = Some x" using that mem_ok_records [OF ok, of x] by simp
    then have "link_code x = link_code r \<Longrightarrow> x = r" using r by (metis option.inject)
    then show ?thesis by (cases "link_code x = link_code r") simp_all
  qed
  have "map link_id (replace_record ?r (mem_all s)) = map link_id (mem_all s)"
    unfolding replace_record_def map_map comp_def by (rule map_cong [OF refl]) (rule same)
  then show "ids_ascending (replace_record ?r (mem_all s))"
    using mem_all_ascending [OF ok] ids_ascending_cong by blast
next
  let ?r = "apply_update now u r"
  fix x
  have r: "map_of (links s) c = Some r" "link_code r = c"
    using tgt mem_ok_lookup(1) [OF ok, of c r]
    by (auto simp: update_target_def owned_by_def view_mem_all [OF ok] split: option.splits if_splits)
  have "r \<in> set (mem_all s)" using r mem_ok_records [OF ok, of r] by simp
  then have "x \<in> set (replace_record ?r (mem_all s)) \<longleftrightarrow>
      x = ?r \<or> x \<in> set (mem_all s) \<and> link_code x \<noteq> c"
    using r by (auto simp: replace_record_def image_iff split: if_splits)
  then show "x \<in> set (replace_record ?r (mem_all s)) \<longleftrightarrow>
      map_of (links (snd (mem_update now c u s))) (link_code x) = Some x"
    using tgt r mem_ok_records [OF ok, of x]
    by (auto simp: mem_update_target [OF ok] update_conv')
qed

definition mem_inv :: "mem_repo world \<Rightarrow> bool" where
  "mem_inv w \<longleftrightarrow> mem_ok (store w) \<and> next_id (store w) \<noteq> 0"

definition mem_room :: "mem_repo world \<Rightarrow> bool" where
  "mem_room w \<longleftrightarrow> next_id (store w) \<noteq> - 1"

definition mem_records :: "mem_repo world \<Rightarrow> link_record list" where
  "mem_records w = mem_all (store w)"

lemma sort_filter_records:
  assumes ok: "mem_ok s"
  shows "sort_key link_id (filter P (map snd (links s))) = filter P (mem_all s)"
  by (simp add: mem_all_def filter_sort)

lemma mem_list_take:
  "mem_ok s \<Longrightarrow> mem_list q s = take (q_limit q) (filter (\<lambda>r. \<not> skipped q r) (mem_all s))"
  by (simp add: mem_list_def Let_def sort_filter_records)

lemma mem_find_view: "mem_ok s \<Longrightarrow> mem_find c s = \<lparr>lookup_record = view (mem_all s) c, lookup_from = Source_memory\<rparr>"
  by (simp add: mem_find_def view_mem_all split: option.splits)

lemma mem_find_for_owner_view: "mem_ok s \<Longrightarrow> mem_find_for_owner c own s = owned_by own (view (mem_all s) c)"
  by (simp add: mem_find_for_owner_def view_mem_all owned_by_def split: option.splits)

interpretation mem: link_repository memory_repo mem_inv mem_room mem_records
proof (unfold_locales, goal_cases)
  case (1 w m)
  show ?case by (simp add: mem_inv_def mem_records_def)
next
  case (2 w)
  then show ?case by (simp add: mem_inv_def mem_records_def mem_all_ascending)
next
  case (3 w)
  then show ?case by (simp add: mem_inv_def mem_records_def mem_all_codes)
next
  case (4 w now url ex own cu res w')
  then have ok: "mem_ok (store w)" "next_id (store w) \<noteq> 0" "next_id (store w) \<noteq> - 1"
    by (simp_all add: mem_inv_def mem_room_def)
  have next0: "next_id (store w) + 1 \<noteq> 0" using ok(3) by (metis add.commute eq_neg_iff_add_eq_0)
  show ?case
  proof (cases "map_of (links (store w)) (create_code (store w) cu)")
    case (Some r)
    then show ?thesis
      using 4 ok next0 by (auto simp: memory_repo_def on_store_def mem_create_conflict mem_inv_def
          mem_records_def mem_all_def mem_ok_bump)
  next
    case None
    note inv = mem_ok_create [OF ok(1) ok(3) ok(2), of now url ex own cu]
    note all = mem_all_create [OF ok(1) ok(3) ok(2) None, of now url ex own]
    have w': "w' = w\<lparr>store := snd (mem_create now url ex own cu (store w))\<rparr>"
      and res: "res = Inr (Some (fresh_record now url ex own cu (store w)))"
      using 4(3) None by (auto simp: memory_repo_def on_store_def mem_create_fresh)
    have "next_id (snd (mem_create now url ex own cu (store w))) \<noteq> 0"
      using None next0 by (simp add: mem_create_fresh)
    then show ?thesis
      using inv all w' res None view_mem_all [OF ok(1)]
      by (auto simp: mem_inv_def mem_records_def fresh_record_def create_code_def)
  qed
next
  case (5 w now c)
  then show ?case
    by (auto simp: memory_repo_def on_store_def mem_inv_def mem_records_def mem_find_view)
next
  case (6 w c own)
  then show ?case
    by (auto simp: memory_repo_def on_store_def mem_inv_def mem_records_def mem_find_for_owner_view)
next
  case (7 w q)
  then show ?case
    by (auto simp: memory_repo_def on_store_def mem_inv_def mem_records_def mem_list_take)
next
  case (8 w now c u)
  then have ok: "mem_ok (store w)" by (simp add: mem_inv_def)
  have nid: "next_id (snd (mem_update now c u (store w))) = next_id (store w)"
    by (auto simp: mem_update_target [OF ok] split: option.splits)
  show ?case
    using 8 mem_ok_update [OF ok, of now c u] mem_all_update [OF ok, of u c _ now] nid
    by (auto simp: memory_repo_def on_store_def mem_inv_def mem_records_def mem_update_target [OF ok]
        split: option.splits)
qed

section \<open>Sequences of operations\<close>

datatype link_op =
    Op_create_link int string "int option" u64 "string option"
  | Op_update_link int string lifecycle_update
  | Op_find_link int string

fun mem_exec :: "link_op \<Rightarrow> mem_repo \<Rightarrow> mem_repo" where
  "mem_exec (Op_create_link now url ex own cu) s = snd (mem_create now url ex own cu s)"
| "mem_exec (Op_update_link now c u) s = snd (mem_update now c u s)"
| "mem_exec (Op_find_link now c) s = s"

lemma mem_create_next_id [simp]: "next_id (snd (mem_create now url ex own cu s)) = next_id s + 1"
  by (cases "map_of (links s) (create_code s cu) = None") (auto simp: mem_create_fresh mem_create_conflict)

lemma mem_update_next_id [simp]: "next_id (snd (mem_update now c u s)) = next_id s"
  by (auto simp: mem_update_def Let_def split: option.splits)

lemma mem_exec_keeps:
  assumes "mem_ok s" and "0 < unat (next_id s)" and "unat (next_id s) + length ops < 2 ^ 64"
  shows "mem_ok (fold mem_exec ops s) \<and> unat (next_id (fold mem_exec ops s)) \<le> unat (next_id s) + length ops"
  using assms
proof (induction ops arbitrary: s)
  case (Cons a ops)
  have room: "next_id s \<noteq> - 1"
    using Cons.prems(3) by auto
  have nz: "next_id s \<noteq> 0" using Cons.prems(2) by auto
  have step: "mem_ok (mem_exec a s) \<and> unat (next_id (mem_exec a s)) \<le> unat (next_id s) + 1
       \<and> 0 < unat (next_id (mem_exec a s))"
    using Cons.prems mem_ok_create [OF Cons.prems(1) room nz] mem_ok_update [OF Cons.prems(1)]
    by (cases a) (simp_all add: unat_add_one_u64 [OF room])
  then show ?case using Cons.IH [of "mem_exec a s"] Cons.prems(3) by simp
qed simp

section \<open>Properties\<close>

text \<open>The base 62 code of an id reads back as that id, so codes of different ids differ; a
  code has six to eleven characters, all of the alphabet.\<close>

theorem base62_code:
  "decode_base62 (encode_base62 v) = unat v \<and> (encode_base62 v = encode_base62 w \<longleftrightarrow> v = w) \<and>
   length (encode_base62 v) \<in> {6..11} \<and> set (encode_base62 v) \<subseteq> set base62_chars"
  using decode_encode_base62 encode_base62_inj encode_base62_min_length [of v]
    encode_base62_max_length encode_base62_chars by fastforce

text \<open>C21: from the empty repository, any sequence of fewer than \<open>2^64 - 1\<close> operations (creates
  with any custom codes, conflicts included, updates, lookups) leads to a state in which every
  record is stored under its own code and ids are positive, below the counter and unique.\<close>

theorem memory_repository_invariant:
  "length ops < 2 ^ 64 - 1 \<Longrightarrow> mem_ok (fold mem_exec ops init_mem_repo)"
  using mem_exec_keeps [of init_mem_repo ops] by (simp add: init_mem_repo_def mem_ok_def)

lemma memory_repository_invariant_witness:
  "mem_ok (fold mem_exec
     [Op_create_link 5 ''http://a'' None 1 None, Op_create_link 6 ''http://b'' None 1 (Some ''abcd''),
      Op_create_link 7 ''http://c'' None 2 (Some ''abcd''),
      Op_update_link 8 ''abcd'' \<lparr>upd_status = Some Disabled, expires_at_provided = False,
        upd_expires_at = None, upd_owner = None\<rparr>] init_mem_repo)"
  by (rule memory_repository_invariant) simp

text \<open>The functional behaviour of \<open>create\<close> on the in-memory repository: a taken code is the
  conflict error and consumes an id but changes no record; a free code appends exactly one active
  record with the requested fields, found under its code afterwards, and every other code reads as before.\<close>

theorem memory_create_behaviour:
  assumes "mem_inv w" and "mem_room w"
  shows "if view (mem_records w) (create_code (store w) cu) \<noteq> None
         then (\<exists>w'. repo_create memory_repo now url ex own cu w = (Inl Short_code_conflict, w') \<and>
                mem_records w' = mem_records w \<and> next_id (store w') = next_id (store w) + 1)
         else (\<exists>w'. repo_create memory_repo now url ex own cu w
                     = (Inr (Some (fresh_record now url ex own cu (store w))), w') \<and>
                mem_inv w' \<and>
                view (mem_records w') = (view (mem_records w))
                  (create_code (store w) cu \<mapsto> fresh_record now url ex own cu (store w)))"
proof (cases "map_of (links (store w)) (create_code (store w) cu)")
  case None
  then have run: "repo_create memory_repo now url ex own cu w =
      (Inr (Some (fresh_record now url ex own cu (store w))),
       w\<lparr>store := snd (mem_create now url ex own cu (store w))\<rparr>)"
    by (simp add: memory_repo_def on_store_def mem_create_fresh)
  have "view (mem_records w) (create_code (store w) cu) = None"
    using assms None by (simp add: mem_inv_def mem_records_def view_mem_all)
  then show ?thesis
    using run mem.create_law [OF assms run] mem.create_view [OF assms run] by (simp add: fresh_record_def)
next
  case (Some r)
  have "view (mem_records w) (create_code (store w) cu) \<noteq> None"
    using assms Some by (simp add: mem_inv_def mem_records_def view_mem_all)
  then show ?thesis
    using Some by (auto simp: memory_repo_def on_store_def mem_create_conflict mem_records_def mem_all_def)
qed

definition sample_link :: "u64 \<Rightarrow> u64 \<Rightarrow> string \<Rightarrow> link_record" where
  "sample_link i own c = \<lparr>link_id = i, owner_id = own, link_code = c, original_url = ''http://a'',
     link_status = Active, expires_at = None, created_at = 5, updated_at = 5\<rparr>"

definition sample_world :: "mem_repo world" where
  "sample_world =
     \<lparr>store = \<lparr>links = [(''aaaa'', sample_link 1 1 ''aaaa''), (''abcd'', sample_link 2 2 ''abcd''),
                        (''cccc'', sample_link 3 1 ''cccc'')], next_id = 4\<rparr>,
      metrics = init_metrics\<rparr>"

lemma sample_inv: "mem_inv sample_world" "mem_room sample_world"
  by (auto simp: mem_inv_def mem_room_def sample_world_def mem_ok_def sample_link_def
      split: if_splits)

lemma sample_view:
  "view (mem_records sample_world) c =
     map_of [(''aaaa'', sample_link 1 1 ''aaaa''), (''abcd'', sample_link 2 2 ''abcd''),
             (''cccc'', sample_link 3 1 ''cccc'')] c"
proof -
  have "mem_ok (store sample_world)" using sample_inv(1) by (simp add: mem_inv_def)
  from view_mem_all [OF this] show ?thesis by (simp add: mem_records_def sample_world_def)
qed

lemma memory_create_behaviour_witness:
  "\<exists>w'. repo_create memory_repo 9 ''http://d'' None 1 (Some ''abcd'') sample_world
          = (Inl Short_code_conflict, w') \<and> next_id (store w') = 5"
  using memory_create_behaviour [OF sample_inv, of "Some ''abcd''" 9 "''http://d''" None 1]
  by (auto simp: sample_view create_code_def) (simp add: sample_world_def)

text \<open>Reading a listing page by page, with the last id of each page as the next cursor,
  returns exactly the matching records (owner, status, after the cursor), each once, in ascending
  id order, whatever the positive page size.\<close>

theorem listing_pages_complete:
  assumes "mem_inv w" and "0 < q_limit q" and "length (links (store w)) < k"
  shows "ids_ascending (read_pages k memory_repo q w) \<and>
         set (read_pages k memory_repo q w) = {r \<in> set (mem_records w). \<not> skipped q r}"
proof -
  let ?f = "filter (\<lambda>r. \<not> skipped q r) (mem_records w)"
  have "length ?f \<le> length (mem_records w)" by (rule length_filter_le)
  also have "\<dots> = length (links (store w))" by (simp add: mem_records_def mem_all_def)
  finally have "read_pages k memory_repo q w = ?f"
    using mem.read_pages_complete [OF assms(1,2)] assms(3) by simp
  then show ?thesis
    using mem.ascending [OF assms(1)] by (auto simp: ids_ascending_def sorted_wrt_filter)
qed

lemma listing_pages_complete_witness:
  "read_pages 4 memory_repo \<lparr>q_cursor = 0, q_limit = 1, q_owner = Some 1, q_status = None\<rparr>
     sample_world = [sample_link 1 1 ''aaaa'', sample_link 3 1 ''cccc'']"
proof -
  let ?q = "\<lparr>q_cursor = 0, q_limit = 1, q_owner = Some 1, q_status = None\<rparr>"
  let ?p = "read_pages 4 memory_repo ?q sample_world"
  let ?l = "[sample_link 1 1 ''aaaa'', sample_link 3 1 ''cccc'']"
  have h: "ids_ascending ?p \<and> set ?p = {r \<in> set (mem_records sample_world). \<not> skipped ?q r}"
    by (rule listing_pages_complete [OF sample_inv(1)]) (simp_all add: sample_world_def)
  have "{r \<in> set (mem_records sample_world). \<not> skipped ?q r} = set ?l"
    by (auto simp: mem_records_def sample_world_def skipped_def sample_link_def)
  then have "set ?p = set ?l" using h by simp
  moreover have "ids_ascending ?l" by (simp add: ids_ascending_def sample_link_def)
  ultimately show ?thesis using h ids_ascending_unique by blast
qed

text \<open>An update restricted to an owner (as the HTTP API sends it) that names another owner's
  link reports that there is no such link and changes no record; for the link's own owner it
  returns the record with the requested status and expiry, id, code, owner, URL and creation time
  unchanged, and exactly that record is replaced.\<close>

theorem update_owner_isolation:
  assumes "mem_inv w" and "view (mem_records w) c = Some r" and "upd_owner u = Some own"
  shows "if owner_id r \<noteq> own
         then (\<exists>w'. repo_update memory_repo now c u w = (Inr None, w') \<and> mem_records w' = mem_records w)
         else (\<exists>r' w'. repo_update memory_repo now c u w = (Inr (Some r'), w') \<and>
                mem_records w' = replace_record r' (mem_records w) \<and>
                link_id r' = link_id r \<and> link_code r' = link_code r \<and> owner_id r' = own \<and>
                original_url r' = original_url r \<and> created_at r' = created_at r \<and> updated_at r' = now \<and>
                link_status r' = (case upd_status u of Some st \<Rightarrow> st | None \<Rightarrow> link_status r) \<and>
                expires_at r' = (if expires_at_provided u then upd_expires_at u else expires_at r))"
proof (cases "owner_id r = own")
  case True
  then show ?thesis
    using mem.update_law [OF assms(1), of now c u] assms(2,3)
    by (auto simp: update_target_def owned_by_def)
       (simp_all add: apply_update_def Let_def split: option.splits)
qed (use mem.update_other_owner [OF assms(1,3,2)] in auto)

lemma update_owner_isolation_witness:
  "\<exists>w'. repo_update memory_repo 9 ''abcd'' \<lparr>upd_status = Some Disabled, expires_at_provided = False,
      upd_expires_at = None, upd_owner = Some 1\<rparr> sample_world = (Inr None, w')
      \<and> mem_records w' = mem_records sample_world"
  using update_owner_isolation [OF sample_inv(1), of "''abcd''" "sample_link 2 2 ''abcd''"
      "\<lparr>upd_status = Some Disabled, expires_at_provided = False, upd_expires_at = None,
        upd_owner = Some 1\<rparr>" 1 9]
  by (simp add: sample_view sample_link_def)

end
