(* ===== verification/LinkService.thy ===== *)
theory LinkService
  imports LinkStore "HOL-Library.Signed_Division"
begin

text \<open>
  \<open>ShortLinkService.h/.cpp\<close>: UTC timestamps (the calendar arithmetic of \<open>parseUtcTimestamp\<close>
  and the \<open>gmtime_r\<close>/\<open>strftime\<close> pair of \<open>formatUtcTimestamp\<close>), the checks on URLs and custom
  codes, and the service operations over any repository. What the service promises is proved in
  the locale \<open>link_repository\<close>, so it holds for every store that fulfils the contract.
\<close>

section \<open>The calendar\<close>

definition is_leap_year :: "int \<Rightarrow> bool" where
  "is_leap_year y \<longleftrightarrow> y mod 4 = 0 \<and> (y mod 100 \<noteq> 0 \<or> y mod 400 = 0)"

definition month_lengths :: "int list" where
  "month_lengths = [31, 28, 31, 30, 31, 30, 31, 31, 30, 31, 30, 31]"

definition days_in_month :: "int \<Rightarrow> int \<Rightarrow> int" where
  "days_in_month y m = (if m = 2 \<and> is_leap_year y then 29 else month_lengths ! nat (m - 1))"

definition days_from_civil :: "int \<Rightarrow> int \<Rightarrow> int \<Rightarrow> int" where
  "days_from_civil y0 m d =
     (let y = y0 - (if m \<le> 2 then 1 else 0);
          era = (if y \<ge> 0 then y else y - 399) sdiv 400;
          year_of_era = y - era * 400;
          adjusted_month = m + (if m > 2 then - 3 else 9);
          day_of_year = (153 * adjusted_month + 2) div 5 + d - 1;
          day_of_era = year_of_era * 365 + year_of_era div 4 - year_of_era div 100 + day_of_year
      in era * 146097 + day_of_era - 719468)"

text \<open>
  \<open>gmtime_r\<close>: the date of a day number in the proleptic Gregorian calendar, counted from
  1970-01-01 year by year (forwards for later days, backwards for earlier ones), then month by
  month.
\<close>

definition year_length :: "int \<Rightarrow> int" where
  "year_length y = (if is_leap_year y then 366 else 365)"

lemma year_length_pos [simp]: "0 < year_length y"
  by (simp add: year_length_def)

function year_forward :: "int \<Rightarrow> int \<Rightarrow> int \<times> int" where
  "year_forward y d =
     (if d < year_length y then (y, d) else year_forward (y + 1) (d - year_length y))"
  by pat_completeness auto
termination
  by (relation "measure (\<lambda>(y, d). nat d)") (auto simp: not_less intro: less_le_trans [OF year_length_pos])

function year_backward :: "int \<Rightarrow> int \<Rightarrow> int \<times> int" where
  "year_backward y d =
     (if 0 \<le> d then (y, d) else year_backward (y - 1) (d + year_length (y - 1)))"
  by pat_completeness auto
termination
  by (relation "measure (\<lambda>(y, d). nat (- d))") (auto simp: not_le)

function month_forward :: "int \<Rightarrow> int \<Rightarrow> int \<Rightarrow> int \<times> int" where
  "month_forward y m d =
     (if d < days_in_month y m \<or> m \<ge> 12 then (m, d + 1)
      else month_forward y (m + 1) (d - days_in_month y m))"
  by pat_completeness auto
termination
  by (relation "measure (\<lambda>(y, m, d). nat (12 - m))") auto

declare year_forward.simps [simp del] year_backward.simps [simp del] month_forward.simps [simp del]

record tm =
  tm_year :: int
  tm_mon :: int
  tm_mday :: int
  tm_hour :: int
  tm_min :: int
  tm_sec :: int

definition gmtime :: "int \<Rightarrow> tm" where
  "gmtime t =
     (let days = t div 86400; rem = t mod 86400;
          (y, yd) = (if 0 \<le> days then year_forward 1970 days else year_backward 1970 days);
          (m, md) = month_forward y 1 yd
      in \<lparr>tm_year = y, tm_mon = m, tm_mday = md,
          tm_hour = rem div 3600, tm_min = rem mod 3600 div 60, tm_sec = rem mod 60\<rparr>)"

definition two_digits :: "int \<Rightarrow> string" where
  "two_digits i = [digit_char (nat i div 10), digit_char (nat i mod 10)]"

text \<open>
  \<open>strftime\<close> with the format of the source. A time whose year does not fit the \<open>int\<close> of
  \<open>struct tm\<close> leaves the zero-initialised structure unchanged.
\<close>

definition format_utc_timestamp :: "int \<Rightarrow> string" where
  "format_utc_timestamp t =
     (let g = gmtime t
      in if tm_year g - 1900 < - (2 ^ 31) \<or> tm_year g - 1900 \<ge> 2 ^ 31
         then ''1900-01-00T00:00:00Z''
         else to_string_int (tm_year g) @ ''-'' @ two_digits (tm_mon g) @ ''-'' @
              two_digits (tm_mday g) @ ''T'' @ two_digits (tm_hour g) @ '':'' @
              two_digits (tm_min g) @ '':'' @ two_digits (tm_sec g) @ ''Z'')"

fun parse_digits :: "string \<Rightarrow> nat \<Rightarrow> nat \<Rightarrow> int \<Rightarrow> int option" where
  "parse_digits v i 0 acc = Some acc"
| "parse_digits v i (Suc n) acc =
     (if \<not> is_digit (v ! i) then None
      else parse_digits v (Suc i) n (acc * 10 + int (digit_val (v ! i))))"

definition parse_utc_timestamp :: "string \<Rightarrow> int option" where
  "parse_utc_timestamp v =
     (if length v \<noteq> 20 \<or> v ! 4 \<noteq> CHR ''-'' \<or> v ! 7 \<noteq> CHR ''-'' \<or> v ! 10 \<noteq> CHR ''T'' \<or>
         v ! 13 \<noteq> CHR '':'' \<or> v ! 16 \<noteq> CHR '':'' \<or> v ! 19 \<noteq> CHR ''Z'' then None
      else case (parse_digits v 0 4 0, parse_digits v 5 2 0, parse_digits v 8 2 0,
                 parse_digits v 11 2 0, parse_digits v 14 2 0, parse_digits v 17 2 0) of
        (Some year, Some month, Some day, Some hour, Some minute, Some second) \<Rightarrow>
          if year < 1970 \<or> month < 1 \<or> month > 12 \<or> day < 1 \<or> day > days_in_month year month \<or>
             hour > 23 \<or> minute > 59 \<or> second > 59 then None
          else Some (days_from_civil year month day * 86400 + hour * 3600 + minute * 60 + second)
      | _ \<Rightarrow> None)"

section \<open>The calendar is right\<close>

text \<open>The day number of 1 January, and of the first of each month.\<close>

definition leaps :: "int \<Rightarrow> int" where
  "leaps y = y div 4 - y div 100 + y div 400"

lemma era_formula:
  "(y div 400) * 146097 + ((y - y div 400 * 400) * 365 + (y - y div 400 * 400) div 4
     - (y - y div 400 * 400) div 100) = 365 * y + leaps (y::int)"
proof -
  define e where "e = y div 400"
  define r where "r = y - e * 400"
  have y: "y = r + 400 * e" by (simp add: r_def)
  have "y div 4 = (r + (100 * e) * 4) div 4" "y div 100 = (r + (4 * e) * 100) div 100"
    by (simp_all add: y)
  then have "y div 4 = 100 * e + r div 4" "y div 100 = 4 * e + r div 100"
    by (simp_all only: div_mult_self1 [of "4::int"] div_mult_self1 [of "100::int"])
  moreover have "365 * y = 365 * r + 146000 * e" by (simp add: y)
  ultimately show ?thesis unfolding leaps_def e_def [symmetric] r_def [symmetric] by simp
qed

lemma days_from_civil_eq:
  assumes "1 \<le> y"
  shows "days_from_civil y m d =
    (let z = y - (if m \<le> 2 then 1 else 0)
     in 365 * z + leaps z +
        (153 * (m + (if m > 2 then - 3 else 9)) + 2) div 5 + d - 1 - 719468)"
proof -
  let ?z = "y - (if m \<le> 2 then 1 else 0)"
  have "0 \<le> ?z" using assms by simp
  then have "(if ?z \<ge> 0 then ?z else ?z - 399) sdiv 400 = ?z div 400"
    by (cases "?z = 0") (simp_all add: signed_divide_int_def)
  then show ?thesis
    using era_formula [of ?z] by (simp only: days_from_civil_def Let_def)
qed

lemma div_pred:
  assumes "0 < (k::int)"
  shows "y div k = (y - 1) div k + (if y mod k = 0 then 1 else 0)"
proof (cases "y mod k = 0")
  case True
  then have "y - 1 = k * (y div k - 1) + (k - 1)"
    using div_mult_mod_eq [of y k] by (simp add: algebra_simps)
  then have "(y - 1) div k = y div k - 1" by (rule int_div_pos_eq) (use assms in auto)
  then show ?thesis using True by simp
next
  case False
  then have "0 \<le> y mod k - 1" using pos_mod_sign [OF assms, of y] by linarith
  moreover have "y - 1 = k * (y div k) + (y mod k - 1)" by simp
  ultimately have "(y - 1) div k = y div k"
    using pos_mod_bound [OF assms, of y] int_div_pos_eq [of "y - 1" k "y div k" "y mod k - 1"] by simp
  then show ?thesis using False by simp
qed

lemma leap_counts:
  "a = a' + (if p then 1 else 0) \<Longrightarrow> b = b' + (if q then 1 else 0) \<Longrightarrow> c = c' + (if r then 1 else 0) \<Longrightarrow>
   (q \<Longrightarrow> p) \<Longrightarrow> (r \<Longrightarrow> q) \<Longrightarrow>
   a - b + c = a' - b' + c' + (if p \<and> (\<not> q \<or> r) then 1 else (0::int))"
  by (cases p; cases q; cases r) simp_all

lemma leaps_step: "leaps y = leaps (y - 1) + (if is_leap_year y then 1 else 0)"
proof -
  have a: "y mod 100 mod 4 = y mod 4" and b: "y mod 400 mod 100 = y mod 100"
    by (rule mod_mod_cancel, simp)+
  have "y mod 4 = 0" if "y mod 100 = 0" using a by (simp only: that mod_0)
  moreover have "y mod 100 = 0" if "y mod 400 = 0" using b by (simp only: that mod_0)
  ultimately show ?thesis
    unfolding leaps_def is_leap_year_def
    by (intro leap_counts div_pred) (assumption | rule zero_less_numeral)+
qed

lemma month_cases:
  "1 \<le> (m::int) \<Longrightarrow> m \<le> 12 \<Longrightarrow>
   m = 1 \<or> m = 2 \<or> m = 3 \<or> m = 4 \<or> m = 5 \<or> m = 6 \<or> m = 7 \<or> m = 8 \<or> m = 9 \<or> m = 10 \<or> m = 11 \<or> m = 12"
  by presburger

lemma next_month:
  assumes "1 \<le> y" and "1 \<le> m" and "m < 12"
  shows "days_from_civil y (m + 1) 1 = days_from_civil y m 1 + days_in_month y m"
proof -
  have "m = 1 \<or> m = 2 \<or> m = 3 \<or> m = 4 \<or> m = 5 \<or> m = 6 \<or> m = 7 \<or> m = 8 \<or> m = 9 \<or> m = 10 \<or> m = 11"
    using assms(2,3) by presburger
  then show ?thesis
    unfolding days_from_civil_eq [OF assms(1)] Let_def leaps_step [of y]
    by (elim disjE) (simp_all add: days_in_month_def month_lengths_def leaps_step [of y])
qed

lemma december:
  assumes "1 \<le> y"
  shows "days_from_civil (y + 1) 1 1 = days_from_civil y 12 1 + days_in_month y 12"
  using assms by (simp add: days_from_civil_eq days_in_month_def month_lengths_def Let_def)

lemma next_year:
  assumes "1 \<le> y"
  shows "days_from_civil (y + 1) 1 1 = days_from_civil y 1 1 + year_length y"
  using assms leaps_step [of y] by (simp add: days_from_civil_eq Let_def year_length_def)

lemma days_from_civil_day: "days_from_civil y m d = days_from_civil y m 1 + (d - 1)"
  by (simp add: days_from_civil_def Let_def)

lemma year_forward_correct:
  "1 \<le> y \<Longrightarrow> 0 \<le> d \<Longrightarrow> year_forward y d = (y', d') \<Longrightarrow>
   y \<le> y' \<and> 0 \<le> d' \<and> d' < year_length y' \<and>
   days_from_civil y 1 1 + d = days_from_civil y' 1 1 + d'"
proof (induction y d rule: year_forward.induct)
  case (1 y d)
  show ?case
  proof (cases "d < year_length y")
    case True
    then show ?thesis using "1.prems" by (simp add: year_forward.simps [of y d])
  next
    case False
    then have "year_forward (y + 1) (d - year_length y) = (y', d')"
      using "1.prems"(3) by (simp add: year_forward.simps [of y d])
    then show ?thesis using "1.IH" [OF False] "1.prems"(1) False next_year [of y] by simp
  qed
qed

lemma month_forward_correct:
  "1 \<le> y \<Longrightarrow> 1 \<le> m \<Longrightarrow> m \<le> 12 \<Longrightarrow> 0 \<le> d \<Longrightarrow>
   days_from_civil y m 1 + d < days_from_civil (y + 1) 1 1 \<Longrightarrow> month_forward y m d = (m', d') \<Longrightarrow>
   m \<le> m' \<and> m' \<le> 12 \<and> 1 \<le> d' \<and> d' \<le> days_in_month y m' \<and>
   days_from_civil y m 1 + d = days_from_civil y m' d'"
proof (induction y m d rule: month_forward.induct)
  case (1 y m d)
  show ?case
  proof (cases "d < days_in_month y m \<or> 12 \<le> m")
    case True
    then have "m' = m" "d' = d + 1" using "1.prems"(6) by (simp_all add: month_forward.simps [of y m d])
    moreover have "d < days_in_month y m"
      using True "1.prems" december [of y] by (cases "m = 12") auto
    ultimately show ?thesis using "1.prems" days_from_civil_day [of y m "d + 1"] by simp
  next
    case False
    then have "month_forward y (m + 1) (d - days_in_month y m) = (m', d')"
      using "1.prems"(6) by (simp add: month_forward.simps [of y m d])
    then show ?thesis
      using "1.IH" [OF False] "1.prems" False next_month [of y m] by simp
  qed
qed

text \<open>A day number has one date.\<close>

definition valid_date :: "int \<Rightarrow> int \<Rightarrow> int \<Rightarrow> bool" where
  "valid_date y m d \<longleftrightarrow> 1 \<le> y \<and> 1 \<le> m \<and> m \<le> 12 \<and> 1 \<le> d \<and> d \<le> days_in_month y m"

lemma days_in_month_bounds: "1 \<le> m \<Longrightarrow> m \<le> 12 \<Longrightarrow> 28 \<le> days_in_month y m \<and> days_in_month y m \<le> 31"
  using month_cases [of m] by (auto simp: days_in_month_def month_lengths_def)

lemma month_start_mono:
  "1 \<le> y \<Longrightarrow> 1 \<le> m \<Longrightarrow> m + int k \<le> 12 \<Longrightarrow> days_from_civil y m 1 \<le> days_from_civil y (m + int k) 1"
proof (induction k)
  case (Suc k)
  then have "days_from_civil y (m + int k + 1) 1 = days_from_civil y (m + int k) 1 + days_in_month y (m + int k)"
    by (intro next_month) auto
  then show ?case
    using Suc days_in_month_bounds [of "m + int k" y] by (simp add: algebra_simps)
qed simp

lemma later_month:
  assumes "valid_date y m d" and "m < m'" and "m' \<le> 12"
  shows "days_from_civil y m d < days_from_civil y m' 1"
proof -
  have "days_from_civil y (m + 1) 1 \<le> days_from_civil y (m + 1 + int (nat (m' - m - 1))) 1"
    by (rule month_start_mono) (use assms in \<open>auto simp: valid_date_def\<close>)
  then show ?thesis
    using assms next_month [of y m] days_from_civil_day [of y m d] by (simp add: valid_date_def)
qed

lemma within_year:
  assumes "valid_date y m d"
  shows "days_from_civil y 1 1 \<le> days_from_civil y m d" and "days_from_civil y m d < days_from_civil (y + 1) 1 1"
proof -
  have a: "days_from_civil y 1 1 \<le> days_from_civil y (1 + int (nat (m - 1))) 1"
    by (rule month_start_mono) (use assms in \<open>auto simp: valid_date_def\<close>)
  then show "days_from_civil y 1 1 \<le> days_from_civil y m d"
    using assms days_from_civil_day [of y m d] by (simp add: valid_date_def)
  show "days_from_civil y m d < days_from_civil (y + 1) 1 1"
  proof (cases "m = 12")
    case True
    then show ?thesis
      using assms december [of y] days_from_civil_day [of y m d] by (simp add: valid_date_def)
  next
    case False
    then have "days_from_civil y m d < days_from_civil y 12 1"
      using later_month [OF assms, of 12] assms by (simp add: valid_date_def)
    then show ?thesis
      using assms december [of y] days_in_month_bounds [of 12 y] by (simp add: valid_date_def)
  qed
qed

lemma year_start_mono: "1 \<le> y \<Longrightarrow> days_from_civil y 1 1 \<le> days_from_civil (y + int k) 1 1"
proof (induction k)
  case (Suc k)
  have "days_from_civil (y + int k + 1) 1 1 = days_from_civil (y + int k) 1 1 + year_length (y + int k)"
    by (rule next_year) (use Suc.prems in simp)
  moreover have "0 < year_length (y + int k)" by (rule year_length_pos)
  moreover have "y + int (Suc k) = y + int k + 1" by simp
  moreover have "days_from_civil y 1 1 \<le> days_from_civil (y + int k) 1 1" using Suc by simp
  ultimately show ?case by (simp only:)
qed simp

lemma earlier_year:
  assumes "valid_date y m d" and "valid_date y' m' d'" and "y < y'"
  shows "days_from_civil y m d < days_from_civil y' m' d'"
proof -
  have "days_from_civil (y + 1) 1 1 \<le> days_from_civil (y + 1 + int (nat (y' - y - 1))) 1 1"
    by (rule year_start_mono) (use assms in \<open>simp add: valid_date_def\<close>)
  then show ?thesis using within_year [OF assms(1)] within_year [OF assms(2)] assms(3) by simp
qed

lemma civil_unique:
  assumes v: "valid_date y m d" and v': "valid_date y' m' d'"
    and eq: "days_from_civil y m d = days_from_civil y' m' d'"
  shows "y = y' \<and> m = m' \<and> d = d'"
proof -
  have y: "y = y'" using earlier_year [OF v v'] earlier_year [OF v' v] eq by linarith
  have "\<not> m < m'"
    using later_month [OF v, of m'] v' eq y days_from_civil_day [of y m' d'] by (auto simp: valid_date_def)
  moreover have "\<not> m' < m"
    using later_month [OF v', of m] v eq y days_from_civil_day [of y m d] by (auto simp: valid_date_def)
  ultimately have m: "m = m'" by simp
  then show ?thesis
    using y eq days_from_civil_day [of y m d] days_from_civil_day [of y m d'] by simp
qed

lemma epoch_day: "days_from_civil 1970 1 1 = 0"
  by (simp add: days_from_civil_eq Let_def leaps_def)

lemma clock_split:
  assumes "0 \<le> (r::int)" and "r < 86400"
  shows "r div 3600 * 3600 + r mod 3600 div 60 * 60 + r mod 60 = r"
    and "0 \<le> r div 3600 \<and> r div 3600 \<le> 23" and "0 \<le> r mod 3600 div 60 \<and> r mod 3600 div 60 \<le> 59"
proof -
  have m: "r mod 3600 mod 60 = r mod 60" by (rule mod_mod_cancel) simp
  have h: "r div 3600 * 3600 + r mod 3600 = r" "r mod 3600 div 60 * 60 + r mod 3600 mod 60 = r mod 3600"
    by simp_all
  have b: "0 \<le> r mod 3600" "r mod 3600 < 3600" "0 \<le> r mod 60" "r mod 60 < 60" by simp_all
  show "r div 3600 * 3600 + r mod 3600 div 60 * 60 + r mod 60 = r" using h m by linarith
  show "0 \<le> r div 3600 \<and> r div 3600 \<le> 23" using h(1) b assms by linarith
  show "0 \<le> r mod 3600 div 60 \<and> r mod 3600 div 60 \<le> 59" using h(2) b m by linarith
qed

lemma gmtime_correct:
  assumes "0 \<le> t"
  defines "g \<equiv> gmtime t"
  shows "1970 \<le> tm_year g" and "valid_date (tm_year g) (tm_mon g) (tm_mday g)"
    and "days_from_civil (tm_year g) (tm_mon g) (tm_mday g) = t div 86400"
    and "tm_hour g * 3600 + tm_min g * 60 + tm_sec g = t mod 86400"
    and "0 \<le> tm_hour g \<and> tm_hour g \<le> 23" and "0 \<le> tm_min g \<and> tm_min g \<le> 59"
    and "0 \<le> tm_sec g \<and> tm_sec g \<le> 59"
proof -
  obtain y yd where yd: "year_forward 1970 (t div 86400) = (y, yd)" by fastforce
  obtain m md where md: "month_forward y 1 yd = (m, md)" by fastforce
  have g: "tm_year g = y" "tm_mon g = m" "tm_mday g = md" "tm_hour g = t mod 86400 div 3600"
    "tm_min g = t mod 86400 mod 3600 div 60" "tm_sec g = t mod 86400 mod 60"
    using yd md assms(1) by (simp_all add: g_def gmtime_def Let_def pos_imp_zdiv_nonneg_iff)
  have y: "1970 \<le> y \<and> 0 \<le> yd \<and> yd < year_length y \<and> t div 86400 = days_from_civil y 1 1 + yd"
    using year_forward_correct [OF _ _ yd] assms(1) epoch_day by (simp add: pos_imp_zdiv_nonneg_iff)
  then have m: "1 \<le> m \<and> m \<le> 12 \<and> 1 \<le> md \<and> md \<le> days_in_month y m \<and>
      days_from_civil y 1 1 + yd = days_from_civil y m md"
    using month_forward_correct [OF _ _ _ _ _ md] next_year [of y] by simp
  show "1970 \<le> tm_year g" "valid_date (tm_year g) (tm_mon g) (tm_mday g)"
    "days_from_civil (tm_year g) (tm_mon g) (tm_mday g) = t div 86400"
    using y m g by (simp_all add: valid_date_def)
  have r: "0 \<le> t mod 86400" "t mod 86400 < 86400" by simp_all
  show "tm_hour g * 3600 + tm_min g * 60 + tm_sec g = t mod 86400"
    unfolding g by (rule clock_split(1) [OF r])
  show "0 \<le> tm_hour g \<and> tm_hour g \<le> 23" unfolding g by (rule clock_split(2) [OF r])
  show "0 \<le> tm_min g \<and> tm_min g \<le> 59" unfolding g by (rule clock_split(3) [OF r])
  show "0 \<le> tm_sec g \<and> tm_sec g \<le> 59" unfolding g by simp
qed

section \<open>Timestamps round trip\<close>

lemma parse_digits_2:
  "parse_digits v i 2 0 =
     (if is_digit (v ! i) \<and> is_digit (v ! (i + 1))
      then Some (int (digit_val (v ! i) * 10 + digit_val (v ! (i + 1)))) else None)"
  by (simp add: numeral_2_eq_2)

lemma parse_digits_4:
  "parse_digits v i 4 0 =
     (if is_digit (v ! i) \<and> is_digit (v ! (i + 1)) \<and> is_digit (v ! (i + 2)) \<and> is_digit (v ! (i + 3))
      then Some (int (((digit_val (v ! i) * 10 + digit_val (v ! (i + 1))) * 10
                       + digit_val (v ! (i + 2))) * 10 + digit_val (v ! (i + 3)))) else None)"
  by (simp add: eval_nat_numeral)

definition four_digits :: "nat \<Rightarrow> string" where
  "four_digits n = [digit_char (n div 1000), digit_char (n div 100 mod 10),
                    digit_char (n div 10 mod 10), digit_char (n mod 10)]"

lemma to_string_year:
  assumes "1000 \<le> y" and "y \<le> 9999"
  shows "to_string_int y = four_digits (nat y)"
proof -
  let ?n = "nat y"
  have "\<not> ?n < 10" "\<not> ?n div 10 < 10" "\<not> ?n div 10 div 10 < 10" "?n div 10 div 10 div 10 < 10"
    using assms by auto
  then have "dec_string ?n =
      (([digit_char (?n div 10 div 10 div 10)] @ [digit_char (?n div 10 div 10 mod 10)])
        @ [digit_char (?n div 10 mod 10)]) @ [digit_char (?n mod 10)]"
    by (simp add: dec_string.simps [of ?n] dec_string.simps [of "?n div 10"]
        dec_string.simps [of "?n div 10 div 10"] dec_string.simps [of "?n div 10 div 10 div 10"])
  then show ?thesis
    using assms(1) by (simp add: to_string_int_def four_digits_def div_mult2_eq [symmetric])
qed

lemma digits_of_two: "n < 100 \<Longrightarrow> n div 10 * 10 + n mod 10 = (n::nat)" "n < 100 \<Longrightarrow> n div 10 < (10::nat)"
  by (simp_all add: less_mult_imp_div_less)

lemma digits_of_four:
  "((n div 1000 * 10 + n div 100 mod 10) * 10 + n div 10 mod 10) * 10 + n mod 10 = (n::nat)"
proof -
  have "n div 100 = n div 10 div 10" "n div 1000 = n div 100 div 10" by (simp_all add: div_mult2_eq [symmetric])
  then show ?thesis by (metis div_mult_mod_eq)
qed

text \<open>The layout of a printed date, as the parser reads it.\<close>

definition stamp :: "nat \<Rightarrow> nat \<Rightarrow> nat \<Rightarrow> nat \<Rightarrow> nat \<Rightarrow> nat \<Rightarrow> string" where
  "stamp y mo d h mi s =
     four_digits y @ ''-'' @ two_digits (int mo) @ ''-'' @ two_digits (int d) @ ''T'' @
     two_digits (int h) @ '':'' @ two_digits (int mi) @ '':'' @ two_digits (int s) @ ''Z''"

lemma stamp_list:
  "stamp y mo d h mi s =
     [digit_char (y div 1000), digit_char (y div 100 mod 10), digit_char (y div 10 mod 10),
      digit_char (y mod 10), CHR ''-'', digit_char (mo div 10), digit_char (mo mod 10), CHR ''-'',
      digit_char (d div 10), digit_char (d mod 10), CHR ''T'', digit_char (h div 10),
      digit_char (h mod 10), CHR '':'', digit_char (mi div 10), digit_char (mi mod 10), CHR '':'',
      digit_char (s div 10), digit_char (s mod 10), CHR ''Z'']"
  by (simp add: stamp_def four_digits_def two_digits_def)

lemma parse_two_digits:
  assumes "v ! i = digit_char (n div 10)" and "v ! (i + 1) = digit_char (n mod 10)" and "n < 100"
  shows "parse_digits v i 2 0 = Some (int n)"
  unfolding parse_digits_2 assms(1,2) using digits_of_two [OF assms(3)] by simp

lemma parse_four_digits:
  assumes "v ! i = digit_char (n div 1000)" and "v ! (i + 1) = digit_char (n div 100 mod 10)"
    and "v ! (i + 2) = digit_char (n div 10 mod 10)" and "v ! (i + 3) = digit_char (n mod 10)"
    and "n \<le> 9999"
  shows "parse_digits v i 4 0 = Some (int n)"
proof -
  have "n div 1000 < 10" using assms(5) by (simp add: less_mult_imp_div_less)
  then show ?thesis
    unfolding parse_digits_4 assms(1-4) using digits_of_four [of n] by simp
qed

lemma parse_stamp:
  assumes "y \<le> 9999" "mo < 100" "d < 100" "h < 100" "mi < 100" "s < 100"
  shows "parse_utc_timestamp (stamp y mo d h mi s) =
     (if y < 1970 \<or> mo < 1 \<or> mo > 12 \<or> d < 1 \<or> int d > days_in_month (int y) (int mo) \<or>
         h > 23 \<or> mi > 59 \<or> s > 59 then None
      else Some (days_from_civil (int y) (int mo) (int d) * 86400 + int h * 3600 + int mi * 60 + int s))"
proof -
  let ?v = "stamp y mo d h mi s"
  have v: "length ?v = 20" "?v ! 4 = CHR ''-''" "?v ! 7 = CHR ''-''" "?v ! 10 = CHR ''T''"
    "?v ! 13 = CHR '':''" "?v ! 16 = CHR '':''" "?v ! 19 = CHR ''Z''"
    by (simp_all add: stamp_list)
  have p: "parse_digits ?v 0 4 0 = Some (int y)"
    by (rule parse_four_digits) (simp_all add: stamp_list assms(1))
  have q: "parse_digits ?v 5 2 0 = Some (int mo)" "parse_digits ?v 8 2 0 = Some (int d)"
    "parse_digits ?v 11 2 0 = Some (int h)" "parse_digits ?v 14 2 0 = Some (int mi)"
    "parse_digits ?v 17 2 0 = Some (int s)"
    by (rule parse_two_digits; simp add: stamp_list assms)+
  show ?thesis unfolding parse_utc_timestamp_def v p q by simp
qed

lemma format_stamp:
  assumes "0 \<le> t" and "tm_year (gmtime t) \<le> 9999"
  shows "format_utc_timestamp t =
    stamp (nat (tm_year (gmtime t))) (nat (tm_mon (gmtime t))) (nat (tm_mday (gmtime t)))
      (nat (tm_hour (gmtime t))) (nat (tm_min (gmtime t))) (nat (tm_sec (gmtime t)))"
  using gmtime_correct [OF assms(1)] assms(2)
  by (simp add: format_utc_timestamp_def stamp_def to_string_year Let_def two_digits_def valid_date_def)

text \<open>The last second whose year has four digits, 9999-12-31T23:59:59Z.\<close>

definition last_stamp :: int where
  "last_stamp = 253402300799"

lemma days_to_10000: "days_from_civil 10000 1 1 * 86400 = last_stamp + 1"
  by (simp add: days_from_civil_eq Let_def leaps_def last_stamp_def)

lemma year_bound:
  assumes "0 \<le> t"
  shows "tm_year (gmtime t) \<le> 9999 \<longleftrightarrow> t \<le> last_stamp"
proof -
  note g = gmtime_correct [OF assms]
  have t: "t div 86400 < days_from_civil 10000 1 1 \<longleftrightarrow> t \<le> last_stamp"
    using days_to_10000 by (auto simp: div_less_iff_less_mult)
  have v: "valid_date 10000 1 1" by (simp add: valid_date_def days_in_month_def month_lengths_def)
  show ?thesis
  proof (cases "tm_year (gmtime t) \<le> 9999")
    case True
    then show ?thesis using earlier_year [OF g(2) v] g(3) t by simp
  next
    case False
    then have "days_from_civil 10000 1 1 \<le> t div 86400"
      using earlier_year [OF v g(2)] within_year(1) [OF g(2)] g(3) by (cases "tm_year (gmtime t) = 10000") auto
    then show ?thesis using False t by simp
  qed
qed

lemma clock_unique:
  assumes "h * 3600 + mi * 60 + s = h' * 3600 + mi' * 60 + (s'::int)"
    and "0 \<le> h \<and> h \<le> 23" "0 \<le> mi \<and> mi \<le> 59" "0 \<le> s \<and> s \<le> 59"
    and "0 \<le> h'" "h' \<le> 23" "0 \<le> mi'" "mi' \<le> 59" "0 \<le> s'" "s' \<le> 59"
  shows "h = h' \<and> mi = mi' \<and> s = s'"
proof -
  have "h \<le> h'" "h' \<le> h" using assms by linarith+
  then have h: "h = h'" by simp
  then have "mi \<le> mi'" "mi' \<le> mi" using assms by linarith+
  then show ?thesis using h assms(1) by simp
qed

lemma gmtime_of_date:
  assumes v: "valid_date y m d" "1970 \<le> y" and "0 \<le> h" "h \<le> 23" "0 \<le> mi" "mi \<le> 59" "0 \<le> s" "s \<le> 59"
  defines "t \<equiv> days_from_civil y m d * 86400 + h * 3600 + mi * 60 + s"
  shows "0 \<le> t" and "gmtime t = \<lparr>tm_year = y, tm_mon = m, tm_mday = d, tm_hour = h, tm_min = mi, tm_sec = s\<rparr>"
proof -
  have c: "t div 86400 = days_from_civil y m d" "t mod 86400 = h * 3600 + mi * 60 + s"
    using assms(3-8) by (simp_all add: t_def int_div_pos_eq int_mod_pos_eq)
  have "days_from_civil 1970 1 1 \<le> days_from_civil y m d"
    using within_year(1) [OF v(1)] year_start_mono [of 1970 "nat (y - 1970)"] v(2) by simp
  then show t: "0 \<le> t" using assms(3-8) epoch_day by (simp add: t_def)
  note g = gmtime_correct [OF t]
  have "tm_year (gmtime t) = y \<and> tm_mon (gmtime t) = m \<and> tm_mday (gmtime t) = d"
    by (rule civil_unique [OF g(2) v(1)]) (use g(3) c in simp)
  moreover have "tm_hour (gmtime t) = h \<and> tm_min (gmtime t) = mi \<and> tm_sec (gmtime t) = s"
    using clock_unique [OF _ g(5-7)] g(4) c(2) assms(3-8) by metis
  ultimately show "gmtime t = \<lparr>tm_year = y, tm_mon = m, tm_mday = d, tm_hour = h, tm_min = mi, tm_sec = s\<rparr>"
    by simp
qed

lemma parse_format:
  assumes "0 \<le> t" and "t \<le> last_stamp"
  shows "parse_utc_timestamp (format_utc_timestamp t) = Some t"
proof -
  note g = gmtime_correct [OF assms(1)]
  have y: "tm_year (gmtime t) \<le> 9999" using year_bound [OF assms(1)] assms(2) by simp
  have d: "tm_mday (gmtime t) \<le> 31" and m: "1 \<le> tm_mon (gmtime t)" "tm_mon (gmtime t) \<le> 12" "1 \<le> tm_mday (gmtime t)"
    using g(2) days_in_month_bounds [of "tm_mon (gmtime t)" "tm_year (gmtime t)"] by (auto simp: valid_date_def)
  have "t = t div 86400 * 86400 + t mod 86400" by simp
  then have "days_from_civil (tm_year (gmtime t)) (tm_mon (gmtime t)) (tm_mday (gmtime t)) * 86400 +
      tm_hour (gmtime t) * 3600 + tm_min (gmtime t) * 60 + tm_sec (gmtime t) = t"
    using g(3,4) by linarith
  then show ?thesis
    unfolding format_stamp [OF assms(1) y]
    using g y d m by (subst parse_stamp) (auto simp: valid_date_def nat_le_iff)
qed

lemma length_20:
  assumes "length v = 20"
  shows "v = [v ! 0, v ! 1, v ! 2, v ! 3, v ! 4, v ! 5, v ! 6, v ! 7, v ! 8, v ! 9, v ! 10,
     v ! 11, v ! 12, v ! 13, v ! 14, v ! 15, v ! 16, v ! 17, v ! 18, v ! 19]"
proof -
  have "v = map ((!) v) [0..<20]" using assms by (metis map_nth)
  also have "[0..<20] = [0, 1, 2, 3, 4, 5, 6, 7, 8, 9, 10, 11, 12, 13, 14, 15, 16, 17, 18, 19]"
    by (simp add: upt_rec)
  finally show ?thesis by simp
qed

lemma two_digit_value: "is_digit a \<Longrightarrow> is_digit b \<Longrightarrow> digit_val a * 10 + digit_val b < 100"
  using digit_val_less [of a] digit_val_less [of b] by linarith

lemma two_digit_chars:
  "is_digit a \<Longrightarrow> is_digit b \<Longrightarrow> n = digit_val a * 10 + digit_val b \<Longrightarrow>
   digit_char (n div 10) = a \<and> digit_char (n mod 10) = b"
  using digit_val_less [of b] by simp

lemma four_digit_chars:
  assumes "is_digit a" "is_digit b" "is_digit c" "is_digit e"
    and n: "n = ((digit_val a * 10 + digit_val b) * 10 + digit_val c) * 10 + digit_val e"
  shows "digit_char (n div 1000) = a" "digit_char (n div 100 mod 10) = b"
    "digit_char (n div 10 mod 10) = c" "digit_char (n mod 10) = e" "n \<le> 9999"
proof -
  have l: "digit_val a < 10" "digit_val b < 10" "digit_val c < 10" "digit_val e < 10"
    using assms by simp_all
  have q1: "n div 10 = (digit_val a * 10 + digit_val b) * 10 + digit_val c" using n l by simp
  then have q2: "n div 100 = digit_val a * 10 + digit_val b"
    using l div_mult2_eq [of n 10 10] by simp
  then have q3: "n div 1000 = digit_val a"
    using l div_mult2_eq [of n 100 10] by simp
  have m: "(x * 10 + y) mod 10 = y" if "y < 10" for x y :: nat using that by simp
  have r: "n mod 10 = digit_val e" unfolding n by (rule m [OF l(4)])
  show "digit_char (n div 1000) = a" "digit_char (n div 100 mod 10) = b"
    "digit_char (n div 10 mod 10) = c" "digit_char (n mod 10) = e"
    unfolding q1 q2 q3 r m [OF l(2)] m [OF l(3)] using assms(1-4) by simp_all
  have "digit_val a \<le> 9" "digit_val b \<le> 9" "digit_val c \<le> 9" "digit_val e \<le> 9" using l by simp_all
  then show "n \<le> 9999" unfolding n distrib_right by linarith
qed

lemma parse_is_stamp:
  assumes "parse_utc_timestamp v = Some t"
  obtains y mo d h mi s where "v = stamp y mo d h mi s"
    and "y \<le> 9999" "mo < 100" "d < 100" "h < 100" "mi < 100" "s < 100"
proof -
  have l: "length v = 20" and seps: "v ! 4 = CHR ''-''" "v ! 7 = CHR ''-''" "v ! 10 = CHR ''T''"
    "v ! 13 = CHR '':''" "v ! 16 = CHR '':''" "v ! 19 = CHR ''Z''"
    using assms by (auto simp: parse_utc_timestamp_def split: if_splits)
  have digs: "is_digit (v ! 0)" "is_digit (v ! 1)" "is_digit (v ! 2)" "is_digit (v ! 3)"
    "is_digit (v ! 5)" "is_digit (v ! 6)" "is_digit (v ! 8)" "is_digit (v ! 9)"
    "is_digit (v ! 11)" "is_digit (v ! 12)" "is_digit (v ! 14)" "is_digit (v ! 15)"
    "is_digit (v ! 17)" "is_digit (v ! 18)"
    using assms by (auto simp: parse_utc_timestamp_def parse_digits_2 parse_digits_4
        eval_nat_numeral split: if_splits)
  define two where "two i = digit_val (v ! i) * 10 + digit_val (v ! (i + 1))" for i
  define y where "y = ((digit_val (v ! 0) * 10 + digit_val (v ! 1)) * 10 + digit_val (v ! 2)) * 10 + digit_val (v ! 3)"
  note ych = four_digit_chars [OF digs(1-4) y_def]
  have t: "digit_char (two i div 10) = v ! i \<and> digit_char (two i mod 10) = v ! (i + 1) \<and> two i < 100"
    if "is_digit (v ! i)" "is_digit (v ! (i + 1))" for i
    using two_digit_chars [OF that] two_digit_value [OF that] by (simp add: two_def)
  have "v = stamp y (two 5) (two 8) (two 11) (two 14) (two 17)"
    using length_20 [OF l] seps ych t [of 5] t [of 8] t [of 11] t [of 14] t [of 17] digs
    by (simp add: stamp_list)
  then show ?thesis using that ych(5) t [of 5] t [of 8] t [of 11] t [of 14] t [of 17] digs by simp
qed

lemma format_parse:
  assumes "parse_utc_timestamp v = Some t"
  shows "0 \<le> t" and "t \<le> last_stamp" and "format_utc_timestamp t = v"
proof -
  obtain y mo d h mi s where v: "v = stamp y mo d h mi s"
    and b: "y \<le> 9999" "mo < 100" "d < 100" "h < 100" "mi < 100" "s < 100"
    using parse_is_stamp [OF assms] by blast
  have c: "1970 \<le> y" "1 \<le> mo" "mo \<le> 12" "1 \<le> d" "int d \<le> days_in_month (int y) (int mo)"
    "h \<le> 23" "mi \<le> 59" "s \<le> 59"
    and t: "t = days_from_civil (int y) (int mo) (int d) * 86400 + int h * 3600 + int mi * 60 + int s"
    using assms parse_stamp [OF b] by (auto simp: v split: if_splits)
  have vd: "valid_date (int y) (int mo) (int d)" using c by (simp add: valid_date_def)
  have nn: "0 \<le> t"
    and g: "gmtime t = \<lparr>tm_year = int y, tm_mon = int mo, tm_mday = int d, tm_hour = int h,
             tm_min = int mi, tm_sec = int s\<rparr>"
    unfolding t by (rule gmtime_of_date [OF vd]; use c in simp)+
  have y: "tm_year (gmtime t) \<le> 9999" using g b by simp
  show "0 \<le> t" by (rule nn)
  show "t \<le> last_stamp" using year_bound [OF nn] y by simp
  show "format_utc_timestamp t = v" using format_stamp [OF nn y] g v by simp
qed

section \<open>The service\<close>

text \<open>
  The service holds a repository and, when one was passed, the metrics object. \<open>clk\<close> gives the
  readings of the system clock: \<open>clk i\<close> is the reading at the \<open>i\<close>-th place of the call that
  reads it.
\<close>

record 's link_service =
  repository :: "'s link_repo"
  service_metrics :: bool

record short_link =
  link_of :: link_record
  short_url :: string

datatype redirect_status = Redirect_ok | Redirect_missing | Redirect_off | Redirect_over

record redirect_outcome =
  outcome_status :: redirect_status
  outcome_url :: "string option"

definition is_valid_url :: "string \<Rightarrow> bool" where
  "is_valid_url url \<longleftrightarrow> starts_with ''http://'' url \<or> starts_with ''https://'' url"

definition is_custom_code_char :: "char \<Rightarrow> bool" where
  "is_custom_code_char c \<longleftrightarrow> is_lower c \<or> is_upper c \<or> is_digit c \<or> c = CHR ''_'' \<or> c = CHR ''-''"

definition reserved_codes :: "string list" where
  "reserved_codes = [''api'', ''app'', ''health'', ''internal'', ''metrics'', ''s'']"

definition is_valid_custom_code :: "string \<Rightarrow> bool" where
  "is_valid_custom_code c \<longleftrightarrow>
     \<not> (length c < 4 \<or> length c > 32) \<and> list_all is_custom_code_char c \<and> c \<notin> set reserved_codes"

definition is_expired :: "link_record \<Rightarrow> int \<Rightarrow> bool" where
  "is_expired r now \<longleftrightarrow> (case expires_at r of Some t \<Rightarrow> t \<le> now | None \<Rightarrow> False)"

fun metric_source :: "lookup_source \<Rightarrow> redirect_source" where
  "metric_source Source_mysql = From_mysql"
| "metric_source Source_redis = From_redis"
| "metric_source Source_memory = From_memory"

definition note_redirect ::
  "'s link_service \<Rightarrow> redirect_result \<Rightarrow> redirect_source \<Rightarrow> 's world \<Rightarrow> 's world" where
  "note_redirect sv r src w =
     (if service_metrics sv then w\<lparr>metrics := record_redirect r src (metrics w)\<rparr> else w)"

definition create_short_link ::
  "'s link_service \<Rightarrow> (nat \<Rightarrow> int) \<Rightarrow> string \<Rightarrow> int option \<Rightarrow> u64 \<Rightarrow> string option \<Rightarrow>
   's world \<Rightarrow> (exn + short_link option) \<times> 's world" where
  "create_short_link sv clk url expires owner custom w =
     (if \<not> is_valid_url url \<or> owner = 0 \<or>
         (case expires of Some t \<Rightarrow> t \<le> clk 0 | None \<Rightarrow> False) \<or>
         (case custom of Some c \<Rightarrow> \<not> is_valid_custom_code c | None \<Rightarrow> False)
      then (Inr None, w)
      else case repo_create (repository sv) (clk 1) url expires owner custom w of
             (Inl e, w') \<Rightarrow> (Inl e, w')
           | (Inr None, w') \<Rightarrow> (Inr None, w')
           | (Inr (Some r), w') \<Rightarrow>
               (Inr (Some \<lparr>link_of = r, short_url = ''/s/'' @ link_code r\<rparr>), w'))"

definition resolve ::
  "'s link_service \<Rightarrow> (nat \<Rightarrow> int) \<Rightarrow> string \<Rightarrow> 's world \<Rightarrow> (exn + redirect_outcome) \<times> 's world" where
  "resolve sv clk c w =
     (case repo_find (repository sv) (clk 0) c w of
        (Inl e, w') \<Rightarrow>
          (Inl e, note_redirect sv Redirect_error (metric_source (repo_default_source (repository sv))) w')
      | (Inr lookup, w') \<Rightarrow>
          (let src = metric_source (lookup_from lookup)
           in case lookup_record lookup of
                None \<Rightarrow> (Inr \<lparr>outcome_status = Redirect_missing, outcome_url = None\<rparr>,
                         note_redirect sv Redirect_not_found src w')
              | Some r \<Rightarrow>
                  if link_status r = Disabled
                  then (Inr \<lparr>outcome_status = Redirect_off, outcome_url = None\<rparr>,
                        note_redirect sv Redirect_disabled src w')
                  else if is_expired r (clk 1)
                  then (Inr \<lparr>outcome_status = Redirect_over, outcome_url = None\<rparr>,
                        note_redirect sv Redirect_expired src w')
                  else (Inr \<lparr>outcome_status = Redirect_ok, outcome_url = Some (original_url r)\<rparr>,
                        note_redirect sv Redirect_success src w')))"

definition service_get ::
  "'s link_service \<Rightarrow> int \<Rightarrow> string \<Rightarrow> 's world \<Rightarrow> (exn + link_record option) \<times> 's world" where
  "service_get sv now c w =
     (case repo_find (repository sv) now c w of
        (Inl e, w') \<Rightarrow> (Inl e, w') | (Inr l, w') \<Rightarrow> (Inr (lookup_record l), w'))"

definition service_get_for_owner ::
  "'s link_service \<Rightarrow> string \<Rightarrow> u64 \<Rightarrow> 's world \<Rightarrow> (exn + link_record option) \<times> 's world" where
  "service_get_for_owner sv c own w = repo_find_for_owner (repository sv) c own w"

definition service_list ::
  "'s link_service \<Rightarrow> list_query \<Rightarrow> 's world \<Rightarrow> (exn + link_record list) \<times> 's world" where
  "service_list sv q w = repo_list (repository sv) q w"

definition service_update ::
  "'s link_service \<Rightarrow> int \<Rightarrow> string \<Rightarrow> lifecycle_update \<Rightarrow> 's world \<Rightarrow>
   (exn + link_record option) \<times> 's world" where
  "service_update sv now c u w = repo_update (repository sv) now c u w"

section \<open>What the service promises over any repository\<close>

definition resolution :: "int \<Rightarrow> link_record option \<Rightarrow> redirect_outcome" where
  "resolution now ro =
     (case ro of
        None \<Rightarrow> \<lparr>outcome_status = Redirect_missing, outcome_url = None\<rparr>
      | Some r \<Rightarrow>
          if link_status r = Disabled then \<lparr>outcome_status = Redirect_off, outcome_url = None\<rparr>
          else if is_expired r now then \<lparr>outcome_status = Redirect_over, outcome_url = None\<rparr>
          else \<lparr>outcome_status = Redirect_ok, outcome_url = Some (original_url r)\<rparr>)"

fun outcome_label :: "redirect_status \<Rightarrow> redirect_result" where
  "outcome_label Redirect_ok = Redirect_success"
| "outcome_label Redirect_missing = Redirect_not_found"
| "outcome_label Redirect_off = Redirect_disabled"
| "outcome_label Redirect_over = Redirect_expired"

definition acceptable :: "(nat \<Rightarrow> int) \<Rightarrow> string \<Rightarrow> int option \<Rightarrow> u64 \<Rightarrow> string option \<Rightarrow> bool" where
  "acceptable clk url expires owner custom \<longleftrightarrow>
     is_valid_url url \<and> owner \<noteq> 0 \<and> (\<forall>t. expires = Some t \<longrightarrow> clk 0 < t) \<and>
     (\<forall>c. custom = Some c \<longrightarrow> is_valid_custom_code c)"

lemma resolve_found:
  assumes "repo_find (repository sv) (clk 0) c w = (Inr lr, w')"
  shows "resolve sv clk c w =
    (Inr (resolution (clk 1) (lookup_record lr)),
     note_redirect sv (outcome_label (outcome_status (resolution (clk 1) (lookup_record lr))))
       (metric_source (lookup_from lr)) w')"
  using assms by (auto simp: resolve_def resolution_def Let_def split: option.splits)

lemma create_short_link_invalid:
  "\<not> acceptable clk url ex own cu \<Longrightarrow> create_short_link sv clk url ex own cu w = (Inr None, w)"
  by (auto simp: acceptable_def create_short_link_def split: option.splits)

lemma create_short_link_valid:
  "acceptable clk url ex own cu \<Longrightarrow> create_short_link sv clk url ex own cu w =
     (case repo_create (repository sv) (clk 1) url ex own cu w of
        (Inl e, w') \<Rightarrow> (Inl e, w')
      | (Inr ro, w') \<Rightarrow> (Inr (map_option (\<lambda>r. \<lparr>link_of = r, short_url = ''/s/'' @ link_code r\<rparr>) ro), w'))"
  by (auto simp: acceptable_def create_short_link_def not_le split: option.splits sum.splits prod.splits)

context link_repository
begin

lemma note_redirect_keeps:
  "inv w \<Longrightarrow> inv (note_redirect sv r src w) \<and> all (note_redirect sv r src w) = all w"
  using metrics_law by (simp add: note_redirect_def)

lemma resolve_view:
  assumes "repository sv = repo" and "inv w"
  shows "\<exists>w'. resolve sv clk c w = (Inr (resolution (clk 1) (view (all w) c)), w') \<and>
           inv w' \<and> all w' = all w"
  using find_law [OF assms(2), of "clk 0" c] resolve_found [of sv clk c w] note_redirect_keeps assms(1)
  by fastforce

lemma create_then_resolve:
  assumes "repository sv = repo" and "inv w" and "room w"
    and "create_short_link sv clk url ex own cu w = (Inr (Some l), w')"
    and "\<forall>t. ex = Some t \<longrightarrow> clk' 1 < t"
  shows "\<exists>w''. resolve sv clk' (link_code (link_of l)) w' =
     (Inr \<lparr>outcome_status = Redirect_ok, outcome_url = Some url\<rparr>, w'')"
proof -
  have acc: "acceptable clk url ex own cu"
    using assms(4) create_short_link_invalid by (metis Pair_inject option.discI sum.inject(2))
  obtain r where run: "repo_create repo (clk 1) url ex own cu w = (Inr (Some r), w')"
    and l: "link_of l = r"
    using assms(4) create_short_link_valid [OF acc, of sv w] assms(1)
    by (auto split: prod.splits sum.splits)
  have r: "inv w'" "original_url r = url" "expires_at r = ex" "link_status r = Active"
    "view (all w') (link_code r) = Some r"
    using create_law [OF assms(2,3) run] create_view [OF assms(2,3) run] by auto
  have "resolution (clk' 1) (view (all w') (link_code r)) = \<lparr>outcome_status = Redirect_ok, outcome_url = Some url\<rparr>"
    using r assms(5) by (auto simp: resolution_def is_expired_def split: option.splits)
  then show ?thesis using resolve_view [OF assms(1) r(1), of clk' "link_code r"] l by metis
qed

end

section \<open>Properties\<close>

text \<open>C12: timestamps. Printing any time from the epoch to 9999-12-31T23:59:59Z and parsing the
  text gives the time back; the parser accepts a text exactly when it is the printed form of such
  a time, so no date that does not exist (30 February, 29 February of a common year) is accepted.\<close>

theorem timestamp_round_trip:
  "(0 \<le> t \<and> t \<le> last_stamp \<longleftrightarrow> parse_utc_timestamp (format_utc_timestamp t) = Some t) \<and>
   (parse_utc_timestamp v = Some t \<longleftrightarrow> 0 \<le> t \<and> t \<le> last_stamp \<and> v = format_utc_timestamp t)"
  using parse_format format_parse by blast

text \<open>Whatever the repository holds, \<open>resolve\<close> on the in-memory repository answers with the
  original URL exactly when the link exists, is active and has no expiry at or before the clock,
  changes no record, and adds one to exactly the redirect counter of its outcome.\<close>

theorem resolve_decides:
  assumes "repository sv = memory_repo" and "mem_inv w" and "service_metrics sv"
  shows "\<exists>out w'. resolve sv clk c w = (Inr out, w') \<and> mem_records w' = mem_records w \<and>
     metrics w' = record_redirect (outcome_label (outcome_status out)) From_memory (metrics w) \<and>
     (\<forall>url. outcome_url out = Some url \<longleftrightarrow>
        (\<exists>r. view (mem_records w) c = Some r \<and> link_status r = Active \<and>
             (\<forall>t. expires_at r = Some t \<longrightarrow> clk 1 < t) \<and> url = original_url r)) \<and>
     (outcome_status out = Redirect_ok \<longleftrightarrow> outcome_url out \<noteq> None) \<and>
     (outcome_status out = Redirect_missing \<longleftrightarrow> view (mem_records w) c = None)"
proof -
  have "repo_find (repository sv) (clk 0) c w =
     (Inr \<lparr>lookup_record = view (mem_records w) c, lookup_from = Source_memory\<rparr>, w)"
    using assms(1,2) by (simp add: memory_repo_def on_store_def mem_inv_def mem_records_def mem_find_view)
  from resolve_found [of sv clk, OF this] have run: "resolve sv clk c w =
     (Inr (resolution (clk 1) (view (mem_records w) c)),
      w\<lparr>metrics := record_redirect (outcome_label (outcome_status (resolution (clk 1) (view (mem_records w) c))))
           From_memory (metrics w)\<rparr>)"
    using assms(3) by (simp add: note_redirect_def)
  have act: "st \<noteq> Disabled \<longleftrightarrow> st = Active" for st by (cases st) simp_all
  show ?thesis
    unfolding run
    by (cases "view (mem_records w) c")
       (auto simp: mem_records_def resolution_def is_expired_def not_le act split: option.splits)
qed

lemma resolve_decides_witness:
  "\<exists>out w'. resolve \<lparr>repository = memory_repo, service_metrics = True\<rparr> (\<lambda>i. 9) ''abcd'' sample_world = (Inr out, w')
     \<and> outcome_url out = Some ''http://a''"
  using resolve_decides [OF _ sample_inv(1), of "\<lparr>repository = memory_repo, service_metrics = True\<rparr>" "\<lambda>i. 9" "''abcd''"]
  by (auto simp: sample_view sample_link_def)

text \<open>C8: a link created through the service is redirected to its URL until it expires: after a
  successful \<open>createShortLink\<close> the short URL is \<open>/s/\<close> and the code, and \<open>resolve\<close> of that code
  with a clock before the expiry answers with the URL.\<close>

theorem created_link_resolves:
  assumes "repository sv = memory_repo" and "mem_inv w" and "mem_room w"
    and "create_short_link sv clk url ex own cu w = (Inr (Some l), w')"
    and "\<forall>t. ex = Some t \<longrightarrow> clk' 1 < t"
  shows "short_url l = ''/s/'' @ link_code (link_of l) \<and>
    (\<exists>w''. resolve sv clk' (link_code (link_of l)) w' =
       (Inr \<lparr>outcome_status = Redirect_ok, outcome_url = Some url\<rparr>, w''))"
proof
  show "short_url l = ''/s/'' @ link_code (link_of l)"
    using assms(4) by (auto simp: create_short_link_def split: if_splits option.splits sum.splits prod.splits)
  show "\<exists>w''. resolve sv clk' (link_code (link_of l)) w' =
       (Inr \<lparr>outcome_status = Redirect_ok, outcome_url = Some url\<rparr>, w'')"
    using mem.create_then_resolve assms by blast
qed

lemma created_link_resolves_witness:
  "\<exists>l w' w''. create_short_link \<lparr>repository = memory_repo, service_metrics = True\<rparr> (\<lambda>i. 9) ''http://x''
       (Some 20) 7 (Some ''my-x'') sample_world = (Inr (Some l), w') \<and>
     resolve \<lparr>repository = memory_repo, service_metrics = True\<rparr> (\<lambda>i. 19) (link_code (link_of l)) w' =
       (Inr \<lparr>outcome_status = Redirect_ok, outcome_url = Some ''http://x''\<rparr>, w'')"
proof -
  let ?sv = "\<lparr>repository = memory_repo, service_metrics = True\<rparr>"
  have "\<exists>l w'. create_short_link ?sv (\<lambda>i. 9) ''http://x'' (Some 20) 7 (Some ''my-x'') sample_world = (Inr (Some l), w')"
    by (simp add: create_short_link_def is_valid_url_def is_valid_custom_code_def is_custom_code_char_def
        is_lower_def is_upper_def is_digit_def reserved_codes_def memory_repo_def on_store_def
        mem_create_def sample_world_def Let_def)
  then obtain l w' where run: "create_short_link ?sv (\<lambda>i. 9) ''http://x'' (Some 20) 7 (Some ''my-x'') sample_world
      = (Inr (Some l), w')" by blast
  show ?thesis using created_link_resolves [OF _ sample_inv run, of "\<lambda>i. 19"] run by auto
qed



text \<open>A client can take the code that the next generated link needs: once a custom code equals
  the base 62 form of the counter, the next create without a custom code is the conflict error
  although the caller asked for no particular code (the id is consumed, so a retry can succeed).\<close>

theorem generated_code_can_be_taken:
  assumes "view (mem_records w) (encode_base62 (next_id (store w))) \<noteq> None" and "mem_inv w"
    and "repository sv = memory_repo" and "acceptable clk url ex own None"
  shows "\<exists>w'. create_short_link sv clk url ex own None w = (Inl Short_code_conflict, w') \<and>
               next_id (store w') = next_id (store w) + 1"
proof -
  have "map_of (links (store w)) (create_code (store w) None) \<noteq> None"
    using assms(1,2) by (simp add: mem_inv_def mem_records_def view_mem_all create_code_def)
  then show ?thesis
    using assms(3,4) by (simp add: create_short_link_valid memory_repo_def on_store_def mem_create_conflict)
qed

definition taken_world :: "mem_repo world" where
  "taken_world =
     \<lparr>store = \<lparr>links = [(''000002'', sample_link 1 1 ''000002'')], next_id = 2\<rparr>,
      metrics = init_metrics\<rparr>"

lemma taken_inv: "mem_inv taken_world"
  by (auto simp: mem_inv_def taken_world_def mem_ok_def sample_link_def split: if_splits)

lemma base62_two: "encode_base62 2 = ''000002''"
proof -
  have "base62_digits 2 = ''2''"
    by (simp add: base62_digits.simps [of 2] base62_digits.simps [of 0] base62_chars_def)
  moreover have "replicate 5 CHR ''0'' = ''00000''" by (simp add: eval_nat_numeral)
  ultimately show ?thesis by (simp add: encode_base62_def pad_code_def)
qed

lemma generated_code_can_be_taken_witness:
  "\<exists>w'. create_short_link \<lparr>repository = memory_repo, service_metrics = True\<rparr> (\<lambda>i. 9) ''http://x'' None 7 None
     taken_world = (Inl Short_code_conflict, w')"
proof -
  have "mem_ok (store taken_world)" using taken_inv by (simp add: mem_inv_def)
  then have "view (mem_records taken_world) (encode_base62 (next_id (store taken_world))) \<noteq> None"
    by (simp add: mem_records_def view_mem_all) (simp add: taken_world_def base62_two)
  from generated_code_can_be_taken [OF this taken_inv,
      of "\<lparr>repository = memory_repo, service_metrics = True\<rparr>" "\<lambda>i. 9" "''http://x''" None 7]
  show ?thesis by (auto simp: acceptable_def is_valid_url_def)
qed

end
