(* ===== verification/RedisCache.thy ===== *)
theory RedisCache
  imports LinkService
begin

text \<open>
  \<open>RedisShortLinkCache.h/.cpp\<close> and \<open>RedisCachedShortLinkRepository.h/.cpp\<close>: the cache entries
  (text form of a link record), the three cache operations with their metrics, and the repository
  that reads through the cache. Redis and its client library are a parameter. The cached repository
  fulfils the contract \<open>link_repository\<close> whenever its source does and deletions reach Redis: the
  locale \<open>cached_store\<close>, a sublocale of that contract, interpreted on the in-memory repository.
\<close>

section \<open>Redis as a parameter\<close>

text \<open>
  A reply of the client library (a null reply is \<open>None\<close>), and the two calls the sources make:
  connecting to a host and port, which may fail, and a command given by its arguments, as
  \<open>redisCommand\<close> splits its format. \<open>'d\<close> is the state of the library and the server.
\<close>

datatype redis_reply =
    Reply_error
  | Reply_nil
  | Reply_string string
  | Reply_status
  | Reply_integer int
  | Reply_array "redis_reply list"

record 'd redis_server =
  redis_connect :: "string \<Rightarrow> int \<Rightarrow> 'd \<Rightarrow> bool \<times> 'd"
  redis_command :: "string list \<Rightarrow> 'd \<Rightarrow> redis_reply option \<times> 'd"

fun is_error_reply :: "redis_reply option \<Rightarrow> bool" where
  "is_error_reply None = True"
| "is_error_reply (Some Reply_error) = True"
| "is_error_reply _ = False"

section \<open>Cache entries\<close>

record cache_config =
  cache_host :: string
  cache_port :: int
  cache_database :: int
  cache_ttl :: int
  cache_prefix :: string

definition default_cache_config :: cache_config where
  "default_cache_config =
     \<lparr>cache_host = ''127.0.0.1'', cache_port = 6379, cache_database = 0, cache_ttl = 3600,
      cache_prefix = ''shortlink:''\<rparr>"

text \<open>The constructor replaces a time to live outside \<open>1..86400\<close>.\<close>

definition cache_init :: "cache_config \<Rightarrow> cache_config" where
  "cache_init c = (if cache_ttl c \<le> 0 \<or> cache_ttl c > 86400 then c\<lparr>cache_ttl := 3600\<rparr> else c)"

definition build_cache_key :: "cache_config \<Rightarrow> string \<Rightarrow> string" where
  "build_cache_key cfg c = cache_prefix cfg @ c"

definition bar :: char where
  "bar = CHR ''|''"

definition serialize_link :: "link_record \<Rightarrow> string" where
  "serialize_link r =
     ''v2|'' @ to_string_u64 (link_id r) @ ''|'' @ to_string_u64 (owner_id r) @ ''|'' @
     status_to_string (link_status r) @ ''|'' @
     (case expires_at r of Some t \<Rightarrow> to_string_int t | None \<Rightarrow> ''-'') @ ''|'' @
     to_string_int (created_at r) @ ''|'' @ to_string_int (updated_at r) @ ''|'' @ original_url r"

text \<open>The loop that cuts \<open>n\<close> fields off at their separators; the rest is the last field.\<close>

fun split_fields :: "nat \<Rightarrow> string \<Rightarrow> string list option" where
  "split_fields 0 s = Some [s]"
| "split_fields (Suc n) s =
     (case cut_at bar s of
        (u, None) \<Rightarrow> None
      | (u, Some rest) \<Rightarrow> map_option ((#) u) (split_fields n rest))"

definition read_number :: "(string \<Rightarrow> exn + 'a) \<Rightarrow> string \<Rightarrow> 'a option" where
  "read_number f s = (case f s of Inl e \<Rightarrow> None | Inr v \<Rightarrow> Some v)"

definition deserialize_link :: "string \<Rightarrow> string \<Rightarrow> link_record option" where
  "deserialize_link code value =
     (if \<not> starts_with ''v2|'' value then None
      else case split_fields 7 value of
        Some [f0, f1, f2, f3, f4, f5, f6, f7] \<Rightarrow>
          if f0 \<noteq> ''v2'' \<or> f7 = [] then None
          else (case parse_status f3 of
                  None \<Rightarrow> None
                | Some st \<Rightarrow>
                    Option.bind (read_number stoull f1) (\<lambda>i.
                    Option.bind (read_number stoull f2) (\<lambda>own.
                    Option.bind (if f4 \<noteq> ''-'' then map_option Some (read_number stoll f4) else Some None) (\<lambda>ex.
                    Option.bind (read_number stoll f5) (\<lambda>cr.
                    Option.bind (read_number stoll f6) (\<lambda>up.
                      Some \<lparr>link_id = i, owner_id = own, link_code = code, original_url = f7,
                            link_status = st, expires_at = ex, created_at = cr, updated_at = up\<rparr>))))))
      | _ \<Rightarrow> None)"

text \<open>The text form reads back, or not at all when a time does not fit 64 bits.\<close>

definition in_int64 :: "int \<Rightarrow> bool" where
  "in_int64 i \<longleftrightarrow> - (2 ^ 63) \<le> i \<and> i < 2 ^ 63"

definition cacheable :: "link_record \<Rightarrow> bool" where
  "cacheable r \<longleftrightarrow> original_url r \<noteq> [] \<and> in_int64 (created_at r) \<and> in_int64 (updated_at r) \<and>
     (case expires_at r of Some t \<Rightarrow> in_int64 t | None \<Rightarrow> True)"

lemma split_fields_cons [cpp_string]:
  "bar \<notin> set u \<Longrightarrow> split_fields (Suc n) (u @ bar # s) = map_option ((#) u) (split_fields n s)"
  by (simp add: cut_at_append)

lemma stoll_out_of_range: "\<not> in_int64 i \<Longrightarrow> read_number stoll (to_string_int i) = None"
  by (auto simp: read_number_def in_int64_def stoll_def to_string_int_def scan_dec_string
      scan_neg_dec_string Let_def)

lemma stoll_in_range: "in_int64 i \<Longrightarrow> read_number stoll (to_string_int i) = Some i"
  by (simp add: read_number_def in_int64_def stoll_to_string)

lemma stoull_back: "read_number stoull (to_string_u64 w) = Some w"
  by (simp add: read_number_def stoull_to_string)

lemma read_int: "read_number stoll (to_string_int i) = (if in_int64 i then Some i else None)"
  by (simp add: stoll_in_range stoll_out_of_range)

lemma to_string_int_not_dash: "to_string_int i \<noteq> ''-''"
proof
  assume eq: "to_string_int i = ''-''"
  show False
  proof (cases "i < 0")
    case True
    then show ?thesis using eq dec_string_nonempty by (auto simp: to_string_int_def)
  next
    case False
    then have "hd (dec_string (nat i)) = CHR ''-''" using eq by (simp add: to_string_int_def)
    then show ?thesis using hd_dec_string [of "nat i"] by simp
  qed
qed

lemma not_digit_bar [simp]: "\<not> is_digit CHR ''|''"
  by (simp add: is_digit_def)

lemma no_bar:
  "bar \<notin> set (to_string_u64 w)" "bar \<notin> set (to_string_int i)" "bar \<notin> set (status_to_string st)"
  by (simp_all add: bar_def to_string_u64_def dec_string_no_char to_string_int_no_char
      status_to_string_no_char)

lemma split_serialized:
  "split_fields 7 (serialize_link r) =
     Some [''v2'', to_string_u64 (link_id r), to_string_u64 (owner_id r), status_to_string (link_status r),
           (case expires_at r of Some t \<Rightarrow> to_string_int t | None \<Rightarrow> ''-''),
           to_string_int (created_at r), to_string_int (updated_at r), original_url r]"
proof -
  let ?e = "case expires_at r of Some t \<Rightarrow> to_string_int t | None \<Rightarrow> ''-''"
  have e: "bar \<notin> set ?e" using no_bar(2) by (auto simp: bar_def split: option.splits)
  have v2: "bar \<notin> set ''v2''" by (simp add: bar_def)
  have s: "serialize_link r = ''v2'' @ bar # to_string_u64 (link_id r) @ bar # to_string_u64 (owner_id r) @
     bar # status_to_string (link_status r) @ bar # ?e @ bar # to_string_int (created_at r) @
     bar # to_string_int (updated_at r) @ bar # original_url r"
    by (simp add: serialize_link_def bar_def)
  have 7: "(7::nat) = Suc (Suc (Suc (Suc (Suc (Suc (Suc 0))))))" by simp
  show ?thesis
    unfolding s 7
    by (simp only: split_fields_cons no_bar e v2 split_fields.simps(1) not_False_eq_True option.map)
qed

lemma deserialize_serialize:
  "deserialize_link c (serialize_link r) = (if cacheable r then Some (r\<lparr>link_code := c\<rparr>) else None)"
proof -
  have "starts_with ''v2|'' (serialize_link r)" by (simp add: serialize_link_def)
  then show ?thesis
    unfolding deserialize_link_def split_serialized
    by (cases "expires_at r") (auto simp: cacheable_def stoull_back read_int to_string_int_not_dash)
qed

section \<open>The cache operations\<close>

record 'd link_cache =
  cache_config_of :: cache_config
  cache_server :: "'d redis_server"
  cache_metrics :: bool

definition redis_open :: "'d redis_server \<Rightarrow> string \<Rightarrow> int \<Rightarrow> int \<Rightarrow> 'd \<Rightarrow> bool \<times> 'd" where
  "redis_open srv host port db d =
     (case redis_connect srv host port d of
        (False, d1) \<Rightarrow> (False, d1)
      | (True, d1) \<Rightarrow>
          if db > 0
          then (case redis_command srv [''SELECT'', to_string_int db] d1 of
                  (reply, d2) \<Rightarrow> (\<not> is_error_reply reply, d2))
          else (True, d1))"

definition cache_open :: "'d link_cache \<Rightarrow> 'd \<Rightarrow> bool \<times> 'd" where
  "cache_open ca d =
     redis_open (cache_server ca) (cache_host (cache_config_of ca)) (cache_port (cache_config_of ca))
       (cache_database (cache_config_of ca)) d"

definition note_cache :: "'d link_cache \<Rightarrow> cache_operation \<Rightarrow> cache_result \<Rightarrow> sl_metrics \<Rightarrow> sl_metrics" where
  "note_cache ca op res m = (if cache_metrics ca then record_cache op res m else m)"

text \<open>The cache error counter and the backend error counter always move together.\<close>

definition note_cache_error :: "'d link_cache \<Rightarrow> cache_operation \<Rightarrow> backend_operation \<Rightarrow> sl_metrics \<Rightarrow> sl_metrics" where
  "note_cache_error ca op bop m =
     (if cache_metrics ca then record_backend_error Backend_redis bop (record_cache op Cache_error m) else m)"

definition cache_get :: "'d link_cache \<Rightarrow> string \<Rightarrow> 'd world \<Rightarrow> link_record option \<times> 'd world" where
  "cache_get ca c w =
     (case cache_open ca (store w) of
        (False, d) \<Rightarrow> (None, \<lparr>store = d, metrics = note_cache_error ca Cache_get Op_get (metrics w)\<rparr>)
      | (True, d) \<Rightarrow>
          (let key = build_cache_key (cache_config_of ca) c
           in case redis_command (cache_server ca) [''GET'', key] d of
                (reply, d1) \<Rightarrow>
                  if is_error_reply reply
                  then (None, \<lparr>store = d1, metrics = note_cache_error ca Cache_get Op_get (metrics w)\<rparr>)
                  else (case reply of
                      Some Reply_nil \<Rightarrow>
                        (None, \<lparr>store = d1, metrics = note_cache ca Cache_get Cache_miss (metrics w)\<rparr>)
                    | Some (Reply_string value) \<Rightarrow>
                        (case deserialize_link c value of
                           None \<Rightarrow>
                             (case redis_command (cache_server ca) [''DEL'', key] d1 of
                                (_, d2) \<Rightarrow> (None, \<lparr>store = d2,
                                  metrics = note_cache ca Cache_get Cache_miss (metrics w)\<rparr>))
                         | Some r \<Rightarrow>
                             (Some r, \<lparr>store = d1, metrics = note_cache ca Cache_get Cache_hit (metrics w)\<rparr>))
                    | _ \<Rightarrow>
                        (None, \<lparr>store = d1, metrics = note_cache_error ca Cache_get Op_get (metrics w)\<rparr>))))"

definition cache_erase :: "'d link_cache \<Rightarrow> string \<Rightarrow> 'd world \<Rightarrow> bool \<times> 'd world" where
  "cache_erase ca c w =
     (case cache_open ca (store w) of
        (False, d) \<Rightarrow> (False, \<lparr>store = d, metrics = note_cache_error ca Cache_delete Op_delete (metrics w)\<rparr>)
      | (True, d) \<Rightarrow>
          (case redis_command (cache_server ca) [''DEL'', build_cache_key (cache_config_of ca) c] d of
             (reply, d1) \<Rightarrow>
               (let success = (case reply of Some (Reply_integer _) \<Rightarrow> True | _ \<Rightarrow> False)
                in (success, \<lparr>store = d1,
                     metrics = if success then note_cache ca Cache_delete Cache_success (metrics w)
                               else note_cache_error ca Cache_delete Op_delete (metrics w)\<rparr>))))"

definition entry_ttl :: "cache_config \<Rightarrow> int \<Rightarrow> link_record \<Rightarrow> int" where
  "entry_ttl cfg now r =
     (case expires_at r of
        None \<Rightarrow> cache_ttl cfg
      | Some t \<Rightarrow> if cache_ttl cfg > 0 then min (cache_ttl cfg) (t - now) else min (t - now) 2147483647)"

definition cache_write :: "'d link_cache \<Rightarrow> string \<Rightarrow> int \<Rightarrow> string \<Rightarrow> 'd world \<Rightarrow> bool \<times> 'd world" where
  "cache_write ca key ttl value w =
     (case cache_open ca (store w) of
        (False, d) \<Rightarrow> (False, \<lparr>store = d, metrics = note_cache_error ca Cache_set Op_set (metrics w)\<rparr>)
      | (True, d) \<Rightarrow>
          (case redis_command (cache_server ca)
                  (if ttl > 0 then [''SETEX'', key, to_string_int ttl, value] else [''SET'', key, value]) d of
             (reply, d1) \<Rightarrow>
               (let success = (reply = Some Reply_status)
                in (success, \<lparr>store = d1,
                     metrics = if success then note_cache ca Cache_set Cache_success (metrics w)
                               else note_cache_error ca Cache_set Op_set (metrics w)\<rparr>))))"

definition cache_set :: "'d link_cache \<Rightarrow> int \<Rightarrow> link_record \<Rightarrow> 'd world \<Rightarrow> bool \<times> 'd world" where
  "cache_set ca now r w =
     (if (case expires_at r of Some t \<Rightarrow> t - now \<le> 0 | None \<Rightarrow> False) then cache_erase ca (link_code r) w
      else cache_write ca (build_cache_key (cache_config_of ca) (link_code r))
             (entry_ttl (cache_config_of ca) now r) (serialize_link r) w)"

section \<open>The cached repository\<close>

text \<open>Its world has both stores, Redis and the source; the metrics are shared.\<close>

definition on_cache :: "('d world \<Rightarrow> 'a \<times> 'd world) \<Rightarrow> ('d \<times> 's) world \<Rightarrow> 'a \<times> ('d \<times> 's) world" where
  "on_cache f w =
     (case f \<lparr>store = fst (store w), metrics = metrics w\<rparr> of
        (a, v) \<Rightarrow> (a, \<lparr>store = (store v, snd (store w)), metrics = metrics v\<rparr>))"

definition on_source :: "('s world \<Rightarrow> 'a \<times> 's world) \<Rightarrow> ('d \<times> 's) world \<Rightarrow> 'a \<times> ('d \<times> 's) world" where
  "on_source f w =
     (case f \<lparr>store = snd (store w), metrics = metrics w\<rparr> of
        (a, v) \<Rightarrow> (a, \<lparr>store = (fst (store w), store v), metrics = metrics v\<rparr>))"

definition cached_find ::
  "'d link_cache \<Rightarrow> 's link_repo \<Rightarrow> int \<Rightarrow> string \<Rightarrow> ('d \<times> 's) world \<Rightarrow>
   (exn + lookup_result) \<times> ('d \<times> 's) world" where
  "cached_find ca src now c w =
     (case on_cache (cache_get ca c) w of
        (Some r, w1) \<Rightarrow> (Inr \<lparr>lookup_record = Some r, lookup_from = Source_redis\<rparr>, w1)
      | (None, w1) \<Rightarrow>
          (case on_source (repo_find src now c) w1 of
             (Inl e, w2) \<Rightarrow> (Inl e, w2)
           | (Inr res, w2) \<Rightarrow>
               (case lookup_record res of
                  None \<Rightarrow> (Inr res, w2)
                | Some r \<Rightarrow> (Inr res, snd (on_cache (cache_set ca now r) w2)))))"

definition cached_update ::
  "'d link_cache \<Rightarrow> 's link_repo \<Rightarrow> int \<Rightarrow> string \<Rightarrow> lifecycle_update \<Rightarrow> ('d \<times> 's) world \<Rightarrow>
   (exn + link_record option) \<times> ('d \<times> 's) world" where
  "cached_update ca src now c u w =
     (case on_source (repo_update src now c u) w of
        (Inr (Some r), w1) \<Rightarrow> (Inr (Some r), snd (on_cache (cache_erase ca c) w1))
      | (res, w1) \<Rightarrow> (res, w1))"

definition cached_repo :: "'d link_cache \<Rightarrow> 's link_repo \<Rightarrow> ('d \<times> 's) link_repo" where
  "cached_repo ca src =
     \<lparr>repo_create = (\<lambda>now url ex own cu. on_source (repo_create src now url ex own cu)),
      repo_find = cached_find ca src,
      repo_find_for_owner = (\<lambda>c own. on_source (repo_find_for_owner src c own)),
      repo_default_source = repo_default_source src,
      repo_list = (\<lambda>q. on_source (repo_list src q)),
      repo_update = cached_update ca src\<rparr>"

section \<open>Coherence\<close>

text \<open>
  What Redis is relied on for. \<open>keys\<close> is the content of the configured database and \<open>ready\<close>
  says that the connection works on it. Connections, reads and writes may fail and keys may
  disappear at any time (expiry, eviction); a read returns what is stored, a write stores its value
  or nothing, a deletion answered with an integer has deleted.
\<close>

locale redis_cache =
  fixes ca :: "'d link_cache"
    and keys :: "'d \<Rightarrow> string \<Rightarrow> string option"
    and ready :: "'d \<Rightarrow> bool"
  assumes open_law: "cache_open ca d = (ok, d') \<Longrightarrow> keys d' \<subseteq>\<^sub>m keys d \<and> (ok \<longrightarrow> ready d')"
    and get_law: "ready d \<Longrightarrow> redis_command (cache_server ca) [''GET'', k] d = (rep, d') \<Longrightarrow>
          ready d' \<and> keys d' \<subseteq>\<^sub>m keys d \<and> (\<forall>v. rep = Some (Reply_string v) \<longrightarrow> keys d k = Some v)"
    and del_law: "ready d \<Longrightarrow> redis_command (cache_server ca) [''DEL'', k] d = (rep, d') \<Longrightarrow>
          ready d' \<and> keys d' \<subseteq>\<^sub>m keys d \<and> (\<forall>n. rep = Some (Reply_integer n) \<longrightarrow> keys d' k = None)"
    and setex_law: "ready d \<Longrightarrow> redis_command (cache_server ca) [''SETEX'', k, t, v] d = (rep, d') \<Longrightarrow>
          ready d' \<and> (keys d' \<subseteq>\<^sub>m keys d \<or> keys d' \<subseteq>\<^sub>m (keys d)(k \<mapsto> v))"
    and set_law: "ready d \<Longrightarrow> redis_command (cache_server ca) [''SET'', k, v] d = (rep, d') \<Longrightarrow>
          ready d' \<and> (keys d' \<subseteq>\<^sub>m keys d \<or> keys d' \<subseteq>\<^sub>m (keys d)(k \<mapsto> v))"

definition coherent ::
  "'d link_cache \<Rightarrow> ('d \<Rightarrow> string \<Rightarrow> string option) \<Rightarrow> 'd \<Rightarrow> link_record list \<Rightarrow> bool" where
  "coherent ca keys d rs \<longleftrightarrow>
     (\<forall>c v r. keys d (build_cache_key (cache_config_of ca) c) = Some v \<longrightarrow>
        deserialize_link c v = Some r \<longrightarrow> view rs c = Some r)"

lemma coherent_mono: "keys d' \<subseteq>\<^sub>m keys d \<Longrightarrow> coherent ca keys d rs \<Longrightarrow> coherent ca keys d' rs"
  unfolding coherent_def map_le_def by (metis domIff option.distinct(1))

lemma map_le_SomeD: "m \<subseteq>\<^sub>m m' \<Longrightarrow> m k = Some v \<Longrightarrow> m' k = Some v"
  by (metis domI map_le_def)

lemma view_code: "view rs c = Some r \<Longrightarrow> link_code r = c"
  unfolding view_def by (auto simp: find_Some_iff)

lemma view_replace:
  "view (replace_record r' rs) c =
     (if c = link_code r' then (if view rs c = None then None else Some r') else view rs c)"
  unfolding view_def replace_record_def by (induction rs) auto

lemma coherent_set:
  assumes "coherent ca keys d rs" and "view rs c = Some r"
    and "keys d' \<subseteq>\<^sub>m (keys d)(build_cache_key (cache_config_of ca) c \<mapsto> serialize_link r)"
  shows "coherent ca keys d' rs"
  unfolding coherent_def
proof (intro allI impI)
  fix c' v r'
  assume k: "keys d' (build_cache_key (cache_config_of ca) c') = Some v" and r': "deserialize_link c' v = Some r'"
  show "view rs c' = Some r'"
  proof (cases "c' = c")
    case True
    then have "v = serialize_link r" using map_le_SomeD [OF assms(3) k] by simp
    then have "r' = r\<lparr>link_code := c\<rparr>" using r' True by (auto simp: deserialize_serialize split: if_splits)
    then show ?thesis using True assms(2) view_code [OF assms(2)] by simp
  next
    case False
    then have "keys d (build_cache_key (cache_config_of ca) c') = Some v"
      using map_le_SomeD [OF assms(3) k] by (simp add: build_cache_key_def)
    then show ?thesis using assms(1) r' unfolding coherent_def by blast
  qed
qed

context redis_cache
begin

lemma fewer_keys: "keys d' \<subseteq>\<^sub>m keys d \<Longrightarrow> coherent ca keys d rs \<Longrightarrow> coherent ca keys d' rs"
  by (rule coherent_mono)

lemma open_coherent:
  "cache_open ca d = (ok, d') \<Longrightarrow> coherent ca keys d rs \<Longrightarrow> coherent ca keys d' rs \<and> (ok \<longrightarrow> ready d')"
  using open_law fewer_keys by blast

lemma get_coherent:
  assumes co: "coherent ca keys (store w) rs"
  shows "coherent ca keys (store (snd (cache_get ca c w))) rs \<and>
         (\<forall>r. fst (cache_get ca c w) = Some r \<longrightarrow> view rs c = Some r)"
proof -
  obtain ok d where o: "cache_open ca (store w) = (ok, d)" by fastforce
  note co1 = open_coherent [OF o co]
  let ?k = "build_cache_key (cache_config_of ca) c"
  show ?thesis
  proof (cases ok)
    case False
    then show ?thesis using o co1 by (simp add: cache_get_def)
  next
    case True
    obtain rep d1 where g: "redis_command (cache_server ca) [''GET'', ?k] d = (rep, d1)" by fastforce
    obtain rep2 d2 where e: "redis_command (cache_server ca) [''DEL'', ?k] d1 = (rep2, d2)" by fastforce
    have r: "ready d" using co1 True by simp
    note gl = get_law [OF r g]
    have co2: "coherent ca keys d1 rs" using gl co1 fewer_keys by blast
    have co3: "coherent ca keys d2 rs" using del_law [OF _ e] gl co2 fewer_keys by blast
    show ?thesis
      using o g e True co1 co2 co3 gl unfolding cache_get_def coherent_def
      by (auto simp: Let_def split: option.splits redis_reply.splits)
  qed
qed

lemma erase_coherent:
  assumes co: "coherent ca keys (store w) rs"
  shows "coherent ca keys (store (snd (cache_erase ca c w))) rs \<and>
         (fst (cache_erase ca c w) \<longrightarrow>
            keys (store (snd (cache_erase ca c w))) (build_cache_key (cache_config_of ca) c) = None)"
proof -
  obtain ok d where o: "cache_open ca (store w) = (ok, d)" by fastforce
  note co1 = open_coherent [OF o co]
  obtain rep d1 where e:
    "redis_command (cache_server ca) [''DEL'', build_cache_key (cache_config_of ca) c] d = (rep, d1)" by fastforce
  show ?thesis
    using o e co1 del_law [OF _ e] fewer_keys [of d1 d rs]
    by (cases ok) (auto simp: cache_erase_def Let_def split: option.splits redis_reply.splits)
qed

lemma write_coherent:
  assumes co: "coherent ca keys (store w) rs" and r: "view rs c = Some r"
  shows "coherent ca keys
    (store (snd (cache_write ca (build_cache_key (cache_config_of ca) c) ttl (serialize_link r) w))) rs"
proof -
  obtain ok d where o: "cache_open ca (store w) = (ok, d)" by fastforce
  note co1 = open_coherent [OF o co]
  let ?k = "build_cache_key (cache_config_of ca) c" and ?v = "serialize_link r"
  let ?args = "if ttl > 0 then [''SETEX'', ?k, to_string_int ttl, ?v] else [''SET'', ?k, ?v]"
  obtain rep d1 where run: "redis_command (cache_server ca) ?args d = (rep, d1)" by fastforce
  have "coherent ca keys d1 rs" if ok
    using run setex_law [of d ?k "to_string_int ttl" ?v rep d1] set_law [of d ?k ?v rep d1] co1 that
      coherent_set [OF _ r] fewer_keys [of d1 d rs] by (auto split: if_splits)
  then show ?thesis
    using o run co1 by (cases ok) (simp_all add: cache_write_def Let_def)
qed

lemma set_coherent:
  assumes "coherent ca keys (store w) rs" and "view rs (link_code r) = Some r"
  shows "coherent ca keys (store (snd (cache_set ca now r w))) rs"
  using write_coherent [OF assms] erase_coherent [OF assms(1)] by (simp add: cache_set_def)

end

text \<open>Both stores together: the source keeps its invariant and the cache agrees with it.\<close>

definition source_world :: "('d \<times> 's) world \<Rightarrow> 's world" where
  "source_world w = \<lparr>store = snd (store w), metrics = metrics w\<rparr>"

definition cached_inv ::
  "'d link_cache \<Rightarrow> ('d \<Rightarrow> string \<Rightarrow> string option) \<Rightarrow> ('s world \<Rightarrow> bool) \<Rightarrow> ('s world \<Rightarrow> link_record list) \<Rightarrow>
   ('d \<times> 's) world \<Rightarrow> bool" where
  "cached_inv ca keys winv recs w \<longleftrightarrow>
     winv (source_world w) \<and> coherent ca keys (fst (store w)) (recs (source_world w))"

lemma world_eta [simp]: "\<lparr>store = store w, metrics = metrics w\<rparr> = (w :: 's world)"
  by simp

lemma source_on_source:
  "on_source f w = (a, w') \<Longrightarrow> f (source_world w) = (a, source_world w') \<and> fst (store w') = fst (store w)"
  by (auto simp: on_source_def source_world_def split: prod.splits)

lemma source_on_cache:
  "on_cache f w = (a, w') \<Longrightarrow>
   f \<lparr>store = fst (store w), metrics = metrics w\<rparr> = (a, \<lparr>store = fst (store w'), metrics = metrics w'\<rparr>) \<and>
   source_world w' = (source_world w)\<lparr>metrics := metrics w'\<rparr>"
  by (auto simp: on_cache_def source_world_def split: prod.splits)

locale cached_store = link_repository src inv room all + redis_cache ca keys ready
  for src :: "'s link_repo" and inv :: "'s world \<Rightarrow> bool" and room :: "'s world \<Rightarrow> bool"
    and all :: "'s world \<Rightarrow> link_record list"
    and ca :: "'d link_cache" and keys :: "'d \<Rightarrow> string \<Rightarrow> string option" and ready :: "'d \<Rightarrow> bool" +
  assumes erase_reaches: "fst (cache_erase ca c v)"
begin

lemma cached_metrics:
  assumes "on_cache f w = (a, w')"
  shows "inv (source_world w') = inv (source_world w) \<and> all (source_world w') = all (source_world w)"
  using source_on_cache [OF assms] metrics_law by metis

lemma cached_find_view:
  assumes inv: "cached_inv ca keys inv all w"
  shows "\<exists>lr w'. cached_find ca src now c w = (Inr lr, w') \<and> cached_inv ca keys inv all w' \<and>
     all (source_world w') = all (source_world w) \<and> lookup_record lr = view (all (source_world w)) c"
proof -
  let ?rs = "all (source_world w)"
  have i: "inv (source_world w)" and co: "coherent ca keys (fst (store w)) ?rs"
    using inv by (simp_all add: cached_inv_def)
  obtain ro w1 where g: "on_cache (cache_get ca c) w = (ro, w1)" by fastforce
  note g' = source_on_cache [OF g] and gm = cached_metrics [OF g]
  have co1: "coherent ca keys (fst (store w1)) ?rs" and hit: "\<And>r. ro = Some r \<Longrightarrow> view ?rs c = Some r"
    using get_coherent [of "\<lparr>store = fst (store w), metrics = metrics w\<rparr>" ?rs c] co g' by auto
  show ?thesis
  proof (cases ro)
    case (Some r)
    then show ?thesis using g gm i co1 hit by (auto simp: cached_find_def cached_inv_def)
  next
    case None
    have i1: "inv (source_world w1)" and a1: "all (source_world w1) = ?rs" using gm i by auto
    obtain lr v where f: "repo_find src now c (source_world w1) = (Inr lr, v)" and v: "inv v" "all v = ?rs"
      and lr: "lookup_record lr = view ?rs c"
      using find_law [OF i1, of now c] a1 by auto
    obtain w2 where o: "on_source (repo_find src now c) w1 = (Inr lr, w2)"
      and w2: "source_world w2 = v" "fst (store w2) = fst (store w1)"
      using f by (auto simp: on_source_def source_world_def)
    have co2: "coherent ca keys (fst (store w2)) ?rs" using co1 w2 by simp
    show ?thesis
    proof (cases "lookup_record lr")
      case None
      then show ?thesis using g o \<open>ro = None\<close> w2 v co2 lr by (auto simp: cached_find_def cached_inv_def)
    next
      case (Some r)
      obtain b w3 where s: "on_cache (cache_set ca now r) w2 = (b, w3)" by fastforce
      have r: "view ?rs (link_code r) = Some r" using Some lr view_code by auto
      have "coherent ca keys (fst (store w3)) ?rs"
        using set_coherent [of "\<lparr>store = fst (store w2), metrics = metrics w2\<rparr>" ?rs r now] co2 r
          source_on_cache [OF s] by simp
      then show ?thesis
        using g o \<open>ro = None\<close> Some s cached_metrics [OF s] w2 v lr
        by (auto simp: cached_find_def cached_inv_def)
    qed
  qed
qed

lemma cached_update_view:
  assumes inv: "cached_inv ca keys inv all w"
  shows "\<exists>w'. cached_update ca src now c u w =
       (Inr (map_option (apply_update now u) (update_target u (view (all (source_world w)) c))), w') \<and>
     cached_inv ca keys inv all w' \<and>
     all (source_world w') = (case update_target u (view (all (source_world w)) c) of
        None \<Rightarrow> all (source_world w)
      | Some r \<Rightarrow> replace_record (apply_update now u r) (all (source_world w)))"
proof -
  let ?rs = "all (source_world w)" and ?t = "update_target u (view (all (source_world w)) c)"
  have i: "inv (source_world w)" and co: "coherent ca keys (fst (store w)) ?rs"
    using inv by (simp_all add: cached_inv_def)
  obtain v where v: "repo_update src now c u (source_world w) = (Inr (map_option (apply_update now u) ?t), v)"
    "inv v" "all v = (case ?t of None \<Rightarrow> ?rs | Some r \<Rightarrow> replace_record (apply_update now u r) ?rs)"
    using update_law [OF i, of now c u] by auto
  obtain w1 where o: "on_source (repo_update src now c u) w = (Inr (map_option (apply_update now u) ?t), w1)"
    and w1: "source_world w1 = v" "fst (store w1) = fst (store w)"
    using v(1) by (auto simp: on_source_def source_world_def)
  show ?thesis
  proof (cases ?t)
    case None
    then show ?thesis using o w1 v co by (auto simp: cached_update_def cached_inv_def)
  next
    case (Some r)
    obtain b w2 where e: "on_cache (cache_erase ca c) w1 = (b, w2)" by fastforce
    have er: "coherent ca keys (fst (store w2)) ?rs \<and>
        keys (fst (store w2)) (build_cache_key (cache_config_of ca) c) = None"
      using erase_coherent [of "\<lparr>store = fst (store w1), metrics = metrics w1\<rparr>" ?rs c]
        erase_reaches [of c "\<lparr>store = fst (store w1), metrics = metrics w1\<rparr>"] co w1(2)
        source_on_cache [OF e] by simp
    have "view ?rs c = Some r"
      using Some by (auto simp: update_target_def owned_by_def split: option.splits if_splits)
    then have "link_code (apply_update now u r) = c" using view_code by simp
    then have "coherent ca keys (fst (store w2)) (replace_record (apply_update now u r) ?rs)"
      using er unfolding coherent_def by (metis option.distinct(1) view_replace)
    then show ?thesis
      using o e Some cached_metrics [OF e] w1 v by (auto simp: cached_update_def cached_inv_def)
  qed
qed

lemma cached_create:
  assumes inv: "cached_inv ca keys inv all w" and "room (source_world w)"
    and run: "on_source (repo_create src now url ex own cu) w = (res, w')"
  shows "cached_inv ca keys inv all w'"
proof -
  have i: "inv (source_world w)" and co: "coherent ca keys (fst (store w)) (all (source_world w))"
    using inv by (simp_all add: cached_inv_def)
  have r: "repo_create src now url ex own cu (source_world w) = (res, source_world w')"
    and f: "fst (store w') = fst (store w)" using source_on_source [OF run] by auto
  note law = create_law [OF i assms(2) r]
  have "coherent ca keys (fst (store w')) (all (source_world w'))"
  proof (cases "\<exists>rec. res = Inr (Some rec)")
    case True
    then obtain rec where "res = Inr (Some rec)" by blast
    then have "view (all (source_world w')) = (view (all (source_world w)))(link_code rec \<mapsto> rec)"
      "view (all (source_world w)) (link_code rec) = None"
      using law view_append_new by auto
    then show ?thesis using co f unfolding coherent_def by (metis fun_upd_apply option.distinct(1))
  next
    case False
    then have "all (source_world w') = all (source_world w)" using law by (auto split: sum.splits option.splits)
    then show ?thesis using co f by simp
  qed
  then show ?thesis using law by (simp add: cached_inv_def)
qed

end

sublocale cached_store \<subseteq> cached: link_repository "cached_repo ca src" "cached_inv ca keys inv all"
  "\<lambda>w. room (source_world w)" "\<lambda>w. all (source_world w)"
proof (unfold_locales, goal_cases)
  case (1 m w)
  have "source_world (w\<lparr>metrics := m\<rparr>) = (source_world w)\<lparr>metrics := m\<rparr>" by (simp add: source_world_def)
  then show ?case using metrics_law by (simp add: cached_inv_def)
next
  case (2 w)
  then show ?case using ascending by (simp add: cached_inv_def)
next
  case (3 w)
  then show ?case using codes_distinct by (simp add: cached_inv_def)
next
  case (4 w now url ex own cu res w')
  then have run: "on_source (repo_create src now url ex own cu) w = (res, w')" by (simp add: cached_repo_def)
  have "inv (source_world w)" using 4(1) by (simp add: cached_inv_def)
  from create_law [OF this 4(2), of now url ex own cu res "source_world w'"]
  show ?case using cached_create [OF 4(1,2) run] source_on_source [OF run] by auto
next
  case (5 w now c)
  then show ?case using cached_find_view by (simp add: cached_repo_def)
next
  case (6 w c own)
  then have "inv (source_world w)" by (simp add: cached_inv_def)
  from owner_law [OF this, of c own] show ?case
    using 6 by (auto simp: cached_repo_def on_source_def source_world_def cached_inv_def)
next
  case (7 w q)
  then have "inv (source_world w)" by (simp add: cached_inv_def)
  from list_law [OF this, of q] show ?case
    using 7 by (auto simp: cached_repo_def on_source_def source_world_def cached_inv_def)
next
  case (8 w now c u)
  then show ?case using cached_update_view by (simp add: cached_repo_def)
qed

section \<open>Runs of a repository\<close>

fun repo_exec :: "'s link_repo \<Rightarrow> link_op \<Rightarrow> 's world \<Rightarrow> 's world" where
  "repo_exec rp (Op_create_link now url ex own cu) w = snd (repo_create rp now url ex own cu w)"
| "repo_exec rp (Op_update_link now c u) w = snd (repo_update rp now c u w)"
| "repo_exec rp (Op_find_link now c) w = snd (repo_find rp now c w)"

definition repo_run :: "'s link_repo \<Rightarrow> link_op list \<Rightarrow> 's world \<Rightarrow> 's world" where
  "repo_run rp ops w = fold (repo_exec rp) ops w"

context link_repository
begin

lemma exec_inv: "inv w \<Longrightarrow> room w \<Longrightarrow> inv (repo_exec repo a w)"
proof (cases a)
  case (Op_create_link now url ex own cu)
  assume i: "inv w" "room w"
  obtain res w' where run: "repo_create repo now url ex own cu w = (res, w')" by fastforce
  have "inv w'" using create_law [OF i run] by (rule conjunct1)
  then show ?thesis using run Op_create_link by simp
next
  case (Op_update_link now c u)
  assume "inv w"
  from update_law [OF this, of now c u] show ?thesis using Op_update_link by auto
next
  case (Op_find_link now c)
  assume "inv w"
  from find_law [OF this, of now c] show ?thesis using Op_find_link by auto
qed

lemma run_inv:
  "inv w \<Longrightarrow> (\<And>k. k < length ops \<Longrightarrow> room (repo_run repo (take k ops) w)) \<Longrightarrow> inv (repo_run repo ops w)"
proof (induction ops arbitrary: w)
  case (Cons a ops)
  have "room w" using Cons.prems(2) [of 0] by (simp add: repo_run_def)
  then have i: "inv (repo_exec repo a w)" using exec_inv Cons.prems(1) by blast
  have "room (repo_run repo (take k ops) (repo_exec repo a w))" if "k < length ops" for k
    using Cons.prems(2) [of "Suc k"] that by (simp add: repo_run_def)
  from Cons.IH [OF i this] show ?case by (simp add: repo_run_def)
qed (simp add: repo_run_def)

end

context cached_store
begin

lemma run_lookup:
  assumes "cached_inv ca keys inv all w"
    and "\<And>k. k < length ops \<Longrightarrow> room (source_world (repo_run (cached_repo ca src) (take k ops) w))"
  shows "\<exists>lr w'. repo_find (cached_repo ca src) now c (repo_run (cached_repo ca src) ops w) = (Inr lr, w') \<and>
     lookup_record lr = view (all (source_world (repo_run (cached_repo ca src) ops w))) c"
  using cached.find_law [OF cached.run_inv [OF assms], of now c] by blast

end

section \<open>A Redis for evaluation\<close>

text \<open>
  The documented behaviour of the commands on a store of its own without expiry, to show that the
  laws can hold and to evaluate the model.
\<close>

definition plain_command :: "string list \<Rightarrow> (string \<Rightarrow> string option) \<Rightarrow>
  redis_reply option \<times> (string \<Rightarrow> string option)" where
  "plain_command args d =
     (case args of
        [cmd, k] \<Rightarrow>
          if cmd = ''GET'' then (Some (case d k of None \<Rightarrow> Reply_nil | Some v \<Rightarrow> Reply_string v), d)
          else if cmd = ''DEL'' then (Some (Reply_integer (if d k = None then 0 else 1)), d(k := None))
          else if cmd = ''SELECT'' then (Some Reply_status, d)
          else (Some Reply_error, d)
      | [cmd, k, v] \<Rightarrow> if cmd = ''SET'' then (Some Reply_status, d(k \<mapsto> v)) else (Some Reply_error, d)
      | [cmd, k, t, v] \<Rightarrow> if cmd = ''SETEX'' then (Some Reply_status, d(k \<mapsto> v)) else (Some Reply_error, d)
      | _ \<Rightarrow> (Some Reply_error, d))"

definition plain_redis :: "(string \<Rightarrow> string option) redis_server" where
  "plain_redis = \<lparr>redis_connect = (\<lambda>h p d. (True, d)), redis_command = plain_command\<rparr>"

definition plain_cache :: "(string \<Rightarrow> string option) link_cache" where
  "plain_cache =
     \<lparr>cache_config_of = cache_init default_cache_config, cache_server = plain_redis, cache_metrics = True\<rparr>"

lemma plain_open: "cache_open plain_cache d = (True, d)"
  by (simp add: cache_open_def redis_open_def plain_cache_def plain_redis_def cache_init_def
      default_cache_config_def)

interpretation plain: cached_store memory_repo mem_inv mem_room mem_records plain_cache "\<lambda>d. d" "\<lambda>d. True"
proof (unfold_locales, goal_cases)
  case (1 d ok d')
  then show ?case by (simp add: plain_open)
next
  case (2 d k rep d')
  then show ?case
    by (auto simp: plain_cache_def plain_redis_def plain_command_def split: option.splits)
next
  case (3 d k rep d')
  then show ?case by (auto simp: plain_cache_def plain_redis_def plain_command_def map_le_def split: if_splits)
next
  case (4 d k t v rep d')
  then show ?case by (auto simp: plain_cache_def plain_redis_def plain_command_def)
next
  case (5 d k v rep d')
  then show ?case by (auto simp: plain_cache_def plain_redis_def plain_command_def)
next
  case (6 c v)
  have srv: "cache_server plain_cache = plain_redis" by (simp add: plain_cache_def)
  show ?case
    unfolding cache_erase_def plain_open srv by (simp add: plain_redis_def plain_command_def Let_def)
qed

text \<open>A server whose commands are recorded, to state what is sent.\<close>

definition logged :: "'d redis_server \<Rightarrow> ('d \<times> string list list) redis_server" where
  "logged srv =
     \<lparr>redis_connect = (\<lambda>h p s. case redis_connect srv h p (fst s) of (b, d) \<Rightarrow> (b, (d, snd s))),
      redis_command = (\<lambda>a s. case redis_command srv a (fst s) of (r, d) \<Rightarrow> (r, (d, snd s @ [a])))\<rparr>"

lemma logged_open:
  "cache_server ca = logged srv \<Longrightarrow> cache_open ca (d, []) = (ok, s) \<Longrightarrow> \<forall>a\<in>set (snd s). hd a = ''SELECT''"
  by (auto simp: cache_open_def redis_open_def logged_def split: prod.splits bool.splits if_splits)

lemma entry_ttl_bounds:
  assumes "cfg = cache_init cfg0" and "\<not> (case expires_at r of Some t \<Rightarrow> t - now \<le> 0 | None \<Rightarrow> False)"
  shows "1 \<le> entry_ttl cfg now r \<and> entry_ttl cfg now r \<le> 86400 \<and>
         (\<forall>t. expires_at r = Some t \<longrightarrow> now + entry_ttl cfg now r \<le> t)"
  using assms by (auto simp: entry_ttl_def cache_init_def split: option.splits if_splits)

section \<open>Properties\<close>

text \<open>The text form of a cached link reads back as the same link, for every record with a
  non-empty URL and 64-bit times, also when the URL contains the field separator; any other
  record reads back as no entry, so a cache entry is never misread as a different link.\<close>

theorem cache_entry_round_trip:
  "deserialize_link (link_code r) (serialize_link r) = (if cacheable r then Some r else None)"
  by (simp add: deserialize_serialize)

text \<open>C28: the cached repository never answers with a stale link. Start from a store whose cache
  agrees with its source, run any operations through the cached repository (lookups that fill the
  cache, updates, creates), with Redis free to fail reads and writes and to drop keys, as long as
  deletions reach it: a lookup then returns exactly the record of the source.\<close>

theorem cached_lookups_agree:
  assumes "cached_store src winv room recs ca keys ready" and "cached_inv ca keys winv recs w"
    and "\<And>k. k < length ops \<Longrightarrow> room (source_world (repo_run (cached_repo ca src) (take k ops) w))"
  shows "\<exists>lr w'. repo_find (cached_repo ca src) now c (repo_run (cached_repo ca src) ops w) = (Inr lr, w') \<and>
     lookup_record lr = view (recs (source_world (repo_run (cached_repo ca src) ops w))) c"
  using cached_store.run_lookup [OF assms(1,2)] assms(3) by blast

lemma same_store: "store (v :: 's world) = store u \<Longrightarrow> \<exists>m. v = u\<lparr>metrics := m\<rparr>"
  by (rule exI [of _ "metrics v"]) (cases v, cases u, simp)

definition sample_cached :: "((string \<Rightarrow> string option) \<times> mem_repo) world" where
  "sample_cached = \<lparr>store = (\<lambda>k. None, store sample_world), metrics = init_metrics\<rparr>"

lemma sample_cached_inv: "cached_inv plain_cache (\<lambda>d. d) mem_inv mem_records sample_cached"
  using sample_inv(1) by (simp add: cached_inv_def sample_cached_def source_world_def coherent_def mem_inv_def)

definition sample_ops :: "link_op list" where
  "sample_ops = [Op_find_link 8 ''abcd'', Op_update_link 9 ''abcd'' \<lparr>upd_status = Some Disabled,
     expires_at_provided = False, upd_expires_at = None, upd_owner = Some 2\<rparr>]"

lemma cached_lookups_agree_witness:
  "\<exists>lr w'. repo_find (cached_repo plain_cache memory_repo) 9 ''abcd''
       (repo_run (cached_repo plain_cache memory_repo) sample_ops sample_cached) = (Inr lr, w') \<and>
     lookup_record lr = view (mem_records (source_world
       (repo_run (cached_repo plain_cache memory_repo) sample_ops sample_cached))) ''abcd''"
proof (rule cached_lookups_agree [OF _ sample_cached_inv])
  show "cached_store memory_repo mem_inv mem_room mem_records plain_cache (\<lambda>d. d) (\<lambda>d. True)" ..
  fix k assume "k < length sample_ops"
  then have "k = 0 \<or> k = 1" by (auto simp: sample_ops_def)
  then show "mem_room (source_world (repo_run (cached_repo plain_cache memory_repo) (take k sample_ops) sample_cached))"
  proof
    assume "k = 1"
    have "next_id (snd (store (snd (repo_find (cached_repo plain_cache memory_repo) 8 ''abcd'' sample_cached)))) = 4"
      by (simp add: cached_repo_def cached_find_def on_cache_def on_source_def memory_repo_def on_store_def
          sample_cached_def sample_world_def split: prod.split option.split)
    then show ?thesis using \<open>k = 1\<close> by (simp add: sample_ops_def repo_run_def mem_room_def source_world_def)
  qed (simp add: repo_run_def sample_cached_def source_world_def mem_room_def sample_world_def)
qed

text \<open>A Redis outage is invisible to callers: when the cache cannot connect, a lookup through
  the cached repository answers what the source answers and leaves the source as the source does.\<close>

theorem cache_outage_transparent:
  assumes "\<And>d. \<exists>d'. cache_open ca d = (False, d')"
  shows "\<exists>m m'. fst (repo_find (cached_repo ca src) now c w) =
           fst (repo_find src now c ((source_world w)\<lparr>metrics := m\<rparr>)) \<and>
         source_world (snd (repo_find (cached_repo ca src) now c w)) =
           (snd (repo_find src now c ((source_world w)\<lparr>metrics := m\<rparr>)))\<lparr>metrics := m'\<rparr>"
proof -
  have get: "\<exists>v. cache_get ca c v0 = (None, v)" for v0
    using assms [of "store v0"] by (auto simp: cache_get_def)
  obtain v where g: "cache_get ca c \<lparr>store = fst (store w), metrics = metrics w\<rparr> = (None, v)" using get by blast
  let ?m = "metrics v"
  have sw: "\<lparr>store = snd (store w), metrics = ?m\<rparr> = (source_world w)\<lparr>metrics := ?m\<rparr>"
    by (simp add: source_world_def)
  obtain res u where f: "repo_find src now c ((source_world w)\<lparr>metrics := ?m\<rparr>) = (res, u)" by fastforce
  have step: "on_source (repo_find src now c) \<lparr>store = (store v, snd (store w)), metrics = ?m\<rparr> =
      (res, \<lparr>store = (store v, store u), metrics = metrics u\<rparr>)"
    using f sw by (simp add: on_source_def)
  show ?thesis
  proof (rule exI [of _ ?m])
    have "fst (cached_find ca src now c w) = res" and
      "store (source_world (snd (cached_find ca src now c w))) = store u"
      using g step by (auto simp: cached_find_def on_cache_def source_world_def split: sum.split option.split prod.split)
    moreover from this(2) have "\<exists>m'. source_world (snd (cached_find ca src now c w)) = u\<lparr>metrics := m'\<rparr>"
      by (rule same_store)
    ultimately show "\<exists>m'. fst (repo_find (cached_repo ca src) now c w) =
           fst (repo_find src now c ((source_world w)\<lparr>metrics := ?m\<rparr>)) \<and>
         source_world (snd (repo_find (cached_repo ca src) now c w)) =
           (snd (repo_find src now c ((source_world w)\<lparr>metrics := ?m\<rparr>)))\<lparr>metrics := m'\<rparr>"
      using f by (simp add: cached_repo_def)
  qed
qed

lemma cache_outage_transparent_witness:
  "\<exists>m m'. fst (repo_find (cached_repo (plain_cache\<lparr>cache_server := plain_redis\<lparr>redis_connect := \<lambda>h p d. (False, d)\<rparr>\<rparr>)
             memory_repo) 9 ''abcd'' sample_cached) =
           fst (repo_find memory_repo 9 ''abcd'' ((source_world sample_cached)\<lparr>metrics := m\<rparr>)) \<and>
         source_world (snd (repo_find (cached_repo (plain_cache\<lparr>cache_server := plain_redis\<lparr>redis_connect := \<lambda>h p d. (False, d)\<rparr>\<rparr>)
             memory_repo) 9 ''abcd'' sample_cached)) =
           (snd (repo_find memory_repo 9 ''abcd'' ((source_world sample_cached)\<lparr>metrics := m\<rparr>)))\<lparr>metrics := m'\<rparr>"
  by (rule cache_outage_transparent) (simp add: cache_open_def redis_open_def)

text \<open>What \<open>set\<close> sends to Redis, whatever the server answers: no entry without a time to live;
  every write is a \<open>SETEX\<close> of the entry's text under the entry's key with a time to live between
  one second and one day that ends no later than the link expires.\<close>

theorem cache_entry_lifetime:
  assumes "cache_server ca = logged srv" and "cache_config_of ca = cache_init cfg" and "store w = (d, [])"
    and "a \<in> set (snd (store (snd (cache_set ca now r w))))"
  shows "hd a = ''SELECT'' \<or> a = [''DEL'', build_cache_key (cache_config_of ca) (link_code r)] \<or>
     (\<exists>ttl. a = [''SETEX'', build_cache_key (cache_config_of ca) (link_code r), to_string_int ttl, serialize_link r] \<and>
            1 \<le> ttl \<and> ttl \<le> 86400 \<and> (\<forall>t. expires_at r = Some t \<longrightarrow> now + ttl \<le> t))"
proof -
  obtain ok s where o: "cache_open ca (store w) = (ok, s)" by (cases "cache_open ca (store w)") blast
  note sel = logged_open [OF assms(1) o [unfolded assms(3)]]
  show ?thesis
  proof (cases "case expires_at r of Some t \<Rightarrow> t - now \<le> 0 | None \<Rightarrow> False")
    case True
    then show ?thesis
      using o sel assms(1,4) by (cases ok) (auto simp: cache_set_def cache_erase_def logged_def Let_def split: prod.splits)
  next
    case False
    note b = entry_ttl_bounds [OF assms(2) False]
    let ?ttl = "entry_ttl (cache_config_of ca) now r"
    let ?a = "[''SETEX'', build_cache_key (cache_config_of ca) (link_code r), to_string_int ?ttl, serialize_link r]"
    have "snd (store (snd (cache_set ca now r w))) = (if ok then snd s @ [?a] else snd s)"
      using False o assms(1) b
      by (cases ok) (simp_all add: cache_set_def cache_write_def logged_def Let_def split: prod.split)
    then have "hd a = ''SELECT'' \<or> a = ?a" using assms(4) sel by (auto split: if_splits)
    then show ?thesis using b by blast
  qed
qed

lemma cache_entry_lifetime_witness:
  "[''SETEX'', ''shortlink:abcd'', to_string_int 11, serialize_link ((sample_link 2 2 ''abcd'')\<lparr>expires_at := Some 20\<rparr>)]
     \<in> set (snd (store (snd (cache_set \<lparr>cache_config_of = cache_init default_cache_config,
           cache_server = logged plain_redis, cache_metrics = True\<rparr> 9
         ((sample_link 2 2 ''abcd'')\<lparr>expires_at := Some 20\<rparr>) \<lparr>store = (\<lambda>k. None, []), metrics = init_metrics\<rparr>)))) \<and>
   (\<exists>ttl. to_string_int ttl = to_string_int 11 \<and> 9 + ttl \<le> 20)"
proof -
  let ?ca = "\<lparr>cache_config_of = cache_init default_cache_config, cache_server = logged plain_redis, cache_metrics = True\<rparr>"
  let ?r = "(sample_link 2 2 ''abcd'')\<lparr>expires_at := Some 20\<rparr>"
  let ?w = "\<lparr>store = (\<lambda>k. None :: string option, []), metrics = init_metrics\<rparr>"
  let ?a = "[''SETEX'', ''shortlink:abcd'', to_string_int 11, serialize_link ?r]"
  have m: "?a \<in> set (snd (store (snd (cache_set ?ca 9 ?r ?w))))"
    by (simp add: cache_set_def cache_write_def cache_open_def redis_open_def logged_def plain_redis_def
        plain_command_def cache_init_def default_cache_config_def entry_ttl_def build_cache_key_def
        sample_link_def Let_def)
  from cache_entry_lifetime [OF _ _ _ m] have "\<exists>ttl. to_string_int ttl = to_string_int 11 \<and> 9 + ttl \<le> 20"
    by (auto intro: exI [of _ 11])
  then show ?thesis using m by blast
qed

end
