(* ===== verification/RateLimiter.thy ===== *)
theory RateLimiter
  imports RedisCache
begin

text \<open>
  \<open>RateLimiter.h\<close> and \<open>RedisFixedWindowRateLimiter.h/.cpp\<close>: the fixed-window script that Redis
  runs for each check, over the three commands it calls, and the client that sends it and reads
  the reply. Redis is a parameter; what the script relies on (\<open>INCR\<close>, \<open>EXPIRE\<close>, \<open>TTL\<close> and the
  passing of time) is the named hypothesis \<open>counter_laws\<close>.
\<close>

section \<open>The limiter\<close>

datatype rate_status = Check_allowed | Check_limited | Check_error

record rate_result =
  rate_status_of :: rate_status
  retry_after :: int

record limiter_config =
  limiter_host :: string
  limiter_port :: int
  limiter_database :: int
  limiter_requests :: int
  limiter_window :: int
  limiter_prefix :: string

text \<open>The client library also sets a timeout on the connection, which may fail.\<close>

record 'd timed_redis = "'d redis_server" +
  redis_set_timeout :: "'d \<Rightarrow> bool \<times> 'd"

definition fixed_window_script_text :: string where
  "fixed_window_script_text =
     ''local current = redis.call('INCR', KEYS[1]) '' @
     ''if current == 1 then redis.call('EXPIRE', KEYS[1], ARGV[1]) end '' @
     ''local ttl = redis.call('TTL', KEYS[1]) '' @
     ''if ttl < 0 then redis.call('EXPIRE', KEYS[1], ARGV[1]); ttl = tonumber(ARGV[1]) end '' @
     ''local allowed = 0 '' @
     ''if current <= tonumber(ARGV[2]) then allowed = 1 end '' @
     ''return {allowed, ttl}''"

text \<open>\<open>static_cast<int>\<close> of a 64-bit reply: the low 32 bits, signed.\<close>

definition to_int32 :: "int \<Rightarrow> int" where
  "to_int32 i = (i + 2 ^ 31) mod 2 ^ 32 - 2 ^ 31"

definition check_failed :: rate_result where
  "check_failed = \<lparr>rate_status_of = Check_error, retry_after = 0\<rparr>"

definition read_check_reply :: "redis_reply option \<Rightarrow> rate_result" where
  "read_check_reply reply =
     (case reply of
        Some (Reply_array [Reply_integer a, Reply_integer t]) \<Rightarrow>
          \<lparr>rate_status_of = (if a = 1 then Check_allowed else Check_limited), retry_after = max 1 (to_int32 t)\<rparr>
      | _ \<Rightarrow> check_failed)"

definition rate_check :: "'d timed_redis \<Rightarrow> limiter_config \<Rightarrow> string \<Rightarrow> 'd \<Rightarrow> rate_result \<times> 'd" where
  "rate_check srv cfg key d =
     (case redis_connect srv (limiter_host cfg) (limiter_port cfg) d of
        (False, d1) \<Rightarrow> (check_failed, d1)
      | (True, d1) \<Rightarrow>
          (case redis_set_timeout srv d1 of
             (False, d2) \<Rightarrow> (check_failed, d2)
           | (True, d2) \<Rightarrow>
               (let (selected, d3) =
                      (if limiter_database cfg > 0
                       then (case redis_command srv [''SELECT'', to_string_int (limiter_database cfg)] d2 of
                               (reply, d') \<Rightarrow> (\<not> is_error_reply reply, d'))
                       else (True, d2))
                in if \<not> selected then (check_failed, d3)
                   else (case redis_command srv
                              [''EVAL'', fixed_window_script_text, ''1'', limiter_prefix cfg @ key,
                               to_string_int (limiter_window cfg), to_string_int (limiter_requests cfg)] d3 of
                           (reply, d4) \<Rightarrow> (read_check_reply reply, d4)))))"

section \<open>The script\<close>

record 'k redis_calls =
  call_incr :: "string \<Rightarrow> 'k \<Rightarrow> int \<times> 'k"
  call_expire :: "string \<Rightarrow> int \<Rightarrow> 'k \<Rightarrow> 'k"
  call_ttl :: "string \<Rightarrow> 'k \<Rightarrow> int \<times> 'k"

definition fixed_window_script ::
  "'k redis_calls \<Rightarrow> string \<Rightarrow> int \<Rightarrow> int \<Rightarrow> 'k \<Rightarrow> (int \<times> int) \<times> 'k" where
  "fixed_window_script calls key window limit k =
     (let (current, k1) = call_incr calls key k;
          k2 = (if current = 1 then call_expire calls key window k1 else k1);
          (ttl, k3) = call_ttl calls key k2;
          (ttl', k4) = (if ttl < 0 then (window, call_expire calls key window k3) else (ttl, k3));
          allowed = (if current \<le> limit then 1 else 0)
      in ((allowed, ttl'), k4))"

text \<open>
  The documented behaviour: \<open>count\<close> is the value of a counter (0 when there is no key) and \<open>left\<close>
  its remaining life in seconds (negative when it has none). \<open>pass t\<close> lets \<open>t\<close> seconds go by;
  a key whose life has run out is gone.
\<close>

definition counter_laws ::
  "'k redis_calls \<Rightarrow> ('k \<Rightarrow> string \<Rightarrow> int) \<Rightarrow> ('k \<Rightarrow> string \<Rightarrow> int) \<Rightarrow> (nat \<Rightarrow> 'k \<Rightarrow> 'k) \<Rightarrow> bool" where
  "counter_laws calls count left pass \<longleftrightarrow>
     (\<forall>key k. fst (call_incr calls key k) = count k key + 1 \<and>
        count (snd (call_incr calls key k)) key = count k key + 1 \<and>
        left (snd (call_incr calls key k)) key = (if count k key = 0 then - 1 else left k key)) \<and>
     (\<forall>key s k. 0 < s \<longrightarrow> count (call_expire calls key s k) key = count k key \<and>
        left (call_expire calls key s k) key = s) \<and>
     (\<forall>key k. fst (call_ttl calls key k) = left k key \<and> count (snd (call_ttl calls key k)) key = count k key \<and>
        left (snd (call_ttl calls key k)) key = left k key) \<and>
     (\<forall>t key k. int t < left k key \<longrightarrow>
        count (pass t k) key = count k key \<and> left (pass t k) key = left k key - int t) \<and>
     (\<forall>t key k. 0 \<le> left k key \<longrightarrow> left k key \<le> int t \<longrightarrow> count (pass t k) key = 0)"

lemma script_first:
  assumes laws: "counter_laws calls count left pass" and "0 < window" and "0 < limit" and "count k key = 0"
  shows "fst (fixed_window_script calls key window limit k) = (1, window)"
    and "count (snd (fixed_window_script calls key window limit k)) key = 1"
    and "left (snd (fixed_window_script calls key window limit k)) key = window"
proof -
  obtain n k1 where i: "call_incr calls key k = (n, k1)" by fastforce
  obtain t k3 where t: "call_ttl calls key (call_expire calls key window k1) = (t, k3)" by fastforce
  have n: "n = 1" "count k1 key = 1"
    using laws i assms(4) unfolding counter_laws_def by (metis add_0 fst_conv, metis add_0 snd_conv)
  have e: "count (call_expire calls key window k1) key = 1" "left (call_expire calls key window k1) key = window"
    using laws n(2) assms(2) unfolding counter_laws_def by metis+
  have l: "t = window" "count k3 key = 1" "left k3 key = window"
    using laws t e unfolding counter_laws_def by (metis fst_conv, metis snd_conv, metis snd_conv)
  show "fst (fixed_window_script calls key window limit k) = (1, window)"
    "count (snd (fixed_window_script calls key window limit k)) key = 1"
    "left (snd (fixed_window_script calls key window limit k)) key = window"
    using i t n l assms(2,3) by (simp_all add: fixed_window_script_def)
qed

lemma script_next:
  assumes laws: "counter_laws calls count left pass" and "0 < count k key" and "0 < left k key"
  shows "fst (fixed_window_script calls key window limit k) = (if count k key < limit then 1 else 0, left k key)"
    and "count (snd (fixed_window_script calls key window limit k)) key = count k key + 1"
    and "left (snd (fixed_window_script calls key window limit k)) key = left k key"
proof -
  obtain n k1 where i: "call_incr calls key k = (n, k1)" by fastforce
  obtain t k3 where t: "call_ttl calls key k1 = (t, k3)" by fastforce
  have n: "n = count k key + 1" "count k1 key = count k key + 1" "left k1 key = left k key"
    using laws i assms(2) unfolding counter_laws_def by (metis fst_conv, metis snd_conv, metis less_irrefl snd_conv)
  have l: "t = left k key" "count k3 key = count k key + 1" "left k3 key = left k key"
    using laws t n unfolding counter_laws_def by (metis fst_conv, metis snd_conv, metis snd_conv)
  show "fst (fixed_window_script calls key window limit k) = (if count k key < limit then 1 else 0, left k key)"
    "count (snd (fixed_window_script calls key window limit k)) key = count k key + 1"
    "left (snd (fixed_window_script calls key window limit k)) key = left k key"
    using i t n l assms(2,3) by (simp_all add: fixed_window_script_def)
qed

lemma script_bit: "fst (fst (fixed_window_script calls key window limit k)) = 0 \<or>
    fst (fst (fixed_window_script calls key window limit k)) = 1"
  by (simp add: fixed_window_script_def Let_def split: prod.split)

text \<open>A sequence of checks of one key, each after the given number of seconds.\<close>

fun run_checks ::
  "'k redis_calls \<Rightarrow> (nat \<Rightarrow> 'k \<Rightarrow> 'k) \<Rightarrow> string \<Rightarrow> int \<Rightarrow> int \<Rightarrow> nat list \<Rightarrow> 'k \<Rightarrow> (int \<times> int) list" where
  "run_checks calls pass key window limit [] k = []"
| "run_checks calls pass key window limit (g # gs) k =
     (case fixed_window_script calls key window limit (pass g k) of
        (r, k') \<Rightarrow> r # run_checks calls pass key window limit gs k')"

lemma run_checks_bits: "x \<in> set (run_checks calls pass key window limit gs k) \<Longrightarrow> fst x = 0 \<or> fst x = 1"
proof (induction gs arbitrary: k)
  case (Cons g gs)
  obtain r k' where s: "fixed_window_script calls key window limit (pass g k) = (r, k')" by (rule prod.exhaust)
  then have "fst r = 0 \<or> fst r = 1" using script_bit [of calls key window limit "pass g k"] by simp
  moreover have "x = r \<or> x \<in> set (run_checks calls pass key window limit gs k')"
    using Cons.prems s by simp
  ultimately show ?case using Cons.IH by blast
qed simp

fun window_answers :: "int \<Rightarrow> int \<Rightarrow> int \<Rightarrow> nat list \<Rightarrow> (int \<times> int) list" where
  "window_answers limit c left [] = []"
| "window_answers limit c left (g # gs) =
     (if c < limit then 1 else 0, left - int g) # window_answers limit (c + 1) (left - int g) gs"

lemma run_checks_window:
  assumes laws: "counter_laws calls count left pass"
  shows "0 < count k key \<Longrightarrow> int (sum_list gs) < left k key \<Longrightarrow>
    run_checks calls pass key window limit gs k = window_answers limit (count k key) (left k key) gs"
proof (induction gs arbitrary: k)
  case (Cons g gs)
  have p: "count (pass g k) key = count k key" "left (pass g k) key = left k key - int g"
    using laws Cons.prems(2) unfolding counter_laws_def by simp_all
  have pos: "0 < count (pass g k) key" "0 < left (pass g k) key" using p Cons.prems by simp_all
  obtain r k' where s: "fixed_window_script calls key window limit (pass g k) = (r, k')" by fastforce
  note n = script_next [OF laws pos, of window limit]
  have "run_checks calls pass key window limit gs k' = window_answers limit (count k' key) (left k' key) gs"
    by (rule Cons.IH) (use n s p Cons.prems in auto)
  then show ?case using s n p by simp
qed simp

lemma length_window_answers [simp]: "length (window_answers limit c l gs) = length gs"
  by (induction gs arbitrary: c l) simp_all

lemma window_answers_nth:
  "i < length gs \<Longrightarrow> fst (window_answers limit c l gs ! i) = (if c + int i < limit then 1 else 0) \<and>
     snd (window_answers limit c l gs ! i) = l - int (sum_list (take (Suc i) gs))"
proof (induction gs arbitrary: i c l)
  case (Cons g gs)
  then show ?case by (cases i) (auto simp: add.commute add.left_commute)
qed simp

section \<open>A key space for evaluation\<close>

definition plain_calls :: "((string \<Rightarrow> int) \<times> (string \<Rightarrow> int)) redis_calls" where
  "plain_calls =
     \<lparr>call_incr = (\<lambda>key (c, l). (c key + 1, (c(key := c key + 1), if c key = 0 then l(key := - 1) else l))),
      call_expire = (\<lambda>key s (c, l). (c, l(key := s))),
      call_ttl = (\<lambda>key (c, l). (l key, (c, l)))\<rparr>"

definition plain_pass :: "nat \<Rightarrow> (string \<Rightarrow> int) \<times> (string \<Rightarrow> int) \<Rightarrow> (string \<Rightarrow> int) \<times> (string \<Rightarrow> int)" where
  "plain_pass t s =
     ((\<lambda>key. if 0 \<le> snd s key \<and> snd s key \<le> int t then 0 else fst s key),
      (\<lambda>key. if 0 \<le> snd s key \<and> int t < snd s key then snd s key - int t else if 0 \<le> snd s key then - 1 else snd s key))"

lemma plain_counter_laws: "counter_laws plain_calls fst snd plain_pass"
  by (auto simp: counter_laws_def plain_calls_def plain_pass_def)

section \<open>Properties\<close>

text \<open>C32: the fixed window. For a key without a counter, the checks that fall into one window
  after the first one are answered as follows: exactly the first \<open>limit\<close> checks are allowed and all
  later ones are limited, and every answer carries the seconds that are left of the window, a
  positive number; the first check opens the window, a later one does not extend it.\<close>

theorem fixed_window_admits_limit:
  assumes "counter_laws calls count left pass" and "0 < window" and "0 < limit"
    and "count (pass g k) key = 0" and "int (sum_list gs) < window" and "i \<le> length gs"
  shows "let answers = run_checks calls pass key window limit (g # gs) k
         in length answers = Suc (length gs) \<and>
            (fst (answers ! i) = 1 \<longleftrightarrow> int i < limit) \<and>
            snd (answers ! i) = window - int (sum_list (take i gs)) \<and> 0 < snd (answers ! i)"
proof -
  obtain r k' where s: "fixed_window_script calls key window limit (pass g k) = (r, k')" by fastforce
  have f: "r = (1, window)" "count k' key = 1" "left k' key = window"
    using script_first [OF assms(1-4)] s by simp_all
  have rest: "run_checks calls pass key window limit gs k' = window_answers limit 1 window gs"
    using run_checks_window [OF assms(1), of k' key gs window limit] f assms(5) by simp
  have "sum_list (take i gs) \<le> sum_list gs"
    by (metis append_take_drop_id le_add1 sum_list_append)
  then have "int (sum_list (take i gs)) < window" using assms(5) by simp
  then show ?thesis
    using s f rest assms(3,6) window_answers_nth [of "i - 1" gs limit 1 window]
    by (cases i) (auto simp: Let_def)
qed

lemma fixed_window_admits_limit_witness:
  "map fst (run_checks plain_calls plain_pass ''u'' 60 2 [5, 10, 10] (\<lambda>k. 0, \<lambda>k. - 1)) = [1, 1, 0]"
proof -
  let ?a = "run_checks plain_calls plain_pass ''u'' 60 2 [5, 10, 10] (\<lambda>k. 0, \<lambda>k. - 1)"
  have h: "length ?a = 3 \<and> (fst (?a ! i) = 1 \<longleftrightarrow> int i < 2)" if "i \<le> 2" for i
    using fixed_window_admits_limit [OF plain_counter_laws, of 60 2 5 "(\<lambda>k. 0, \<lambda>k. - 1)" "''u''" "[10, 10]" i]
      that by (simp add: plain_pass_def Let_def)
  have "fst x = 0 \<or> fst x = 1" if "x \<in> set ?a" for x
    using run_checks_bits [OF that] .
  then have "fst (?a ! 2) = 0 \<or> fst (?a ! 2) = 1" using h [of 2] by (metis lessI nth_mem numeral_2_eq_2 numeral_3_eq_3 order_refl)
  then have "fst (?a ! 0) = 1" "fst (?a ! 1) = 1" "fst (?a ! 2) = 0"
    using h [of 0] h [of 1] h [of 2] by auto
  moreover obtain x y z where "?a = [x, y, z]"
    using h [of 0] by (auto simp: length_Suc_conv numeral_3_eq_3 simp del: run_checks.simps)
  ultimately show ?thesis by (simp del: run_checks.simps)
qed

text \<open>The limiter fails open. A check answers with the error result (the caller then lets the
  request through), or the connection was made and the script's reply was an array of two
  integers: then it answers allowed exactly for 1 and limited for anything else, with a retry time
  of at least one second.\<close>

theorem rate_check_result:
  "fst (rate_check srv cfg key d) = check_failed \<or>
   (fst (redis_connect srv (limiter_host cfg) (limiter_port cfg) d) \<and>
    (\<exists>d1 a t. fst (redis_command srv [''EVAL'', fixed_window_script_text, ''1'', limiter_prefix cfg @ key,
         to_string_int (limiter_window cfg), to_string_int (limiter_requests cfg)] d1) =
           Some (Reply_array [Reply_integer a, Reply_integer t]) \<and>
      rate_status_of (fst (rate_check srv cfg key d)) = (if a = 1 then Check_allowed else Check_limited) \<and>
      1 \<le> retry_after (fst (rate_check srv cfg key d))))"
proof -
  let ?eval = "redis_command srv [''EVAL'', fixed_window_script_text, ''1'', limiter_prefix cfg @ key,
         to_string_int (limiter_window cfg), to_string_int (limiter_requests cfg)]"
  have steps: "fst (rate_check srv cfg key d) = check_failed \<or>
      (fst (redis_connect srv (limiter_host cfg) (limiter_port cfg) d) \<and>
       (\<exists>d1. fst (rate_check srv cfg key d) = read_check_reply (fst (?eval d1))))"
  proof -
    obtain b1 d1 where c: "redis_connect srv (limiter_host cfg) (limiter_port cfg) d = (b1, d1)" by fastforce
    obtain b2 d2 where t: "redis_set_timeout srv d1 = (b2, d2)" by fastforce
    obtain sel d3 where s: "(if limiter_database cfg > 0
        then (case redis_command srv [''SELECT'', to_string_int (limiter_database cfg)] d2 of
                (reply, d') \<Rightarrow> (\<not> is_error_reply reply, d'))
        else (True, d2)) = (sel, d3)" by (rule prod.exhaust)
    obtain rep d4 where e: "?eval d3 = (rep, d4)" by fastforce
    have "fst (rate_check srv cfg key d) = check_failed \<or>
        (b1 \<and> fst (rate_check srv cfg key d) = read_check_reply (fst (?eval d3)))"
      unfolding rate_check_def c t prod.case Let_def s
      by (cases b1; cases b2; cases sel) (simp_all add: e)
    then show ?thesis using c by auto
  qed
  have reply: "read_check_reply r = check_failed \<or>
      (\<exists>a t. r = Some (Reply_array [Reply_integer a, Reply_integer t]) \<and>
         rate_status_of (read_check_reply r) = (if a = 1 then Check_allowed else Check_limited) \<and>
         1 \<le> retry_after (read_check_reply r))" for r
    by (simp add: read_check_reply_def split: option.split redis_reply.split list.split) blast
  show ?thesis
  proof (cases "fst (rate_check srv cfg key d) = check_failed")
    case False
    then obtain d1 where c: "fst (redis_connect srv (limiter_host cfg) (limiter_port cfg) d)"
      and d1: "fst (rate_check srv cfg key d) = read_check_reply (fst (?eval d1))"
      using steps by blast
    then obtain a t where "fst (?eval d1) = Some (Reply_array [Reply_integer a, Reply_integer t])"
      "rate_status_of (fst (rate_check srv cfg key d)) = (if a = 1 then Check_allowed else Check_limited)"
      "1 \<le> retry_after (fst (rate_check srv cfg key d))"
      using False reply [of "fst (?eval d1)"] by auto
    then show ?thesis using c by blast
  qed simp
qed

end
