(* ===== verification/JsonLib.thy ===== *)
theory JsonLib
  imports HSL_Prelude
begin

text \<open>
  The JSON library the sources use (\<open>nlohmann::json\<close>), which is not part of the repository: its
  values, the accessors the sources call, and the library itself as a parameter \<open>json_lib\<close>
  (parsing without exceptions, also with comments ignored, printing, the integer conversions of \<open>get<T>\<close>), with what the code
  relies on as the named hypothesis \<open>json_laws\<close>.
\<close>

section \<open>Values\<close>

text \<open>\<open>J_int\<close> is a number for which \<open>is_number_integer\<close> holds, \<open>J_float\<close> any other number.\<close>

datatype json =
    J_null
  | J_bool bool
  | J_int int
  | J_float nat
  | J_string string
  | J_array "json list"
  | J_object "(string \<times> json) list"

fun is_object :: "json \<Rightarrow> bool" where
  "is_object (J_object m) = True"
| "is_object _ = False"

fun json_field :: "json \<Rightarrow> string \<Rightarrow> json option" where
  "json_field (J_object m) k = map_of m k"
| "json_field _ k = None"

definition json_size :: "json \<Rightarrow> nat" where
  "json_size j = (case j of J_object m \<Rightarrow> length m | J_array js \<Rightarrow> length js | J_null \<Rightarrow> 0 | _ \<Rightarrow> 1)"

definition string_field :: "json \<Rightarrow> string \<Rightarrow> string option" where
  "string_field j k = (case json_field j k of Some (J_string s) \<Rightarrow> Some s | _ \<Rightarrow> None)"

definition int_field :: "json \<Rightarrow> string \<Rightarrow> int option" where
  "int_field j k = (case json_field j k of Some (J_int i) \<Rightarrow> Some i | _ \<Rightarrow> None)"

fun scalar :: "json \<Rightarrow> bool" where
  "scalar (J_array js) = False"
| "scalar (J_object m) = False"
| "scalar _ = True"

section \<open>The library\<close>

record json_lib =
  json_parse :: "string \<Rightarrow> json option"
  json_parse_lenient :: "string \<Rightarrow> json option"
  json_dump :: "json \<Rightarrow> exn + string"
  json_int :: "int \<Rightarrow> int"
  json_int64 :: "int \<Rightarrow> int"

text \<open>
  A printed object of scalars with distinct names parses back to an object with the same members
  (in some order), and the integer conversions are the identity on numbers in range. Printing may
  throw (a string that is not UTF-8), so nothing is said of when it succeeds.
\<close>

definition json_laws :: "json_lib \<Rightarrow> bool" where
  "json_laws L \<longleftrightarrow>
     (\<forall>m s. distinct (map fst m) \<longrightarrow> list_all scalar (map snd m) \<longrightarrow> json_dump L (J_object m) = Inr s \<longrightarrow>
        (\<exists>m'. json_parse L s = Some (J_object m') \<and> map_of m' = map_of m)) \<and>
     (\<forall>i. - (2 ^ 31) \<le> i \<longrightarrow> i < 2 ^ 31 \<longrightarrow> json_int L i = i) \<and>
     (\<forall>i. - (2 ^ 63) \<le> i \<longrightarrow> i < 2 ^ 63 \<longrightarrow> json_int64 L i = i)"

lemma json_laws_parse:
  "json_laws L \<Longrightarrow> distinct (map fst m) \<Longrightarrow> list_all scalar (map snd m) \<Longrightarrow>
   json_dump L (J_object m) = Inr s \<Longrightarrow>
   \<exists>m'. json_parse L s = Some (J_object m') \<and> map_of m' = map_of m"
  unfolding json_laws_def by blast

lemma json_laws_int:
  "json_laws L \<Longrightarrow> - (2 ^ 31) \<le> i \<Longrightarrow> i < 2 ^ 31 \<Longrightarrow> json_int L i = i"
  "json_laws L \<Longrightarrow> - (2 ^ 63) \<le> i \<Longrightarrow> i < 2 ^ 63 \<Longrightarrow> json_int64 L i = i"
  unfolding json_laws_def by blast+

text \<open>A library that knows one document, for evaluation.\<close>

definition one_document :: "json \<Rightarrow> string \<Rightarrow> json_lib" where
  "one_document j text =
     \<lparr>json_parse = (\<lambda>s. if s = text then Some j else None),
      json_parse_lenient = (\<lambda>s. if s = text then Some j else None),
      json_dump = (\<lambda>x. if x = j then Inr text else Inl (Runtime_error ''invalid UTF-8'')),
      json_int = (\<lambda>i. i), json_int64 = (\<lambda>i. i)\<rparr>"

lemma one_document_laws: "json_laws (one_document (J_object m) text)"
  by (auto simp: json_laws_def one_document_def)

end
