(* ===== verification/AccessEvents.thy ===== *)
theory AccessEvents
  imports JsonLib LinkService
begin

text \<open>
  \<open>AccessEvent.h/.cpp\<close>: the event a redirect publishes, its validity, its JSON contract (writer
  and reader with the error of each malformed payload) and the event ids, and
  \<open>AccessStatistics.h/.cpp\<close>: results that are aggregated, hour buckets and statistics queries.
\<close>

section \<open>Events\<close>

datatype access_result = Access_success | Access_not_found | Access_disabled | Access_expired | Access_error

record access_event =
  event_id :: string
  occurred_at_ms :: int
  event_request_id :: string
  event_code :: string
  event_result :: access_result
  event_http_status :: int

datatype event_parse_error = Parse_ok | Invalid_json | Unsupported_schema | Unsupported_event_type | Invalid_contract

record event_parse_result =
  parsed_event :: "access_event option"
  parse_error :: event_parse_error

definition event_schema_version :: int where
  "event_schema_version = 1"

definition event_type_name :: string where
  "event_type_name = ''short_link_access''"

definition is_event_id :: "string \<Rightarrow> bool" where
  "is_event_id v \<longleftrightarrow> length v = 32 \<and> list_all is_lower_hex v"

definition is_safe_id_char :: "char \<Rightarrow> bool" where
  "is_safe_id_char c \<longleftrightarrow>
     is_lower c \<or> is_upper c \<or> is_digit c \<or> c = CHR ''.'' \<or> c = CHR ''_'' \<or> c = CHR ''-''"

definition is_safe_request_id :: "string \<Rightarrow> bool" where
  "is_safe_request_id v \<longleftrightarrow> \<not> (v = [] \<or> length v > 64) \<and> list_all is_safe_id_char v"

fun expected_http_status :: "access_result \<Rightarrow> int" where
  "expected_http_status Access_success = 302"
| "expected_http_status Access_not_found = 404"
| "expected_http_status Access_disabled = 404"
| "expected_http_status Access_expired = 404"
| "expected_http_status Access_error = 500"

fun access_result_to_string :: "access_result \<Rightarrow> string" where
  "access_result_to_string Access_success = ''success''"
| "access_result_to_string Access_not_found = ''not_found''"
| "access_result_to_string Access_disabled = ''disabled''"
| "access_result_to_string Access_expired = ''expired''"
| "access_result_to_string Access_error = ''error''"

definition parse_access_result :: "string \<Rightarrow> access_result option" where
  "parse_access_result v =
     (if v = ''success'' then Some Access_success
      else if v = ''not_found'' then Some Access_not_found
      else if v = ''disabled'' then Some Access_disabled
      else if v = ''expired'' then Some Access_expired
      else if v = ''error'' then Some Access_error
      else None)"

definition is_valid_event :: "access_event \<Rightarrow> bool" where
  "is_valid_event e \<longleftrightarrow>
     is_event_id (event_id e) \<and> occurred_at_ms e > 0 \<and> is_safe_request_id (event_request_id e) \<and>
     event_code e \<noteq> [] \<and> length (event_code e) \<le> 128 \<and>
     event_http_status e = expected_http_status (event_result e)"

definition event_payload :: "access_event \<Rightarrow> json" where
  "event_payload e = J_object
     [(''schema_version'', J_int event_schema_version),
      (''event_type'', J_string event_type_name),
      (''event_id'', J_string (event_id e)),
      (''occurred_at_ms'', J_int (occurred_at_ms e)),
      (''request_id'', J_string (event_request_id e)),
      (''code'', J_string (event_code e)),
      (''result'', J_string (access_result_to_string (event_result e))),
      (''http_status'', J_int (event_http_status e))]"

definition serialize_event :: "json_lib \<Rightarrow> access_event \<Rightarrow> exn + string" where
  "serialize_event L e =
     (if \<not> is_valid_event e then Inl (Invalid_argument ''invalid access event'')
      else json_dump L (event_payload e))"

definition rejected :: "event_parse_error \<Rightarrow> event_parse_result" where
  "rejected err = \<lparr>parsed_event = None, parse_error = err\<rparr>"

definition parse_event_detailed :: "json_lib \<Rightarrow> string \<Rightarrow> event_parse_result" where
  "parse_event_detailed L payload =
     (case json_parse L payload of
        None \<Rightarrow> rejected Invalid_json
      | Some j \<Rightarrow>
          if \<not> is_object j then rejected Invalid_contract
          else case int_field j ''schema_version'' of
            None \<Rightarrow> rejected Invalid_contract
          | Some version \<Rightarrow>
              if json_int L version \<noteq> event_schema_version then rejected Unsupported_schema
              else case string_field j ''event_type'' of
                None \<Rightarrow> rejected Invalid_contract
              | Some ty \<Rightarrow>
                  if ty \<noteq> event_type_name then rejected Unsupported_event_type
                  else case (string_field j ''event_id'', int_field j ''occurred_at_ms'',
                             string_field j ''request_id'', string_field j ''code'',
                             string_field j ''result'', int_field j ''http_status'') of
                    (Some eid, Some ms, Some rid, Some cd, Some res, Some st) \<Rightarrow>
                      (case parse_access_result res of
                         None \<Rightarrow> rejected Invalid_contract
                       | Some r \<Rightarrow>
                           (let e = \<lparr>event_id = eid, occurred_at_ms = json_int64 L ms, event_request_id = rid,
                                     event_code = cd, event_result = r, event_http_status = json_int L st\<rparr>
                            in if \<not> is_valid_event e then rejected Invalid_contract
                               else \<lparr>parsed_event = Some e, parse_error = Parse_ok\<rparr>))
                  | _ \<Rightarrow> rejected Invalid_contract)"

definition parse_event :: "json_lib \<Rightarrow> string \<Rightarrow> access_event option" where
  "parse_event L payload = parsed_event (parse_event_detailed L payload)"

section \<open>Event ids\<close>

text \<open>
  The process nonce comes from two draws of the random device (\<open>None\<close> when it throws; then from
  the steady clock); the sequence number is the static counter.
\<close>

definition create_process_nonce :: "(32 word \<times> 32 word) option \<Rightarrow> u64 \<Rightarrow> u64" where
  "create_process_nonce draws steady =
     (case draws of
        Some (a, b) \<Rightarrow> push_bit 32 (ucast a) XOR ucast b
      | None \<Rightarrow> steady)"

record event_ids =
  process_nonce :: u64
  id_sequence :: u64

definition generate_event_id :: "event_ids \<Rightarrow> string \<times> event_ids" where
  "generate_event_id g =
     (let next = id_sequence g + 1
      in (hex_fixed 16 (unat (process_nonce g)) @ hex_fixed 16 (unat next), g\<lparr>id_sequence := next\<rparr>))"

fun generate_ids :: "nat \<Rightarrow> event_ids \<Rightarrow> string list" where
  "generate_ids 0 g = []"
| "generate_ids (Suc n) g = (case generate_event_id g of (i, g') \<Rightarrow> i # generate_ids n g')"

section \<open>Statistics\<close>

datatype stats_interval = Interval_hour | Interval_day

type_synonym result_counts = "u64 list"

record stats_query =
  from_epoch :: int
  to_epoch :: int
  query_interval :: stats_interval

record stats_summary =
  summary_counts :: result_counts
  last_access_ms :: "int option"
  last_attempt_ms :: "int option"

record trend_point =
  bucket_start :: int
  bucket_counts :: result_counts

record stats_snapshot =
  snapshot_code :: string
  snapshot_summary :: stats_summary
  snapshot_trend :: "trend_point list"

definition is_aggregated_result :: "access_result \<Rightarrow> bool" where
  "is_aggregated_result r \<longleftrightarrow> r = Access_success \<or> r = Access_disabled \<or> r = Access_expired \<or> r = Access_error"

fun stats_result_index :: "access_result \<Rightarrow> nat option" where
  "stats_result_index Access_success = Some 0"
| "stats_result_index Access_disabled = Some 1"
| "stats_result_index Access_expired = Some 2"
| "stats_result_index Access_error = Some 3"
| "stats_result_index Access_not_found = None"

definition hour_bucket_start :: "int \<Rightarrow> exn + int" where
  "hour_bucket_start ms =
     (if ms \<le> 0 then Inl (Invalid_argument ''access event timestamp must be positive'')
      else (let seconds = ms div 1000 in Inr (seconds - seconds mod 3600)))"

definition interval_to_string :: "stats_interval \<Rightarrow> string" where
  "interval_to_string i = (if i = Interval_hour then ''hour'' else ''day'')"

definition parse_interval :: "string \<Rightarrow> stats_interval option" where
  "parse_interval v = (if v = ''hour'' then Some Interval_hour else if v = ''day'' then Some Interval_day else None)"

definition bucket_seconds :: "stats_interval \<Rightarrow> int" where
  "bucket_seconds i = (if i = Interval_hour then 3600 else 3600 * 24)"

definition is_valid_stats_query :: "stats_query \<Rightarrow> bool" where
  "is_valid_stats_query q \<longleftrightarrow>
     \<not> (from_epoch q < 0 \<or> to_epoch q \<le> from_epoch q) \<and>
     \<not> (from_epoch q mod bucket_seconds (query_interval q) \<noteq> 0 \<or>
        to_epoch q mod bucket_seconds (query_interval q) \<noteq> 0) \<and>
     to_epoch q - from_epoch q \<le> (if query_interval q = Interval_hour then 31 * 86400 else 366 * 86400)"

definition attempt_count :: "result_counts \<Rightarrow> u64" where
  "attempt_count counts = foldl (+) 0 counts"

section \<open>Lemmas\<close>

lemma parse_result_to_string [simp]: "parse_access_result (access_result_to_string r) = Some r"
  by (cases r) (simp_all add: parse_access_result_def)

lemma event_eta:
  "\<lparr>event_id = event_id e, occurred_at_ms = occurred_at_ms e, event_request_id = event_request_id e,
    event_code = event_code e, event_result = event_result e,
    event_http_status = event_http_status e\<rparr> = (e :: access_event)"
  by simp

lemma valid_event_status: "is_valid_event e \<Longrightarrow> event_http_status e \<in> {302, 404, 500}"
  by (cases "event_result e") (auto simp: is_valid_event_def)

lemma parse_payload:
  assumes laws: "json_laws L" and valid: "is_valid_event e" and "in_range64": "occurred_at_ms e < 2 ^ 63"
    and m: "map_of m = map_of (case event_payload e of J_object m0 \<Rightarrow> m0)" and p: "json_parse L s = Some (J_object m)"
  shows "parse_event_detailed L s = \<lparr>parsed_event = Some e, parse_error = Parse_ok\<rparr>"
proof -
  note mm = m [unfolded event_payload_def json.case]
  have i: "json_int L 1 = 1" "json_int64 L (occurred_at_ms e) = occurred_at_ms e"
    "json_int L (event_http_status e) = event_http_status e"
    using json_laws_int [OF laws] valid "in_range64" valid_event_status [OF valid]
    by (auto simp: is_valid_event_def)
  show ?thesis
    using p i valid
    by (simp add: parse_event_detailed_def int_field_def string_field_def mm event_schema_version_def Let_def event_eta)
qed

definition parse_outcome :: "event_parse_result \<Rightarrow> bool" where
  "parse_outcome r \<longleftrightarrow> (\<exists>err. err \<noteq> Parse_ok \<and> r = rejected err) \<or>
     (\<exists>e. r = \<lparr>parsed_event = Some e, parse_error = Parse_ok\<rparr> \<and> is_valid_event e)"

lemma parse_outcome_intros:
  "parse_outcome (rejected Invalid_json)" "parse_outcome (rejected Invalid_contract)"
  "parse_outcome (rejected Unsupported_schema)" "parse_outcome (rejected Unsupported_event_type)"
  "is_valid_event e \<Longrightarrow> parse_outcome \<lparr>parsed_event = Some e, parse_error = Parse_ok\<rparr>"
  by (auto simp: parse_outcome_def)

lemma parse_event_outcome: "parse_outcome (parse_event_detailed L s)"
  unfolding parse_event_detailed_def Let_def prod.case
  by (simp add: parse_outcome_intros split: option.split)

lemma generate_id_valid: "is_event_id (fst (generate_event_id g))"
  using hex_fixed_lower_hex by (simp add: generate_event_id_def is_event_id_def Let_def)

lemma generate_ids_nth:
  "i < n \<Longrightarrow> generate_ids n g ! i =
     hex_fixed 16 (unat (process_nonce g)) @ hex_fixed 16 (unat (id_sequence g + word_of_nat (Suc i)))"
proof (induction n arbitrary: i g)
  case (Suc n)
  then show ?case
    by (cases i) (auto simp: generate_event_id_def Let_def add_ac split: prod.splits)
qed simp

lemma length_generate_ids [simp]: "length (generate_ids n g) = n"
  by (induction n arbitrary: g) (auto split: prod.split)

lemma hour_bucket:
  "0 < ms \<Longrightarrow> \<exists>b. hour_bucket_start ms = Inr b \<and> b mod 3600 = 0 \<and> 0 \<le> b \<and> b \<le> ms div 1000 \<and> ms div 1000 < b + 3600"
  by (auto simp: hour_bucket_start_def Let_def mod_diff_right_eq minus_mod_eq_mult_div intro: zmod_le_nonneg_dividend)

section \<open>Properties\<close>

definition sample_event :: access_event where
  "sample_event =
     \<lparr>event_id = hex_fixed 32 5, occurred_at_ms = 1700000000000, event_request_id = ''req-1'',
      event_code = ''abcd'', event_result = Access_success, event_http_status = 302\<rparr>"

lemma sample_event_valid: "is_valid_event sample_event"
  using hex_fixed_lower_hex [of 32 5]
  by (simp add: is_valid_event_def sample_event_def is_event_id_def is_safe_request_id_def
      is_safe_id_char_def is_lower_def is_upper_def is_digit_def)

text \<open>The event contract. What the writer sends, the reader accepts as the same event, for
  every event the writer does not reject; and every event the reader accepts is a valid one (id,
  positive time, safe request id, code length, status matching the result).\<close>

theorem event_round_trip:
  assumes "json_laws L" and "serialize_event L e = Inr s" and "occurred_at_ms e < 2 ^ 63"
  shows "parse_event_detailed L s = \<lparr>parsed_event = Some e, parse_error = Parse_ok\<rparr>"
proof -
  have v: "is_valid_event e" using assms(2) by (auto simp: serialize_event_def split: if_splits)
  then have "json_dump L (event_payload e) = Inr s" using assms(2) by (simp add: serialize_event_def)
  then obtain m where "json_parse L s = Some (J_object m)"
    and "map_of m = map_of (case event_payload e of J_object m0 \<Rightarrow> m0)"
    using json_laws_parse [OF assms(1), of "case event_payload e of J_object m0 \<Rightarrow> m0" s]
    by (auto simp: event_payload_def)
  then show ?thesis using parse_payload [OF assms(1) v assms(3)] by blast
qed

lemma event_round_trip_witness:
  "parse_event_detailed (one_document (event_payload sample_event) ''payload'') ''payload'' =
     \<lparr>parsed_event = Some sample_event, parse_error = Parse_ok\<rparr>"
proof (rule event_round_trip)
  show "json_laws (one_document (event_payload sample_event) ''payload'')"
    unfolding event_payload_def by (rule one_document_laws)
  show "serialize_event (one_document (event_payload sample_event) ''payload'') sample_event = Inr ''payload''"
    using sample_event_valid by (simp add: serialize_event_def one_document_def)
  show "occurred_at_ms sample_event < 2 ^ 63" by (simp add: sample_event_def)
qed

text \<open>The reader accepts nothing but valid events, whatever the library makes of the payload:
  an accepted event has a 32-digit lower-case hexadecimal id, a positive time, a safe request id,
  a code of 1 to 128 bytes and the HTTP status of its result, and an event is returned exactly
  when the reported error is none.\<close>

theorem accepted_events_valid:
  "(case parsed_event (parse_event_detailed L payload) of
      None \<Rightarrow> parse_error (parse_event_detailed L payload) \<noteq> Parse_ok
    | Some e \<Rightarrow> parse_error (parse_event_detailed L payload) = Parse_ok \<and> is_valid_event e \<and>
        event_http_status e \<in> {302, 404, 500})"
  using parse_event_outcome [of L payload] valid_event_status by (auto simp: parse_outcome_def rejected_def)

text \<open>Event ids. The ids a process generates are valid event ids and pairwise different,
  for as many as \<open>2^64\<close> of them.\<close>

theorem event_ids_unique:
  assumes "n \<le> 2 ^ 64"
  shows "distinct (generate_ids n g) \<and> list_all is_event_id (generate_ids n g)"
proof
  show "distinct (generate_ids n g)"
  proof (subst distinct_conv_nth, intro allI impI)
    fix i j assume ij: "i < length (generate_ids n g)" "j < length (generate_ids n g)" "i \<noteq> j"
    show "generate_ids n g ! i \<noteq> generate_ids n g ! j"
    proof
      assume "generate_ids n g ! i = generate_ids n g ! j"
      then have "hex_fixed 16 (unat (id_sequence g + word_of_nat (Suc i))) =
          hex_fixed 16 (unat (id_sequence g + word_of_nat (Suc j)))"
        using ij by (simp add: generate_ids_nth)
      moreover have "unat w < 16 ^ 16" for w :: u64 using unat_u64_less [of w] by simp
      ultimately have "unat (id_sequence g + word_of_nat (Suc i)) = unat (id_sequence g + word_of_nat (Suc j))"
        using hex_fixed_inj [of _ 16] by blast
      then have "(word_of_nat i :: u64) = word_of_nat j"
        by (simp add: word_unat_eq_iff [symmetric] unat_inj_u64)
      then show False
        using ij assms by (simp add: word_of_nat_eq_iff take_bit_nat_eq_self)
    qed
  qed
  have "is_event_id (generate_ids n g ! i)" if "i < n" for i
    using that hex_fixed_lower_hex by (simp add: generate_ids_nth is_event_id_def del: of_nat_Suc)
  then show "list_all is_event_id (generate_ids n g)" by (simp add: list_all_length)
qed

lemma event_ids_unique_witness:
  "distinct (generate_ids 3 \<lparr>process_nonce = 7, id_sequence = - 2\<rparr>)"
  using event_ids_unique [of 3 "\<lparr>process_nonce = 7, id_sequence = - 2\<rparr>"] by simp

text \<open>Statistics buckets. The hour bucket of a positive event time starts on a full hour at
  or before the event and less than an hour earlier; a valid query spans a whole number of
  buckets, at least one and at most 744 hours or 366 days.\<close>

theorem statistics_buckets:
  assumes "0 < ms" and "is_valid_stats_query q"
  shows "(\<exists>b. hour_bucket_start ms = Inr b \<and> b mod 3600 = 0 \<and> 0 \<le> b \<and> b \<le> ms div 1000 \<and> ms div 1000 < b + 3600) \<and>
     (\<exists>n. to_epoch q = from_epoch q + n * bucket_seconds (query_interval q) \<and> 1 \<le> n \<and>
          n \<le> (if query_interval q = Interval_hour then 744 else 366))"
proof (intro conjI)
  show "\<exists>b. hour_bucket_start ms = Inr b \<and> b mod 3600 = 0 \<and> 0 \<le> b \<and> b \<le> ms div 1000 \<and> ms div 1000 < b + 3600"
    using assms(1) by (rule hour_bucket)
  let ?b = "bucket_seconds (query_interval q)"
  have v: "from_epoch q < to_epoch q" "?b dvd from_epoch q" "?b dvd to_epoch q"
    "to_epoch q - from_epoch q \<le> (if query_interval q = Interval_hour then 31 * 86400 else 366 * 86400)"
    using assms(2) by (auto simp: is_valid_stats_query_def)
  have "?b dvd to_epoch q - from_epoch q" by (rule dvd_diff [OF v(3,2)])
  then obtain n where n: "to_epoch q - from_epoch q = ?b * n" by (rule dvdE)
  have b: "0 < ?b" by (simp add: bucket_seconds_def)
  have "0 < ?b * n" using v(1) n by linarith
  then have "1 \<le> n" using b by (simp add: zero_less_mult_iff)
  moreover have "n \<le> (if query_interval q = Interval_hour then 744 else 366)"
    using v(4) n by (auto simp: bucket_seconds_def split: if_splits)
  moreover have "to_epoch q = from_epoch q + n * ?b" using n by (simp add: mult.commute)
  ultimately show "\<exists>n. to_epoch q = from_epoch q + n * ?b \<and> 1 \<le> n \<and>
      n \<le> (if query_interval q = Interval_hour then 744 else 366)" by blast
qed

lemma statistics_buckets_witness:
  "\<exists>b. hour_bucket_start 7300000 = Inr b \<and> b mod 3600 = 0 \<and> b \<le> 7300 \<and> 7300 < b + 3600"
  using statistics_buckets [of 7300000 "\<lparr>from_epoch = 0, to_epoch = 3600, query_interval = Interval_hour\<rparr>"]
  by (auto simp: is_valid_stats_query_def bucket_seconds_def)

end
