(* ===== verification/HttpMessages.thy ===== *)
theory HttpMessages
  imports HSL_Prelude
begin

text \<open>
  \<open>HttpRequest.h/.cpp\<close>, \<open>HttpResponse.h/.cpp\<close>, \<open>JsonUtil.h\<close> and \<open>RequestId.h/.cpp\<close> of the HTTP
  server: requests with their parameters and case-insensitive header lookup, responses and their
  text on the wire, the escaping of JSON strings, and request ids.
\<close>

section \<open>Requests\<close>

datatype http_method = M_invalid | M_get | M_post | M_head | M_put | M_delete | M_options

record http_request =
  req_method :: http_method
  req_version :: string
  req_path :: string
  path_params :: "(string \<times> string) list"
  query_params :: "(string \<times> string) list"
  receive_time :: int
  req_headers :: "(string \<times> string) list"
  request_id :: string
  req_body :: string
  content_length :: u64

definition init_request :: http_request where
  "init_request = \<lparr>req_method = M_invalid, req_version = ''Unknown'', req_path = [], path_params = [],
     query_params = [], receive_time = 0, req_headers = [], request_id = [], req_body = [],
     content_length = 0\<rparr>"

definition parse_method :: "string \<Rightarrow> http_method" where
  "parse_method m =
     (if m = ''GET'' then M_get
      else if m = ''POST'' then M_post
      else if m = ''PUT'' then M_put
      else if m = ''DELETE'' then M_delete
      else if m = ''OPTIONS'' then M_options
      else M_invalid)"

definition set_method :: "string \<Rightarrow> http_request \<Rightarrow> bool \<times> http_request" where
  "set_method m r = (parse_method m \<noteq> M_invalid, r\<lparr>req_method := parse_method m\<rparr>)"

definition set_path_parameter :: "string \<Rightarrow> string \<Rightarrow> http_request \<Rightarrow> http_request" where
  "set_path_parameter k v r = r\<lparr>path_params := AList.update k v (path_params r)\<rparr>"

definition param_value :: "string \<Rightarrow> (string \<times> string) list \<Rightarrow> string" where
  "param_value k m = (case map_of m k of Some v \<Rightarrow> v | None \<Rightarrow> [])"

definition get_path_parameter :: "string \<Rightarrow> http_request \<Rightarrow> string" where
  "get_path_parameter k r = param_value k (path_params r)"

definition get_query_parameter :: "string \<Rightarrow> http_request \<Rightarrow> string" where
  "get_query_parameter k r = param_value k (query_params r)"

text \<open>One \<open>name=value\<close> piece; a piece without \<open>=\<close> is dropped.\<close>

definition put_pair :: "string \<Rightarrow> (string \<times> string) list \<Rightarrow> (string \<times> string) list" where
  "put_pair piece m =
     (case cut_at CHR ''='' piece of
        (k, Some v) \<Rightarrow> AList.update k v m
      | (k, None) \<Rightarrow> m)"

function split_query :: "string \<Rightarrow> (string \<times> string) list \<Rightarrow> (string \<times> string) list" where
  "split_query s m =
     (case cut_at CHR ''&'' s of
        (piece, None) \<Rightarrow> put_pair piece m
      | (piece, Some rest) \<Rightarrow> split_query rest (put_pair piece m))"
  by pat_completeness auto
termination
  by (relation "measure (\<lambda>(s, m). length s)") (auto dest: cut_at_shorter [OF sym])

declare split_query.simps [simp del]

definition set_query_parameters :: "string \<Rightarrow> http_request \<Rightarrow> http_request" where
  "set_query_parameters s r = r\<lparr>query_params := split_query s (query_params r)\<rparr>"

definition trim_right :: "string \<Rightarrow> string" where
  "trim_right s = rev (dropWhile is_space (rev s))"

text \<open>The header text: name, and the value between the colon and the end of the line.\<close>

definition add_request_header :: "string \<Rightarrow> string \<Rightarrow> http_request \<Rightarrow> http_request" where
  "add_request_header key value r =
     r\<lparr>req_headers := omap_put key (trim_right (dropWhile is_space value)) (req_headers r)\<rparr>"

definition equals_ignore_case :: "string \<Rightarrow> string \<Rightarrow> bool" where
  "equals_ignore_case a b \<longleftrightarrow> length a = length b \<and> list_all2 (\<lambda>x y. to_lower x = to_lower y) a b"

definition header_value :: "string \<Rightarrow> (string \<times> string) list \<Rightarrow> string" where
  "header_value field hs =
     (case map_of hs field of
        Some v \<Rightarrow> v
      | None \<Rightarrow> (case find (\<lambda>(k, v). equals_ignore_case k field) hs of
                  Some (k, v) \<Rightarrow> v
                | None \<Rightarrow> []))"

definition get_header :: "string \<Rightarrow> http_request \<Rightarrow> string" where
  "get_header field r = header_value field (req_headers r)"

lemma equals_ignore_case_iff: "equals_ignore_case a b \<longleftrightarrow> lower_string a = lower_string b"
proof
  assume "equals_ignore_case a b"
  then show "lower_string a = lower_string b"
    by (simp add: equals_ignore_case_def lower_string_def list_all2_conv_all_nth list_eq_iff_nth_eq)
next
  assume "lower_string a = lower_string b"
  moreover from this have "length a = length b" by (metis length_lower_string)
  ultimately show "equals_ignore_case a b"
    by (simp add: equals_ignore_case_def lower_string_def list_all2_conv_all_nth list_eq_iff_nth_eq)
qed

section \<open>JSON strings\<close>

fun escape_json_string :: "string \<Rightarrow> string" where
  "escape_json_string [] = []"
| "escape_json_string (c # s) =
     (if c = CHR 0x5C then [CHR 0x5C, CHR 0x5C]
      else if c = CHR 0x22 then [CHR 0x5C, CHR 0x22]
      else if c = CHR 0x0A then [CHR 0x5C, CHR ''n'']
      else if c = CHR 0x0D then [CHR 0x5C, CHR ''r'']
      else if c = CHR 0x09 then [CHR 0x5C, CHR ''t'']
      else [c]) @ escape_json_string s"

text \<open>
  The reading of a string literal of JSON after its opening quote: the content and the text after
  the closing quote. \<open>None\<close> for an escape other than the five the writer uses.
\<close>

fun read_json_string :: "string \<Rightarrow> (string \<times> string) option" where
  "read_json_string [] = None"
| "read_json_string (c # s) =
     (if c = CHR 0x22 then Some ([], s)
      else if c = CHR 0x5C then
        (case s of
           [] \<Rightarrow> None
         | d # s' \<Rightarrow>
             (case (if d = CHR 0x5C then Some (CHR 0x5C) else if d = CHR 0x22 then Some (CHR 0x22)
                    else if d = CHR ''n'' then Some (CHR 0x0A) else if d = CHR ''r'' then Some (CHR 0x0D)
                    else if d = CHR ''t'' then Some (CHR 0x09) else None) of
                None \<Rightarrow> None
              | Some e \<Rightarrow> map_option (\<lambda>(u, r). (e # u, r)) (read_json_string s')))
      else map_option (\<lambda>(u, r). (c # u, r)) (read_json_string s))"

lemma read_escaped: "read_json_string (escape_json_string s @ CHR 0x22 # rest) = Some (s, rest)"
  by (induction s) auto

section \<open>Responses\<close>

record http_response =
  resp_version :: string
  status_code :: int
  status_message :: string
  close_connection :: bool
  resp_headers :: "(string \<times> string) list"
  route_pattern :: string
  resp_body :: string
  is_file :: bool

definition init_response :: "bool \<Rightarrow> http_response" where
  "init_response close = \<lparr>resp_version = ''HTTP/1.1'', status_code = 0, status_message = [],
     close_connection = close, resp_headers = [], route_pattern = [], resp_body = [], is_file = False\<rparr>"

definition add_header :: "string \<Rightarrow> string \<Rightarrow> http_response \<Rightarrow> http_response" where
  "add_header k v r = r\<lparr>resp_headers := omap_put k v (resp_headers r)\<rparr>"

definition set_content_type :: "string \<Rightarrow> http_response \<Rightarrow> http_response" where
  "set_content_type t = add_header ''Content-Type'' t"

definition set_content_length :: "u64 \<Rightarrow> http_response \<Rightarrow> http_response" where
  "set_content_length n = add_header ''Content-Length'' (to_string_u64 n)"

definition set_status :: "int \<Rightarrow> string \<Rightarrow> http_response \<Rightarrow> http_response" where
  "set_status code msg r = r\<lparr>status_code := code, status_message := msg\<rparr>"

definition set_json_body :: "string \<Rightarrow> http_response \<Rightarrow> http_response" where
  "set_json_body body r =
     (set_content_length (word_of_nat (length body))
        (set_content_type ''application/json; charset=utf-8'' r))\<lparr>resp_body := body\<rparr>"

definition error_body :: "string \<Rightarrow> string \<Rightarrow> string" where
  "error_body code msg =
     ''{'' @ [CHR 0x22] @ ''error'' @ [CHR 0x22] @ '':{'' @ [CHR 0x22] @ ''code'' @ [CHR 0x22] @ '':'' @ [CHR 0x22] @
     escape_json_string code @ [CHR 0x22] @ '','' @ [CHR 0x22] @ ''message'' @ [CHR 0x22] @ '':'' @ [CHR 0x22] @
     escape_json_string msg @ [CHR 0x22] @ ''}}''"

definition set_error_response :: "int \<Rightarrow> string \<Rightarrow> string \<Rightarrow> http_response \<Rightarrow> http_response" where
  "set_error_response code err msg r = set_json_body (error_body err msg) (set_status code msg r)"

definition set_redirect :: "string \<Rightarrow> http_response \<Rightarrow> http_response" where
  "set_redirect location r =
     (set_content_length 0 (add_header ''Location'' location (set_status 302 ''Found'' r)))\<lparr>resp_body := []\<rparr>"

definition set_status_line :: "string \<Rightarrow> int \<Rightarrow> string \<Rightarrow> http_response \<Rightarrow> http_response" where
  "set_status_line v code msg r = r\<lparr>resp_version := v, status_code := code, status_message := msg\<rparr>"

definition crlf :: string where
  "crlf = [CHR 0x0D, CHR 0x0A]"

text \<open>The 32-byte buffer of \<open>snprintf\<close> keeps 31 characters.\<close>

definition status_prefix :: "http_response \<Rightarrow> string" where
  "status_prefix r = take 31 (resp_version r @ '' '' @ to_string_int (status_code r) @ '' '')"

definition header_line :: "string \<times> string \<Rightarrow> string" where
  "header_line h = fst h @ '': '' @ snd h"

definition append_response :: "http_response \<Rightarrow> string" where
  "append_response r =
     status_prefix r @ status_message r @ crlf @
     (if close_connection r then ''Connection: close'' @ crlf else ''Connection: Keep-Alive'' @ crlf) @
     concat (map (\<lambda>h. header_line h @ crlf) (resp_headers r)) @ crlf @ resp_body r"

text \<open>
  A handler reads the request, modifies the response and the state of the server, and may throw
  (\<open>Some e\<close>); what it did before throwing is kept.
\<close>

type_synonym 'w handler = "http_request \<Rightarrow> http_response \<Rightarrow> 'w \<Rightarrow> exn option \<times> http_response \<times> 'w"

section \<open>Reading a response\<close>

text \<open>A line ends at the first \<open>CR LF\<close>, the head at the first empty line.\<close>

fun read_line :: "string \<Rightarrow> (string \<times> string) option" where
  "read_line [] = None"
| "read_line (c # s) =
     (if starts_with crlf (c # s) then Some ([], tl s)
      else map_option (\<lambda>(u, r). (c # u, r)) (read_line s))"

lemma read_line_shorter: "read_line s = Some (u, r) \<Longrightarrow> length r < length s"
proof (induction s arbitrary: u)
  case (Cons c s)
  then show ?case by (cases "starts_with crlf (c # s)") fastforce+
qed simp

function read_head :: "string \<Rightarrow> (string list \<times> string) option" where
  "read_head s =
     (case read_line s of
        None \<Rightarrow> None
      | Some (u, r) \<Rightarrow> if u = [] then Some ([], r) else map_option (\<lambda>(ls, b). (u # ls, b)) (read_head r))"
  by pat_completeness auto
termination
  by (relation "measure length") (auto dest: read_line_shorter)

declare read_head.simps [simp del]

definition no_line_break :: "string \<Rightarrow> bool" where
  "no_line_break s \<longleftrightarrow> CHR 0x0D \<notin> set s \<and> CHR 0x0A \<notin> set s"

lemma read_line_crlf: "no_line_break u \<Longrightarrow> read_line (u @ crlf @ r) = Some (u, r)"
  by (induction u) (auto simp: no_line_break_def crlf_def)

lemma read_head_line:
  "no_line_break u \<Longrightarrow> u \<noteq> [] \<Longrightarrow> read_head (u @ crlf @ r) = map_option (\<lambda>(ls, b). (u # ls, b)) (read_head r)"
  by (subst read_head.simps) (simp add: read_line_crlf)

lemma read_head_empty: "read_head (crlf @ b) = Some ([], b)"
  using read_line_crlf [of "[]" b] by (subst read_head.simps) (simp add: no_line_break_def)

lemma read_head_lines:
  "\<forall>u\<in>set ls. no_line_break u \<and> u \<noteq> [] \<Longrightarrow>
   read_head (concat (map (\<lambda>u. u @ crlf) ls) @ crlf @ b) = Some (ls, b)"
  by (induction ls) (simp_all add: read_head_line read_head_empty)

definition response_lines :: "http_response \<Rightarrow> string list" where
  "response_lines r =
     (status_prefix r @ status_message r) #
     (if close_connection r then ''Connection: close'' else ''Connection: Keep-Alive'') #
     map header_line (resp_headers r)"

lemma append_response_lines:
  "append_response r = concat (map (\<lambda>u. u @ crlf) (response_lines r)) @ crlf @ resp_body r"
  by (simp add: append_response_def response_lines_def comp_def)

definition clean_response :: "http_response \<Rightarrow> bool" where
  "clean_response r \<longleftrightarrow> resp_version r \<noteq> [] \<and> no_line_break (resp_version r) \<and> no_line_break (status_message r) \<and>
     (\<forall>h\<in>set (resp_headers r). no_line_break (fst h) \<and> no_line_break (snd h))"

lemma no_line_break_append [simp]: "no_line_break (a @ b) \<longleftrightarrow> no_line_break a \<and> no_line_break b"
  by (auto simp: no_line_break_def)

lemma no_line_break_Cons [simp]:
  "no_line_break (c # s) \<longleftrightarrow> c \<noteq> CHR 0x0D \<and> c \<noteq> CHR 0x0A \<and> no_line_break s"
  by (auto simp: no_line_break_def)

lemma no_line_break_Nil [simp]: "no_line_break []"
  by (simp add: no_line_break_def)

lemma no_line_break_take: "no_line_break s \<Longrightarrow> no_line_break (take n s)"
  by (auto simp: no_line_break_def dest: in_set_takeD)

lemma no_line_break_int: "no_line_break (to_string_int i)"
  by (simp add: no_line_break_def to_string_int_no_char is_digit_def)

lemma clean_lines: "clean_response r \<Longrightarrow> \<forall>u\<in>set (response_lines r). no_line_break u \<and> u \<noteq> []"
proof -
  assume c: "clean_response r"
  have lit: "no_line_break '' ''" "no_line_break '': ''" "no_line_break ''Connection: close''"
    "no_line_break ''Connection: Keep-Alive''"
    by (simp_all add: no_line_break_def)
  have "no_line_break (status_prefix r)"
    unfolding status_prefix_def
    using c lit no_line_break_int by (intro no_line_break_take) (simp add: clean_response_def)
  moreover have "status_prefix r \<noteq> []" using c by (simp add: status_prefix_def clean_response_def)
  moreover have "\<forall>h\<in>set (resp_headers r). no_line_break (header_line h) \<and> header_line h \<noteq> []"
    using c lit by (simp add: header_line_def clean_response_def)
  ultimately show ?thesis using c lit by (simp add: response_lines_def clean_response_def)
qed

section \<open>Request ids\<close>

definition is_request_id_char :: "char \<Rightarrow> bool" where
  "is_request_id_char c \<longleftrightarrow>
     is_lower c \<or> is_upper c \<or> is_digit c \<or> c = CHR ''.'' \<or> c = CHR ''_'' \<or> c = CHR ''-''"

definition is_valid_request_id :: "string \<Rightarrow> bool" where
  "is_valid_request_id v \<longleftrightarrow> \<not> (v = [] \<or> length v > 64) \<and> list_all is_request_id_char v"

record request_ids =
  request_nonce :: u64
  request_sequence :: u64

definition request_process_nonce :: "(32 word \<times> 32 word) option \<Rightarrow> u64 \<Rightarrow> u64" where
  "request_process_nonce draws steady =
     (case draws of Some (a, b) \<Rightarrow> push_bit 32 (ucast a) XOR ucast b | None \<Rightarrow> steady)"

definition generate_request_id :: "request_ids \<Rightarrow> string \<times> request_ids" where
  "generate_request_id g =
     (let next = request_sequence g + 1
      in (hex_fixed 16 (unat (request_nonce g)) @ hex_fixed 16 (unat next), g\<lparr>request_sequence := next\<rparr>))"

lemma lower_hex_request_char: "is_lower_hex c \<Longrightarrow> is_request_id_char c"
  by (auto simp: is_lower_hex_def is_request_id_char_def is_lower_def less_eq_char_iff)

lemma generated_request_id_valid [simp]: "is_valid_request_id (fst (generate_request_id g))"
proof -
  have "list_all is_request_id_char (hex_fixed k n)" for k n
    using hex_fixed_lower_hex [of k n] lower_hex_request_char by (auto simp: list_all_iff)
  moreover have "hex_fixed 16 n \<noteq> []" for n by (metis length_hex_fixed list.size(3) zero_neq_numeral)
  ultimately show ?thesis by (simp add: generate_request_id_def is_valid_request_id_def Let_def)
qed

lemma valid_request_id_no_break: "is_valid_request_id v \<Longrightarrow> no_line_break v"
proof -
  assume "is_valid_request_id v"
  then have "\<forall>c\<in>set v. is_request_id_char c" by (simp add: is_valid_request_id_def list_all_iff)
  moreover have "\<not> is_request_id_char CHR 0x0D" "\<not> is_request_id_char CHR 0x0A"
    by (simp_all add: is_request_id_char_def is_lower_def is_upper_def is_digit_def)
  ultimately show ?thesis unfolding no_line_break_def by blast
qed

section \<open>Properties\<close>

text \<open>Error bodies cannot be broken out of: a JSON reader that starts after the opening quote
  of the escaped text finds the closing quote exactly where the writer put it and reads back the
  original characters, whatever they are.\<close>

theorem escaped_string_reads_back:
  "read_json_string (escape_json_string s @ CHR 0x22 # rest) = Some (s, rest)"
  by (rule read_escaped)

text \<open>A response is framed as written: when its version, status message and headers contain
  no line break, a reader of the wire text finds exactly the status line, the \<open>Connection\<close> line and
  one line per header, and then the body.\<close>

theorem response_framing:
  assumes "clean_response r"
  shows "read_head (append_response r) = Some (response_lines r, resp_body r)"
  unfolding append_response_lines by (rule read_head_lines) (rule clean_lines [OF assms])

lemma response_framing_witness:
  "read_head (append_response (set_error_response 404 ''not_found'' ''Not Found'' (init_response True))) \<noteq> None"
  using response_framing [of "set_error_response 404 ''not_found'' ''Not Found'' (init_response True)"]
  by (simp add: clean_response_def set_error_response_def set_json_body_def set_content_length_def
      set_content_type_def add_header_def set_status_def init_response_def no_line_break_def
      to_string_u64_def dec_string_no_char is_digit_def)

text \<open>Header names are case-insensitive: two spellings of a name read the same value, as long
  as the request does not carry the same header in two spellings.\<close>

theorem header_lookup_ignores_case:
  assumes "lower_string f = lower_string g" and "distinct (map (lower_string \<circ> fst) (req_headers r))"
  shows "get_header f r = get_header g r"
proof -
  have val: "header_value x hs = (case find (\<lambda>(k, v). lower_string k = lower_string x) hs of
      Some (k, v) \<Rightarrow> v | None \<Rightarrow> [])" if "distinct (map (lower_string \<circ> fst) hs)" for x and hs :: "(string \<times> string) list"
    using that
  proof (induction hs)
    case (Cons h hs)
    obtain k v where h: "h = (k, v)" by fastforce
    have "map_of hs x \<noteq> None \<Longrightarrow> lower_string x \<in> (lower_string \<circ> fst) ` set hs"
      by (force dest: map_of_SomeD)
    moreover have "lower_string k \<notin> (lower_string \<circ> fst) ` set hs" using Cons.prems h by simp
    ultimately have "lower_string k = lower_string x \<Longrightarrow> map_of hs x = None" by metis
    then show ?case
      using Cons h by (auto simp: header_value_def equals_ignore_case_iff split: option.splits)
  qed (simp add: header_value_def)
  show ?thesis using val [OF assms(2), of f] val [OF assms(2), of g] assms(1) by (simp add: get_header_def)
qed

lemma header_lookup_ignores_case_witness:
  "get_header ''x-request-id'' (add_request_header ''X-Request-ID'' '' abc '' init_request) =
   get_header ''X-REQUEST-ID'' (add_request_header ''X-Request-ID'' '' abc '' init_request)"
proof (rule header_lookup_ignores_case)
  show "lower_string ''x-request-id'' = lower_string ''X-REQUEST-ID''" by code_simp
qed (simp add: add_request_header_def init_request_def)

end
