(* ===== verification/Passwords.thy ===== *)
theory Passwords
  imports HSL_Prelude
begin

text \<open>
  \<open>PasswordHasher.h/.cpp\<close>: password hashes in their encoded form. The OpenSSL functions (random
  bytes, scrypt, SHA-256) are a parameter; what the code relies on is that they return as many bytes
  as asked for (\<open>crypto_laws\<close>). The secrecy of the hashes is not modelled.
\<close>

section \<open>The cryptographic library\<close>

record 'c crypto_lib =
  rand_bytes :: "nat \<Rightarrow> 'c \<Rightarrow> byte list option \<times> 'c"
  scrypt :: "string \<Rightarrow> byte list \<Rightarrow> u64 \<Rightarrow> u64 \<Rightarrow> u64 \<Rightarrow> u64 \<Rightarrow> nat \<Rightarrow> byte list option"
  sha256 :: "string \<Rightarrow> byte list option"

definition crypto_laws :: "'c crypto_lib \<Rightarrow> bool" where
  "crypto_laws C \<longleftrightarrow>
     (\<forall>k c bs c'. rand_bytes C k c = (Some bs, c') \<longrightarrow> length bs = k) \<and>
     (\<forall>pw salt n r p mem k bs. scrypt C pw salt n r p mem k = Some bs \<longrightarrow> length bs = k) \<and>
     (\<forall>s bs. sha256 C s = Some bs \<longrightarrow> length bs = 32)"

lemma rand_length: "crypto_laws C \<Longrightarrow> rand_bytes C k c = (Some bs, c') \<Longrightarrow> length bs = k"
  unfolding crypto_laws_def by blast

lemma scrypt_length: "crypto_laws C \<Longrightarrow> scrypt C pw salt n r p mem k = Some bs \<Longrightarrow> length bs = k"
  unfolding crypto_laws_def by blast

lemma sha256_length: "crypto_laws C \<Longrightarrow> sha256 C s = Some bs \<Longrightarrow> length bs = 32"
  unfolding crypto_laws_def by blast

section \<open>Hexadecimal\<close>

definition hex_digit_value :: "char \<Rightarrow> int" where
  "hex_digit_value c =
     (if CHR ''0'' \<le> c \<and> c \<le> CHR ''9'' then of_char c - 48
      else if CHR ''a'' \<le> c \<and> c \<le> CHR ''f'' then of_char c - 97 + 10
      else if CHR ''A'' \<le> c \<and> c \<le> CHR ''F'' then of_char c - 65 + 10
      else - 1)"

fun from_hex_pairs :: "string \<Rightarrow> byte list option" where
  "from_hex_pairs (h # l # s) =
     (let high = hex_digit_value h; low = hex_digit_value l
      in if high < 0 \<or> low < 0 then None
         else map_option ((#) (word_of_int (push_bit 4 high OR low))) (from_hex_pairs s))"
| "from_hex_pairs s = Some []"

definition from_hex :: "string \<Rightarrow> byte list option" where
  "from_hex s = (if length s mod 2 \<noteq> 0 then None else from_hex_pairs s)"

lemma hex_digit_values: "list_all (\<lambda>n. hex_digit_value (hex_char n) = int n) [0..<16]"
  by code_simp

lemma hex_digit_value_char: "n < 16 \<Longrightarrow> hex_digit_value (hex_char n) = int n"
  using hex_digit_values by (simp add: list_all_iff)

lemma byte_halves:
  fixes b :: byte
  shows "unat (drop_bit 4 b) < 16" and "unat (b AND 15) < 16"
    and "word_of_int (push_bit 4 (int (unat (drop_bit 4 b))) OR int (unat (b AND 15))) = b"
proof -
  have b: "unat b < 256" using unsigned_less [of b, where ?'a = nat] by simp
  have hi: "unat (drop_bit 4 b) = unat b div 16" unfolding unat_drop_bit_eq by (simp only: drop_bit_eq_div power_numeral) simp
  have "b AND 15 = take_bit 4 b" by (simp add: take_bit_eq_mask mask_numeral)
  then have lo: "unat (b AND 15) = unat b mod 16" by (simp add: take_bit_eq_mod unat_mod_distrib)
  show "unat (drop_bit 4 b) < 16" "unat (b AND 15) < 16" using b hi lo by simp_all
  have "push_bit 4 (int (unat b div 16)) OR int (unat b mod 16) = int (unat b)"
  proof -
    have "push_bit 4 (drop_bit 4 (int (unat b))) OR take_bit 4 (int (unat b)) = int (unat b)"
      by (rule bit_eqI) (auto simp: bit_or_iff bit_push_bit_iff bit_drop_bit_eq bit_take_bit_iff)
    then show ?thesis by (simp add: drop_bit_eq_div take_bit_eq_mod of_nat_div of_nat_mod)
  qed
  then show "word_of_int (push_bit 4 (int (unat (drop_bit 4 b))) OR int (unat (b AND 15))) = b"
    unfolding hi lo by simp
qed

lemma from_hex_pairs_to_hex: "from_hex_pairs (to_hex bs) = Some bs"
proof (induction bs)
  case (Cons b bs)
  then show ?case using byte_halves [of b] by (simp add: hex_digit_value_char Let_def)
qed simp

lemma from_hex_to_hex [simp]: "from_hex (to_hex bs) = Some bs"
  by (simp add: from_hex_def from_hex_pairs_to_hex)

lemma to_hex_inj: "to_hex a = to_hex b \<longleftrightarrow> a = b"
  by (metis from_hex_to_hex option.inject)

lemma to_hex_lower: "list_all is_lower_hex (to_hex bs)"
  using byte_halves by (induction bs) auto

section \<open>Splitting\<close>

function split_on :: "char \<Rightarrow> string \<Rightarrow> string list" where
  "split_on c s = (case cut_at c s of (u, None) \<Rightarrow> [u] | (u, Some rest) \<Rightarrow> u # split_on c rest)"
  by pat_completeness auto
termination
  by (relation "measure (\<lambda>(c, s). length s)") (auto dest: cut_at_shorter [OF sym])

declare split_on.simps [simp del]

lemma split_on_cons: "c \<notin> set u \<Longrightarrow> split_on c (u @ c # s) = u # split_on c s"
  by (subst split_on.simps) (simp add: cut_at_append)

lemma split_on_last: "c \<notin> set u \<Longrightarrow> split_on c u = [u]"
  by (subst split_on.simps) (simp add: cut_at_none)

section \<open>Password hashes\<close>

definition scrypt_n :: u64 where "scrypt_n = 32768"
definition scrypt_r :: u64 where "scrypt_r = 8"
definition scrypt_p :: u64 where "scrypt_p = 1"
definition scrypt_max_memory :: u64 where "scrypt_max_memory = 64 * 1024 * 1024"

definition derive :: "'c crypto_lib \<Rightarrow> string \<Rightarrow> byte list \<Rightarrow> u64 \<Rightarrow> u64 \<Rightarrow> u64 \<Rightarrow> byte list option" where
  "derive C pw salt n r p = scrypt C pw salt n r p scrypt_max_memory 32"

definition hash_password :: "'c crypto_lib \<Rightarrow> string \<Rightarrow> 'c \<Rightarrow> string option \<times> 'c" where
  "hash_password C pw c =
     (case rand_bytes C 16 c of
        (None, c') \<Rightarrow> (None, c')
      | (Some salt, c') \<Rightarrow>
          (case derive C pw salt scrypt_n scrypt_r scrypt_p of
             None \<Rightarrow> (None, c')
           | Some derived \<Rightarrow>
               (Some (''scrypt$'' @ to_string_u64 scrypt_n @ ''$'' @ to_string_u64 scrypt_r @ ''$'' @
                      to_string_u64 scrypt_p @ ''$'' @ to_hex salt @ ''$'' @ to_hex derived), c')))"

definition verify_password :: "'c crypto_lib \<Rightarrow> string \<Rightarrow> string \<Rightarrow> bool" where
  "verify_password C pw encoded =
     (case split_on CHR ''$'' encoded of
        [p0, p1, p2, p3, p4, p5] \<Rightarrow>
          if p0 \<noteq> ''scrypt'' then False
          else (case (stoull p1, stoull p2, stoull p3) of
                  (Inr n, Inr r, Inr p) \<Rightarrow>
                    if n \<noteq> scrypt_n \<or> r \<noteq> scrypt_r \<or> p \<noteq> scrypt_p then False
                    else (case (from_hex p4, from_hex p5) of
                            (Some salt, Some expected) \<Rightarrow>
                              if length salt \<noteq> 16 \<or> length expected \<noteq> 32 then False
                              else (case derive C pw salt n r p of
                                      None \<Rightarrow> False
                                    | Some actual \<Rightarrow> actual = expected)
                          | _ \<Rightarrow> False)
                | _ \<Rightarrow> False)
      | _ \<Rightarrow> False)"

definition encode_hash :: "byte list \<Rightarrow> byte list \<Rightarrow> string" where
  "encode_hash salt derived =
     ''scrypt$'' @ to_string_u64 scrypt_n @ ''$'' @ to_string_u64 scrypt_r @ ''$'' @
     to_string_u64 scrypt_p @ ''$'' @ to_hex salt @ ''$'' @ to_hex derived"

lemma no_dollar:
  "CHR ''$'' \<notin> set (to_string_u64 w)" "CHR ''$'' \<notin> set (to_hex bs)" "CHR ''$'' \<notin> set ''scrypt''"
proof -
  have "\<not> is_digit CHR ''$''" by (simp add: is_digit_def)
  then show "CHR ''$'' \<notin> set (to_string_u64 w)" by (simp add: to_string_u64_def dec_string_no_char)
  have "\<not> is_lower_hex CHR ''$''" by (simp add: is_lower_hex_def is_digit_def)
  then show "CHR ''$'' \<notin> set (to_hex bs)" using to_hex_lower [of bs] by (auto simp: list_all_iff)
qed simp

lemma split_encode_hash:
  "split_on CHR ''$'' (encode_hash salt derived) =
     [''scrypt'', to_string_u64 scrypt_n, to_string_u64 scrypt_r, to_string_u64 scrypt_p, to_hex salt, to_hex derived]"
proof -
  have "encode_hash salt derived = ''scrypt'' @ CHR ''$'' # to_string_u64 scrypt_n @ CHR ''$'' #
      to_string_u64 scrypt_r @ CHR ''$'' # to_string_u64 scrypt_p @ CHR ''$'' # to_hex salt @ CHR ''$'' # to_hex derived"
    by (simp add: encode_hash_def)
  then show ?thesis by (simp only: split_on_cons split_on_last no_dollar not_False_eq_True)
qed

lemma verify_encoded:
  assumes "length salt = 16" and "length derived = 32"
  shows "verify_password C pw (encode_hash salt derived) \<longleftrightarrow>
     derive C pw salt scrypt_n scrypt_r scrypt_p = Some derived"
  unfolding verify_password_def split_encode_hash
  using assms by (simp add: stoull_to_string split: option.split)

lemma hash_password_encoded:
  assumes "crypto_laws C" and "hash_password C pw c = (Some h, c')"
  obtains salt derived where "h = encode_hash salt derived" "length salt = 16" "length derived = 32"
    "derive C pw salt scrypt_n scrypt_r scrypt_p = Some derived"
proof -
  obtain salt derived where "h = encode_hash salt derived" "rand_bytes C 16 c = (Some salt, c')"
    and d: "derive C pw salt scrypt_n scrypt_r scrypt_p = Some derived"
    using assms(2) by (auto simp: hash_password_def encode_hash_def split: prod.splits option.splits)
  then show ?thesis
    using that rand_length [OF assms(1)] scrypt_length [OF assms(1)] by (metis derive_def)
qed

lemma hash_verifies:
  assumes "crypto_laws C" and "hash_password C pw c = (Some h, c')"
  shows "verify_password C pw h"
  using hash_password_encoded [OF assms] verify_encoded by metis

section \<open>A library for evaluation\<close>

text \<open>Fixed-size digests of the input; the random source counts.\<close>

definition plain_digest :: "nat \<Rightarrow> string \<Rightarrow> byte list" where
  "plain_digest k s = take k (map (\<lambda>c. word_of_nat (of_char c)) s @ replicate k 0)"

definition plain_crypto :: "nat crypto_lib" where
  "plain_crypto =
     \<lparr>rand_bytes = (\<lambda>k c. (Some (replicate k (word_of_nat c)), Suc c)),
      scrypt = (\<lambda>pw salt n r p mem k. Some (plain_digest k pw)),
      sha256 = (\<lambda>s. Some (plain_digest 32 s))\<rparr>"

lemma plain_crypto_laws: "crypto_laws plain_crypto"
  by (auto simp: crypto_laws_def plain_crypto_def plain_digest_def)

section \<open>Properties\<close>

text \<open>A password hash verifies the password it was made from, and another password exactly
  when scrypt derives the same key from it with the salt of the hash; whatever else is stored in
  the place of a hash (an empty string, the one-character dummy) verifies no password.\<close>

theorem password_hash_verifies:
  assumes "crypto_laws C" and "hash_password C pw c = (Some h, c')"
  shows "verify_password C pw h \<and> \<not> verify_password C pw'' ''!'' \<and>
    (\<exists>salt. length salt = 16 \<and>
       (verify_password C pw' h \<longleftrightarrow>
          derive C pw' salt scrypt_n scrypt_r scrypt_p = derive C pw salt scrypt_n scrypt_r scrypt_p))"
proof -
  obtain salt derived where h: "h = encode_hash salt derived" "length salt = 16" "length derived = 32"
    "derive C pw salt scrypt_n scrypt_r scrypt_p = Some derived"
    by (rule hash_password_encoded [OF assms])
  have "split_on CHR ''$'' ''!'' = [''!'']" by (rule split_on_last) simp
  then have "\<not> verify_password C pw'' ''!''" by (simp add: verify_password_def)
  then show ?thesis using h verify_encoded [OF h(2,3)] hash_verifies [OF assms] by metis
qed

lemma password_hash_verifies_witness:
  "verify_password plain_crypto ''correct horse'' (the (fst (hash_password plain_crypto ''correct horse'' 7)))"
proof -
  obtain h c' where h: "hash_password plain_crypto ''correct horse'' 7 = (Some h, c')"
    by (simp add: hash_password_def plain_crypto_def derive_def)
  then show ?thesis using password_hash_verifies [OF plain_crypto_laws h] by simp
qed

end
