(* ===== verification/AuthService.thy ===== *)
theory AuthService
  imports Passwords
begin

text \<open>
  \<open>AuthRepository.h/.cpp\<close>, \<open>MemoryAuthRepository.h/.cpp\<close> and \<open>AuthService.h/.cpp\<close>: accounts
  and sessions. The repository interface is a record of operations; its contract is the locale
  \<open>auth_repository\<close>, interpreted on the in-memory repository, and what the service promises is
  proved in it.
\<close>

section \<open>The repository interface\<close>

datatype user_status = User_active | User_disabled

record user =
  user_id :: u64
  user_name :: string
  user_state :: user_status
  user_created :: int
  user_updated :: int

record credentials =
  cred_user :: user
  cred_hash :: string

datatype create_user_status = User_created | User_conflict

record create_user_result =
  create_status :: create_user_status
  created_user :: "user option"

definition user_status_to_string :: "user_status \<Rightarrow> string" where
  "user_status_to_string s = (if s = User_active then ''active'' else ''disabled'')"

record 'a auth_repo =
  auth_create_user :: "int \<Rightarrow> string \<Rightarrow> string \<Rightarrow> string \<Rightarrow> 'a \<Rightarrow> (exn + create_user_result) \<times> 'a"
  auth_find_credentials :: "string \<Rightarrow> 'a \<Rightarrow> (exn + credentials option) \<times> 'a"
  auth_create_session :: "u64 \<Rightarrow> string \<Rightarrow> int \<Rightarrow> 'a \<Rightarrow> (exn + unit) \<times> 'a"
  auth_find_session :: "string \<Rightarrow> int \<Rightarrow> 'a \<Rightarrow> (exn + user option) \<times> 'a"
  auth_revoke_session :: "string \<Rightarrow> int \<Rightarrow> 'a \<Rightarrow> (exn + unit) \<times> 'a"

section \<open>The in-memory repository\<close>

record stored_user =
  stored_account :: user
  stored_name :: string
  stored_hash :: string

record stored_session =
  session_user :: u64
  session_expires :: int
  session_revoked :: "int option"

record mem_auth =
  next_user_id :: u64
  users :: "(u64 \<times> stored_user) list"
  user_ids_by_name :: "(string \<times> u64) list"
  sessions :: "(string \<times> stored_session) list"

definition init_mem_auth :: mem_auth where
  "init_mem_auth = \<lparr>next_user_id = 1, users = [], user_ids_by_name = [], sessions = []\<rparr>"

definition mem_create_user :: "int \<Rightarrow> string \<Rightarrow> string \<Rightarrow> string \<Rightarrow> mem_auth \<Rightarrow> create_user_result \<times> mem_auth" where
  "mem_create_user now name normalized hash a =
     (if map_of (user_ids_by_name a) normalized \<noteq> None
      then (\<lparr>create_status = User_conflict, created_user = None\<rparr>, a)
      else (let usr = \<lparr>user_id = next_user_id a, user_name = name, user_state = User_active,
                       user_created = now, user_updated = now\<rparr>;
                a1 = a\<lparr>next_user_id := next_user_id a + 1\<rparr>;
                a2 = a1\<lparr>users := AList.update (user_id usr)
                              \<lparr>stored_account = usr, stored_name = normalized, stored_hash = hash\<rparr> (users a1)\<rparr>;
                a3 = a2\<lparr>user_ids_by_name := AList.update normalized (user_id usr) (user_ids_by_name a2)\<rparr>
            in (\<lparr>create_status = User_created, created_user = Some usr\<rparr>, a3)))"

definition mem_find_credentials :: "string \<Rightarrow> mem_auth \<Rightarrow> credentials option" where
  "mem_find_credentials normalized a =
     (case map_of (user_ids_by_name a) normalized of
        None \<Rightarrow> None
      | Some i \<Rightarrow> (case map_of (users a) i of
                    None \<Rightarrow> None
                  | Some u \<Rightarrow> Some \<lparr>cred_user = stored_account u, cred_hash = stored_hash u\<rparr>))"

definition mem_create_session :: "u64 \<Rightarrow> string \<Rightarrow> int \<Rightarrow> mem_auth \<Rightarrow> mem_auth" where
  "mem_create_session uid th expires a =
     a\<lparr>sessions := AList.update th
         \<lparr>session_user = uid, session_expires = expires, session_revoked = None\<rparr> (sessions a)\<rparr>"

definition mem_find_session :: "string \<Rightarrow> int \<Rightarrow> mem_auth \<Rightarrow> user option" where
  "mem_find_session th now a =
     (case map_of (sessions a) th of
        None \<Rightarrow> None
      | Some s \<Rightarrow>
          if session_revoked s \<noteq> None \<or> session_expires s \<le> now then None
          else (case map_of (users a) (session_user s) of
                  None \<Rightarrow> None
                | Some u \<Rightarrow> if user_state (stored_account u) \<noteq> User_active then None
                            else Some (stored_account u)))"

definition mem_revoke_session :: "string \<Rightarrow> int \<Rightarrow> mem_auth \<Rightarrow> mem_auth" where
  "mem_revoke_session th at a =
     (case map_of (sessions a) th of
        None \<Rightarrow> a
      | Some s \<Rightarrow> a\<lparr>sessions := AList.update th (s\<lparr>session_revoked := Some at\<rparr>) (sessions a)\<rparr>)"

definition memory_auth :: "mem_auth auth_repo" where
  "memory_auth =
     \<lparr>auth_create_user = (\<lambda>now name norm hash a. case mem_create_user now name norm hash a of (r, a') \<Rightarrow> (Inr r, a')),
      auth_find_credentials = (\<lambda>norm a. (Inr (mem_find_credentials norm a), a)),
      auth_create_session = (\<lambda>uid th ex a. (Inr (), mem_create_session uid th ex a)),
      auth_find_session = (\<lambda>th now a. (Inr (mem_find_session th now a), a)),
      auth_revoke_session = (\<lambda>th at a. (Inr (), mem_revoke_session th at a))\<rparr>"

section \<open>The service\<close>

datatype auth_status =
    Auth_success | Invalid_username | Invalid_password | Username_conflict | Invalid_credentials | Auth_error

record auth_session =
  auth_user :: user
  auth_token :: string
  auth_expires :: int

record auth_result =
  auth_status_of :: auth_status
  auth_session_of :: "auth_session option"

record ('a, 'c) auth_service =
  auth_repository_of :: "'a auth_repo"
  auth_crypto :: "'c crypto_lib"
  session_ttl :: int
  dummy_hash :: string

record ('a, 'c) auth_world =
  auth_store :: 'a
  auth_rng :: 'c

definition make_auth_service ::
  "'a auth_repo \<Rightarrow> 'c crypto_lib \<Rightarrow> int \<Rightarrow> 'c \<Rightarrow> ('a, 'c) auth_service \<times> 'c" where
  "make_auth_service rp C ttl c =
     (case hash_password C ''hao-shortlink-dummy-password'' c of
        (h, c') \<Rightarrow> (\<lparr>auth_repository_of = rp, auth_crypto = C, session_ttl = ttl,
                     dummy_hash = (case h of Some x \<Rightarrow> x | None \<Rightarrow> ''!'')\<rparr>, c'))"

definition is_ascii_letter :: "char \<Rightarrow> bool" where
  "is_ascii_letter c \<longleftrightarrow> is_upper c \<or> is_lower c"

definition is_valid_username :: "string \<Rightarrow> bool" where
  "is_valid_username u \<longleftrightarrow>
     \<not> (length u < 3 \<or> length u > 32 \<or> \<not> is_ascii_letter (hd u)) \<and>
     list_all (\<lambda>c. is_ascii_letter c \<or> is_digit c \<or> c = CHR ''_'' \<or> c = CHR ''-'') (tl u)"

definition is_valid_password :: "string \<Rightarrow> bool" where
  "is_valid_password p \<longleftrightarrow> length p \<ge> 10 \<and> length p \<le> 128"

definition normalize_username :: "string \<Rightarrow> string" where
  "normalize_username u = map to_lower u"

definition token_hash :: "'c crypto_lib \<Rightarrow> string \<Rightarrow> string" where
  "token_hash C t = (case sha256 C t of None \<Rightarrow> [] | Some d \<Rightarrow> to_hex d)"

definition generate_token :: "'c crypto_lib \<Rightarrow> 'c \<Rightarrow> string option \<times> 'c" where
  "generate_token C c =
     (case rand_bytes C 32 c of (None, c') \<Rightarrow> (None, c') | (Some bs, c') \<Rightarrow> (Some (to_hex bs), c'))"

definition service_create_session ::
  "('a, 'c) auth_service \<Rightarrow> int \<Rightarrow> user \<Rightarrow> ('a, 'c) auth_world \<Rightarrow>
   (exn + auth_session option) \<times> ('a, 'c) auth_world" where
  "service_create_session sv now u w =
     (case generate_token (auth_crypto sv) (auth_rng w) of
        (None, c) \<Rightarrow> (Inr None, w\<lparr>auth_rng := c\<rparr>)
      | (Some token, c) \<Rightarrow>
          (let w1 = w\<lparr>auth_rng := c\<rparr>; expires = now + session_ttl sv;
               digest = token_hash (auth_crypto sv) token
           in if digest = [] then (Inr None, w1)
              else (case auth_create_session (auth_repository_of sv) (user_id u) digest expires (auth_store w1) of
                      (Inl e, a) \<Rightarrow> (Inl e, w1\<lparr>auth_store := a\<rparr>)
                    | (Inr _, a) \<Rightarrow>
                        (Inr (Some \<lparr>auth_user = u, auth_token = token, auth_expires = expires\<rparr>),
                         w1\<lparr>auth_store := a\<rparr>))))"

definition auth_failure :: "auth_status \<Rightarrow> auth_result" where
  "auth_failure st = \<lparr>auth_status_of = st, auth_session_of = None\<rparr>"

definition session_result :: "exn + auth_session option \<Rightarrow> exn + auth_result" where
  "session_result r =
     (case r of
        Inl e \<Rightarrow> Inl e
      | Inr None \<Rightarrow> Inr (auth_failure Auth_error)
      | Inr (Some s) \<Rightarrow> Inr \<lparr>auth_status_of = Auth_success, auth_session_of = Some s\<rparr>)"

definition register_user ::
  "('a, 'c) auth_service \<Rightarrow> (nat \<Rightarrow> int) \<Rightarrow> string \<Rightarrow> string \<Rightarrow> ('a, 'c) auth_world \<Rightarrow>
   (exn + auth_result) \<times> ('a, 'c) auth_world" where
  "register_user sv clk name pw w =
     (if \<not> is_valid_username name then (Inr (auth_failure Invalid_username), w)
      else if \<not> is_valid_password pw then (Inr (auth_failure Invalid_password), w)
      else (case hash_password (auth_crypto sv) pw (auth_rng w) of
              (None, c) \<Rightarrow> (Inr (auth_failure Auth_error), w\<lparr>auth_rng := c\<rparr>)
            | (Some h, c) \<Rightarrow>
                (case auth_create_user (auth_repository_of sv) (clk 0) name (normalize_username name) h (auth_store w) of
                   (Inl e, a) \<Rightarrow> (Inl e, w\<lparr>auth_rng := c, auth_store := a\<rparr>)
                 | (Inr created, a) \<Rightarrow>
                     (let w1 = w\<lparr>auth_rng := c, auth_store := a\<rparr>
                      in case (create_status created, created_user created) of
                           (User_created, Some u) \<Rightarrow>
                             (case service_create_session sv (clk 1) u w1 of (r, w2) \<Rightarrow> (session_result r, w2))
                         | _ \<Rightarrow> (Inr (auth_failure Username_conflict), w1)))))"

definition login ::
  "('a, 'c) auth_service \<Rightarrow> int \<Rightarrow> string \<Rightarrow> string \<Rightarrow> ('a, 'c) auth_world \<Rightarrow>
   (exn + auth_result) \<times> ('a, 'c) auth_world" where
  "login sv now name pw w =
     (case auth_find_credentials (auth_repository_of sv) (normalize_username name) (auth_store w) of
        (Inl e, a) \<Rightarrow> (Inl e, w\<lparr>auth_store := a\<rparr>)
      | (Inr cr, a) \<Rightarrow>
          (let w1 = w\<lparr>auth_store := a\<rparr>;
               matches = verify_password (auth_crypto sv) pw
                           (case cr of Some x \<Rightarrow> cred_hash x | None \<Rightarrow> dummy_hash sv)
           in case cr of
                None \<Rightarrow> (Inr (auth_failure Invalid_credentials), w1)
              | Some x \<Rightarrow>
                  if user_state (cred_user x) \<noteq> User_active \<or> \<not> matches
                  then (Inr (auth_failure Invalid_credentials), w1)
                  else (case service_create_session sv now (cred_user x) w1 of
                          (r, w2) \<Rightarrow> (session_result r, w2))))"

definition authenticate ::
  "('a, 'c) auth_service \<Rightarrow> int \<Rightarrow> string \<Rightarrow> ('a, 'c) auth_world \<Rightarrow>
   (exn + user option) \<times> ('a, 'c) auth_world" where
  "authenticate sv now token w =
     (if length token \<noteq> 64 then (Inr None, w)
      else (case auth_find_session (auth_repository_of sv) (token_hash (auth_crypto sv) token) now (auth_store w) of
              (r, a) \<Rightarrow> (r, w\<lparr>auth_store := a\<rparr>)))"

definition logout ::
  "('a, 'c) auth_service \<Rightarrow> int \<Rightarrow> string \<Rightarrow> ('a, 'c) auth_world \<Rightarrow> (exn + unit) \<times> ('a, 'c) auth_world" where
  "logout sv now token w =
     (if length token = 64
      then (case auth_revoke_session (auth_repository_of sv) (token_hash (auth_crypto sv) token) now (auth_store w) of
              (r, a) \<Rightarrow> (r, w\<lparr>auth_store := a\<rparr>))
      else (Inr (), w))"

section \<open>The contract of a repository\<close>

text \<open>
  Accounts by id, ids by normalised name, sessions by token hash, and what each operation does to
  them. \<open>acceptable\<close> says which new accounts, \<open>text_ok\<close> which names and digests and \<open>at_ok\<close> which times
  the store can hold; a session may be refused, and then nothing changes.
\<close>

definition session_lookup ::
  "(u64 \<Rightarrow> stored_user option) \<Rightarrow> (string \<Rightarrow> stored_session option) \<Rightarrow> string \<Rightarrow> int \<Rightarrow> user option" where
  "session_lookup accts sess th now =
     (case sess th of
        None \<Rightarrow> None
      | Some s \<Rightarrow> if session_revoked s \<noteq> None \<or> session_expires s \<le> now then None
                  else (case accts (session_user s) of
                          None \<Rightarrow> None
                        | Some u \<Rightarrow> if user_state (stored_account u) \<noteq> User_active then None
                                    else Some (stored_account u)))"

locale auth_repository =
  fixes repo :: "'a auth_repo"
    and inv :: "'a \<Rightarrow> bool"
    and room :: "'a \<Rightarrow> bool"
    and accounts :: "'a \<Rightarrow> u64 \<Rightarrow> stored_user option"
    and ids :: "'a \<Rightarrow> string \<Rightarrow> u64 option"
    and live :: "'a \<Rightarrow> string \<Rightarrow> stored_session option"
    and acceptable :: "string \<Rightarrow> string \<Rightarrow> string \<Rightarrow> bool"
    and text_ok :: "string \<Rightarrow> bool"
    and at_ok :: "int \<Rightarrow> bool"
  assumes hex_text: "length bs \<le> 32 \<Longrightarrow> text_ok (to_hex bs)"
    and names: "inv a \<Longrightarrow> ids a n = Some i \<longleftrightarrow> (\<exists>u. accounts a i = Some u \<and> stored_name u = n)"
    and account_ids: "inv a \<Longrightarrow> accounts a i = Some u \<Longrightarrow> user_id (stored_account u) = i"
    and create_user_law: "inv a \<Longrightarrow> room a \<Longrightarrow> acceptable name norm h \<Longrightarrow>
          \<exists>r a'. auth_create_user repo now name norm h a = (Inr r, a') \<and> inv a' \<and> live a' = live a \<and>
            (if ids a norm \<noteq> None
             then r = \<lparr>create_status = User_conflict, created_user = None\<rparr> \<and> accounts a' = accounts a \<and> ids a' = ids a
             else \<exists>u. r = \<lparr>create_status = User_created, created_user = Some u\<rparr> \<and>
                 user_name u = name \<and> user_state u = User_active \<and> accounts a (user_id u) = None \<and>
                 accounts a' = (accounts a)(user_id u \<mapsto> \<lparr>stored_account = u, stored_name = norm, stored_hash = h\<rparr>) \<and>
                 ids a' = (ids a)(norm \<mapsto> user_id u))"
    and find_credentials_law: "inv a \<Longrightarrow> text_ok n \<Longrightarrow> \<exists>a'. auth_find_credentials repo n a =
          (Inr (case ids a n of None \<Rightarrow> None
                | Some i \<Rightarrow> map_option (\<lambda>u. \<lparr>cred_user = stored_account u, cred_hash = stored_hash u\<rparr>) (accounts a i)), a') \<and>
          inv a' \<and> accounts a' = accounts a \<and> ids a' = ids a \<and> live a' = live a"
    and create_session_law: "inv a \<Longrightarrow> text_ok th \<Longrightarrow> at_ok ex \<Longrightarrow> \<exists>r a'. auth_create_session repo uid th ex a = (r, a') \<and> inv a' \<and>
          accounts a' = accounts a \<and> ids a' = ids a \<and>
          live a' = (case r of
              Inl e \<Rightarrow> live a
            | Inr _ \<Rightarrow> (live a)(th \<mapsto> \<lparr>session_user = uid, session_expires = ex, session_revoked = None\<rparr>))"
    and find_session_law: "inv a \<Longrightarrow> text_ok th \<Longrightarrow> at_ok now \<Longrightarrow> \<exists>a'.
          auth_find_session repo th now a = (Inr (session_lookup (accounts a) (live a) th now), a') \<and>
          inv a' \<and> accounts a' = accounts a \<and> ids a' = ids a \<and> live a' = live a"
    and revoke_law: "inv a \<Longrightarrow> text_ok th \<Longrightarrow> at_ok at \<Longrightarrow> \<exists>a' since. auth_revoke_session repo th at a = (Inr (), a') \<and> inv a' \<and>
          accounts a' = accounts a \<and> ids a' = ids a \<and>
          live a' = (live a)(th := map_option (\<lambda>s. s\<lparr>session_revoked := Some since\<rparr>) (live a th))"

lemma token_hash_64: "crypto_laws C \<Longrightarrow> token_hash C t \<noteq> [] \<Longrightarrow> length (token_hash C t) = 64"
  by (auto simp: token_hash_def sha256_length split: option.splits)

lemma generate_token_64: "crypto_laws C \<Longrightarrow> generate_token C c = (Some t, c') \<Longrightarrow> length t = 64"
  by (auto simp: generate_token_def rand_length split: prod.splits option.splits)

context auth_repository
begin

lemma token_text: "crypto_laws C \<Longrightarrow> text_ok (token_hash C t)"
  using hex_text [of "[]"] by (auto simp: token_hash_def sha256_length intro!: hex_text split: option.split)

lemma create_session_adds:
  assumes "auth_repository_of sv = repo" and "crypto_laws (auth_crypto sv)" and inv: "inv (auth_store w)"
    and at: "at_ok (now + session_ttl sv)"
    and run: "service_create_session sv now u w = (Inr (Some s), w')"
  shows "inv (auth_store w') \<and> auth_user s = u \<and> length (auth_token s) = 64 \<and> auth_expires s = now + session_ttl sv \<and>
    accounts (auth_store w') = accounts (auth_store w) \<and> ids (auth_store w') = ids (auth_store w) \<and>
    live (auth_store w') = (live (auth_store w))(token_hash (auth_crypto sv) (auth_token s) \<mapsto>
       \<lparr>session_user = user_id u, session_expires = auth_expires s, session_revoked = None\<rparr>)"
proof -
  obtain t c where t: "generate_token (auth_crypto sv) (auth_rng w) = (Some t, c)"
    using run by (auto simp: service_create_session_def split: prod.splits option.splits)
  let ?th = "token_hash (auth_crypto sv) t"
  obtain r a where law: "auth_create_session repo (user_id u) ?th (now + session_ttl sv) (auth_store w) = (r, a)"
    "inv a" "accounts a = accounts (auth_store w)" "ids a = ids (auth_store w)"
    "live a = (case r of Inl e \<Rightarrow> live (auth_store w) | Inr _ \<Rightarrow> (live (auth_store w))(?th \<mapsto>
       \<lparr>session_user = user_id u, session_expires = now + session_ttl sv, session_revoked = None\<rparr>))"
    using create_session_law [OF inv token_text [OF assms(2)] at, of "user_id u"] by blast
  have "r = Inr ()"
    using run t law(1) assms(1) by (cases r) (auto simp: service_create_session_def Let_def split: if_splits)
  note a = law [unfolded this, simplified]
  have eq: "service_create_session sv now u w =
      (if ?th = [] then (Inr None, w\<lparr>auth_rng := c\<rparr>)
       else (Inr (Some \<lparr>auth_user = u, auth_token = t, auth_expires = now + session_ttl sv\<rparr>),
             w\<lparr>auth_rng := c, auth_store := a\<rparr>))"
    by (simp add: service_create_session_def t a(1) assms(1) Let_def)
  have s: "s = \<lparr>auth_user = u, auth_token = t, auth_expires = now + session_ttl sv\<rparr>"
    and w': "w' = w\<lparr>auth_rng := c, auth_store := a\<rparr>"
    using run unfolding eq by (simp_all split: if_splits)
  show ?thesis using a(2-) generate_token_64 [OF assms(2) t] by (simp add: s w')
qed

lemma session_authenticates:
  assumes "auth_repository_of sv = repo" and crypto: "crypto_laws (auth_crypto sv)" and inv: "inv (auth_store w)" and at: "at_ok now"
    and "length t = 64" and "live (auth_store w) (token_hash (auth_crypto sv) t) =
      Some \<lparr>session_user = user_id u, session_expires = ex, session_revoked = None\<rparr>"
    and "accounts (auth_store w) (user_id u) = Some su" "stored_account su = u" "user_state u = User_active"
  shows "fst (authenticate sv now t w) = Inr (if now < ex then Some u else None)"
  using assms find_session_law [OF inv token_text [OF crypto] at, of t] by (auto simp: authenticate_def session_lookup_def)

lemma login_success:
  assumes sv: "auth_repository_of sv = repo" and crypto: "crypto_laws (auth_crypto sv)" and inv: "inv (auth_store w)"
    and name: "text_ok (normalize_username name)"
    and run: "login sv now name pw w = (Inr res, w')" and ok: "auth_status_of res = Auth_success"
  obtains i su s a where "ids (auth_store w) (normalize_username name) = Some i"
    "accounts (auth_store w) i = Some su" "user_state (stored_account su) = User_active"
    "verify_password (auth_crypto sv) pw (stored_hash su)"
    "res = \<lparr>auth_status_of = Auth_success, auth_session_of = Some s\<rparr>"
    "auth_find_credentials repo (normalize_username name) (auth_store w)
       = (Inr (Some \<lparr>cred_user = stored_account su, cred_hash = stored_hash su\<rparr>), a)"
    "inv a" "accounts a = accounts (auth_store w)" "ids a = ids (auth_store w)" "live a = live (auth_store w)"
    "service_create_session sv now (stored_account su) (w\<lparr>auth_store := a\<rparr>) = (Inr (Some s), w')"
proof -
  obtain a where f: "auth_find_credentials repo (normalize_username name) (auth_store w) =
     (Inr (case ids (auth_store w) (normalize_username name) of None \<Rightarrow> None
       | Some i \<Rightarrow> map_option (\<lambda>u. \<lparr>cred_user = stored_account u, cred_hash = stored_hash u\<rparr>) (accounts (auth_store w) i)), a)"
    and a: "inv a" "accounts a = accounts (auth_store w)" "ids a = ids (auth_store w)" "live a = live (auth_store w)"
    using find_credentials_law [OF inv name] by blast
  have fail: "auth_status_of (auth_failure st) = st" for st by (simp add: auth_failure_def)
  obtain i su where i: "ids (auth_store w) (normalize_username name) = Some i" "accounts (auth_store w) i = Some su"
    using run f sv ok by (auto simp: login_def fail split: option.splits)
  have chk: "user_state (stored_account su) = User_active \<and> verify_password (auth_crypto sv) pw (stored_hash su)"
    using run f sv ok i by (auto simp: login_def fail Let_def split: if_splits)
  obtain r w2 where r: "service_create_session sv now (stored_account su) (w\<lparr>auth_store := a\<rparr>) = (r, w2)" by fastforce
  have "session_result r = Inr res" "w2 = w'"
    using run f sv i chk r by (auto simp: login_def Let_def)
  then obtain s where "r = Inr (Some s)" "res = \<lparr>auth_status_of = Auth_success, auth_session_of = Some s\<rparr>"
    using ok by (auto simp: session_result_def fail split: sum.splits option.splits)
  then show ?thesis using that i chk r f a \<open>w2 = w'\<close> by simp
qed

lemma logout_ends_session:
  assumes sv: "auth_repository_of sv = repo" and crypto: "crypto_laws (auth_crypto sv)" and inv: "inv (auth_store w)" and run: "logout sv now t w = (r, w')"
    and len: "length t = 64" and now: "at_ok now"
  shows "r = Inr () \<and> inv (auth_store w') \<and> (\<forall>at. at_ok at \<longrightarrow> fst (authenticate sv at t w') = Inr None) \<and>
     (\<forall>t' at. at_ok at \<and> token_hash (auth_crypto sv) t' \<noteq> token_hash (auth_crypto sv) t \<longrightarrow>
        fst (authenticate sv at t' w') = fst (authenticate sv at t' w))"
proof -
  let ?th = "token_hash (auth_crypto sv) t"
  obtain a since where a: "auth_revoke_session repo ?th now (auth_store w) = (Inr (), a)" "inv a"
    "accounts a = accounts (auth_store w)"
    "live a = (live (auth_store w))(?th := map_option (\<lambda>s. s\<lparr>session_revoked := Some since\<rparr>) (live (auth_store w) ?th))"
    using revoke_law [OF inv token_text [OF crypto] now] by blast
  have w': "r = Inr ()" "w' = w\<lparr>auth_store := a\<rparr>" using run sv len a(1) by (auto simp: logout_def)
  have found: "fst (authenticate sv at tok v) = (if length tok \<noteq> 64 then Inr None
      else Inr (session_lookup (accounts (auth_store v)) (live (auth_store v)) (token_hash (auth_crypto sv) tok) at))"
    if "inv (auth_store v)" "at_ok at" for at tok and v :: "('a, 'b) auth_world"
    using find_session_law [OF that(1) token_text [OF crypto] that(2), of tok] sv by (auto simp: authenticate_def)
  have "session_lookup (accounts a) (live a) ?th at = None" for at
    unfolding a(3,4) session_lookup_def by (cases "live (auth_store w) ?th") simp_all
  moreover have "session_lookup (accounts a) (live a) th at = session_lookup (accounts (auth_store w)) (live (auth_store w)) th at"
    if "th \<noteq> ?th" for th at
    unfolding a(3,4) session_lookup_def using that by simp
  ultimately show ?thesis using w' a(2) found [of w] found [of w'] inv by simp
qed

text \<open>The life of a session that a login starts.\<close>

lemma login_session_life:
  assumes sv: "auth_repository_of sv = repo" and crypto: "crypto_laws (auth_crypto sv)" and inv: "inv (auth_store w)"
    and name: "text_ok (normalize_username name)"
    and at: "at_ok (now + session_ttl sv)"
    and run: "login sv now name pw w = (Inr res, w')" and ok: "auth_status_of res = Auth_success"
  shows "\<exists>s su i. auth_session_of res = Some s \<and> length (auth_token s) = 64 \<and> auth_expires s = now + session_ttl sv \<and>
     ids (auth_store w) (normalize_username name) = Some i \<and> accounts (auth_store w) i = Some su \<and>
     auth_user s = stored_account su \<and> user_state (stored_account su) = User_active \<and>
     verify_password (auth_crypto sv) pw (stored_hash su) \<and> inv (auth_store w') \<and>
     (\<forall>t. at_ok t \<longrightarrow> fst (authenticate sv t (auth_token s) w') = Inr (if t < auth_expires s then Some (auth_user s) else None)) \<and>
     (at_ok later \<longrightarrow> (\<exists>v. logout sv later (auth_token s) w' = (Inr (), v) \<and>
        (\<forall>t. at_ok t \<longrightarrow> fst (authenticate sv t (auth_token s) v) = Inr None) \<and>
        (\<forall>t tok. at_ok t \<and> token_hash (auth_crypto sv) tok \<noteq> token_hash (auth_crypto sv) (auth_token s) \<longrightarrow>
           fst (authenticate sv t tok v) = fst (authenticate sv t tok w'))))"
proof -
  obtain i su s a where l: "ids (auth_store w) (normalize_username name) = Some i"
    "accounts (auth_store w) i = Some su" "user_state (stored_account su) = User_active"
    "verify_password (auth_crypto sv) pw (stored_hash su)"
    "res = \<lparr>auth_status_of = Auth_success, auth_session_of = Some s\<rparr>"
    "auth_find_credentials repo (normalize_username name) (auth_store w)
       = (Inr (Some \<lparr>cred_user = stored_account su, cred_hash = stored_hash su\<rparr>), a)"
    "inv a" "accounts a = accounts (auth_store w)" "ids a = ids (auth_store w)" "live a = live (auth_store w)"
    "service_create_session sv now (stored_account su) (w\<lparr>auth_store := a\<rparr>) = (Inr (Some s), w')"
    by (rule login_success [OF sv crypto inv name run ok])
  have "inv (auth_store (w\<lparr>auth_store := a\<rparr>))" using l(7) by simp
  note c = create_session_adds [OF sv crypto this at l(11)]
  have i: "user_id (stored_account su) = i" by (rule account_ids [OF inv l(2)])
  have "accounts (auth_store w') (user_id (stored_account su)) = Some su" using c l(2,8) i by simp
  then have life: "fst (authenticate sv t (auth_token s) w') = Inr (if t < auth_expires s then Some (auth_user s) else None)" if "at_ok t" for t
    using session_authenticates [OF sv crypto _ that, of w' "auth_token s" "stored_account su" "auth_expires s" su] c l(3) by auto
  have "\<exists>v. logout sv later (auth_token s) w' = (Inr (), v) \<and>
      (\<forall>t. at_ok t \<longrightarrow> fst (authenticate sv t (auth_token s) v) = Inr None) \<and>
      (\<forall>t tok. at_ok t \<and> token_hash (auth_crypto sv) tok \<noteq> token_hash (auth_crypto sv) (auth_token s) \<longrightarrow>
         fst (authenticate sv t tok v) = fst (authenticate sv t tok w'))" if "at_ok later"
  proof -
    obtain r v where v: "logout sv later (auth_token s) w' = (r, v)" by fastforce
    show ?thesis using logout_ends_session [OF sv crypto _ v _ that] v c by auto
  qed
  then show ?thesis using l(1-5) c life by auto
qed

lemma register_success:
  assumes sv: "auth_repository_of sv = repo" and crypto: "crypto_laws (auth_crypto sv)"
    and inv: "inv (auth_store w)" and room: "room (auth_store w)"
    and new: "\<And>h c c'. hash_password (auth_crypto sv) pw c = (Some h, c') \<Longrightarrow> acceptable name (normalize_username name) h"
    and at: "at_ok (clk 1 + session_ttl sv)"
    and run: "register_user sv clk name pw w = (Inr res, w')" and ok: "auth_status_of res = Auth_success"
  shows "ids (auth_store w) (normalize_username name) = None \<and> inv (auth_store w') \<and>
    (\<exists>i su. ids (auth_store w') (normalize_username name) = Some i \<and> accounts (auth_store w') i = Some su \<and>
       user_state (stored_account su) = User_active \<and> user_name (stored_account su) = name \<and>
       verify_password (auth_crypto sv) pw (stored_hash su))"
proof -
  have fail: "auth_status_of (auth_failure st) = st" for st by (simp add: auth_failure_def)
  obtain h c where h: "hash_password (auth_crypto sv) pw (auth_rng w) = (Some h, c)"
    using run ok by (auto simp: register_user_def fail split: if_splits prod.splits option.splits)
  obtain r0 a where law: "auth_create_user repo (clk 0) name (normalize_username name) h (auth_store w) = (Inr r0, a)" "inv a"
    "if ids (auth_store w) (normalize_username name) \<noteq> None
     then r0 = \<lparr>create_status = User_conflict, created_user = None\<rparr> \<and> accounts a = accounts (auth_store w) \<and> ids a = ids (auth_store w)
     else \<exists>u. r0 = \<lparr>create_status = User_created, created_user = Some u\<rparr> \<and> user_name u = name \<and> user_state u = User_active \<and>
       accounts (auth_store w) (user_id u) = None \<and>
       accounts a = (accounts (auth_store w))(user_id u \<mapsto> \<lparr>stored_account = u, stored_name = normalize_username name, stored_hash = h\<rparr>) \<and>
       ids a = (ids (auth_store w))(normalize_username name \<mapsto> user_id u)"
    using create_user_law [OF inv room new [OF h], of "clk 0"] by blast
  have none: "ids (auth_store w) (normalize_username name) = None"
  proof (rule ccontr)
    assume "\<not> ?thesis"
    then show False using law run ok h sv by (auto simp: register_user_def fail split: if_splits)
  qed
  then obtain u where a: "auth_create_user repo (clk 0) name (normalize_username name) h (auth_store w)
        = (Inr \<lparr>create_status = User_created, created_user = Some u\<rparr>, a)" "inv a"
    "user_name u = name" "user_state u = User_active"
    "accounts a = (accounts (auth_store w))(user_id u \<mapsto> \<lparr>stored_account = u, stored_name = normalize_username name, stored_hash = h\<rparr>)"
    "ids a = (ids (auth_store w))(normalize_username name \<mapsto> user_id u)"
    using law by auto
  let ?w1 = "w\<lparr>auth_rng := c, auth_store := a\<rparr>"
  obtain r w2 where s: "service_create_session sv (clk 1) u ?w1 = (r, w2)" by fastforce
  have "session_result r = Inr res" "w2 = w'"
    using run ok h sv a(1) s by (auto simp: register_user_def fail Let_def split: if_splits)
  then obtain se where "service_create_session sv (clk 1) u ?w1 = (Inr (Some se), w')"
    using s ok by (auto simp: session_result_def fail split: sum.splits option.splits)
  from create_session_adds [OF sv crypto _ at this] have "inv (auth_store w')" "accounts (auth_store w') = accounts a"
    "ids (auth_store w') = ids a"
    using a(2) by auto
  then show ?thesis using none a hash_verifies [OF crypto h] by auto
qed

lemma register_conflict:
  assumes sv: "auth_repository_of sv = repo" and inv: "inv (auth_store w)" and room: "room (auth_store w)"
    and new: "\<And>h c c'. hash_password (auth_crypto sv) pw c = (Some h, c') \<Longrightarrow> acceptable name (normalize_username name) h"
    and taken: "ids (auth_store w) (normalize_username name) \<noteq> None"
    and run: "register_user sv clk name pw w = (res, w')"
  shows "inv (auth_store w') \<and> accounts (auth_store w') = accounts (auth_store w) \<and> ids (auth_store w') = ids (auth_store w) \<and>
     live (auth_store w') = live (auth_store w) \<and> (\<exists>st. st \<noteq> Auth_success \<and> res = Inr (auth_failure st))"
proof (cases "is_valid_username name \<and> is_valid_password pw \<and> (\<exists>h c. hash_password (auth_crypto sv) pw (auth_rng w) = (Some h, c))")
  case True
  then obtain h c where h: "hash_password (auth_crypto sv) pw (auth_rng w) = (Some h, c)" by blast
  obtain r a where a: "auth_create_user repo (clk 0) name (normalize_username name) h (auth_store w) = (Inr r, a)" "inv a"
    "live a = live (auth_store w)" "r = \<lparr>create_status = User_conflict, created_user = None\<rparr>" "accounts a = accounts (auth_store w)"
    "ids a = ids (auth_store w)"
    using create_user_law [OF inv room new [OF h], of "clk 0"] taken by auto
  then have "res = Inr (auth_failure Username_conflict)" "w' = w\<lparr>auth_rng := c, auth_store := a\<rparr>"
    using run True h sv by (auto simp: register_user_def)
  then show ?thesis using a by (auto intro: exI [of _ Username_conflict])
next
  case False
  then show ?thesis using run inv by (auto simp: register_user_def split: if_splits prod.splits option.splits)
qed

end

section \<open>The in-memory repository fulfils the contract\<close>

definition mem_auth_ok :: "mem_auth \<Rightarrow> bool" where
  "mem_auth_ok a \<longleftrightarrow>
     (\<forall>n i. map_of (user_ids_by_name a) n = Some i \<longleftrightarrow> (\<exists>u. map_of (users a) i = Some u \<and> stored_name u = n)) \<and>
     (\<forall>i u. map_of (users a) i = Some u \<longrightarrow> user_id (stored_account u) = i \<and> unat i < unat (next_user_id a))"

lemma init_mem_auth_ok [simp]: "mem_auth_ok init_mem_auth"
  by (simp add: mem_auth_ok_def init_mem_auth_def)

interpretation mem_accounts: auth_repository memory_auth mem_auth_ok "\<lambda>a. next_user_id a \<noteq> - 1"
  "\<lambda>a. map_of (users a)" "\<lambda>a. map_of (user_ids_by_name a)" "\<lambda>a. map_of (sessions a)"
  "\<lambda>name norm h. True" "\<lambda>s. True" "\<lambda>t. True"
proof (unfold_locales, goal_cases)
  case 1
  show ?case by simp
next
  case (2 a n i)
  then show ?case by (simp add: mem_auth_ok_def)
next
  case (3 a i u)
  then show ?case by (simp add: mem_auth_ok_def)
next
  case (4 a name norm h now)
  show ?case
  proof (cases "map_of (user_ids_by_name a) norm")
    case None
    have fresh: "map_of (users a) (next_user_id a) = None"
      using 4(1) unfolding mem_auth_ok_def by (metis less_irrefl not_None_eq)
    have noname: "stored_name u \<noteq> norm" if "map_of (users a) i = Some u" for i u
      using 4(1) None that unfolding mem_auth_ok_def by (metis option.distinct(1))
    let ?u = "\<lparr>user_id = next_user_id a, user_name = name, user_state = User_active, user_created = now, user_updated = now\<rparr>"
    let ?s = "\<lparr>stored_account = ?u, stored_name = norm, stored_hash = h\<rparr>"
    let ?a = "\<lparr>next_user_id = next_user_id a + 1, users = AList.update (next_user_id a) ?s (users a),
               user_ids_by_name = AList.update norm (next_user_id a) (user_ids_by_name a), sessions = sessions a\<rparr>"
    have run: "auth_create_user memory_auth now name norm h a =
       (Inr \<lparr>create_status = User_created, created_user = Some ?u\<rparr>, ?a)"
      using None by (simp add: memory_auth_def mem_create_user_def Let_def)
    have ids: "map_of (user_ids_by_name a) n \<noteq> Some (next_user_id a)" for n
      using 4(1) fresh unfolding mem_auth_ok_def by (metis option.distinct(1))
    have "mem_auth_ok ?a"
      using 4 noname fresh ids unfolding mem_auth_ok_def
      by (auto simp: update_conv' unat_add_one_u64 less_Suc_eq)
    then show ?thesis using run None fresh by (auto simp: update_conv')
  next
    case (Some i)
    then show ?thesis using 4(1) by (simp add: memory_auth_def mem_create_user_def)
  qed
next
  case (5 a n)
  then show ?case
    by (intro exI [of _ a]) (auto simp: memory_auth_def mem_find_credentials_def split: option.splits)
next
  case (6 a uid th ex)
  then show ?case
    by (intro exI [of _ "Inr ()"]) (auto simp: memory_auth_def mem_create_session_def mem_auth_ok_def update_conv')
next
  case (7 a th now)
  then show ?case by (simp add: memory_auth_def mem_find_session_def session_lookup_def)
next
  case (8 a th at)
  then show ?case
    by (intro exI [of _ "mem_revoke_session th at a"] exI [of _ at]) (auto simp: memory_auth_def mem_revoke_session_def mem_auth_ok_def update_conv' fun_eq_iff split: option.splits)
qed

text \<open>What the in-memory repository does beyond the contract: reading leaves it as it is.\<close>

lemma mem_authenticate:
  "auth_repository_of sv = memory_auth \<Longrightarrow> authenticate sv t tok w = (r, w) \<longleftrightarrow> fst (authenticate sv t tok w) = r"
  by (simp add: authenticate_def memory_auth_def)

lemma mem_login_success:
  assumes "auth_repository_of sv = memory_auth" and "crypto_laws (auth_crypto sv)" and "mem_auth_ok (auth_store w)"
    and "login sv now name pw w = (Inr res, w')" and "auth_status_of res = Auth_success"
  obtains u s where "res = \<lparr>auth_status_of = Auth_success, auth_session_of = Some s\<rparr>"
    "service_create_session sv now u w = (Inr (Some s), w')"
proof -
  obtain su :: stored_user and s a where l: "res = \<lparr>auth_status_of = Auth_success, auth_session_of = Some s\<rparr>"
    "auth_find_credentials memory_auth (normalize_username name) (auth_store w)
       = (Inr (Some \<lparr>cred_user = stored_account su, cred_hash = stored_hash su\<rparr>), a)"
    "service_create_session sv now (stored_account su) (w\<lparr>auth_store := a\<rparr>) = (Inr (Some s), w')"
    by (rule mem_accounts.login_success [OF assms(1-3) TrueI assms(4,5)]) blast
  have "a = auth_store w" using l(2) by (simp add: memory_auth_def)
  then show ?thesis using that l(1,3) by simp
qed

lemma mem_register_success:
  assumes "auth_repository_of sv = memory_auth" and "crypto_laws (auth_crypto sv)"
    and "mem_auth_ok (auth_store w)" and "next_user_id (auth_store w) \<noteq> - 1"
    and "register_user sv clk name pw w = (Inr res, w')" and "auth_status_of res = Auth_success"
  shows "map_of (user_ids_by_name (auth_store w)) (normalize_username name) = None \<and> mem_auth_ok (auth_store w') \<and>
    (\<exists>i su. map_of (user_ids_by_name (auth_store w')) (normalize_username name) = Some i \<and>
       map_of (users (auth_store w')) i = Some su \<and>
       user_state (stored_account su) = User_active \<and> user_name (stored_account su) = name \<and>
       verify_password (auth_crypto sv) pw (stored_hash su))"
  by (rule mem_accounts.register_success [OF assms(1-4) TrueI TrueI assms(5,6)])

lemma mem_register_conflict:
  assumes sv: "auth_repository_of sv = memory_auth"
    and taken: "map_of (user_ids_by_name (auth_store w)) (normalize_username name) \<noteq> None"
    and run: "register_user sv clk name pw w = (res, w')"
  shows "auth_store w' = auth_store w \<and> (\<exists>st. st \<noteq> Auth_success \<and> res = Inr (auth_failure st))"
  using run sv taken
  by (auto simp: register_user_def memory_auth_def mem_create_user_def Let_def split: if_splits prod.splits option.splits)

section \<open>Properties\<close>

definition sample_service :: "(mem_auth, nat) auth_service" where
  "sample_service = fst (make_auth_service memory_auth plain_crypto 600 0)"

definition sample_auth_world :: "(mem_auth, nat) auth_world" where
  "sample_auth_world = \<lparr>auth_store = init_mem_auth, auth_rng = 1\<rparr>"

lemma sample_service_parts:
  "auth_repository_of sample_service = memory_auth" "auth_crypto sample_service = plain_crypto"
  "session_ttl sample_service = 600"
  by (simp_all add: sample_service_def make_auth_service_def split: prod.split)

lemma plain_token: "generate_token plain_crypto c = (Some (to_hex (replicate 32 (word_of_nat c))), Suc c)"
  by (simp add: generate_token_def plain_crypto_def)

lemma plain_token_hash: "token_hash plain_crypto t \<noteq> []"
proof -
  have "length (plain_digest 32 t) = 32" by (simp add: plain_digest_def)
  then have "length (to_hex (plain_digest 32 t)) = 64" by simp
  then have "to_hex (plain_digest 32 t) \<noteq> []" by (metis list.size(3) zero_neq_numeral)
  then show ?thesis by (simp add: token_hash_def plain_crypto_def)
qed

lemma plain_hash: "hash_password plain_crypto pw c = (Some (encode_hash (replicate 16 (word_of_nat c)) (plain_digest 32 pw)), Suc c)"
  by (simp add: hash_password_def plain_crypto_def derive_def encode_hash_def)

lemma sample_register:
  assumes "is_valid_username name" and "is_valid_password pw"
    and "map_of (user_ids_by_name (auth_store w)) (normalize_username name) = None"
  shows "\<exists>res w'. register_user sample_service clk name pw (w :: (mem_auth, nat) auth_world) = (Inr res, w') \<and>
     auth_status_of res = Auth_success"
  using assms plain_hash plain_token plain_token_hash
  by (simp add: register_user_def sample_service_parts service_create_session_def memory_auth_def
      mem_create_user_def session_result_def Let_def)


lemma sample_name: "is_valid_username ''Alice''" "is_valid_password ''correct horse''"
  "normalize_username ''aLICE'' = normalize_username ''Alice''"
  by (code_simp, code_simp, code_simp)


text \<open>A session's life. A successful login proves that the name belongs to an active account
  whose stored hash verifies the password, and starts a session whose 64-character token
  authenticates exactly that user until, and not at or after, login time plus the time to live;
  after a logout the token authenticates nobody, and sessions with other tokens are unaffected.\<close>

theorem login_session_lifetime:
  assumes "auth_repository_of sv = memory_auth" and "crypto_laws (auth_crypto sv)" and "mem_auth_ok (auth_store w)"
    and "login sv now name pw w = (Inr res, w')" and "auth_status_of res = Auth_success"
  shows "\<exists>s su i. auth_session_of res = Some s \<and> auth_expires s = now + session_ttl sv \<and>
     map_of (user_ids_by_name (auth_store w)) (normalize_username name) = Some i \<and>
     map_of (users (auth_store w)) i = Some su \<and> auth_user s = stored_account su \<and>
     verify_password (auth_crypto sv) pw (stored_hash su) \<and>
     (\<forall>t. authenticate sv t (auth_token s) w' = (Inr (if t < auth_expires s then Some (auth_user s) else None), w')) \<and>
     (\<exists>v. logout sv later (auth_token s) w' = (Inr (), v) \<and>
        (\<forall>t. fst (authenticate sv t (auth_token s) v) = Inr None) \<and>
        (\<forall>t tok. token_hash (auth_crypto sv) tok \<noteq> token_hash (auth_crypto sv) (auth_token s) \<longrightarrow>
           fst (authenticate sv t tok v) = fst (authenticate sv t tok w')))"
proof -
  show ?thesis unfolding mem_authenticate [OF assms(1)] using mem_accounts.login_session_life [OF assms(1-3) TrueI TrueI assms(4,5), of later] by auto
qed

lemma login_session_lifetime_witness:
  "\<exists>res w'. login sample_service 6 ''Alice'' ''correct horse''
      (snd (register_user sample_service (\<lambda>i. 5) ''Alice'' ''correct horse'' sample_auth_world)) = (Inr res, w') \<and>
     (\<exists>s. auth_session_of res = Some s \<and> auth_expires s = 606)"
proof -
  obtain res w' where r: "register_user sample_service (\<lambda>i. 5) ''Alice'' ''correct horse'' sample_auth_world = (Inr res, w')"
    "auth_status_of res = Auth_success"
    using sample_register [OF sample_name(1,2), of sample_auth_world "\<lambda>i. 5"]
    by (auto simp: sample_auth_world_def init_mem_auth_def)
  have ok: "mem_auth_ok (auth_store sample_auth_world)" "next_user_id (auth_store sample_auth_world) \<noteq> - 1"
    by (simp_all add: sample_auth_world_def init_mem_auth_def mem_auth_ok_def)
  have crypto: "crypto_laws (auth_crypto sample_service)" using plain_crypto_laws sample_service_parts by simp
  note reg = mem_register_success [OF sample_service_parts(1) crypto ok r]
  obtain i su where i: "map_of (user_ids_by_name (auth_store w')) (normalize_username ''Alice'') = Some i"
    "map_of (users (auth_store w')) i = Some su" "user_state (stored_account su) = User_active"
    "verify_password plain_crypto ''correct horse'' (stored_hash su)"
    using reg sample_service_parts by auto
  have "\<exists>res v. login sample_service 6 ''Alice'' ''correct horse'' w' = (Inr res, v) \<and> auth_status_of res = Auth_success"
    using i plain_token plain_token_hash
    by (simp add: login_def sample_service_parts memory_auth_def mem_find_credentials_def
        service_create_session_def session_result_def Let_def)
  then obtain res2 v where lg: "login sample_service 6 ''Alice'' ''correct horse'' w' = (Inr res2, v)"
    "auth_status_of res2 = Auth_success" by blast
  show ?thesis
    using login_session_lifetime [where later = 7, OF sample_service_parts(1) crypto _ lg] reg r lg sample_service_parts by auto
qed

end
