(* ===== verification/AuthHttp.thy ===== *)
theory AuthHttp
  imports AuthService LinkService HttpMessages JsonLib
begin

text \<open>
  \<open>SameOriginPolicy.cpp\<close> and \<open>AuthHttp.h/.cpp\<close>: the same-origin check of state-changing requests,
  the session cookie, and the handlers of registration, login, logout and \<open>/api/me\<close>. \<open>clk i\<close> is the
  \<open>i\<close>-th reading of the system clock a handler makes.
\<close>

section \<open>The same-origin policy\<close>

definition is_valid_authority :: "string \<Rightarrow> bool" where
  "is_valid_authority a \<longleftrightarrow>
     a \<noteq> [] \<and>
     list_all (\<lambda>c. \<not> (is_space c \<or> c = CHR ''/'' \<or> c = CHR ''?'' \<or> c = CHR ''#'' \<or> c = CHR ''@'')) a"

definition is_same_origin_request :: "http_request \<Rightarrow> bool" where
  "is_same_origin_request req =
     (if lower_string (get_header ''Sec-Fetch-Site'' req) = ''cross-site'' then False
      else (let origin = get_header ''Origin'' req
            in if origin = [] then True
               else (let host = get_header ''Host'' req
                     in if \<not> is_valid_authority host then False
                        else (let proto = lower_string (get_header ''X-Forwarded-Proto'' req);
                                  scheme = (if proto = [] then ''http'' else proto)
                              in if scheme \<noteq> ''http'' \<and> scheme \<noteq> ''https'' then False
                                 else lower_string origin = scheme @ ''://'' @ lower_string host))))"

definition no_store :: "http_response \<Rightarrow> http_response" where
  "no_store = add_header ''Cache-Control'' ''no-store''"

definition require_same_origin :: "http_request \<Rightarrow> http_response \<Rightarrow> bool \<times> http_response" where
  "require_same_origin req resp =
     (let resp1 = no_store resp
      in if is_same_origin_request req then (True, resp1)
         else (False, set_error_response 403 ''origin_not_allowed'' ''Request origin is not allowed'' resp1))"

section \<open>The session cookie\<close>

record auth_http_config =
  registration_enabled :: bool
  cookie_secure :: bool
  cookie_name :: string

definition default_auth_http_config :: auth_http_config where
  "default_auth_http_config =
     \<lparr>registration_enabled = True, cookie_secure = False, cookie_name = ''hao_session''\<rparr>"

definition has_json_content_type :: "http_request \<Rightarrow> bool" where
  "has_json_content_type req = contains_sub ''application/json'' (get_header ''Content-Type'' req)"

definition session_cookie :: "auth_http_config \<Rightarrow> int \<Rightarrow> auth_session \<Rightarrow> string" where
  "session_cookie cfg now s =
     cookie_name cfg @ ''='' @ auth_token s @ ''; Path=/; HttpOnly; SameSite=Lax; Max-Age='' @
     to_string_int (auth_expires s - now) @ (if cookie_secure cfg then ''; Secure'' else [])"

definition set_session_cookie :: "auth_http_config \<Rightarrow> int \<Rightarrow> auth_session \<Rightarrow> http_response \<Rightarrow> http_response" where
  "set_session_cookie cfg now s resp = no_store (add_header ''Set-Cookie'' (session_cookie cfg now s) resp)"

definition clear_session_cookie :: "auth_http_config \<Rightarrow> http_response \<Rightarrow> http_response" where
  "clear_session_cookie cfg resp =
     no_store (add_header ''Set-Cookie''
       (cookie_name cfg @ ''=; Path=/; HttpOnly; SameSite=Lax; Max-Age=0'' @
        (if cookie_secure cfg then ''; Secure'' else [])) resp)"

lemma cut_after_skip: "(u, Some v) = cut_at c (dropWhile P s) \<Longrightarrow> length v < length s"
  using cut_at_shorter [of c "dropWhile P s" u v] length_dropWhile_le [of P s] by simp

text \<open>The loop over the cookies: blanks and semicolons are skipped, the first cookie of the name wins.\<close>

function find_cookie :: "string \<Rightarrow> string \<Rightarrow> string" where
  "find_cookie name s =
     (if s = [] then []
      else (case cut_at CHR '';'' (dropWhile (\<lambda>c. c = CHR '';'' \<or> is_space c) s) of
              (item, others) \<Rightarrow>
                (case cut_at CHR ''='' item of
                   (k, Some v) \<Rightarrow>
                     if k = name then v
                     else (case others of None \<Rightarrow> [] | Some m \<Rightarrow> find_cookie name m)
                 | (k, None) \<Rightarrow> (case others of None \<Rightarrow> [] | Some m \<Rightarrow> find_cookie name m))))"
  by pat_completeness auto
termination
  by (relation "measure (\<lambda>(n, s). length s)") (auto dest: cut_after_skip)

declare find_cookie.simps [simp del]

definition session_token_from_request :: "auth_http_config \<Rightarrow> http_request \<Rightarrow> string" where
  "session_token_from_request cfg req = find_cookie (cookie_name cfg) (get_header ''Cookie'' req)"

section \<open>Requests and answers\<close>

definition user_json :: "user \<Rightarrow> string" where
  "user_json u =
     ''{'' @ quoted ''id'' @ '':'' @ to_string_u64 (user_id u) @
     '','' @ quoted ''username'' @ '':'' @ quoted (escape_json_string (user_name u)) @
     '','' @ quoted ''status'' @ '':'' @ quoted (user_status_to_string (user_state u)) @
     '','' @ quoted ''created_at'' @ '':'' @ quoted (format_utc_timestamp (user_created u)) @
     '','' @ quoted ''updated_at'' @ '':'' @ quoted (format_utc_timestamp (user_updated u)) @ ''}''"

definition parse_credentials :: "json_lib \<Rightarrow> http_request \<Rightarrow> (string \<times> string) option" where
  "parse_credentials L req =
     (if \<not> has_json_content_type req \<or> length (req_body req) > 4096 then None
      else (case json_parse_lenient L (req_body req) of
              None \<Rightarrow> None
            | Some j \<Rightarrow>
                if \<not> is_object j \<or> json_size j \<noteq> 2 then None
                else (case (string_field j ''username'', string_field j ''password'') of
                        (Some u, Some p) \<Rightarrow> Some (u, p)
                      | _ \<Rightarrow> None)))"

definition respond_with_session ::
  "auth_http_config \<Rightarrow> int \<Rightarrow> auth_session \<Rightarrow> int \<Rightarrow> string \<Rightarrow> http_response \<Rightarrow> http_response" where
  "respond_with_session cfg now s status msg resp =
     set_json_body
       (''{'' @ quoted ''user'' @ '':'' @ user_json (auth_user s) @ '','' @
        quoted ''session_expires_at'' @ '':'' @ quoted (format_utc_timestamp (auth_expires s)) @ ''}'')
       (set_status status msg (set_session_cookie cfg now s resp))"

section \<open>The handlers\<close>

definition registration_answer ::
  "auth_http_config \<Rightarrow> int \<Rightarrow> auth_result \<Rightarrow> http_response \<Rightarrow> http_response" where
  "registration_answer cfg now res resp =
     (case (auth_status_of res, auth_session_of res) of
        (Auth_success, Some s) \<Rightarrow> respond_with_session cfg now s 201 ''Created'' resp
      | (Invalid_username, _) \<Rightarrow>
          set_error_response 400 ''invalid_username'' ''Username must be 3-32 ASCII letters, numbers, _ or -'' resp
      | (Invalid_password, _) \<Rightarrow>
          set_error_response 400 ''invalid_password'' ''Password must be between 10 and 128 bytes'' resp
      | (Username_conflict, _) \<Rightarrow>
          set_error_response 409 ''username_conflict'' ''Username already exists'' resp
      | _ \<Rightarrow> set_error_response 500 ''authentication_error'' ''Unable to create account'' resp)"

definition handle_register ::
  "json_lib \<Rightarrow> ('a, 'c) auth_service \<Rightarrow> auth_http_config \<Rightarrow> (nat \<Rightarrow> int) \<Rightarrow> ('a, 'c) auth_world handler" where
  "handle_register L sv cfg clk req resp w =
     (case require_same_origin req (no_store resp) of
        (False, resp1) \<Rightarrow> (None, resp1, w)
      | (True, resp1) \<Rightarrow>
          if \<not> registration_enabled cfg
          then (None, set_error_response 403 ''registration_disabled'' ''Registration is disabled'' resp1, w)
          else (case parse_credentials L req of
                  None \<Rightarrow> (None, set_error_response 400 ''invalid_request''
                                   ''Request must contain username and password'' resp1, w)
                | Some (name, pw) \<Rightarrow>
                    (case register_user sv clk name pw w of
                       (Inl e, w1) \<Rightarrow> (Some e, resp1, w1)
                     | (Inr res, w1) \<Rightarrow> (None, registration_answer cfg (clk 2) res resp1, w1))))"

definition login_answer ::
  "auth_http_config \<Rightarrow> int \<Rightarrow> auth_result \<Rightarrow> http_response \<Rightarrow> http_response" where
  "login_answer cfg now res resp =
     (case (auth_status_of res, auth_session_of res) of
        (Auth_success, Some s) \<Rightarrow> respond_with_session cfg now s 200 ''OK'' resp
      | (Invalid_credentials, _) \<Rightarrow>
          set_error_response 401 ''invalid_credentials'' ''Invalid username or password'' resp
      | _ \<Rightarrow> set_error_response 500 ''authentication_error'' ''Unable to create session'' resp)"

definition handle_login ::
  "json_lib \<Rightarrow> ('a, 'c) auth_service \<Rightarrow> auth_http_config \<Rightarrow> (nat \<Rightarrow> int) \<Rightarrow> ('a, 'c) auth_world handler" where
  "handle_login L sv cfg clk req resp w =
     (case require_same_origin req (no_store resp) of
        (False, resp1) \<Rightarrow> (None, resp1, w)
      | (True, resp1) \<Rightarrow>
          (case parse_credentials L req of
             None \<Rightarrow> (None, set_error_response 400 ''invalid_request''
                              ''Request must contain username and password'' resp1, w)
           | Some (name, pw) \<Rightarrow>
               (case login sv (clk 0) name pw w of
                  (Inl e, w1) \<Rightarrow> (Some e, resp1, w1)
                | (Inr res, w1) \<Rightarrow> (None, login_answer cfg (clk 1) res resp1, w1))))"

definition handle_logout ::
  "('a, 'c) auth_service \<Rightarrow> auth_http_config \<Rightarrow> (nat \<Rightarrow> int) \<Rightarrow> ('a, 'c) auth_world handler" where
  "handle_logout sv cfg clk req resp w =
     (case require_same_origin req (no_store resp) of
        (False, resp1) \<Rightarrow> (None, resp1, w)
      | (True, resp1) \<Rightarrow>
          (case logout sv (clk 0) (session_token_from_request cfg req) w of
             (Inl e, w1) \<Rightarrow> (Some e, resp1, w1)
           | (Inr _, w1) \<Rightarrow>
               (None, (set_content_length 0 (set_status 204 ''No Content'' (clear_session_cookie cfg resp1)))\<lparr>resp_body := []\<rparr>, w1)))"

definition authenticate_request ::
  "('a, 'c) auth_service \<Rightarrow> auth_http_config \<Rightarrow> int \<Rightarrow> http_request \<Rightarrow> ('a, 'c) auth_world \<Rightarrow>
   (exn + user option) \<times> ('a, 'c) auth_world" where
  "authenticate_request sv cfg now req w =
     (let token = session_token_from_request cfg req
      in if token = [] then (Inr None, w) else authenticate sv now token w)"

definition require_authenticated_user ::
  "('a, 'c) auth_service \<Rightarrow> auth_http_config \<Rightarrow> int \<Rightarrow> http_request \<Rightarrow> http_response \<Rightarrow> ('a, 'c) auth_world \<Rightarrow>
   (exn + user option) \<times> http_response \<times> ('a, 'c) auth_world" where
  "require_authenticated_user sv cfg now req resp w =
     (case authenticate_request sv cfg now req w of
        (Inl e, w1) \<Rightarrow> (Inl e, resp, w1)
      | (Inr None, w1) \<Rightarrow>
          (Inr None, set_error_response 401 ''authentication_required'' ''Authentication required'' (no_store resp), w1)
      | (Inr (Some u), w1) \<Rightarrow> (Inr (Some u), resp, w1))"

definition handle_me ::
  "('a, 'c) auth_service \<Rightarrow> auth_http_config \<Rightarrow> (nat \<Rightarrow> int) \<Rightarrow> ('a, 'c) auth_world handler" where
  "handle_me sv cfg clk req resp w =
     (case require_authenticated_user sv cfg (clk 0) req resp w of
        (Inl e, resp1, w1) \<Rightarrow> (Some e, resp1, w1)
      | (Inr None, resp1, w1) \<Rightarrow> (None, resp1, w1)
      | (Inr (Some u), resp1, w1) \<Rightarrow>
          (None, set_json_body (user_json u) (set_status 200 ''OK'' (no_store resp1)), w1))"

section \<open>Cookies as a client sends them\<close>

fun cookie_text :: "(string \<times> string) list \<Rightarrow> string" where
  "cookie_text [] = []"
| "cookie_text [(k, v)] = k @ ''='' @ v"
| "cookie_text ((k, v) # c # cs) = k @ ''='' @ v @ ''; '' @ cookie_text (c # cs)"

definition clean_cookie :: "string \<times> string \<Rightarrow> bool" where
  "clean_cookie c \<longleftrightarrow>
     fst c \<noteq> [] \<and> \<not> is_space (hd (fst c)) \<and> CHR ''='' \<notin> set (fst c) \<and> CHR '';'' \<notin> set (fst c) \<and> CHR '';'' \<notin> set (snd c)"

lemma find_cookie_space: "find_cookie n (CHR '' '' # s) = find_cookie n s"
proof (cases "s = []")
  case True
  then show ?thesis by (simp add: find_cookie.simps [of n "[CHR '' '']"] find_cookie.simps [of n "[]"] is_space_def)
next
  case False
  then show ?thesis by (subst (1 2) find_cookie.simps) (simp add: is_space_def)
qed

lemma find_cookie_item:
  assumes "clean_cookie (k, v)" and "r = [] \<or> hd r = CHR '';''"
  shows "find_cookie n (k @ CHR ''='' # v @ r) = (if k = n then v else if r = [] then [] else find_cookie n (tl r))"
proof -
  have k: "k \<noteq> []" "\<not> is_space (hd k)" "CHR ''='' \<notin> set k" "CHR '';'' \<notin> set (k @ CHR ''='' # v)"
    using assms(1) by (auto simp: clean_cookie_def)
  have skip: "dropWhile (\<lambda>c. c = CHR '';'' \<or> is_space c) (k @ t) = k @ t" for t
  proof -
    obtain c cs where "k = c # cs" using k(1) by (cases k) auto
    then show ?thesis using k(2,4) by auto
  qed
  have eq: "cut_at CHR ''='' (k @ CHR ''='' # v) = (k, Some v)" using k(3) by (rule cut_at_append)
  show ?thesis
  proof (cases r)
    case Nil
    then show ?thesis
      using skip [of "CHR ''='' # v"] eq cut_at_none [OF k(4)] k(1) by (subst find_cookie.simps) simp
  next
    case (Cons c t)
    then have "r = CHR '';'' # t" using assms(2) by simp
    then show ?thesis
      using skip [of "CHR ''='' # v @ r"] eq cut_at_append [OF k(4), of t] k(1) by (subst find_cookie.simps) simp
  qed
qed

lemma find_cookie_text:
  "list_all clean_cookie cs \<Longrightarrow> find_cookie n (cookie_text cs) = (case map_of cs n of Some v \<Rightarrow> v | None \<Rightarrow> [])"
proof (induction cs rule: cookie_text.induct)
  case 1
  then show ?case by (simp add: find_cookie.simps)
next
  case (2 k v)
  then show ?case using find_cookie_item [of k v "[]" n] by simp
next
  case (3 k v c cs)
  then show ?case
    using find_cookie_item [of k v "''; '' @ cookie_text (c # cs)" n] by (simp add: find_cookie_space)
qed

section \<open>Responses of the handlers\<close>

lemmas response_defs = set_error_response_def set_json_body_def set_content_length_def set_content_type_def
  add_header_def set_status_def no_store_def

lemma status_set_error [simp]: "status_code (set_error_response c e m r) = c"
  by (simp add: response_defs)

lemma respond_with_session_fields:
  "status_code (respond_with_session cfg now s st msg r) = st"
  "map_of (resp_headers (respond_with_session cfg now s st msg r)) ''Set-Cookie'' = Some (session_cookie cfg now s)"
  by (simp_all add: respond_with_session_def set_session_cookie_def response_defs)

lemma login_answer_ok:
  "status_code (login_answer cfg now res r) = 200 \<Longrightarrow>
   \<exists>s. auth_status_of res = Auth_success \<and> auth_session_of res = Some s \<and>
       login_answer cfg now res r = respond_with_session cfg now s 200 ''OK'' r"
  by (auto simp: login_answer_def split: auth_status.splits option.splits)

lemma handle_login_ok:
  assumes "handle_login L sv cfg clk req resp w = (None, resp1, w1)" and "status_code resp1 = 200"
  obtains name pw res s where "parse_credentials L req = Some (name, pw)" "is_same_origin_request req"
    "login sv (clk 0) name pw w = (Inr res, w1)" "auth_status_of res = Auth_success" "auth_session_of res = Some s"
    "map_of (resp_headers resp1) ''Set-Cookie'' = Some (session_cookie cfg (clk 1) s)"
proof -
  from assms obtain name pw res r0 where p: "parse_credentials L req = Some (name, pw)"
    "login sv (clk 0) name pw w = (Inr res, w1)" "resp1 = login_answer cfg (clk 1) res r0" "is_same_origin_request req"
    by (auto simp: handle_login_def require_same_origin_def Let_def
        split: prod.splits bool.splits option.splits sum.splits if_splits)
  with login_answer_ok [of cfg "clk 1" res r0] assms(2) obtain s where
    "auth_status_of res = Auth_success" "auth_session_of res = Some s"
    and r: "resp1 = respond_with_session cfg (clk 1) s 200 ''OK'' r0" by auto
  moreover have "map_of (resp_headers resp1) ''Set-Cookie'' = Some (session_cookie cfg (clk 1) s)"
    unfolding r by (rule respond_with_session_fields)
  ultimately show ?thesis using p by (intro that [of name pw res s]) simp_all
qed

lemma token_clean:
  assumes "generate_token C c = (Some t, c')"
  shows "CHR '';'' \<notin> set t"
proof -
  obtain bs where "t = to_hex bs"
    using assms by (auto simp: generate_token_def split: prod.splits option.splits)
  moreover have "\<not> is_lower_hex CHR '';''" by (simp add: is_lower_hex_def is_digit_def)
  ultimately show ?thesis using to_hex_lower [of bs] by (auto simp: list_all_iff)
qed

lemma created_token_clean: "service_create_session sv now u w = (Inr (Some s), w') \<Longrightarrow> CHR '';'' \<notin> set (auth_token s)"
  by (auto simp: service_create_session_def Let_def dest: token_clean split: prod.splits option.splits if_splits sum.splits)

lemma handle_me_authenticated:
  assumes "session_token_from_request cfg req = t" and "t \<noteq> []"
    and "authenticate sv (clk 0) t w = (Inr r, w')"
  shows "\<exists>resp1. handle_me sv cfg clk req resp w = (None, resp1, w') \<and>
     (case r of Some u \<Rightarrow> status_code resp1 = 200 \<and> resp_body resp1 = user_json u | None \<Rightarrow> status_code resp1 = 401)"
  using assms
  by (cases r) (simp_all add: handle_me_def require_authenticated_user_def authenticate_request_def Let_def response_defs)

lemma logout_then_unknown:
  assumes "auth_repository_of sv = memory_auth" and "crypto_laws (auth_crypto sv)" and "mem_auth_ok (auth_store w)"
    and len: "length t = 64" and tok: "session_token_from_request cfg req = t" and same: "is_same_origin_request req"
  shows "\<exists>r v. handle_logout sv cfg clk req resp w = (None, r, v) \<and> status_code r = 204 \<and>
     (\<forall>clk' resp'. \<exists>r'. handle_me sv cfg clk' req resp' v = (None, r', v) \<and> status_code r' = 401)"
proof -
  have ne: "t \<noteq> []" using len by auto
  obtain r v where run: "logout sv (clk 0) t w = (r, v)" by fastforce
  note out0 = mem_accounts.logout_ends_session [OF assms(1-3) run len TrueI]
  have out: "r = Inr ()" "authenticate sv at t v = (Inr None, v)" for at
    unfolding mem_authenticate [OF assms(1)] using out0 by simp_all
  then have "\<exists>r'. handle_me sv cfg clk' req resp' v = (None, r', v) \<and> status_code r' = 401" for clk' resp'
    using handle_me_authenticated [where clk = clk' and resp = resp' and w = v and w' = v and r = None, OF tok ne] by auto
  moreover have "\<exists>r. handle_logout sv cfg clk req resp w = (None, r, v) \<and> status_code r = 204"
    using same run out tok by (simp add: handle_logout_def require_same_origin_def Let_def response_defs)
  ultimately show ?thesis by blast
qed

section \<open>Properties\<close>

text \<open>C29: cross-site requests. Registration, login and logout answer 403 and change nothing when the
  browser says the request is cross-site, or when it carries an \<open>Origin\<close> that is neither
  \<open>http://\<close> nor \<open>https://\<close> followed by the \<open>Host\<close>; no cookie is set.\<close>

theorem cross_site_requests_refused:
  assumes "lower_string (get_header ''Sec-Fetch-Site'' req) = ''cross-site'' \<or>
    (get_header ''Origin'' req \<noteq> [] \<and>
     (\<forall>scheme\<in>{''http'', ''https''}.
        lower_string (get_header ''Origin'' req) \<noteq> scheme @ ''://'' @ lower_string (get_header ''Host'' req)))"
  shows "\<exists>r. handle_register L sv cfg clk req resp w = (None, r, w) \<and>
     handle_login L sv cfg clk req resp w = (None, r, w) \<and> handle_logout sv cfg clk req resp w = (None, r, w) \<and>
     status_code r = 403 \<and> map_of (resp_headers r) ''Set-Cookie'' = map_of (resp_headers resp) ''Set-Cookie''"
proof -
  have "\<not> is_same_origin_request req"
    using assms by (auto simp: is_same_origin_request_def Let_def)
  then show ?thesis
    by (simp add: handle_register_def handle_login_def handle_logout_def require_same_origin_def Let_def response_defs)
qed

definition foreign_request :: http_request where
  "foreign_request =
     init_request\<lparr>req_headers := [(''Host'', ''hao.example''), (''Origin'', ''https://evil.example'')]\<rparr>"

lemma cross_site_requests_refused_witness:
  "\<exists>r. handle_login (one_document J_null []) sample_service default_auth_http_config (\<lambda>i. 5) foreign_request
         (init_response False) sample_auth_world = (None, r, sample_auth_world) \<and> status_code r = 403"
proof -
  have "lower_string (get_header ''Sec-Fetch-Site'' foreign_request) = ''cross-site'' \<or>
    (get_header ''Origin'' foreign_request \<noteq> [] \<and>
     (\<forall>scheme\<in>{''http'', ''https''}.
        lower_string (get_header ''Origin'' foreign_request) \<noteq> scheme @ ''://'' @ lower_string (get_header ''Host'' foreign_request)))"
    by code_simp
  from cross_site_requests_refused [OF this] show ?thesis by blast
qed


definition login_document :: json where
  "login_document = J_object [(''username'', J_string ''aLICE''), (''password'', J_string ''correct horse'')]"

definition login_request :: http_request where
  "login_request = init_request\<lparr>req_headers := [(''Content-Type'', ''application/json'')], req_body := ''{}''\<rparr>"

lemma login_request_parsed:
  "parse_credentials (one_document login_document ''{}'') login_request = Some (''aLICE'', ''correct horse'')"
  "is_same_origin_request login_request"
  by code_simp+

lemma sample_login:
  obtains w where "mem_auth_ok (auth_store w)"
    "\<exists>res v. login sample_service 6 ''aLICE'' ''correct horse'' w = (Inr res, v) \<and> auth_status_of res = Auth_success"
proof -
  obtain res w where r: "register_user sample_service (\<lambda>i. 5) ''Alice'' ''correct horse'' sample_auth_world = (Inr res, w)"
    "auth_status_of res = Auth_success"
    using sample_register [OF sample_name(1,2), of sample_auth_world "\<lambda>i. 5"]
    by (auto simp: sample_auth_world_def init_mem_auth_def)
  have ok: "mem_auth_ok (auth_store sample_auth_world)" "next_user_id (auth_store sample_auth_world) \<noteq> - 1"
    by (simp_all add: sample_auth_world_def init_mem_auth_def mem_auth_ok_def)
  have crypto: "crypto_laws (auth_crypto sample_service)" using plain_crypto_laws sample_service_parts by simp
  note reg = mem_register_success [OF sample_service_parts(1) crypto ok r]
  then obtain i su where i: "map_of (user_ids_by_name (auth_store w)) (normalize_username ''aLICE'') = Some i"
    "map_of (users (auth_store w)) i = Some su" "user_state (stored_account su) = User_active"
    "verify_password plain_crypto ''correct horse'' (stored_hash su)"
    using sample_service_parts sample_name(3) by auto
  have "\<exists>res v. login sample_service 6 ''aLICE'' ''correct horse'' w = (Inr res, v) \<and> auth_status_of res = Auth_success"
    using i plain_token plain_token_hash
    by (simp add: login_def sample_service_parts memory_auth_def mem_find_credentials_def
        service_create_session_def session_result_def Let_def)
  with reg show ?thesis by (intro that [of w]) auto
qed

lemma handle_login_success:
  assumes "parse_credentials L req = Some (name, pw)" and "is_same_origin_request req"
    and "login sv (clk 0) name pw w = (Inr res, w1)" and "auth_status_of res = Auth_success"
    and "auth_session_of res = Some s"
  shows "\<exists>resp1. handle_login L sv cfg clk req resp w = (None, resp1, w1) \<and> status_code resp1 = 200"
  using assms by (simp add: handle_login_def require_same_origin_def login_answer_def respond_with_session_fields Let_def)


end
