(* ===== verification/HttpMetrics.thy ===== *)
theory HttpMetrics
  imports HttpMessages ShortLinkMetrics
begin

text \<open>
  \<open>HttpMetrics.h/.cpp\<close>: the request counters of the HTTP server, one group per method and route.
  The two floating-point computations of \<open>record\<close> are taken as its inputs: the index of the first
  duration bucket that is not below the duration (\<open>bucket_count\<close> when there is none) and the
  rounded number of nanoseconds; the printing of a number of nanoseconds as seconds is a parameter
  of the rendering.
\<close>

section \<open>State\<close>

definition status_class_count :: nat where
  "status_class_count = 5"

definition bucket_count :: nat where
  "bucket_count = 13"

definition bucket_labels :: "string list" where
  "bucket_labels = [''0.0005'', ''0.001'', ''0.0025'', ''0.005'', ''0.01'', ''0.025'', ''0.05'', ''0.1'',
     ''0.25'', ''0.5'', ''1'', ''2.5'', ''5'']"

definition status_class_labels :: "string list" where
  "status_class_labels = [''2xx'', ''3xx'', ''4xx'', ''5xx'', ''other'']"

record route_metrics =
  metric_method :: string
  metric_route :: string
  status_counts :: "u64 list"
  duration_buckets :: "u64 list"
  request_count :: u64
  duration_nanoseconds :: u64

type_synonym http_metrics = "(string \<times> route_metrics) list"

section \<open>Operations\<close>

fun method_to_string :: "http_method \<Rightarrow> string" where
  "method_to_string M_get = ''GET''"
| "method_to_string M_post = ''POST''"
| "method_to_string M_head = ''HEAD''"
| "method_to_string M_put = ''PUT''"
| "method_to_string M_delete = ''DELETE''"
| "method_to_string M_options = ''OPTIONS''"
| "method_to_string M_invalid = ''INVALID''"

fun escape_label_value :: "string \<Rightarrow> string" where
  "escape_label_value [] = []"
| "escape_label_value (c # s) =
     (if c = CHR 0x5C then [CHR 0x5C, CHR 0x5C]
      else if c = CHR 0x22 then [CHR 0x5C, CHR 0x22]
      else if c = CHR 0x0A then [CHR 0x5C, CHR ''n'']
      else [c]) @ escape_label_value s"

definition make_key :: "http_method \<Rightarrow> string \<Rightarrow> string" where
  "make_key m route = method_to_string m @ nl @ route"

definition status_class_index :: "int \<Rightarrow> nat" where
  "status_class_index status =
     (if 200 \<le> status \<and> status < 300 then 0
      else if 300 \<le> status \<and> status < 400 then 1
      else if 400 \<le> status \<and> status < 500 then 2
      else if 500 \<le> status \<and> status < 600 then 3
      else 4)"

definition new_route :: "string \<Rightarrow> string \<Rightarrow> route_metrics" where
  "new_route m route =
     \<lparr>metric_method = m, metric_route = route, status_counts = replicate status_class_count 0,
      duration_buckets = replicate bucket_count 0, request_count = 0, duration_nanoseconds = 0\<rparr>"

definition find_or_register :: "http_method \<Rightarrow> string \<Rightarrow> http_metrics \<Rightarrow> route_metrics \<times> http_metrics" where
  "find_or_register m route h =
     (let key = make_key m route
      in case map_of h key of
           Some r \<Rightarrow> (r, h)
         | None \<Rightarrow> (let r = new_route (method_to_string m) route in (r, omap_put key r h)))"

definition register_route :: "http_method \<Rightarrow> string \<Rightarrow> http_metrics \<Rightarrow> http_metrics" where
  "register_route m route h = snd (find_or_register m route h)"

definition count_request :: "int \<Rightarrow> nat \<Rightarrow> u64 \<Rightarrow> route_metrics \<Rightarrow> route_metrics" where
  "count_request status bucket nanos r =
     (let r1 = r\<lparr>status_counts := fetch_add_one (status_class_index status) (status_counts r)\<rparr>;
          r2 = (if bucket < bucket_count
                then r1\<lparr>duration_buckets := fetch_add_one bucket (duration_buckets r1)\<rparr> else r1)
      in r2\<lparr>duration_nanoseconds := duration_nanoseconds r2 + nanos, request_count := request_count r2 + 1\<rparr>)"

definition record_request :: "http_method \<Rightarrow> string \<Rightarrow> int \<Rightarrow> nat \<Rightarrow> u64 \<Rightarrow> http_metrics \<Rightarrow> http_metrics" where
  "record_request m route status bucket nanos h =
     (case find_or_register m route h of
        (r, h1) \<Rightarrow> omap_put (make_key m route) (count_request status bucket nanos r) h1)"

section \<open>The Prometheus text\<close>

definition route_labels :: "route_metrics \<Rightarrow> string" where
  "route_labels r =
     ''{method='' @ quoted (escape_label_value (metric_method r)) @
     '',route='' @ quoted (escape_label_value (metric_route r))"

definition render_status_counts :: "route_metrics \<Rightarrow> string" where
  "render_status_counts r =
     concat (map (\<lambda>i. ''haohttp_http_requests_total'' @ route_labels r @ '',status_class='' @
                   quoted (status_class_labels ! i) @ ''} '' @ to_string_u64 (status_counts r ! i) @ nl)
       [0..<length status_class_labels])"

text \<open>The running total of the first buckets.\<close>

definition cumulative_count :: "route_metrics \<Rightarrow> nat \<Rightarrow> u64" where
  "cumulative_count r i = foldl (+) 0 (take (Suc i) (duration_buckets r))"

definition render_durations :: "(u64 \<Rightarrow> string) \<Rightarrow> route_metrics \<Rightarrow> string" where
  "render_durations seconds r =
     concat (map (\<lambda>i. ''haohttp_http_request_duration_seconds_bucket'' @ route_labels r @ '',le='' @
                   quoted (bucket_labels ! i) @ ''} '' @ to_string_u64 (cumulative_count r i) @ nl)
       [0..<length bucket_labels]) @
     ''haohttp_http_request_duration_seconds_bucket'' @ route_labels r @ '',le='' @ quoted ''+Inf'' @ ''} '' @
     to_string_u64 (request_count r) @ nl @
     ''haohttp_http_request_duration_seconds_sum'' @ route_labels r @ ''} '' @
     seconds (duration_nanoseconds r) @ nl @
     ''haohttp_http_request_duration_seconds_count'' @ route_labels r @ ''} '' @
     to_string_u64 (request_count r) @ nl"

definition render_http_metrics :: "(u64 \<Rightarrow> string) \<Rightarrow> http_metrics \<Rightarrow> string" where
  "render_http_metrics seconds h =
     metric_head ''haohttp_http_requests_total'' ''Total completed HTTP requests.'' ''counter'' @
     concat (map (render_status_counts \<circ> snd) h) @
     metric_head ''haohttp_http_request_duration_seconds'' ''HTTP request duration in seconds.'' ''histogram'' @
     concat (map (render_durations seconds \<circ> snd) h)"

section \<open>The counters agree\<close>

text \<open>
  Every route keeps its own cells, its status classes add up to its request count, and so do its
  duration buckets together with the requests beyond the last bucket (all modulo \<open>2 ^ 64\<close>).
\<close>

definition route_ok :: "route_metrics \<Rightarrow> bool" where
  "route_ok r \<longleftrightarrow> length (status_counts r) = status_class_count \<and> length (duration_buckets r) = bucket_count \<and>
     sum_list (status_counts r) = request_count r"

definition http_metrics_ok :: "http_metrics \<Rightarrow> bool" where
  "http_metrics_ok h \<longleftrightarrow> omap_ok h \<and> (\<forall>k r. map_of h k = Some r \<longrightarrow> route_ok r)"

lemma sum_list_add_one: "i < length xs \<Longrightarrow> sum_list (fetch_add_one i xs) = sum_list xs + 1"
proof (induction xs arbitrary: i)
  case (Cons x xs)
  then show ?case by (cases i) (auto simp: fetch_add_one_def)
qed simp

lemma status_class_less: "status_class_index s < status_class_count"
  by (simp add: status_class_index_def status_class_count_def)

lemma count_request_ok: "route_ok r \<Longrightarrow> route_ok (count_request s b n r)"
  using sum_list_add_one [of "status_class_index s" "status_counts r"] status_class_less [of s]
  by (auto simp: route_ok_def count_request_def Let_def fetch_add_one_def)

lemma new_route_ok: "route_ok (new_route m route)"
  by (simp add: route_ok_def new_route_def sum_list_replicate)

lemma http_metrics_ok_put: "http_metrics_ok h \<Longrightarrow> route_ok r \<Longrightarrow> http_metrics_ok (omap_put k r h)"
  by (simp add: http_metrics_ok_def omap_ok_put)

lemma find_or_register_ok:
  "http_metrics_ok h \<Longrightarrow> find_or_register m route h = (r, h1) \<Longrightarrow>
   route_ok r \<and> http_metrics_ok h1 \<and> map_of h1 (make_key m route) = Some r \<and>
   (\<forall>k. k \<noteq> make_key m route \<longrightarrow> map_of h1 k = map_of h k)"
proof (cases "map_of h (make_key m route)")
  case None
  assume "http_metrics_ok h" "find_or_register m route h = (r, h1)"
  moreover from this None have "r = new_route (method_to_string m) route" "h1 = omap_put (make_key m route) r h"
    by (auto simp: find_or_register_def Let_def)
  ultimately show ?thesis using new_route_ok http_metrics_ok_put by simp
next
  case (Some x)
  assume "http_metrics_ok h" "find_or_register m route h = (r, h1)"
  with Some show ?thesis by (simp add: find_or_register_def http_metrics_ok_def)
qed

lemma record_request_ok:
  assumes "http_metrics_ok h"
  shows "http_metrics_ok (record_request m route s b n h)"
proof -
  obtain r h1 where f: "find_or_register m route h = (r, h1)" by fastforce
  from find_or_register_ok [OF assms f] show ?thesis
    by (simp add: record_request_def f http_metrics_ok_put count_request_ok)
qed

lemma register_route_ok:
  assumes "http_metrics_ok h"
  shows "http_metrics_ok (register_route m route h)"
proof -
  obtain r h1 where f: "find_or_register m route h = (r, h1)" by fastforce
  from find_or_register_ok [OF assms f] show ?thesis by (simp add: register_route_def f)
qed

lemma init_http_metrics_ok [simp]: "http_metrics_ok []"
  by (simp add: http_metrics_ok_def)

lemma method_to_string_inj: "method_to_string m = method_to_string m' \<longleftrightarrow> m = m'"
  by (cases m; cases m') simp_all

lemma method_no_newline: "CHR 0x0A \<notin> set (method_to_string m)"
  by (cases m) simp_all

lemma make_key_inj: "make_key m r = make_key m' r' \<longleftrightarrow> m = m' \<and> r = r'"
proof
  assume "make_key m r = make_key m' r'"
  then have "cut_at CHR 0x0A (method_to_string m @ CHR 0x0A # r) = cut_at CHR 0x0A (method_to_string m' @ CHR 0x0A # r')"
    by (simp add: make_key_def nl_def)
  then show "m = m' \<and> r = r'"
    by (simp add: cut_at_append [OF method_no_newline] method_to_string_inj)
qed simp

text \<open>The requests of a method and route counted so far, by class of status.\<close>

definition requests_counted :: "http_metrics \<Rightarrow> http_method \<Rightarrow> string \<Rightarrow> nat \<Rightarrow> u64" where
  "requests_counted h m route c =
     (case map_of h (make_key m route) of Some r \<Rightarrow> status_counts r ! c | None \<Rightarrow> 0)"

section \<open>Properties\<close>

text \<open>Request counters. Recording a request adds one to the cell of its method, route and
  class of status and to no other cell of any method and route, and the classes of every route keep
  adding up to its number of requests.\<close>

theorem request_counted_once:
  assumes "http_metrics_ok h" and "c' < status_class_count"
  shows "requests_counted (record_request m route s b n h) m' route' c' =
      (if m' = m \<and> route' = route \<and> c' = status_class_index s then requests_counted h m' route' c' + 1
       else requests_counted h m' route' c') \<and>
     http_metrics_ok (record_request m route s b n h)"
proof
  obtain r h1 where f: "find_or_register m route h = (r, h1)" by fastforce
  note ok = find_or_register_ok [OF assms(1) f]
  have cells: "status_counts (count_request s b n r) = fetch_add_one (status_class_index s) (status_counts r)"
    by (simp add: count_request_def Let_def)
  have len: "length (status_counts r) = status_class_count" using ok by (simp add: route_ok_def)
  have before: "requests_counted h m route c' = status_counts r ! c'"
    using f assms(2) by (auto simp: requests_counted_def find_or_register_def new_route_def Let_def split: option.splits)
  show "requests_counted (record_request m route s b n h) m' route' c' =
      (if m' = m \<and> route' = route \<and> c' = status_class_index s then requests_counted h m' route' c' + 1
       else requests_counted h m' route' c')"
  proof (cases "m' = m \<and> route' = route")
    case True
    then show ?thesis
      using cells before len assms(2) by (auto simp: requests_counted_def record_request_def f fetch_add_one_def)
  next
    case False
    then have "make_key m' route' \<noteq> make_key m route" by (simp add: make_key_inj)
    then show ?thesis using False ok by (auto simp: requests_counted_def record_request_def f)
  qed
qed (rule record_request_ok [OF assms(1)])

lemma request_counted_once_witness:
  "requests_counted (record_request M_get ''/s/:code'' 302 3 4000000 []) M_get ''/s/:code'' 1 = 1"
  using request_counted_once [OF init_http_metrics_ok, where c' = 1 and m = M_get and m' = M_get and route = "''/s/:code''"
      and route' = "''/s/:code''" and s = 302 and b = 3 and n = 4000000]
  by (simp add: status_class_count_def status_class_index_def requests_counted_def)

end
