(* ===== verification/HttpContext.thy ===== *)
theory HttpContext
  imports HttpMessages
begin

text \<open>
  \<open>HttpContext.h/.cpp\<close>: the incremental parser of requests. The bytes of the network library's
  buffer that are not read yet are a string, and its search for the end of a line is the parameter
  \<open>fc\<close> (the position of the first \<open>CR LF\<close>), with its documented behaviour as the hypothesis
  \<open>finds_crlf\<close>. The parser loops forever when it is called in the state \<open>Got_all\<close>; its result is
  then \<open>None\<close>. The assertion of \<open>setMethod\<close> is not in the release build and is left out.
\<close>

section \<open>The search for a line end\<close>

type_synonym crlf_search = "string \<Rightarrow> nat option"

text \<open>A position outside the bytes, which the library never returns, counts as none.\<close>

definition line_end :: "crlf_search \<Rightarrow> string \<Rightarrow> nat option" where
  "line_end fc b = (case fc b of Some i \<Rightarrow> if i + 2 \<le> length b then Some i else None | None \<Rightarrow> None)"

definition finds_crlf :: "crlf_search \<Rightarrow> bool" where
  "finds_crlf fc \<longleftrightarrow> (\<forall>b. fc b = map_option (\<lambda>(u, r). length u) (read_line b))"

definition scan_crlf :: crlf_search where
  "scan_crlf b = map_option (\<lambda>(u, r). length u) (read_line b)"

lemma scan_crlf_finds [simp]: "finds_crlf scan_crlf"
  by (simp add: finds_crlf_def scan_crlf_def)

section \<open>State\<close>

datatype parse_state = Expect_request_line | Expect_headers | Expect_body | Got_all

record http_context =
  ctx_state :: parse_state
  ctx_request :: http_request

definition init_context :: http_context where
  "init_context = \<lparr>ctx_state = Expect_request_line, ctx_request = init_request\<rparr>"

definition got_all :: "http_context \<Rightarrow> bool" where
  "got_all c \<longleftrightarrow> ctx_state c = Got_all"

text \<open>\<open>swap\<close> with a new request.\<close>

definition reset_context :: "http_context \<Rightarrow> http_context" where
  "reset_context c = \<lparr>ctx_state = Expect_request_line, ctx_request = init_request\<rparr>"

section \<open>The request line\<close>

definition set_target :: "string \<Rightarrow> http_request \<Rightarrow> http_request" where
  "set_target target r =
     (case cut_at CHR ''?'' target of
        (path, Some args) \<Rightarrow> set_query_parameters args (r\<lparr>req_path := path\<rparr>)
      | (path, None) \<Rightarrow> r\<lparr>req_path := path\<rparr>)"

definition read_version :: "string \<Rightarrow> string option" where
  "read_version v =
     (if length v = 8 \<and> take 7 v = ''HTTP/1.''
      then (if last v = CHR ''1'' then Some ''HTTP/1.1'' else if last v = CHR ''0'' then Some ''HTTP/1.0'' else None)
      else None)"

definition process_request_line :: "string \<Rightarrow> http_request \<Rightarrow> bool \<times> http_request" where
  "process_request_line line r =
     (case cut_at CHR '' '' line of
        (m, None) \<Rightarrow> (False, r)
      | (m, Some rest) \<Rightarrow>
          (case set_method m r of
             (False, r1) \<Rightarrow> (False, r1)
           | (True, r1) \<Rightarrow>
               (case cut_at CHR '' '' rest of
                  (target, None) \<Rightarrow> (False, r1)
                | (target, Some version) \<Rightarrow>
                    (let r2 = set_target target r1
                     in case read_version version of
                          Some v \<Rightarrow> (True, r2\<lparr>req_version := v\<rparr>)
                        | None \<Rightarrow> (False, r2)))))"

section \<open>The headers\<close>

text \<open>The end of the headers: the result of the parser, and whether it goes on reading.\<close>

definition end_of_headers :: "http_context \<Rightarrow> exn + (bool \<times> bool) \<times> http_context" where
  "end_of_headers c =
     (let r = ctx_request c
      in if req_method r = M_post \<or> req_method r = M_put
         then (let cl = get_header ''Content-Length'' r
               in if cl = [] then Inr ((False, False), c)
                  else (case stoi cl of
                          Inl e \<Rightarrow> Inl e
                        | Inr (n, _) \<Rightarrow>
                            (let c1 = c\<lparr>ctx_request := r\<lparr>content_length := word_of_int n\<rparr>\<rparr>
                             in if content_length (ctx_request c1) > 0
                                then Inr ((True, True), c1\<lparr>ctx_state := Expect_body\<rparr>)
                                else Inr ((True, False), c1\<lparr>ctx_state := Got_all\<rparr>))))
         else Inr ((True, False), c\<lparr>ctx_state := Got_all\<rparr>))"

definition header_step :: "string \<Rightarrow> http_context \<Rightarrow> exn + (bool \<times> bool) \<times> http_context" where
  "header_step line c =
     (case cut_at CHR '':'' line of
        (key, Some value) \<Rightarrow> Inr ((True, True), c\<lparr>ctx_request := add_request_header key value (ctx_request c)\<rparr>)
      | (_, None) \<Rightarrow> if line = [] then end_of_headers c else Inr ((False, False), c))"

section \<open>The loop\<close>

type_synonym parse_result = "((exn + bool) \<times> http_context \<times> string) option"

definition body_step :: "http_context \<Rightarrow> string \<Rightarrow> parse_result" where
  "body_step c b =
     (let n = unat (content_length (ctx_request c))
      in if length b < n then Some (Inr True, c, b)
         else Some (Inr True, c\<lparr>ctx_request := (ctx_request c)\<lparr>req_body := take n b\<rparr>, ctx_state := Got_all\<rparr>, drop n b))"

lemma line_end_less: "line_end fc b = Some i \<Longrightarrow> i + 2 \<le> length b"
  by (auto simp: line_end_def split: option.splits if_splits)

function parse_loop :: "crlf_search \<Rightarrow> int \<Rightarrow> http_context \<Rightarrow> string \<Rightarrow> parse_result" where
  "parse_loop fc now c b =
     (case ctx_state c of
        Expect_request_line \<Rightarrow>
          (case line_end fc b of
             None \<Rightarrow> Some (Inr True, c, b)
           | Some i \<Rightarrow>
               (case process_request_line (take i b) (ctx_request c) of
                  (True, r) \<Rightarrow>
                    parse_loop fc now (c\<lparr>ctx_state := Expect_headers, ctx_request := r\<lparr>receive_time := now\<rparr>\<rparr>) (drop (i + 2) b)
                | (False, r) \<Rightarrow> Some (Inr False, c\<lparr>ctx_request := r\<rparr>, b)))
      | Expect_headers \<Rightarrow>
          (case line_end fc b of
             None \<Rightarrow> Some (Inr True, c, b)
           | Some i \<Rightarrow>
               (case header_step (take i b) c of
                  Inl e \<Rightarrow> Some (Inl e, c, b)
                | Inr ((ok, has_more), c1) \<Rightarrow>
                    if has_more then parse_loop fc now c1 (drop (i + 2) b) else Some (Inr ok, c1, drop (i + 2) b)))
      | Expect_body \<Rightarrow> body_step c b
      | Got_all \<Rightarrow> None)"
  by pat_completeness auto

termination
  by (relation "measure (\<lambda>(fc, now, c, b). length b)") (auto dest!: line_end_less)

declare parse_loop.simps [simp del]

definition parse_request :: "crlf_search \<Rightarrow> int \<Rightarrow> http_context \<Rightarrow> string \<Rightarrow> parse_result" where
  "parse_request fc now c b = parse_loop fc now c b"

section \<open>The parser returns\<close>

lemma header_step_more:
  "header_step line c = Inr ((ok, True), c1) \<Longrightarrow> ctx_state c = Expect_headers \<Longrightarrow> ctx_state c1 \<noteq> Got_all"
  by (auto simp: header_step_def end_of_headers_def Let_def split: prod.splits option.splits if_splits sum.splits)

lemma parse_loop_returns: "ctx_state c \<noteq> Got_all \<Longrightarrow> parse_loop fc now c b \<noteq> None"
proof (induction fc now c b rule: parse_loop.induct)
  case (1 fc now c b)
  show ?case
  proof (cases "ctx_state c")
    case Expect_request_line
    then show ?thesis
      using 1(1) by (subst parse_loop.simps) (auto split: option.split prod.split bool.split)
  next
    case Expect_headers
    show ?thesis
    proof (cases "line_end fc b")
      case None
      then show ?thesis using Expect_headers by (subst parse_loop.simps) simp
    next
      case (Some i)
      show ?thesis
      proof (cases "header_step (take i b) c")
        case (Inl e)
        then show ?thesis using Expect_headers Some by (subst parse_loop.simps) simp
      next
        case (Inr x)
        then obtain ok has_more c1 where x: "header_step (take i b) c = Inr ((ok, has_more), c1)" by (cases x) auto
        show ?thesis
          using 1(2) [OF Expect_headers Some x refl refl] header_step_more x Expect_headers Some
          by (subst parse_loop.simps) auto
      qed
    qed
  next
    case Expect_body
    then show ?thesis by (subst parse_loop.simps) (simp add: body_step_def Let_def)
  next
    case Got_all
    then show ?thesis using 1(3) by simp
  qed
qed

section \<open>More bytes\<close>

lemma read_line_extend: "read_line a = Some (u, r) \<Longrightarrow> read_line (a @ b) = Some (u, r @ b)"
proof (induction a arbitrary: u)
  case (Cons c a)
  show ?case
  proof (cases "starts_with crlf (c # a)")
    case True
    then obtain t where "c # a = crlf @ t" by (auto simp: starts_with_iff)
    then show ?thesis using Cons.prems True by (auto simp: crlf_def)
  next
    case False
    then obtain v where v: "read_line a = Some (v, r)" "u = c # v" using Cons.prems by auto
    have "\<not> starts_with crlf ((c # a) @ b)"
    proof
      assume st: "starts_with crlf ((c # a) @ b)"
      have "a \<noteq> []" using v(1) by auto
      then obtain d a' where "a = d # a'" by (cases a) auto
      with st False show False by (auto simp: crlf_def)
    qed
    then show ?thesis using Cons.IH [OF v(1)] v(2) by simp
  qed
qed simp

lemma read_line_length: "read_line a = Some (u, r) \<Longrightarrow> length u + 2 \<le> length a \<and> take (length u) a = u \<and> drop (length u + 2) a = r"
proof (induction a arbitrary: u)
  case (Cons c a)
  show ?case
  proof (cases "starts_with crlf (c # a)")
    case True
    then obtain t where "c # a = crlf @ t" by (auto simp: starts_with_iff)
    then show ?thesis using Cons.prems True by (auto simp: crlf_def)
  next
    case False
    then show ?thesis using Cons by auto
  qed
qed simp

lemma line_end_read: "finds_crlf fc \<Longrightarrow> line_end fc a = map_option (\<lambda>(u, r). length u) (read_line a)"
proof -
  assume "finds_crlf fc"
  then have "fc a = map_option (\<lambda>(u, r). length u) (read_line a)" by (simp add: finds_crlf_def)
  then show ?thesis
    using read_line_length [of a] by (cases "read_line a") (auto simp: line_end_def)
qed

lemma line_end_extend:
  assumes "finds_crlf fc" and "line_end fc a = Some i"
  shows "line_end fc (a @ b) = Some i" and "i \<le> length a" and "i + 2 \<le> length a"
  using assms line_end_less [OF assms(2)]
  by (auto simp: line_end_read read_line_extend)

text \<open>What a call says about the same call with more bytes in the buffer.\<close>

definition extended :: "crlf_search \<Rightarrow> int \<Rightarrow> string \<Rightarrow> parse_result \<Rightarrow> parse_result" where
  "extended fc now b res =
     (case res of
        None \<Rightarrow> None
      | Some (r, c, rest) \<Rightarrow>
          if r = Inr True \<and> \<not> got_all c then parse_loop fc now c (rest @ b) else Some (r, c, rest @ b))"

lemma body_step_extend: "ctx_state c = Expect_body \<Longrightarrow> parse_loop fc now c (a @ b) = extended fc now b (body_step c a)"
  by (subst parse_loop.simps) (auto simp: body_step_def extended_def got_all_def Let_def parse_loop.simps)

lemma header_step_done:
  "header_step line c = Inr ((ok, False), c1) \<Longrightarrow> ctx_state c = Expect_headers \<Longrightarrow> \<not> (ok \<and> \<not> got_all c1)"
  by (auto simp: header_step_def end_of_headers_def got_all_def Let_def split: prod.splits option.splits if_splits sum.splits)

lemma extended_simps [simp]:
  "extended fc now b None = None"
  "extended fc now b (Some (Inl e, c, rest)) = Some (Inl e, c, rest @ b)"
  "extended fc now b (Some (Inr False, c, rest)) = Some (Inr False, c, rest @ b)"
  "extended fc now b (Some (Inr True, c, rest)) = (if got_all c then Some (Inr True, c, rest @ b) else parse_loop fc now c (rest @ b))"
  by (simp_all add: extended_def)

lemma parse_loop_extend:
  assumes "finds_crlf fc"
  shows "parse_loop fc now c (a @ b) = extended fc now b (parse_loop fc now c a)"
  using assms
proof (induction fc now c a rule: parse_loop.induct)
  case (1 fc now c a)
  show ?case
  proof (cases "ctx_state c = Expect_body \<or> ctx_state c = Got_all \<or> line_end fc a = None")
    case True
    then consider "ctx_state c = Expect_body" | "ctx_state c = Got_all"
      | "ctx_state c \<in> {Expect_request_line, Expect_headers}" "line_end fc a = None"
      using parse_state.exhaust [of "ctx_state c"] by auto
    then show ?thesis
    proof cases
      case 1
      then show ?thesis using body_step_extend [OF 1, of fc now a b] by (subst (2) parse_loop.simps) simp
    next
      case 2
      then show ?thesis by (subst (1 2) parse_loop.simps) simp
    next
      case 3
      then have "parse_loop fc now c a = Some (Inr True, c, a)" "\<not> got_all c"
        by (subst parse_loop.simps, auto simp: got_all_def)+
      then show ?thesis by simp
    qed
  next
    case False
    then obtain i where i: "line_end fc a = Some i" by auto
    note ext = line_end_extend [OF 1(3) i]
    have cut: "take i (a @ b) = take i a" "drop (i + 2) (a @ b) = drop (i + 2) a @ b" using ext by simp_all
    consider "ctx_state c = Expect_request_line" | "ctx_state c = Expect_headers"
      using False parse_state.exhaust [of "ctx_state c"] by auto
    then show ?thesis
    proof cases
      case st: 1
      obtain ok r where p: "process_request_line (take i a) (ctx_request c) = (ok, r)" by fastforce
      show ?thesis
      proof (cases ok)
        case True
        let ?c = "c\<lparr>ctx_state := Expect_headers, ctx_request := r\<lparr>receive_time := now\<rparr>\<rparr>"
        have "parse_loop fc now ?c (drop (i + 2) a @ b) = extended fc now b (parse_loop fc now ?c (drop (i + 2) a))"
          using 1(1) [OF st i p [symmetric]] True 1(3) by simp
        then show ?thesis using st i p ext cut True by (subst (1 2) parse_loop.simps) simp
      next
        case False
        then show ?thesis using st i p ext cut by (subst (1 2) parse_loop.simps) simp
      qed
    next
      case st: 2
      show ?thesis
      proof (cases "header_step (take i a) c")
        case (Inl e)
        then show ?thesis using st i ext cut by (subst (1 2) parse_loop.simps) simp
      next
        case (Inr x)
        then obtain ok has_more c1 where x: "header_step (take i a) c = Inr ((ok, has_more), c1)" by (cases x) auto
        show ?thesis
        proof (cases has_more)
          case True
          have "parse_loop fc now c1 (drop (i + 2) a @ b) = extended fc now b (parse_loop fc now c1 (drop (i + 2) a))"
            using 1(2) [OF st i x refl refl True 1(3)] .
          then show ?thesis using st i x ext cut True by (subst (1 2) parse_loop.simps) simp
        next
          case False
          then show ?thesis
            using st i x ext cut header_step_done [of "take i a" c ok c1] by (subst (1 2) parse_loop.simps) (cases ok, auto)
        qed
      qed
    qed
  qed
qed

text \<open>
  The delivery of a request in several messages, as \<open>onMessage\<close> calls the parser: each message is
  appended to the unread bytes; the first call that completes a request or fails is the last one.
\<close>

fun feed :: "crlf_search \<Rightarrow> int \<Rightarrow> http_context \<Rightarrow> string \<Rightarrow> string list \<Rightarrow> parse_result" where
  "feed fc now c b [] = Some (Inr True, c, b)"
| "feed fc now c b (x # xs) =
     (case parse_request fc now c (b @ x) of
        None \<Rightarrow> None
      | Some (r, c1, rest) \<Rightarrow>
          if r = Inr True \<and> \<not> got_all c1 then feed fc now c1 rest xs else Some (r, c1, rest @ concat xs))"

lemma feed_one: "feed fc now c b [x] = parse_request fc now c (b @ x)"
  by (auto split: option.split)

lemma feed_whole: "finds_crlf fc \<Longrightarrow> xs \<noteq> [] \<Longrightarrow> feed fc now c b xs = parse_request fc now c (b @ concat xs)"
proof (induction xs arbitrary: c b)
  case (Cons x xs)
  show ?case
  proof (cases "xs = []")
    case True
    then show ?thesis using feed_one [of fc now c b x] by simp
  next
    case False
    have "parse_request fc now c (b @ concat (x # xs)) = extended fc now (concat xs) (parse_loop fc now c (b @ x))"
      using parse_loop_extend [OF Cons.prems(1), of now c "b @ x" "concat xs"] by (simp add: parse_request_def)
    moreover have "feed fc now c b (x # xs) = extended fc now (concat xs) (parse_loop fc now c (b @ x))"
      using Cons.IH [OF Cons.prems(1) False]
      by (auto simp: parse_request_def extended_def split: option.split)
    ultimately show ?thesis by simp
  qed
qed simp

section \<open>A well-formed request\<close>

text \<open>The text of a request as a client writes it.\<close>

definition target_text :: "string \<Rightarrow> string option \<Rightarrow> string" where
  "target_text path args = path @ (case args of Some a \<Rightarrow> ''?'' @ a | None \<Rightarrow> [])"

definition request_text :: "string \<Rightarrow> string \<Rightarrow> string option \<Rightarrow> string \<Rightarrow> (string \<times> string) list \<Rightarrow> string \<Rightarrow> string" where
  "request_text m path args version hs body =
     m @ '' '' @ target_text path args @ '' '' @ version @ crlf @
     concat (map (\<lambda>h. header_line h @ crlf) hs) @ crlf @ body"

definition trimmed :: "string \<Rightarrow> bool" where
  "trimmed v \<longleftrightarrow> v = [] \<or> \<not> is_space (hd v) \<and> \<not> is_space (last v)"

definition clean_header :: "string \<times> string \<Rightarrow> bool" where
  "clean_header h \<longleftrightarrow> CHR '':'' \<notin> set (fst h) \<and> no_line_break (fst h) \<and> no_line_break (snd h) \<and> trimmed (snd h)"

definition clean_target :: "string \<Rightarrow> string option \<Rightarrow> bool" where
  "clean_target path args \<longleftrightarrow> no_line_break (target_text path args) \<and> CHR '' '' \<notin> set (target_text path args) \<and>
     CHR ''?'' \<notin> set path"

definition put_headers :: "(string \<times> string) list \<Rightarrow> (string \<times> string) list \<Rightarrow> (string \<times> string) list" where
  "put_headers hs m = foldl (\<lambda>m h. omap_put (fst h) (snd h) m) m hs"

lemma trim_trimmed: "trimmed v \<Longrightarrow> trim_right (dropWhile is_space (CHR '' '' # v)) = v"
proof (cases v)
  case (Cons c cs)
  assume "trimmed v"
  then have c: "\<not> is_space c" and l: "\<not> is_space (last v)" using Cons by (simp_all add: trimmed_def)
  have "is_space CHR '' ''" by (simp add: is_space_def)
  then have "dropWhile is_space (CHR '' '' # v) = v" using c Cons by simp
  moreover have "trim_right v = v"
  proof -
    obtain w where w: "v = w @ [last v]" using Cons append_butlast_last_id [of v] by (metis list.distinct(1))
    have "trim_right (w @ [x]) = w @ [x]" if "\<not> is_space x" for w x using that by (simp add: trim_right_def)
    then show ?thesis using l w by metis
  qed
  ultimately show ?thesis by simp
qed (simp add: trim_right_def is_space_def)

lemma header_step_line:
  assumes "clean_header (k, v)"
  shows "header_step (header_line (k, v)) c = Inr ((True, True), c\<lparr>ctx_request := (ctx_request c)\<lparr>req_headers := omap_put k v (req_headers (ctx_request c))\<rparr>\<rparr>)"
proof -
  have "cut_at CHR '':'' (k @ CHR '':'' # CHR '' '' # v) = (k, Some (CHR '' '' # v))"
    using assms by (intro cut_at_append) (simp add: clean_header_def)
  then show ?thesis
    using trim_trimmed [of v] assms by (simp add: header_step_def header_line_def add_request_header_def clean_header_def)
qed

lemma line_end_text: "finds_crlf fc \<Longrightarrow> no_line_break u \<Longrightarrow> line_end fc (u @ crlf @ r) = Some (length u)"
  by (simp add: line_end_read read_line_crlf)

lemma after_line: "take (length u) (u @ crlf @ r) = u" "drop (length u + 2) (u @ crlf @ r) = r"
  by (simp_all add: crlf_def)

lemma parse_headers:
  assumes "finds_crlf fc"
  shows "list_all clean_header hs \<Longrightarrow> ctx_state c = Expect_headers \<Longrightarrow>
   parse_loop fc now c (concat (map (\<lambda>h. header_line h @ crlf) hs) @ s) =
   parse_loop fc now (c\<lparr>ctx_request := (ctx_request c)\<lparr>req_headers := put_headers hs (req_headers (ctx_request c))\<rparr>\<rparr>) s"
proof (induction hs arbitrary: c)
  case Nil
  then show ?case by (simp add: put_headers_def)
next
  case (Cons h hs)
  obtain k v where h: "h = (k, v)" by fastforce
  then have clean: "clean_header (k, v)" and tl: "list_all clean_header hs" using Cons.prems by simp_all
  let ?rest = "concat (map (\<lambda>h. header_line h @ crlf) hs) @ s"
  let ?c = "c\<lparr>ctx_request := (ctx_request c)\<lparr>req_headers := omap_put k v (req_headers (ctx_request c))\<rparr>\<rparr>"
  have nb: "no_line_break (header_line (k, v))" using clean by (simp add: clean_header_def header_line_def)
  have "parse_loop fc now c (header_line (k, v) @ crlf @ ?rest) = parse_loop fc now ?c ?rest"
    using Cons.prems(2) line_end_text [OF assms nb, of ?rest] header_step_line [OF clean, of c]
      after_line [of "header_line (k, v)" ?rest]
    by (subst parse_loop.simps) (simp del: take_append drop_append)
  then show ?case using Cons.IH [OF tl, of ?c] Cons.prems(2) h by (simp add: put_headers_def)
qed

lemma process_clean_line:
  assumes "parse_method m \<noteq> M_invalid" and "clean_target path args" and "version \<in> {''HTTP/1.0'', ''HTTP/1.1''}"
  shows "process_request_line (m @ '' '' @ target_text path args @ '' '' @ version) r =
     (True, (set_target (target_text path args) (r\<lparr>req_method := parse_method m\<rparr>))\<lparr>req_version := version\<rparr>)"
proof -
  have m: "CHR '' '' \<notin> set m" using assms(1) by (auto simp: parse_method_def split: if_splits)
  have "cut_at CHR '' '' (m @ CHR '' '' # target_text path args @ CHR '' '' # version) =
      (m, Some (target_text path args @ CHR '' '' # version))" by (rule cut_at_append [OF m])
  moreover have "cut_at CHR '' '' (target_text path args @ CHR '' '' # version) = (target_text path args, Some version)"
    using assms(2) by (intro cut_at_append) (simp add: clean_target_def)
  moreover have "read_version version = Some version" using assms(3) by (auto simp: read_version_def)
  ultimately show ?thesis using assms(1) by (simp add: process_request_line_def set_method_def Let_def)
qed

lemma set_clean_target:
  "clean_target path args \<Longrightarrow> set_target (target_text path args) r =
     r\<lparr>req_path := path, query_params := (case args of Some a \<Rightarrow> split_query a (query_params r) | None \<Rightarrow> query_params r)\<rparr>"
  by (cases args) (simp_all add: set_target_def target_text_def clean_target_def cut_at_append cut_at_none set_query_parameters_def)

definition has_body :: "http_method \<Rightarrow> bool" where
  "has_body m \<longleftrightarrow> m = M_post \<or> m = M_put"

lemma put_headers_map: "map_of (put_headers hs m) = map_of m ++ map_of (rev hs)"
  by (induction hs arbitrary: m) (simp_all add: put_headers_def map_add_def fun_eq_iff split: option.split)

lemma stoi_dec: "n < 2 ^ 31 \<Longrightarrow> \<exists>k. stoi (dec_string n) = Inr (int n, k)"
  by (simp add: stoi_def scan_dec_string)

lemma parse_end_of_headers:
  assumes "finds_crlf fc" and "ctx_state c = Expect_headers"
    and "end_of_headers c = Inr ((ok, has_more), c1)"
  shows "parse_loop fc now c (crlf @ s) = (if has_more then parse_loop fc now c1 s else Some (Inr ok, c1, s))"
proof -
  have "line_end fc (crlf @ s) = Some 0" using line_end_text [OF assms(1), of "[]" s] by simp
  moreover have "header_step [] c = Inr ((ok, has_more), c1)" using assms(3) by (simp add: header_step_def)
  moreover have "drop 2 (crlf @ s) = s" by (simp add: crlf_def)
  ultimately show ?thesis using assms(2) by (subst parse_loop.simps) (simp add: numeral_2_eq_2 del: drop_append)
qed

text \<open>The header that announces the body, where the method has one.\<close>

definition announces :: "http_method \<Rightarrow> (string \<times> string) list \<Rightarrow> string \<Rightarrow> bool" where
  "announces m hs body \<longleftrightarrow>
     (if has_body m then map_of (rev hs) ''Content-Length'' = Some (dec_string (length body)) \<and> length body < 2 ^ 31
      else body = [])"

lemma body_parsed:
  assumes fc: "finds_crlf fc" and st: "ctx_state c = Expect_headers" and hs: "req_headers (ctx_request c) = put_headers hs []"
    and body: "announces (req_method (ctx_request c)) hs body" and fresh: "req_body (ctx_request c) = []"
  shows "\<exists>r. parse_loop fc now c (crlf @ body @ rest) = Some (Inr True, \<lparr>ctx_state = Got_all, ctx_request = r\<rparr>, rest) \<and>
     req_method r = req_method (ctx_request c) \<and> req_path r = req_path (ctx_request c) \<and>
     query_params r = query_params (ctx_request c) \<and> req_version r = req_version (ctx_request c) \<and>
     req_headers r = req_headers (ctx_request c) \<and> req_body r = body"
proof (cases "has_body (req_method (ctx_request c))")
  case False
  have eq: "end_of_headers c = Inr ((True, False), c\<lparr>ctx_state := Got_all\<rparr>)"
    using False by (simp add: end_of_headers_def has_body_def Let_def)
  show ?thesis
    using parse_end_of_headers [OF fc st eq, of now "body @ rest"] False body fresh
    by (cases c) (simp add: announces_def)
next
  case True
  let ?r = "ctx_request c" and ?n = "length body"
  obtain k where k: "stoi (dec_string ?n) = Inr (int ?n, k)"
    using stoi_dec [of ?n] body True by (auto simp: announces_def)
  have cl: "get_header ''Content-Length'' ?r = dec_string ?n"
    using body True hs by (simp add: announces_def get_header_def header_value_def put_headers_map)
  let ?r1 = "?r\<lparr>content_length := word_of_int (int ?n)\<rparr>"
  have "?n < 2 ^ 64" using body True by (simp add: announces_def)
  then have n: "unat (word_of_int (int ?n) :: u64) = ?n" by (simp add: unsigned_of_nat take_bit_nat_eq_self)
  have pos: "(word_of_int (int ?n) :: u64) > 0 \<longleftrightarrow> body \<noteq> []" using n by (simp add: word_less_nat_alt)
  show ?thesis
  proof (cases "body = []")
    case empty: True
    have eq: "end_of_headers c = Inr ((True, False), c\<lparr>ctx_request := ?r1, ctx_state := Got_all\<rparr>)"
      using True cl k empty pos by (simp add: end_of_headers_def has_body_def Let_def)
    show ?thesis
      using parse_end_of_headers [OF fc st eq, of now "body @ rest"] empty fresh by (cases c) simp
  next
    case False
    have eq: "end_of_headers c = Inr ((True, True), c\<lparr>ctx_request := ?r1, ctx_state := Expect_body\<rparr>)"
      using True cl k False pos by (simp add: end_of_headers_def has_body_def Let_def)
    have "parse_loop fc now (c\<lparr>ctx_request := ?r1, ctx_state := Expect_body\<rparr>) (body @ rest) =
        Some (Inr True, c\<lparr>ctx_request := ?r1\<lparr>req_body := body\<rparr>, ctx_state := Got_all\<rparr>, rest)"
      using n by (subst parse_loop.simps) (simp add: body_step_def)
    then show ?thesis
      using parse_end_of_headers [OF fc st eq, of now "body @ rest"] by (cases c) simp
  qed
qed

definition head_request ::
  "int \<Rightarrow> string \<Rightarrow> string \<Rightarrow> string option \<Rightarrow> string \<Rightarrow> (string \<times> string) list \<Rightarrow> http_request" where
  "head_request now m path args version hs =
     init_request\<lparr>req_method := parse_method m, req_path := path,
       query_params := (case args of Some a \<Rightarrow> split_query a [] | None \<Rightarrow> []), req_version := version,
       receive_time := now, req_headers := put_headers hs []\<rparr>"

lemma head_parsed:
  assumes fc: "finds_crlf fc" and m: "parse_method m \<noteq> M_invalid" and t: "clean_target path args"
    and v: "version \<in> {''HTTP/1.0'', ''HTTP/1.1''}" and hs: "list_all clean_header hs"
  shows "parse_loop fc now init_context (request_text m path args version hs body @ rest) =
     parse_loop fc now \<lparr>ctx_state = Expect_headers, ctx_request = head_request now m path args version hs\<rparr> (crlf @ body @ rest)"
proof -
  let ?line = "m @ '' '' @ target_text path args @ '' '' @ version"
  let ?hs = "concat (map (\<lambda>h. header_line h @ crlf) hs)"
  let ?r = "head_request now m path args version []"
  have nb: "no_line_break ?line"
  proof -
    have "no_line_break m" using m by (auto simp: parse_method_def split: if_splits)
    moreover have "no_line_break version" using v by auto
    ultimately show ?thesis using t by (simp add: clean_target_def)
  qed
  have line: "process_request_line ?line init_request = (True, ?r\<lparr>receive_time := 0\<rparr>)"
    unfolding process_clean_line [OF m t v] set_clean_target [OF t]
    by (cases args) (simp_all add: init_request_def head_request_def put_headers_def)
  have now: "?r\<lparr>receive_time := 0, receive_time := now\<rparr> = ?r" by (simp add: head_request_def)
  have first: "parse_loop fc now init_context (l @ crlf @ s) = parse_loop fc now \<lparr>ctx_state = Expect_headers, ctx_request = ?r\<rparr> s"
    if "no_line_break l" "process_request_line l init_request = (True, ?r\<lparr>receive_time := 0\<rparr>)" for l s
    using line_end_text [OF fc that(1), of s] after_line [of l s] that(2) now
    by (subst parse_loop.simps) (simp add: init_context_def del: take_append drop_append append_assoc)
  show ?thesis
    using first [OF nb line, of "?hs @ crlf @ body @ rest"]
      parse_headers [OF fc hs, of "\<lparr>ctx_state = Expect_headers, ctx_request = ?r\<rparr>" now "crlf @ body @ rest"]
    by (simp add: request_text_def head_request_def init_request_def put_headers_def)
qed

lemma request_parsed:
  assumes fc: "finds_crlf fc" and "parse_method m \<noteq> M_invalid" and "clean_target path args"
    and "version \<in> {''HTTP/1.0'', ''HTTP/1.1''}" and "list_all clean_header hs"
    and body: "announces (parse_method m) hs body"
  shows "\<exists>r. parse_loop fc now init_context (request_text m path args version hs body @ rest) =
       Some (Inr True, \<lparr>ctx_state = Got_all, ctx_request = r\<rparr>, rest) \<and>
     req_method r = parse_method m \<and> req_path r = path \<and>
     query_params r = (case args of Some a \<Rightarrow> split_query a [] | None \<Rightarrow> []) \<and>
     req_version r = version \<and> req_headers r = put_headers hs [] \<and> req_body r = body"
  using body_parsed [OF fc, where c = "\<lparr>ctx_state = Expect_headers, ctx_request = head_request now m path args version hs\<rparr>"
      and hs = hs and body = body and now = now and rest = rest] body head_parsed [OF assms(1-5), of now body rest]
  by (simp add: head_request_def init_request_def)

text \<open>
  A head without \<open>Content-Length\<close> is refused where the method has a body, but the context stays in
  the header state: the missing header and a body completes the refused request.
\<close>

lemma rejected_head:
  assumes fc: "finds_crlf fc" and "has_body (parse_method m)" and "clean_target path args"
    and "version \<in> {''HTTP/1.0'', ''HTTP/1.1''}" and "list_all clean_header hs"
    and none: "header_value ''Content-Length'' (put_headers hs []) = []"
  shows "parse_loop fc now init_context (request_text m path args version hs []) =
     Some (Inr False, \<lparr>ctx_state = Expect_headers, ctx_request = head_request now m path args version hs\<rparr>, [])"
proof -
  let ?c = "\<lparr>ctx_state = Expect_headers, ctx_request = head_request now m path args version hs\<rparr>"
  have m: "parse_method m \<noteq> M_invalid" using assms(2) by (auto simp: has_body_def)
  have "end_of_headers ?c = Inr ((False, False), ?c)"
    using assms(2) none by (simp add: end_of_headers_def has_body_def head_request_def get_header_def Let_def)
  from parse_end_of_headers [OF fc _ this, of now "[]"] head_parsed [OF fc m assms(3-5), of now "[]" "[]"]
  show ?thesis by simp
qed

lemma rejected_head_resumes:
  assumes fc: "finds_crlf fc" and m: "has_body (parse_method m)" and len: "length body < 2 ^ 31"
  shows "\<exists>r. parse_loop fc later \<lparr>ctx_state = Expect_headers, ctx_request = head_request now m path args version hs\<rparr>
      (header_line (''Content-Length'', dec_string (length body)) @ crlf @ crlf @ body @ rest) =
        Some (Inr True, \<lparr>ctx_state = Got_all, ctx_request = r\<rparr>, rest) \<and>
      req_method r = parse_method m \<and> req_path r = path \<and> req_body r = body \<and> req_version r = version \<and>
      req_headers r = put_headers (hs @ [(''Content-Length'', dec_string (length body))]) []"
proof -
  let ?h = "(''Content-Length'', dec_string (length body))"
  have no: "\<not> is_space c" if "c \<in> set (dec_string k)" for c k
    using dec_string_is_digit [OF that] not_space_digit by blast
  have "clean_header ?h"
    using no [of "hd (dec_string (length body))" "length body"] no [of "last (dec_string (length body))" "length body"]
    by (simp add: clean_header_def trimmed_def no_line_break_def dec_string_no_char is_digit_def)
  then have "list_all clean_header [?h]" by simp
  from parse_headers [OF fc this, of "\<lparr>ctx_state = Expect_headers, ctx_request = head_request now m path args version hs\<rparr>" later
      "crlf @ body @ rest"]
  have "parse_loop fc later \<lparr>ctx_state = Expect_headers, ctx_request = head_request now m path args version hs\<rparr>
      (header_line ?h @ crlf @ crlf @ body @ rest) =
    parse_loop fc later \<lparr>ctx_state = Expect_headers, ctx_request = head_request now m path args version (hs @ [?h])\<rparr> (crlf @ body @ rest)"
    by (simp add: head_request_def put_headers_def)
  moreover have "announces (parse_method m) (hs @ [?h]) body" using m len by (simp add: announces_def)
  ultimately obtain r where "parse_loop fc later \<lparr>ctx_state = Expect_headers, ctx_request = head_request now m path args version hs\<rparr>
      (header_line ?h @ crlf @ crlf @ body @ rest) = Some (Inr True, \<lparr>ctx_state = Got_all, ctx_request = r\<rparr>, rest)"
    "req_method r = parse_method m" "req_path r = path" "req_body r = body" "req_version r = version"
    "req_headers r = put_headers (hs @ [?h]) []"
    using body_parsed [OF fc, where c = "\<lparr>ctx_state = Expect_headers, ctx_request = head_request now m path args version (hs @ [?h])\<rparr>"
        and hs = "hs @ [?h]" and body = body and now = later and rest = rest]
    by (auto simp: head_request_def init_request_def)
  then show ?thesis by blast
qed

section \<open>Properties\<close>

text \<open>C31: requests on the wire. A well-formed request text followed by any bytes, delivered in any
  number of messages cut anywhere, is parsed to exactly the method, path, query, version, headers
  and body it was written from, and the bytes after it are left unread.\<close>

theorem request_read_back:
  assumes "finds_crlf fc" and "parse_method m \<noteq> M_invalid" and "clean_target path args"
    and "version \<in> {''HTTP/1.0'', ''HTTP/1.1''}" and "list_all clean_header hs"
    and "announces (parse_method m) hs body"
    and "concat chunks = request_text m path args version hs body @ rest" and "chunks \<noteq> []"
  shows "\<exists>r. feed fc now init_context [] chunks = Some (Inr True, \<lparr>ctx_state = Got_all, ctx_request = r\<rparr>, rest) \<and>
     req_method r = parse_method m \<and> req_path r = path \<and>
     query_params r = (case args of Some a \<Rightarrow> split_query a [] | None \<Rightarrow> []) \<and>
     req_version r = version \<and> (\<forall>k. map_of (req_headers r) k = map_of (rev hs) k) \<and> req_body r = body"
proof -
  have "feed fc now init_context [] chunks = parse_loop fc now init_context (request_text m path args version hs body @ rest)"
    using feed_whole [OF assms(1,8), of now init_context "[]"] assms(7) by (simp add: parse_request_def)
  then show ?thesis
    using request_parsed [OF assms(1-6), of now rest] by (auto simp: put_headers_map)
qed

definition sample_headers :: "(string \<times> string) list" where
  "sample_headers = [(''Host'', ''hao.example''), (''Content-Length'', ''5'')]"

lemma request_read_back_witness:
  "\<exists>r. feed scan_crlf 7 init_context []
        [''POST /api/short-links?a=b HTTP/1.1'' @ [CHR 0x0D], [CHR 0x0A] @ ''Host: hao.ex'',
         ''ample'' @ crlf @ ''Content-Length: 5'' @ crlf @ crlf @ ''hel'', ''loGET'']
      = Some (Inr True, \<lparr>ctx_state = Got_all, ctx_request = r\<rparr>, ''GET'') \<and> req_body r = ''hello''"
proof -
  have d: "dec_string (length ''hello'') = ''5''" by code_simp
  have "announces (parse_method ''POST'') sample_headers ''hello''"
    unfolding announces_def d by (simp add: has_body_def parse_method_def sample_headers_def)
  moreover have "clean_target ''/api/short-links'' (Some ''a=b'')" by (simp add: clean_target_def target_text_def)
  moreover have "list_all clean_header sample_headers"
    by (simp add: sample_headers_def clean_header_def trimmed_def is_space_def less_eq_char_iff)
  ultimately show ?thesis
    using request_read_back [OF scan_crlf_finds, where m = "''POST''" and path = "''/api/short-links''" and args = "Some ''a=b''"
        and version = "''HTTP/1.1''" and hs = sample_headers and body = "''hello''" and rest = "''GET''" and now = 7
        and chunks = "[''POST /api/short-links?a=b HTTP/1.1'' @ [CHR 0x0D], [CHR 0x0A] @ ''Host: hao.ex'',
         ''ample'' @ crlf @ ''Content-Length: 5'' @ crlf @ crlf @ ''hel'', ''loGET'']"]
    by (auto simp: parse_method_def request_text_def target_text_def sample_headers_def header_line_def crlf_def)
qed

text \<open>C39: the parser's loop ends for every buffer and every state in which it is called for a new or
  a partly read request; in the finished state, which the server resets after every request, it
  would not end.\<close>

theorem parser_returns:
  "(parse_request fc now c b \<noteq> None) = (ctx_state c \<noteq> Got_all)"
  using parse_loop_returns [of c fc now b] by (cases "ctx_state c = Got_all") (auto simp: parse_request_def parse_loop.simps)

definition negative_length_text :: string where
  "negative_length_text = ''POST / HTTP/1.1'' @ crlf @ ''Content-Length: -1'' @ crlf @ crlf"

lemma negative_length_head:
  "parse_loop scan_crlf now init_context negative_length_text =
     Some (Inr True, \<lparr>ctx_state = Expect_body,
       ctx_request = (head_request now ''POST'' ''/'' None ''HTTP/1.1'' [(''Content-Length'', ''-1'')])\<lparr>content_length := - 1\<rparr>\<rparr>, [])"
proof -
  let ?hs = "[(''Content-Length'', ''-1'')]"
  let ?r = "head_request now ''POST'' ''/'' None ''HTTP/1.1'' ?hs"
  have "parse_loop scan_crlf now init_context negative_length_text =
      parse_loop scan_crlf now \<lparr>ctx_state = Expect_headers, ctx_request = ?r\<rparr> (crlf @ [])"
    using head_parsed [OF scan_crlf_finds, of "''POST''" "''/''" None "''HTTP/1.1''" ?hs now "[]" "[]"]
    by (simp add: clean_target_def target_text_def clean_header_def trimmed_def is_space_def less_eq_char_iff
        parse_method_def negative_length_text_def request_text_def header_line_def)
  moreover have "stoi ''-1'' = Inr (- 1, 2)" by code_simp
  then have "end_of_headers \<lparr>ctx_state = Expect_headers, ctx_request = ?r\<rparr> =
      Inr ((True, True), \<lparr>ctx_state = Expect_body, ctx_request = ?r\<lparr>content_length := - 1\<rparr>\<rparr>)"
    by (simp add: end_of_headers_def head_request_def parse_method_def get_header_def header_value_def put_headers_map
        Let_def word_less_nat_alt)
  ultimately show ?thesis
    using parse_end_of_headers [OF scan_crlf_finds, where s = "[]"]
    by (simp add: parse_loop.simps body_step_def)
qed

text \<open>A negative \<open>Content-Length\<close> is not refused: it becomes a length close to \<open>2 ^ 64\<close>, and the
  connection waits in the body state for that many bytes whatever is sent, buffering all of it.\<close>

theorem negative_length_stalls:
  "\<exists>c. parse_request scan_crlf now init_context negative_length_text = Some (Inr True, c, []) \<and>
     ctx_state c = Expect_body \<and>
     (length b < 2 ^ 64 - 1 \<longrightarrow> parse_request scan_crlf now c b = Some (Inr True, c, b))"
  unfolding parse_request_def negative_length_head by (simp add: parse_loop.simps body_step_def)

lemma negative_length_stalls_witness:
  "\<exists>c. parse_request scan_crlf 7 init_context negative_length_text = Some (Inr True, c, []) \<and>
     parse_request scan_crlf 7 c ''hello'' = Some (Inr True, c, ''hello'')"
proof -
  have "length ''hello'' < 2 ^ 64 - 1" by simp
  then show ?thesis using negative_length_stalls [of 7 "''hello''"] by auto
qed

end
