(* ===== verification/HttpServer.thy ===== *)
theory HttpServer
  imports HttpMetrics HttpContext
begin

text \<open>
  \<open>Router.h/.cpp\<close>, \<open>Middleware.h\<close>, \<open>MiddlewareChain.h/.cpp\<close>, \<open>CorsMiddleware.h/.cpp\<close> and
  \<open>HttpServer.h/.cpp\<close>: routing, middleware, and what the server does with a message of a plain
  connection. The calls on the connection are the list of \<open>conn_action\<close>s; the clock readings behind
  the request metrics are the argument \<open>took\<close> (bucket and nanoseconds). TLS connections are not
  modelled.
\<close>

section \<open>Routes\<close>

text \<open>
  A pattern is turned into a regular expression: \<open>/:name\<close> becomes \<open>/([^/]+)\<close>, every other
  character is kept. The patterns are assumed to have no character with a meaning in regular
  expressions, as all registered ones. What follows a \<open>Segment\<close> is a slash or the end, so the
  greedy match of a segment is the only one.
\<close>

datatype path_piece = Literal char | Segment

definition not_slash :: "char \<Rightarrow> bool" where
  "not_slash c \<longleftrightarrow> c \<noteq> CHR ''/''"

definition begins_parameter :: "string \<Rightarrow> bool" where
  "begins_parameter s \<longleftrightarrow> (case s of a # b # c # _ \<Rightarrow> a = CHR ''/'' \<and> b = CHR '':'' \<and> not_slash c | _ \<Rightarrow> False)"

function convert_to_regex :: "string \<Rightarrow> path_piece list" where
  "convert_to_regex s =
     (if s = [] then []
      else if begins_parameter s then Literal CHR ''/'' # Segment # convert_to_regex (dropWhile not_slash (tl s))
      else Literal (hd s) # convert_to_regex (tl s))"
  by pat_completeness auto
termination
proof (relation "measure length", goal_cases)
  case (2 s)
  then show ?case using length_dropWhile_le [of not_slash "tl s"] by (cases s) auto
qed auto

declare convert_to_regex.simps [simp del]

fun match_pieces :: "path_piece list \<Rightarrow> string \<Rightarrow> string list option" where
  "match_pieces [] s = (if s = [] then Some [] else None)"
| "match_pieces (Literal c # ps) s =
     (case s of [] \<Rightarrow> None | d # t \<Rightarrow> if c = d then match_pieces ps t else None)"
| "match_pieces (Segment # ps) s =
     (if takeWhile not_slash s = [] then None
      else map_option (Cons (takeWhile not_slash s)) (match_pieces ps (dropWhile not_slash s)))"

fun extract_path_parameters :: "nat \<Rightarrow> string list \<Rightarrow> http_request \<Rightarrow> http_request" where
  "extract_path_parameters i [] r = r"
| "extract_path_parameters i (v # vs) r =
     extract_path_parameters (Suc i) vs (set_path_parameter (''param'' @ dec_string i) v r)"

type_synonym 'w regex_route = "http_method \<times> string \<times> path_piece list \<times> 'w handler"

record 'w router =
  exact_handlers :: "((http_method \<times> string) \<times> 'w handler) list"
  exact_callbacks :: "((http_method \<times> string) \<times> 'w handler) list"
  regex_handlers :: "'w regex_route list"
  regex_callbacks :: "'w regex_route list"

definition init_router :: "'w router" where
  "init_router = \<lparr>exact_handlers = [], exact_callbacks = [], regex_handlers = [], regex_callbacks = []\<rparr>"

definition register_handler :: "http_method \<Rightarrow> string \<Rightarrow> 'w handler \<Rightarrow> 'w router \<Rightarrow> 'w router" where
  "register_handler m path h rt = rt\<lparr>exact_handlers := AList.update (m, path) h (exact_handlers rt)\<rparr>"

definition register_callback :: "http_method \<Rightarrow> string \<Rightarrow> 'w handler \<Rightarrow> 'w router \<Rightarrow> 'w router" where
  "register_callback m path h rt = rt\<lparr>exact_callbacks := AList.update (m, path) h (exact_callbacks rt)\<rparr>"

definition add_regex_handler :: "http_method \<Rightarrow> string \<Rightarrow> 'w handler \<Rightarrow> 'w router \<Rightarrow> 'w router" where
  "add_regex_handler m path h rt = rt\<lparr>regex_handlers := regex_handlers rt @ [(m, path, convert_to_regex path, h)]\<rparr>"

definition add_regex_callback :: "http_method \<Rightarrow> string \<Rightarrow> 'w handler \<Rightarrow> 'w router \<Rightarrow> 'w router" where
  "add_regex_callback m path h rt = rt\<lparr>regex_callbacks := regex_callbacks rt @ [(m, path, convert_to_regex path, h)]\<rparr>"

text \<open>The first dynamic route that fits: its pattern, its handler and the request with parameters.\<close>

fun find_regex :: "'w regex_route list \<Rightarrow> http_request \<Rightarrow> (string \<times> 'w handler \<times> http_request) option" where
  "find_regex [] req = None"
| "find_regex ((m, pat, rx, h) # rs) req =
     (if m = req_method req
      then (case match_pieces rx (req_path req) of
              Some vs \<Rightarrow> Some (pat, h, extract_path_parameters 1 vs req)
            | None \<Rightarrow> find_regex rs req)
      else find_regex rs req)"

definition find_route :: "'w router \<Rightarrow> http_request \<Rightarrow> (string \<times> 'w handler \<times> http_request) option" where
  "find_route rt req =
     (let key = (req_method req, req_path req)
      in case map_of (exact_handlers rt) key of
           Some h \<Rightarrow> Some (req_path req, h, req)
         | None \<Rightarrow>
             (case map_of (exact_callbacks rt) key of
                Some h \<Rightarrow> Some (req_path req, h, req)
              | None \<Rightarrow>
                  (case find_regex (regex_handlers rt) req of
                     Some x \<Rightarrow> Some x
                   | None \<Rightarrow> find_regex (regex_callbacks rt) req)))"

text \<open>The matched pattern, known even when the handler throws, and what the handler did.\<close>

definition route ::
  "'w router \<Rightarrow> http_request \<Rightarrow> http_response \<Rightarrow> 'w \<Rightarrow> string option \<times> exn option \<times> http_response \<times> 'w" where
  "route rt req resp w =
     (case find_route rt req of
        None \<Rightarrow> (None, None, resp, w)
      | Some (pat, h, req1) \<Rightarrow> (Some pat, h req1 resp w))"

section \<open>Middleware\<close>

datatype thrown = Thrown_response http_response | Thrown_exception exn

record middleware =
  before_request :: "http_request \<Rightarrow> thrown + http_request"
  after_response :: "http_response \<Rightarrow> exn option \<times> http_response"

fun process_before :: "middleware list \<Rightarrow> http_request \<Rightarrow> thrown + http_request" where
  "process_before [] req = Inr req"
| "process_before (m # ms) req =
     (case before_request m req of Inl t \<Rightarrow> Inl t | Inr req1 \<Rightarrow> process_before ms req1)"

text \<open>In reverse order; an exception is logged and ends the loop.\<close>

fun run_after :: "middleware list \<Rightarrow> http_response \<Rightarrow> http_response" where
  "run_after [] resp = resp"
| "run_after (m # ms) resp =
     (case after_response m resp of (Some e, resp1) \<Rightarrow> resp1 | (None, resp1) \<Rightarrow> run_after ms resp1)"

definition process_after :: "middleware list \<Rightarrow> http_response \<Rightarrow> http_response" where
  "process_after ms resp = run_after (rev ms) resp"

record cors_config =
  allowed_origins :: "string list"
  allowed_methods :: "string list"
  allowed_headers :: "string list"
  allow_credentials :: bool
  cors_max_age :: int

definition default_cors_config :: cors_config where
  "default_cors_config =
     \<lparr>allowed_origins = [''*''], allowed_methods = [''GET'', ''POST'', ''PUT'', ''DELETE'', ''OPTIONS''],
      allowed_headers = [''Content-Type'', ''Authorization''], allow_credentials = False, cors_max_age = 3600\<rparr>"

fun join_strings :: "string list \<Rightarrow> string \<Rightarrow> string" where
  "join_strings [] d = []"
| "join_strings [s] d = s"
| "join_strings (s # t # ts) d = s @ d @ join_strings (t # ts) d"

definition is_origin_allowed :: "cors_config \<Rightarrow> string \<Rightarrow> bool" where
  "is_origin_allowed cfg origin \<longleftrightarrow>
     allowed_origins cfg = [] \<or> ''*'' \<in> set (allowed_origins cfg) \<or> origin \<in> set (allowed_origins cfg)"

definition add_cors_headers :: "cors_config \<Rightarrow> string \<Rightarrow> http_response \<Rightarrow> http_response" where
  "add_cors_headers cfg origin resp =
     (let r1 = add_header ''Access-Control-Allow-Origin'' origin resp;
          r2 = (if allow_credentials cfg then add_header ''Access-Control-Allow-Credentials'' ''true'' r1 else r1);
          r3 = (if allowed_methods cfg \<noteq> []
                then add_header ''Access-Control-Allow-Methods'' (join_strings (allowed_methods cfg) '', '') r2 else r2);
          r4 = (if allowed_headers cfg \<noteq> []
                then add_header ''Access-Control-Allow-Headers'' (join_strings (allowed_headers cfg) '', '') r3 else r3)
      in add_header ''Access-Control-Max-Age'' (to_string_int (cors_max_age cfg)) r4)"

definition handle_preflight :: "cors_config \<Rightarrow> http_request \<Rightarrow> http_response \<Rightarrow> http_response" where
  "handle_preflight cfg req resp =
     (let origin = get_header ''Origin'' req
      in if \<not> is_origin_allowed cfg origin then resp\<lparr>status_code := 403\<rparr>
         else (add_cors_headers cfg origin resp)\<lparr>status_code := 204\<rparr>)"

definition cors_before :: "cors_config \<Rightarrow> http_request \<Rightarrow> thrown + http_request" where
  "cors_before cfg req =
     (if req_method req = M_options then Inl (Thrown_response (handle_preflight cfg req (init_response True))) else Inr req)"

definition cors_after :: "cors_config \<Rightarrow> http_response \<Rightarrow> exn option \<times> http_response" where
  "cors_after cfg resp =
     (None, if allowed_origins cfg = [] then resp
            else if ''*'' \<in> set (allowed_origins cfg) then add_cors_headers cfg ''*'' resp
            else add_cors_headers cfg (hd (allowed_origins cfg)) resp)"

definition cors_middleware :: "cors_config \<Rightarrow> middleware" where
  "cors_middleware cfg = \<lparr>before_request = cors_before cfg, after_response = cors_after cfg\<rparr>"

section \<open>The server\<close>

record 'w server_world =
  http_counters :: http_metrics
  request_id_source :: request_ids
  app :: 'w

record 'w http_server =
  router_of :: "'w server_world router"
  middlewares_of :: "middleware list"
  custom_callback :: "'w server_world handler option"

definition init_server :: "'w http_server" where
  "init_server = \<lparr>router_of = init_router, middlewares_of = [], custom_callback = None\<rparr>"

text \<open>Registration changes the router and the request metrics.\<close>

definition server_exact ::
  "http_method \<Rightarrow> string \<Rightarrow> 'w server_world handler \<Rightarrow> 'w http_server \<times> http_metrics \<Rightarrow> 'w http_server \<times> http_metrics" where
  "server_exact m path cb = (\<lambda>(s, h). (s\<lparr>router_of := register_callback m path cb (router_of s)\<rparr>, register_route m path h))"

definition server_get ::
  "string \<Rightarrow> 'w server_world handler \<Rightarrow> 'w http_server \<times> http_metrics \<Rightarrow> 'w http_server \<times> http_metrics" where
  "server_get = server_exact M_get"

definition server_post ::
  "string \<Rightarrow> 'w server_world handler \<Rightarrow> 'w http_server \<times> http_metrics \<Rightarrow> 'w http_server \<times> http_metrics" where
  "server_post = server_exact M_post"

definition server_add_route ::
  "http_method \<Rightarrow> string \<Rightarrow> 'w server_world handler \<Rightarrow> 'w http_server \<times> http_metrics \<Rightarrow> 'w http_server \<times> http_metrics" where
  "server_add_route m path cb = (\<lambda>(s, h). (s\<lparr>router_of := add_regex_callback m path cb (router_of s)\<rparr>, register_route m path h))"

definition add_middleware :: "middleware \<Rightarrow> 'w http_server \<Rightarrow> 'w http_server" where
  "add_middleware m s = s\<lparr>middlewares_of := middlewares_of s @ [m]\<rparr>"

definition not_found_response :: "http_response \<Rightarrow> http_response" where
  "not_found_response resp = (set_error_response 404 ''not_found'' ''Not Found'' resp)\<lparr>close_connection := True\<rparr>"

definition internal_error :: "http_response \<Rightarrow> http_response" where
  "internal_error resp = set_error_response 500 ''internal_server_error'' ''Internal Server Error'' resp"

definition with_pattern :: "string \<Rightarrow> http_response \<Rightarrow> http_response" where
  "with_pattern p resp = resp\<lparr>route_pattern := (if p = [] then ''unmatched'' else p)\<rparr>"

definition handle_request ::
  "'w http_server \<Rightarrow> http_request \<Rightarrow> http_response \<Rightarrow> 'w server_world \<Rightarrow> http_response \<times> 'w server_world" where
  "handle_request srv req resp w =
     (case process_before (middlewares_of srv) req of
        Inl (Thrown_response r) \<Rightarrow> (with_pattern ''middleware'' r, w)
      | Inl (Thrown_exception e) \<Rightarrow> (with_pattern [] (internal_error resp), w)
      | Inr req1 \<Rightarrow>
          (case route (router_of srv) req1 resp w of
             (None, _, r, w1) \<Rightarrow>
               (with_pattern ''unmatched'' (process_after (middlewares_of srv) (not_found_response r)), w1)
           | (Some p, None, r, w1) \<Rightarrow> (with_pattern p (process_after (middlewares_of srv) r), w1)
           | (Some p, Some e, r, w1) \<Rightarrow> (with_pattern p (internal_error r), w1)))"

section \<open>Connections\<close>

datatype conn_action = Send string | Shutdown

record connection =
  conn_context :: http_context
  conn_unread :: string

definition new_connection :: connection where
  "new_connection = \<lparr>conn_context = init_context, conn_unread = []\<rparr>"

definition request_id_for :: "http_request \<Rightarrow> 'w server_world \<Rightarrow> string \<times> 'w server_world" where
  "request_id_for req w =
     (let supplied = get_header ''X-Request-ID'' req
      in if is_valid_request_id supplied then (supplied, w)
         else (case generate_request_id (request_id_source w) of (i, g) \<Rightarrow> (i, w\<lparr>request_id_source := g\<rparr>)))"

definition closes :: "http_request \<Rightarrow> bool" where
  "closes req \<longleftrightarrow> get_header ''Connection'' req = ''close'' \<or>
     req_version req = ''HTTP/1.0'' \<and> get_header ''Connection'' req \<noteq> ''Keep-Alive''"

definition run_callback ::
  "'w http_server \<Rightarrow> http_request \<Rightarrow> http_response \<Rightarrow> 'w server_world \<Rightarrow> exn option \<times> http_response \<times> 'w server_world" where
  "run_callback srv req resp w =
     (case custom_callback srv of Some cb \<Rightarrow> cb req resp w | None \<Rightarrow> (None, handle_request srv req resp w))"

definition on_request ::
  "'w http_server \<Rightarrow> nat \<times> u64 \<Rightarrow> http_request \<Rightarrow> 'w server_world \<Rightarrow> exn option \<times> conn_action list \<times> 'w server_world" where
  "on_request srv took req w =
     (case request_id_for req w of
        (rid, w1) \<Rightarrow>
          (case run_callback srv (req\<lparr>request_id := rid\<rparr>) (init_response (closes req)) w1 of
             (Some e, _, w2) \<Rightarrow> (Some e, [], w2)
           | (None, resp, w2) \<Rightarrow>
               (let resp1 = add_header ''X-Request-ID'' rid resp;
                    pat = (if route_pattern resp1 = [] then ''custom_callback'' else route_pattern resp1);
                    w3 = w2\<lparr>http_counters := record_request (req_method req) pat (status_code resp1) (fst took) (snd took) (http_counters w2)\<rparr>
                in (None, Send (append_response resp1) # (if close_connection resp1 then [Shutdown] else []), w3))))"

definition send_error_response ::
  "int \<Rightarrow> string \<Rightarrow> string \<Rightarrow> 'w server_world \<Rightarrow> conn_action list \<times> 'w server_world" where
  "send_error_response status code msg w =
     (case generate_request_id (request_id_source w) of
        (rid, g) \<Rightarrow>
          ([Send (append_response (add_header ''X-Request-ID'' rid (set_error_response status code msg (init_response True)))),
            Shutdown], w\<lparr>request_id_source := g\<rparr>))"

definition bad_request :: "'w server_world \<Rightarrow> conn_action list \<times> 'w server_world" where
  "bad_request = send_error_response 400 ''bad_request'' ''Bad Request''"

text \<open>\<open>None\<close> when the parser does not return.\<close>

definition on_message ::
  "crlf_search \<Rightarrow> 'w http_server \<Rightarrow> int \<Rightarrow> nat \<times> u64 \<Rightarrow> string \<Rightarrow> connection \<Rightarrow> 'w server_world \<Rightarrow>
   (conn_action list \<times> connection \<times> 'w server_world) option" where
  "on_message fc srv now took data conn w =
     (case parse_request fc now (conn_context conn) (conn_unread conn @ data) of
        None \<Rightarrow> None
      | Some (Inl e, c, rest) \<Rightarrow>
          (case bad_request w of (acts, w1) \<Rightarrow> Some (acts, \<lparr>conn_context = c, conn_unread = rest\<rparr>, w1))
      | Some (Inr ok, c, rest) \<Rightarrow>
          (case (if ok then ([], w) else bad_request w) of
             (acts, w1) \<Rightarrow>
               if \<not> got_all c then Some (acts, \<lparr>conn_context = c, conn_unread = rest\<rparr>, w1)
               else (case on_request srv took (ctx_request c) w1 of
                       (None, acts2, w2) \<Rightarrow>
                         Some (acts @ acts2, \<lparr>conn_context = reset_context c, conn_unread = rest\<rparr>, w2)
                     | (Some e, acts2, w2) \<Rightarrow>
                         (case bad_request w2 of
                            (acts3, w3) \<Rightarrow> Some (acts @ acts2 @ acts3, \<lparr>conn_context = c, conn_unread = rest\<rparr>, w3)))))"

section \<open>Patterns with one parameter\<close>

lemma convert_literal:
  assumes "\<not> begins_parameter (c # s)"
  shows "convert_to_regex (c # s) = Literal c # convert_to_regex s"
  using assms by (subst convert_to_regex.simps) simp

lemma convert_plain: "CHR '':'' \<notin> set p \<Longrightarrow> convert_to_regex p = map Literal p"
proof (induction p)
  case Nil
  show ?case by (simp add: convert_to_regex.simps)
next
  case (Cons c p)
  then have "\<not> begins_parameter (c # p)" by (auto simp: begins_parameter_def split: list.splits)
  then show ?case using Cons by (simp add: convert_literal)
qed

lemma skip_name: "\<forall>c\<in>set name. not_slash c \<Longrightarrow> rest = [] \<or> hd rest = CHR ''/'' \<Longrightarrow> dropWhile not_slash (name @ rest) = rest"
  by (induction name) (cases rest, auto simp: not_slash_def)+

lemma convert_parameter:
  assumes "CHR '':'' \<notin> set p" and "name \<noteq> []" and "\<forall>c\<in>set name. not_slash c" and "rest = [] \<or> hd rest = CHR ''/''"
  shows "convert_to_regex (p @ ''/:'' @ name @ rest) = map Literal p @ Literal CHR ''/'' # Segment # convert_to_regex rest"
  using assms(1)
proof (induction p)
  case Nil
  obtain c cs where "name = c # cs" using assms(2) by (cases name) auto
  moreover have "not_slash CHR '':''" by (simp add: not_slash_def)
  ultimately show ?case
    using assms(3) skip_name [OF assms(3,4)] by (subst convert_to_regex.simps) (simp add: begins_parameter_def)
next
  case (Cons c p)
  have "\<not> begins_parameter (c # p @ ''/:'' @ name @ rest)"
    using Cons.prems by (cases p) (auto simp: begins_parameter_def split: list.splits)
  then show ?case using Cons by (simp add: convert_literal)
qed

lemma match_literals:
  "match_pieces (map Literal p @ ps) s = (if starts_with p s then match_pieces ps (drop (length p) s) else None)"
  by (induction p arbitrary: s) (auto split: list.split)

lemma match_plain: "match_pieces (map Literal p) s = (if s = p then Some [] else None)"
  using match_literals [of p "[]" s] by (auto simp: starts_with_iff)

lemma match_parameter:
  assumes "rest = [] \<or> hd rest = CHR ''/''" and "CHR '':'' \<notin> set rest"
  shows "match_pieces (map Literal p @ Literal CHR ''/'' # Segment # convert_to_regex rest) path = Some vs \<longleftrightarrow>
     (\<exists>c. vs = [c] \<and> c \<noteq> [] \<and> (\<forall>x\<in>set c. not_slash x) \<and> path = p @ ''/'' @ c @ rest)"
proof
  assume "\<exists>c. vs = [c] \<and> c \<noteq> [] \<and> (\<forall>x\<in>set c. not_slash x) \<and> path = p @ ''/'' @ c @ rest"
  then obtain c where c: "vs = [c]" "c \<noteq> []" "\<forall>x\<in>set c. not_slash x" "path = p @ ''/'' @ c @ rest" by blast
  have d: "dropWhile not_slash (c @ rest) = rest" by (rule skip_name [OF c(3) assms(1)])
  then have "takeWhile not_slash (c @ rest) = c" by (metis append_same_eq takeWhile_dropWhile_id)
  then show "match_pieces (map Literal p @ Literal CHR ''/'' # Segment # convert_to_regex rest) path = Some vs"
    using c d by (simp add: match_literals convert_plain [OF assms(2)] match_plain)
next
  assume m: "match_pieces (map Literal p @ Literal CHR ''/'' # Segment # convert_to_regex rest) path = Some vs"
  then obtain u where u: "path = p @ u" by (auto simp: match_literals starts_with_iff split: if_splits)
  with m have "match_pieces (Literal CHR ''/'' # Segment # map Literal rest) u = Some vs"
    by (simp add: match_literals convert_plain [OF assms(2)])
  then obtain t where t: "u = CHR ''/'' # t" "match_pieces (Segment # map Literal rest) t = Some vs"
    by (cases u) (simp_all split: if_splits)
  let ?c = "takeWhile not_slash t"
  have "?c \<noteq> []" "dropWhile not_slash t = rest" "vs = [?c]"
    using t(2) by (simp_all add: match_plain split: if_splits)
  moreover from this have "t = ?c @ rest" by (metis takeWhile_dropWhile_id)
  moreover have "\<forall>x\<in>set ?c. not_slash x" by (auto dest: set_takeWhileD)
  ultimately show "\<exists>c. vs = [c] \<and> c \<noteq> [] \<and> (\<forall>x\<in>set c. not_slash x) \<and> path = p @ ''/'' @ c @ rest"
    using u t(1) by (intro exI [of _ ?c]) simp
qed

section \<open>One request on a connection\<close>

lemma request_id_for_valid:
  "request_id_for req w = (rid, w1) \<Longrightarrow> is_valid_request_id rid \<and> app w1 = app w \<and> http_counters w1 = http_counters w"
  using generated_request_id_valid [of "request_id_source w"]
  by (cases "generate_request_id (request_id_source w)") (auto simp: request_id_for_def Let_def split: if_splits)

lemma with_pattern_nonempty [simp]: "route_pattern (with_pattern p r) \<noteq> []"
  by (simp add: with_pattern_def)

lemma with_pattern_fields [simp]:
  "status_code (with_pattern p r) = status_code r" "resp_body (with_pattern p r) = resp_body r"
  "close_connection (with_pattern p r) = close_connection r" "resp_headers (with_pattern p r) = resp_headers r"
  by (simp_all add: with_pattern_def)

text \<open>What the routing makes of a request when there is no middleware.\<close>

definition outcome ::
  "'w http_server \<Rightarrow> http_request \<Rightarrow> http_response \<Rightarrow> 'w server_world \<Rightarrow> http_response \<Rightarrow> 'w server_world \<Rightarrow> bool" where
  "outcome srv req resp0 w resp w1 \<longleftrightarrow>
     (case find_route (router_of srv) req of
        None \<Rightarrow> status_code resp = 404 \<and> close_connection resp \<and> resp_body resp = error_body ''not_found'' ''Not Found'' \<and> w1 = w
      | Some (pat, h, req1) \<Rightarrow>
          (\<exists>e r. h req1 resp0 w = (e, r, w1) \<and> close_connection resp = close_connection r \<and>
             (if e = None then status_code resp = status_code r \<and> resp_body resp = resp_body r
              else status_code resp = 500 \<and> resp_body resp = error_body ''internal_server_error'' ''Internal Server Error'')))"

lemma handle_request_outcome:
  assumes "middlewares_of srv = []" and "handle_request srv req resp w = (r, w1)"
  shows "outcome srv req resp w r w1 \<and> route_pattern r \<noteq> []"
proof (cases "find_route (router_of srv) req")
  case None
  then show ?thesis
    using assms by (auto simp: handle_request_def route_def outcome_def process_after_def not_found_response_def
        set_error_response_def set_json_body_def set_content_length_def set_content_type_def add_header_def set_status_def)
next
  case (Some x)
  obtain pat h req1 where x: "x = (pat, h, req1)" by (cases x) auto
  obtain e r1 w2 where h: "h req1 resp w = (e, r1, w2)" by (cases "h req1 resp w") auto
  show ?thesis
    using assms Some x h
    by (cases e) (auto simp: handle_request_def route_def outcome_def process_after_def internal_error_def
        set_error_response_def set_json_body_def set_content_length_def set_content_type_def add_header_def set_status_def)
qed

lemma outcome_add_header: "outcome srv req resp0 w (add_header k v r) w1 = outcome srv req resp0 w r w1"
  by (simp add: outcome_def add_header_def split: option.split)

text \<open>
  The answer to a request: one response on the connection, with a valid request id that the handler
  has seen too, closing the connection when the response says so, and one request counted.
\<close>

definition answered ::
  "'w http_server \<Rightarrow> nat \<times> u64 \<Rightarrow> http_request \<Rightarrow> 'w server_world \<Rightarrow> conn_action list \<Rightarrow> 'w server_world \<Rightarrow> bool" where
  "answered srv took req w acts w' \<longleftrightarrow>
     (\<exists>rid resp w0 w1. acts = Send (append_response resp) # (if close_connection resp then [Shutdown] else []) \<and>
        is_valid_request_id rid \<and> map_of (resp_headers resp) ''X-Request-ID'' = Some rid \<and>
        app w0 = app w \<and> http_counters w0 = http_counters w \<and>
        outcome srv (req\<lparr>request_id := rid\<rparr>) (init_response (closes req)) w0 resp w1 \<and>
        w' = w1\<lparr>http_counters := record_request (req_method req) (route_pattern resp) (status_code resp) (fst took) (snd took)
                  (http_counters w1)\<rparr>)"

lemma on_request_answers:
  assumes "middlewares_of srv = []" and "custom_callback srv = None"
  shows "\<exists>acts w'. on_request srv took req w = (None, acts, w') \<and> answered srv took req w acts w'"
proof -
  obtain rid w0 where rid: "request_id_for req w = (rid, w0)" by fastforce
  obtain r w1 where r: "handle_request srv (req\<lparr>request_id := rid\<rparr>) (init_response (closes req)) w0 = (r, w1)" by fastforce
  note out = handle_request_outcome [OF assms(1) r]
  let ?resp = "add_header ''X-Request-ID'' rid r"
  have fields: "route_pattern ?resp \<noteq> []" "map_of (resp_headers ?resp) ''X-Request-ID'' = Some rid"
    using out by (simp_all add: add_header_def)
  have "on_request srv took req w =
      (None, Send (append_response ?resp) # (if close_connection ?resp then [Shutdown] else []),
       w1\<lparr>http_counters := record_request (req_method req) (route_pattern ?resp) (status_code ?resp) (fst took) (snd took)
                  (http_counters w1)\<rparr>)"
    using rid r fields(1) assms(2) by (simp add: on_request_def run_callback_def Let_def)
  moreover have "outcome srv (req\<lparr>request_id := rid\<rparr>) (init_response (closes req)) w0 ?resp w1"
    using out by (simp add: outcome_add_header)
  ultimately show ?thesis
    using request_id_for_valid [OF rid] fields(2) unfolding answered_def by blast
qed

lemma on_message_complete:
  assumes "parse_request fc now (conn_context conn) (conn_unread conn @ data) =
      Some (Inr True, \<lparr>ctx_state = Got_all, ctx_request = req\<rparr>, rest)"
    and "middlewares_of srv = []" and "custom_callback srv = None"
  shows "\<exists>acts w'. on_message fc srv now took data conn w = Some (acts, \<lparr>conn_context = init_context, conn_unread = rest\<rparr>, w') \<and>
     answered srv took req w acts w'"
  using on_request_answers [OF assms(2,3), of took req w] assms(1)
  by (auto simp: on_message_def got_all_def reset_context_def init_context_def)

section \<open>Properties\<close>

text \<open>C17: a request and its answer. A well-formed request that arrives on a connection between
  requests is answered with exactly one response: the handler of the first matching route gets the
  request as the client wrote it, a thrown exception becomes a 500 with the error body and no route
  a 404 that closes; the response carries a valid \<open>X-Request-ID\<close> (the client's, when valid), is
  counted once under its route and status, and the bytes after the request stay unread (so that of
  two pipelined requests only the first is answered by this message).\<close>

theorem request_answered_once:
  assumes "finds_crlf fc" and "parse_method m \<noteq> M_invalid" and "clean_target path args"
    and "version \<in> {''HTTP/1.0'', ''HTTP/1.1''}" and "list_all clean_header hs"
    and "announces (parse_method m) hs body" and "middlewares_of srv = []" and "custom_callback srv = None"
  shows "\<exists>req acts w'. on_message fc srv now took (request_text m path args version hs body @ rest) new_connection w =
       Some (acts, \<lparr>conn_context = init_context, conn_unread = rest\<rparr>, w') \<and>
     answered srv took req w acts w' \<and>
     req_method req = parse_method m \<and> req_path req = path \<and> req_body req = body \<and>
     query_params req = (case args of Some a \<Rightarrow> split_query a [] | None \<Rightarrow> []) \<and> req_headers req = put_headers hs []"
proof -
  obtain req where req: "parse_loop fc now init_context (request_text m path args version hs body @ rest) =
       Some (Inr True, \<lparr>ctx_state = Got_all, ctx_request = req\<rparr>, rest)"
    "req_method req = parse_method m" "req_path req = path" "req_body req = body"
    "query_params req = (case args of Some a \<Rightarrow> split_query a [] | None \<Rightarrow> [])" "req_headers req = put_headers hs []"
    using request_parsed [OF assms(1-6), of now rest] by blast
  have "parse_request fc now (conn_context new_connection)
      (conn_unread new_connection @ (request_text m path args version hs body @ rest)) =
      Some (Inr True, \<lparr>ctx_state = Got_all, ctx_request = req\<rparr>, rest)"
    using req(1) by (simp add: parse_request_def new_connection_def)
  from on_message_complete [OF this assms(7,8), of took w] req show ?thesis by blast
qed

definition echo_handler :: "'w handler" where
  "echo_handler req resp w = (None, set_json_body (get_path_parameter ''param1'' req) (set_status 200 ''OK'' resp), w)"

definition echo_server :: "unit http_server" where
  "echo_server = fst (server_add_route M_get ''/s/:code'' echo_handler (init_server, []))"

definition echo_world :: "unit server_world" where
  "echo_world = \<lparr>http_counters = [], request_id_source = \<lparr>request_nonce = 1, request_sequence = 0\<rparr>, app = ()\<rparr>"

lemma echo_server_plain: "middlewares_of echo_server = []" "custom_callback echo_server = None"
  by (simp_all add: echo_server_def server_add_route_def init_server_def)

lemma request_answered_once_witness:
  "\<exists>req acts w'. on_message scan_crlf echo_server 7 (0, 100000)
       (request_text ''GET'' ''/s/abcd'' None ''HTTP/1.1'' [(''Host'', ''h'')] [] @ ''GET'') new_connection echo_world =
       Some (acts, \<lparr>conn_context = init_context, conn_unread = ''GET''\<rparr>, w') \<and> req_path req = ''/s/abcd'' \<and>
     answered echo_server (0, 100000) req echo_world acts w'"
  using request_answered_once [OF scan_crlf_finds _ _ _ _ _ echo_server_plain, where m = "''GET''" and path = "''/s/abcd''"
      and args = None and version = "''HTTP/1.1''" and hs = "[(''Host'', ''h'')]" and body = "[]" and now = 7
      and took = "(0, 100000)" and rest = "''GET''" and w = echo_world]
  by (simp add: parse_method_def clean_target_def target_text_def clean_header_def trimmed_def is_space_def less_eq_char_iff
      announces_def has_body_def) blast

text \<open>C37: a refused request is executed. A \<open>POST\<close> or \<open>PUT\<close> head without \<open>Content-Length\<close> is answered
  400 and the connection shut down for writing, but the parser stays in the header state: when the
  client sends the missing header and a body, the request it was refused is handed to its handler
  after all.\<close>

theorem refused_request_is_executed:
  assumes "finds_crlf fc" and "has_body (parse_method m)" and "clean_target path args"
    and "version \<in> {''HTTP/1.0'', ''HTTP/1.1''}" and "list_all clean_header hs"
    and "header_value ''Content-Length'' (put_headers hs []) = []" and "length body < 2 ^ 31"
    and "middlewares_of srv = []" and "custom_callback srv = None"
  shows "\<exists>reply conn w1 req acts w2.
     on_message fc srv now took (request_text m path args version hs []) new_connection w = Some ([Send reply, Shutdown], conn, w1) \<and>
     app w1 = app w \<and>
     on_message fc srv later took (header_line (''Content-Length'', dec_string (length body)) @ crlf @ crlf @ body) conn w1 =
       Some (acts, new_connection, w2) \<and>
     answered srv took req w1 acts w2 \<and> req_method req = parse_method m \<and> req_path req = path \<and> req_body req = body"
proof -
  let ?c = "\<lparr>ctx_state = Expect_headers, ctx_request = head_request now m path args version hs\<rparr>"
  have p1: "parse_loop fc now init_context (request_text m path args version hs []) = Some (Inr False, ?c, [])"
    by (rule rejected_head [OF assms(1-6)])
  obtain req where p2: "parse_loop fc later ?c (header_line (''Content-Length'', dec_string (length body)) @ crlf @ crlf @ body) =
        Some (Inr True, \<lparr>ctx_state = Got_all, ctx_request = req\<rparr>, [])"
    "req_method req = parse_method m" "req_path req = path" "req_body req = body"
    using rejected_head_resumes [OF assms(1,2,7), of later now path args version hs "[]"] by auto
  obtain reply w1 where bad: "bad_request w = ([Send reply, Shutdown], w1)" "app w1 = app w"
    by (cases "generate_request_id (request_id_source w)") (auto simp: bad_request_def send_error_response_def)
  let ?conn = "\<lparr>conn_context = ?c, conn_unread = []\<rparr>"
  have m1: "on_message fc srv now took (request_text m path args version hs []) new_connection w = Some ([Send reply, Shutdown], ?conn, w1)"
    using p1 bad(1) by (simp add: on_message_def parse_request_def new_connection_def got_all_def)
  have "parse_request fc later (conn_context ?conn)
      (conn_unread ?conn @ header_line (''Content-Length'', dec_string (length body)) @ crlf @ crlf @ body) =
      Some (Inr True, \<lparr>ctx_state = Got_all, ctx_request = req\<rparr>, [])"
    using p2(1) by (simp add: parse_request_def)
  from on_message_complete [OF this assms(8,9), of took w1] obtain acts w2 where
    "on_message fc srv later took (header_line (''Content-Length'', dec_string (length body)) @ crlf @ crlf @ body) ?conn w1 =
       Some (acts, new_connection, w2)" "answered srv took req w1 acts w2"
    by (auto simp: new_connection_def)
  then show ?thesis using m1 bad(2) p2(2-4) by blast
qed

lemma refused_request_is_executed_witness:
  "\<exists>reply conn w1 req acts w2.
     on_message scan_crlf echo_server 7 (0, 1) (request_text ''PUT'' ''/x'' None ''HTTP/1.1'' [] []) new_connection echo_world =
       Some ([Send reply, Shutdown], conn, w1) \<and>
     on_message scan_crlf echo_server 8 (0, 1) (header_line (''Content-Length'', dec_string 2) @ crlf @ crlf @ ''{}'') conn w1 =
       Some (acts, new_connection, w2) \<and> answered echo_server (0, 1) req w1 acts w2 \<and> req_body req = ''{}''"
proof -
  have len: "length ''{}'' = 2" by simp
  show ?thesis
    using refused_request_is_executed [OF scan_crlf_finds _ _ _ _ _ _ echo_server_plain, where m = "''PUT''" and path = "''/x''"
        and args = None and version = "''HTTP/1.1''" and hs = "[]" and body = "''{}''" and now = 7 and later = 8
        and took = "(0, 1)" and w = echo_world, unfolded len]
    by (simp add: parse_method_def has_body_def clean_target_def target_text_def header_value_def put_headers_def) blast
qed

text \<open>Dynamic routes. A pattern with one parameter matches exactly the paths that have a
  non-empty segment without a slash in its place, and the parameter is that segment.\<close>

theorem parameter_route_matches:
  assumes "CHR '':'' \<notin> set start" and "name \<noteq> []" and "CHR ''/'' \<notin> set name"
    and "rest = [] \<or> hd rest = CHR ''/''" and "CHR '':'' \<notin> set rest"
  shows "find_regex [(m, start @ ''/:'' @ name @ rest, convert_to_regex (start @ ''/:'' @ name @ rest), h)] req = Some res \<longleftrightarrow>
     req_method req = m \<and>
     (\<exists>c. c \<noteq> [] \<and> CHR ''/'' \<notin> set c \<and> req_path req = start @ ''/'' @ c @ rest \<and>
        res = (start @ ''/:'' @ name @ rest, h, set_path_parameter ''param1'' c req))"
proof -
  have ns: "(\<forall>x\<in>set c. not_slash x) \<longleftrightarrow> CHR ''/'' \<notin> set c" for c by (auto simp: not_slash_def)
  have one: "''param'' @ dec_string 1 = ''param1''" by code_simp
  note conv = convert_parameter [OF assms(1,2) _ assms(4), unfolded ns, OF assms(3)]
  note iff = match_parameter [OF assms(4,5), where p = start and path = "req_path req", unfolded ns]
  show ?thesis
  proof (cases "match_pieces (convert_to_regex (start @ ''/:'' @ name @ rest)) (req_path req)")
    case None
    then show ?thesis using iff unfolding conv by auto
  next
    case (Some vs)
    then obtain c where c: "vs = [c]" "c \<noteq> []" "CHR ''/'' \<notin> set c" "req_path req = start @ ''/'' @ c @ rest"
      using iff [of vs] unfolding conv by blast
    have "extract_path_parameters 1 vs req = set_path_parameter ''param1'' c req" using one c(1) by simp
    then show ?thesis using Some c by (auto simp del: extract_path_parameters.simps)
  qed
qed

definition plain_handler :: "unit handler" where
  "plain_handler req resp w = (None, resp, w)"

lemma parameter_route_matches_witness:
  "find_regex [(M_get, ''/s'' @ ''/:'' @ ''code'' @ [], convert_to_regex (''/s'' @ ''/:'' @ ''code'' @ []), plain_handler)]
     (init_request\<lparr>req_method := M_get, req_path := ''/s/abcd''\<rparr>) =
   Some (''/s'' @ ''/:'' @ ''code'' @ [], plain_handler,
     set_path_parameter ''param1'' ''abcd'' (init_request\<lparr>req_method := M_get, req_path := ''/s/abcd''\<rparr>))"
  using parameter_route_matches [where start = "''/s''" and name = "''code''" and rest = "[]" and m = M_get and h = plain_handler
      and req = "init_request\<lparr>req_method := M_get, req_path := ''/s/abcd''\<rparr>"]
  by auto

end
