(* ===== verification/RedirectHandler.thy ===== *)
theory RedirectHandler
  imports LinkService AccessEvents HttpMessages
begin

text \<open>
  \<open>RedirectHandler.cpp\<close> and \<open>AccessEventPublisher.h\<close>: the handler of short URLs, which publishes
  one access event per request before it answers. The publisher is a parameter that cannot throw
  (\<open>noexcept\<close>); building an event cannot throw either in the model. \<open>ms\<close> is the reading of the
  millisecond clock.
\<close>

section \<open>State\<close>

record ('s, 'p) redirect_state =
  link_world :: "'s world"
  event_id_source :: event_ids
  publisher_state :: 'p

type_synonym 'p publisher = "access_event \<Rightarrow> 'p \<Rightarrow> 'p"

definition noop_publisher :: "'p publisher" where
  "noop_publisher e p = p"

section \<open>The handler\<close>

definition publish_access_event ::
  "'p publisher \<Rightarrow> int \<Rightarrow> http_request \<Rightarrow> string \<Rightarrow> access_result \<Rightarrow> int \<Rightarrow>
   ('s, 'p, 'z) redirect_state_scheme \<Rightarrow> ('s, 'p, 'z) redirect_state_scheme" where
  "publish_access_event pub ms req c result status w =
     (case generate_event_id (event_id_source w) of
        (i, g) \<Rightarrow>
          w\<lparr>event_id_source := g,
            publisher_state := pub \<lparr>event_id = i, occurred_at_ms = ms, event_request_id = request_id req,
                event_code = c, event_result = result, event_http_status = status\<rparr> (publisher_state w)\<rparr>)"

fun redirect_event :: "redirect_status \<Rightarrow> access_result \<times> int" where
  "redirect_event Redirect_ok = (Access_success, 302)"
| "redirect_event Redirect_off = (Access_disabled, 404)"
| "redirect_event Redirect_over = (Access_expired, 404)"
| "redirect_event Redirect_missing = (Access_not_found, 404)"

definition link_not_found :: "http_response \<Rightarrow> http_response" where
  "link_not_found = set_error_response 404 ''short_link_not_found'' ''Short link not found''"

text \<open>Reading an optional that is empty is undefined; \<open>resolve\<close> sets the URL of every success.\<close>

definition handle_redirect ::
  "'p publisher \<Rightarrow> 's link_service \<Rightarrow> (nat \<Rightarrow> int) \<Rightarrow> int \<Rightarrow> ('s, 'p, 'z) redirect_state_scheme handler" where
  "handle_redirect pub sv clk ms req resp w =
     (let c = get_path_parameter ''param1'' req
      in case resolve sv clk c (link_world w) of
           (Inl e, l) \<Rightarrow> (Some e, resp, publish_access_event pub ms req c Access_error 500 (w\<lparr>link_world := l\<rparr>))
         | (Inr res, l) \<Rightarrow>
             (case redirect_event (outcome_status res) of
                (ev, st) \<Rightarrow>
                  (let w1 = publish_access_event pub ms req c ev st (w\<lparr>link_world := l\<rparr>)
                   in if outcome_status res \<noteq> Redirect_ok then (None, link_not_found resp, w1)
                      else (None, set_redirect (the (outcome_url res)) resp, w1))))"

section \<open>Lemmas\<close>

lemma resolve_ok_url: "resolve sv clk c w = (Inr res, w') \<Longrightarrow> (outcome_status res = Redirect_ok) = (\<exists>u. outcome_url res = Some u)"
  by (auto simp: resolve_def Let_def split: prod.splits sum.splits option.splits if_splits)

lemma redirect_event_status: "snd (redirect_event s) = expected_http_status (fst (redirect_event s))"
  by (cases s) simp_all

lemma link_not_found_status [simp]: "status_code (link_not_found resp) = 404"
  by (simp add: link_not_found_def set_error_response_def set_json_body_def set_content_length_def
      set_content_type_def add_header_def set_status_def)

lemma set_redirect_fields [simp]:
  "status_code (set_redirect u resp) = 302" "resp_body (set_redirect u resp) = []"
  "map_of (resp_headers (set_redirect u resp)) ''Location'' = Some u"
  by (simp_all add: set_redirect_def set_content_length_def add_header_def set_status_def)

lemma published_links [simp]: "link_world (publish_access_event pub ms req c r st w) = link_world w"
  by (simp add: publish_access_event_def split: prod.split)

lemma handle_redirect_found:
  assumes "resolve sv clk (get_path_parameter ''param1'' req) (link_world w) = (Inr res, l)"
  shows "\<exists>w'. handle_redirect pub sv clk ms req resp w =
     (None, (case outcome_url res of Some u \<Rightarrow> set_redirect u resp | None \<Rightarrow> link_not_found resp), w') \<and> link_world w' = l"
  using assms resolve_ok_url [OF assms]
  by (cases "redirect_event (outcome_status res)"; cases "outcome_url res") (simp_all add: handle_redirect_def Let_def)

section \<open>Properties\<close>


definition redirect_sample :: "(mem_repo, access_event list) redirect_state" where
  "redirect_sample = \<lparr>link_world = sample_world, event_id_source = \<lparr>process_nonce = 7, id_sequence = 0\<rparr>, publisher_state = []\<rparr>"

definition redirect_request :: http_request where
  "redirect_request = init_request\<lparr>path_params := [(''param1'', ''abcd'')], request_id := ''req-1''\<rparr>"


text \<open>Redirects. On the in-memory repository the handler answers 302 with the original URL in
  \<open>Location\<close> exactly when the link exists, is active and not expired, and 404 with an error body
  otherwise; it never throws and changes no record.\<close>

theorem redirect_answers:
  assumes "repository sv = memory_repo" and "mem_inv (link_world w)"
  shows "\<exists>r w'. handle_redirect pub sv clk ms req resp w = (None, r, w') \<and>
     mem_inv (link_world w') \<and> mem_records (link_world w') = mem_records (link_world w) \<and>
     (case view (mem_records (link_world w)) (get_path_parameter ''param1'' req) of
        Some l \<Rightarrow>
          if link_status l = Active \<and> (\<forall>t. expires_at l = Some t \<longrightarrow> clk 1 < t)
          then status_code r = 302 \<and> map_of (resp_headers r) ''Location'' = Some (original_url l) \<and> resp_body r = []
          else status_code r = 404
      | None \<Rightarrow> status_code r = 404)"
proof -
  let ?c = "get_path_parameter ''param1'' req"
  let ?res = "resolution (clk 1) (view (mem_records (link_world w)) ?c)"
  obtain l where l: "resolve sv clk ?c (link_world w) = (Inr ?res, l)" "mem_inv l" "mem_records l = mem_records (link_world w)"
    using mem.resolve_view [OF assms] by blast
  obtain w' where h: "handle_redirect pub sv clk ms req resp w =
     (None, (case outcome_url ?res of Some u \<Rightarrow> set_redirect u resp | None \<Rightarrow> link_not_found resp), w')" "link_world w' = l"
    using handle_redirect_found [OF l(1)] by blast
  have act: "st \<noteq> Disabled \<longleftrightarrow> st = Active" for st by (cases st) simp_all
  have "outcome_url ?res = (case view (mem_records (link_world w)) ?c of
        Some x \<Rightarrow> if link_status x = Active \<and> (\<forall>t. expires_at x = Some t \<longrightarrow> clk 1 < t) then Some (original_url x) else None
      | None \<Rightarrow> None)"
    using act by (auto simp: resolution_def is_expired_def not_le split: option.split)
  then show ?thesis using h l(2,3) by (simp split: option.split)
qed

lemma redirect_answers_witness:
  "\<exists>r w'. handle_redirect noop_publisher \<lparr>repository = memory_repo, service_metrics = True\<rparr> (\<lambda>i. 9) 9000
       redirect_request (init_response False) redirect_sample = (None, r, w') \<and>
     map_of (resp_headers r) ''Location'' = Some ''http://a''"
proof -
  have "get_path_parameter ''param1'' redirect_request = ''abcd''" by code_simp
  moreover have "mem_inv (link_world redirect_sample)" using sample_inv by (simp add: redirect_sample_def)
  ultimately show ?thesis
    using redirect_answers [where pub = noop_publisher and sv = "\<lparr>repository = memory_repo, service_metrics = True\<rparr>"
        and clk = "\<lambda>i. 9" and ms = 9000 and req = redirect_request and resp = "init_response False" and w = redirect_sample]
    by (auto simp: redirect_sample_def sample_view sample_link_def)
qed

text \<open>Response splitting. The service only checks how a URL begins, so a URL with line breaks is
  accepted; the redirect copies it into the \<open>Location\<close> header, and a reader of the response finds
  a header of the link creator's choosing.\<close>

theorem redirect_header_injection:
  assumes "no_line_break name" and "no_line_break val"
  shows "\<exists>url. is_valid_url url \<and>
     (\<exists>lines body. read_head (append_response (set_redirect url (init_response False))) = Some (lines, body) \<and>
        header_line (name, val) \<in> set lines)"
proof -
  let ?inj = "header_line (name, val)"
  let ?url = "''http://x'' @ crlf @ ?inj"
  let ?r = "set_redirect ?url (init_response False)"
  let ?ls = "[''HTTP/1.1 302 Found'', ''Connection: Keep-Alive'', ''Content-Length: 0'', ''Location: http://x'', ?inj]"
  have d: "to_string_u64 0 = ''0''" "status_prefix ?r = ''HTTP/1.1 302 ''"
  proof -
    show "to_string_u64 0 = ''0''" by code_simp
    have "to_string_int 302 = ''302''" by code_simp
    then show "status_prefix ?r = ''HTTP/1.1 302 ''"
      by (simp add: status_prefix_def set_redirect_def set_content_length_def add_header_def set_status_def init_response_def)
  qed
  have "append_response ?r = concat (map (\<lambda>u. u @ crlf) ?ls) @ crlf @ []"
    using d by (simp add: append_response_def set_redirect_def set_content_length_def add_header_def set_status_def
        init_response_def header_line_def)
  moreover have "\<forall>u\<in>set ?ls. no_line_break u \<and> u \<noteq> []"
    using assms by (simp add: header_line_def)
  ultimately have "read_head (append_response ?r) = Some (?ls, [])" using read_head_lines [of ?ls "[]"] by simp
  moreover have "is_valid_url ?url" by (simp add: is_valid_url_def)
  ultimately show ?thesis by (intro exI [of _ ?url]) auto
qed

lemma redirect_header_injection_witness:
  "\<exists>url. is_valid_url url \<and>
     (\<exists>lines body. read_head (append_response (set_redirect url (init_response False))) = Some (lines, body) \<and>
        ''Set-Cookie: hao_session=evil'' \<in> set lines)"
  using redirect_header_injection [of "''Set-Cookie''" "''hao_session=evil''"] by (simp add: header_line_def)

end
