(* ===== verification/ShortLinkApi.thy ===== *)
theory ShortLinkApi
  imports RedirectHandler AuthHttp HttpServer RedisCache RateLimiter "HOL-Library.Signed_Division"
begin

text \<open>
  \<open>ShortLinkHttpApi.h/.cpp\<close> and the registration of the routes: the handlers that create, list,
  read, update and count links, health and metrics. A handler's clock readings are \<open>clk\<close> (the
  \<open>i\<close>-th reading it makes); the answer of the connection pool's health check is an argument.
\<close>

section \<open>JSON bodies\<close>

text \<open>An initializer list of pairs, and an assignment to a member; the library keeps members sorted.\<close>

definition json_object :: "(string \<times> json) list \<Rightarrow> json" where
  "json_object ms = J_object (foldl (\<lambda>m (k, v). omap_put k v m) [] ms)"

definition json_put :: "string \<Rightarrow> json \<Rightarrow> json \<Rightarrow> json" where
  "json_put k v j = (case j of J_object m \<Rightarrow> J_object (omap_put k v m) | _ \<Rightarrow> j)"

definition set_json :: "json_lib \<Rightarrow> int \<Rightarrow> string \<Rightarrow> json \<Rightarrow> http_response \<Rightarrow> exn option \<times> http_response" where
  "set_json L status msg body resp =
     (let r = set_status status msg resp
      in case json_dump L body of Inl e \<Rightarrow> (Some e, r) | Inr text \<Rightarrow> (None, set_json_body text r))"

definition json_u64 :: "u64 \<Rightarrow> json" where
  "json_u64 n = J_int (int (unat n))"

definition record_json :: "link_record \<Rightarrow> json" where
  "record_json r =
     (let body = json_object
            [(''id'', json_u64 (link_id r)), (''code'', J_string (link_code r)),
             (''short_url'', J_string (''/s/'' @ link_code r)), (''original_url'', J_string (original_url r)),
             (''status'', J_string (status_to_string (link_status r))), (''expires_at'', J_null),
             (''created_at'', J_string (format_utc_timestamp (created_at r))),
             (''updated_at'', J_string (format_utc_timestamp (updated_at r)))]
      in case expires_at r of
           Some t \<Rightarrow> json_put ''expires_at'' (J_string (format_utc_timestamp t)) body
         | None \<Rightarrow> body)"

section \<open>Parsing\<close>

text \<open>The check before each digit keeps the result below \<open>2 ^ 64\<close>; word division is unsigned.\<close>

fun parse_unsigned_loop :: "string \<Rightarrow> u64 \<Rightarrow> u64 option" where
  "parse_unsigned_loop [] result = Some result"
| "parse_unsigned_loop (c # s) result =
     (if c < CHR ''0'' \<or> c > CHR ''9'' then None
      else (let digit = word_of_nat (digit_val c)
            in if result > (- 1 - digit) div 10 then None
               else parse_unsigned_loop s (result * 10 + digit)))"

definition parse_unsigned :: "string \<Rightarrow> u64 option" where
  "parse_unsigned v = (if v = [] then None else parse_unsigned_loop v 0)"

definition invalid_request :: "string \<Rightarrow> http_response \<Rightarrow> http_response" where
  "invalid_request msg = set_error_response 400 ''invalid_request'' msg"

definition parse_object :: "json_lib \<Rightarrow> http_request \<Rightarrow> http_response \<Rightarrow> json option \<times> http_response" where
  "parse_object L req resp =
     (if \<not> has_json_content_type req \<or> length (req_body req) > 16384
      then (None, invalid_request ''Content-Type must be application/json'' resp)
      else (case json_parse_lenient L (req_body req) of
              None \<Rightarrow> (None, invalid_request ''Request body must be a JSON object'' resp)
            | Some j \<Rightarrow> if \<not> is_object j then (None, invalid_request ''Request body must be a JSON object'' resp)
                        else (Some j, resp)))"

definition json_items :: "json \<Rightarrow> (string \<times> json) list" where
  "json_items j = (case j of J_object m \<Rightarrow> m | _ \<Rightarrow> [])"

text \<open>An error answer of the field checks: the error code and the message.\<close>

type_synonym field_error = "string \<times> string"

definition read_create_expiry :: "int \<Rightarrow> json \<Rightarrow> field_error + int option" where
  "read_create_expiry now j =
     (case json_field j ''expires_at'' of
        None \<Rightarrow> Inr None
      | Some J_null \<Rightarrow> Inr None
      | Some (J_string s) \<Rightarrow>
          (case parse_utc_timestamp s of
             None \<Rightarrow> Inl (''invalid_expires_at'', ''expires_at must be a UTC timestamp'')
           | Some t \<Rightarrow> if t \<le> now then Inl (''invalid_expires_at'', ''expires_at must be in the future'') else Inr (Some t))
      | Some _ \<Rightarrow> Inl (''invalid_expires_at'', ''expires_at must be a UTC timestamp''))"

definition read_custom_code :: "json \<Rightarrow> field_error + string option" where
  "read_custom_code j =
     (case json_field j ''custom_code'' of
        None \<Rightarrow> Inr None
      | Some J_null \<Rightarrow> Inr None
      | Some (J_string s) \<Rightarrow> Inr (Some s)
      | Some _ \<Rightarrow> Inl (''invalid_custom_code'', ''custom_code must be a string''))"

definition read_create_fields :: "int \<Rightarrow> json \<Rightarrow> field_error + string \<times> int option \<times> string option" where
  "read_create_fields now j =
     (if \<not> list_all (\<lambda>(k, v). k = ''url'' \<or> k = ''expires_at'' \<or> k = ''custom_code'') (json_items j)
      then Inl (''invalid_request'', ''Unknown create field'')
      else case string_field j ''url'' of
             None \<Rightarrow> Inl (''invalid_request'', ''url must be a string'')
           | Some url \<Rightarrow>
               (case read_create_expiry now j of
                  Inl e \<Rightarrow> Inl e
                | Inr ex \<Rightarrow> (case read_custom_code j of Inl e \<Rightarrow> Inl e | Inr cu \<Rightarrow> Inr (url, ex, cu))))"

section \<open>Creating links\<close>

definition note_links :: "(sl_metrics \<Rightarrow> sl_metrics) \<Rightarrow> 's world \<Rightarrow> 's world" where
  "note_links f w = w\<lparr>metrics := f (metrics w)\<rparr>"

definition count_create :: "create_result \<Rightarrow> storage \<Rightarrow> 's world \<Rightarrow> 's world" where
  "count_create r st = note_links (record_create r st)"

definition too_many_requests :: "int \<Rightarrow> http_response \<Rightarrow> http_response" where
  "too_many_requests retry resp =
     (set_error_response 429 ''rate_limit_exceeded'' ''Too many requests''
        (add_header ''Retry-After'' (to_string_int retry) resp))\<lparr>status_message := ''Too Many Requests''\<rparr>"

type_synonym 'd rate_limiter = "string \<Rightarrow> 'd \<Rightarrow> rate_result \<times> 'd"

text \<open>Whether the request may go on; an error of the limiter lets it pass.\<close>

definition rate_gate ::
  "'d rate_limiter option \<Rightarrow> http_response \<Rightarrow> 's world \<times> 'd \<Rightarrow> bool \<times> http_response \<times> 's world \<times> 'd" where
  "rate_gate lim resp wd =
     (case lim of
        None \<Rightarrow> (True, resp, wd)
      | Some check \<Rightarrow>
          (case check ''global'' (snd wd) of
             (res, d) \<Rightarrow>
               (case rate_status_of res of
                  Check_allowed \<Rightarrow> (True, resp, note_links (record_rate_limit Rate_allowed) (fst wd), d)
                | Check_limited \<Rightarrow>
                    (False, too_many_requests (retry_after res) resp, note_links (record_rate_limit Rate_limited) (fst wd), d)
                | Check_error \<Rightarrow>
                    (True, resp, note_links (record_backend_error Backend_redis Op_rate_limit)
                       (note_links (record_rate_limit Rate_error) (fst wd)), d))))"

text \<open>The two \<open>catch\<close> clauses around the creation.\<close>

definition create_failed :: "storage \<Rightarrow> exn \<Rightarrow> http_response \<Rightarrow> 's world \<Rightarrow> exn option \<times> http_response \<times> 's world" where
  "create_failed st e resp w =
     (if e = Short_code_conflict
      then (None, set_error_response 409 ''short_code_conflict'' ''Short code already exists'' resp, count_create Create_invalid st w)
      else (Some e, resp, count_create Create_error st w))"

definition create_link ::
  "json_lib \<Rightarrow> 's link_service \<Rightarrow> storage \<Rightarrow> (nat \<Rightarrow> int) \<Rightarrow> u64 \<Rightarrow> string \<times> int option \<times> string option \<Rightarrow>
   http_response \<Rightarrow> 's world \<Rightarrow> exn option \<times> http_response \<times> 's world" where
  "create_link L sv st clk owner params resp w =
     (case params of
        (url, ex, cu) \<Rightarrow>
          (case create_short_link sv clk url ex owner cu w of
             (Inl e, w1) \<Rightarrow> create_failed st e resp w1
           | (Inr None, w1) \<Rightarrow>
               (None,
                set_error_response 400 (if cu \<noteq> None then ''invalid_custom_code'' else ''invalid_url'')
                  (if cu \<noteq> None then ''custom_code must contain 4-32 allowed characters''
                   else ''URL must start with http:// or https:// and expiry must be future'') resp,
                count_create Create_invalid st w1)
           | (Inr (Some l), w1) \<Rightarrow>
               (case set_json L 201 ''Created'' (record_json (link_of l)) resp of
                  (Some e, r) \<Rightarrow> create_failed st e r w1
                | (None, r) \<Rightarrow> (None, r, count_create Create_success st w1))))"

definition create_from_body ::
  "json_lib \<Rightarrow> 's link_service \<Rightarrow> storage \<Rightarrow> (nat \<Rightarrow> int) \<Rightarrow> u64 \<Rightarrow> 's world handler" where
  "create_from_body L sv st clk owner req resp w =
     (case parse_object L req resp of
        (None, r) \<Rightarrow> (None, r, count_create Create_invalid st w)
      | (Some j, r) \<Rightarrow>
          (case read_create_fields (clk 0) j of
             Inl (code, msg) \<Rightarrow> (None, set_error_response 400 code msg r, count_create Create_invalid st w)
           | Inr params \<Rightarrow> create_link L sv st (\<lambda>i. clk (Suc i)) owner params r w))"

definition handle_create ::
  "json_lib \<Rightarrow> 's link_service \<Rightarrow> storage \<Rightarrow> 'd rate_limiter option \<Rightarrow> (nat \<Rightarrow> int) \<Rightarrow> u64 \<Rightarrow> ('s world \<times> 'd) handler" where
  "handle_create L sv st lim clk owner req resp wd =
     (case rate_gate lim resp wd of
        (False, r, wd1) \<Rightarrow> (None, r, wd1)
      | (True, r, wd1) \<Rightarrow>
          (case create_from_body L sv st clk owner req r (fst wd1) of (e, r1, w1) \<Rightarrow> (e, r1, w1, snd wd1)))"

section \<open>Reading and listing links\<close>

definition handle_detail :: "json_lib \<Rightarrow> 's link_service \<Rightarrow> u64 \<Rightarrow> 's world handler" where
  "handle_detail L sv owner req resp w =
     (case service_get_for_owner sv (get_path_parameter ''param1'' req) owner w of
        (Inl e, w1) \<Rightarrow> (Some e, resp, w1)
      | (Inr None, w1) \<Rightarrow> (None, link_not_found resp, w1)
      | (Inr (Some r), w1) \<Rightarrow> (case set_json L 200 ''OK'' (record_json r) resp of (e, resp1) \<Rightarrow> (e, resp1, w1)))"

definition read_cursor :: "http_request \<Rightarrow> field_error + u64" where
  "read_cursor req =
     (let v = get_query_parameter ''cursor'' req
      in if v = [] then Inr 0
         else case parse_unsigned v of
                None \<Rightarrow> Inl (''invalid_cursor'', ''cursor must be an unsigned integer'')
              | Some n \<Rightarrow> Inr n)"

definition read_limit :: "http_request \<Rightarrow> field_error + nat" where
  "read_limit req =
     (let v = get_query_parameter ''limit'' req
      in if v = [] then Inr 50
         else case parse_unsigned v of
                None \<Rightarrow> Inl (''invalid_limit'', ''limit must be between 1 and 100'')
              | Some n \<Rightarrow> if n < 1 \<or> n > 100 then Inl (''invalid_limit'', ''limit must be between 1 and 100'') else Inr (unat n))"

definition read_status_filter :: "http_request \<Rightarrow> field_error + link_state option" where
  "read_status_filter req =
     (let v = get_query_parameter ''status'' req
      in if v = [] then Inr None
         else case parse_status v of
                None \<Rightarrow> Inl (''invalid_status'', ''status must be active or disabled'')
              | Some s \<Rightarrow> Inr (Some s))"

text \<open>The query of a listing, which asks for one record more than requested, and the requested limit.\<close>

definition parse_list_query :: "u64 \<Rightarrow> http_request \<Rightarrow> field_error + list_query \<times> nat" where
  "parse_list_query owner req =
     (case read_cursor req of
        Inl e \<Rightarrow> Inl e
      | Inr cursor \<Rightarrow>
          (case read_limit req of
             Inl e \<Rightarrow> Inl e
           | Inr limit \<Rightarrow>
               (case read_status_filter req of
                  Inl e \<Rightarrow> Inl e
                | Inr st \<Rightarrow>
                    Inr (\<lparr>q_cursor = cursor, q_limit = limit + 1, q_owner = Some owner, q_status = st\<rparr>, limit))))"

definition list_body :: "nat \<Rightarrow> link_record list \<Rightarrow> json" where
  "list_body limit records =
     (let has_more = length records > limit;
          page = (if has_more then take limit records else records);
          body = json_object [(''items'', J_array (map record_json page)), (''next_cursor'', J_null)]
      in if has_more \<and> page \<noteq> [] then json_put ''next_cursor'' (json_u64 (link_id (last page))) body else body)"

definition handle_list :: "json_lib \<Rightarrow> 's link_service \<Rightarrow> u64 \<Rightarrow> 's world handler" where
  "handle_list L sv owner req resp w =
     (case parse_list_query owner req of
        Inl (code, msg) \<Rightarrow> (None, set_error_response 400 code msg resp, w)
      | Inr (q, limit) \<Rightarrow>
          (case service_list sv q w of
             (Inl e, w1) \<Rightarrow> (Some e, resp, w1)
           | (Inr records, w1) \<Rightarrow>
               (case set_json L 200 ''OK'' (list_body limit records) resp of (e, r) \<Rightarrow> (e, r, w1))))"

section \<open>Updating links\<close>

definition update_item :: "string \<times> json \<Rightarrow> lifecycle_update \<Rightarrow> field_error + lifecycle_update" where
  "update_item item u =
     (case item of
        (k, v) \<Rightarrow>
          (case (k = ''status'', v) of
             (True, J_string s) \<Rightarrow>
               (case parse_status s of
                  None \<Rightarrow> Inl (''invalid_status'', ''status must be active or disabled'')
                | Some st \<Rightarrow> Inr (u\<lparr>upd_status := Some st\<rparr>))
           | _ \<Rightarrow>
               if k = ''expires_at''
               then (case v of
                       J_null \<Rightarrow> Inr (u\<lparr>expires_at_provided := True\<rparr>)
                     | J_string s \<Rightarrow>
                         (case parse_utc_timestamp s of
                            None \<Rightarrow> Inl (''invalid_expires_at'', ''expires_at must be null or a UTC timestamp'')
                          | Some t \<Rightarrow> Inr (u\<lparr>expires_at_provided := True, upd_expires_at := Some t\<rparr>))
                     | _ \<Rightarrow> Inl (''invalid_expires_at'', ''expires_at must be null or a UTC timestamp''))
               else Inl (''invalid_request'', ''Only status and expires_at may be updated'')))"

fun update_items :: "(string \<times> json) list \<Rightarrow> lifecycle_update \<Rightarrow> field_error + lifecycle_update" where
  "update_items [] u = Inr u"
| "update_items (i # is) u = (case update_item i u of Inl e \<Rightarrow> Inl e | Inr u1 \<Rightarrow> update_items is u1)"

definition new_update :: "u64 \<Rightarrow> lifecycle_update" where
  "new_update owner = \<lparr>upd_status = None, expires_at_provided = False, upd_expires_at = None, upd_owner = Some owner\<rparr>"

definition handle_update ::
  "json_lib \<Rightarrow> 's link_service \<Rightarrow> (nat \<Rightarrow> int) \<Rightarrow> u64 \<Rightarrow> 's world handler" where
  "handle_update L sv clk owner req resp w =
     (case parse_object L req resp of
        (None, r) \<Rightarrow> (None, r, w)
      | (Some j, r) \<Rightarrow>
          if json_size j = 0 \<or> json_size j > 2
          then (None, invalid_request ''Only status and expires_at may be updated'' r, w)
          else (case update_items (json_items j) (new_update owner) of
                  Inl (code, msg) \<Rightarrow> (None, set_error_response 400 code msg r, w)
                | Inr u \<Rightarrow>
                    (case service_update sv (clk 0) (get_path_parameter ''param1'' req) u w of
                       (Inl e, w1) \<Rightarrow> (Some e, r, w1)
                     | (Inr None, w1) \<Rightarrow> (None, link_not_found r, w1)
                     | (Inr (Some l), w1) \<Rightarrow>
                         (case set_json L 200 ''OK'' (record_json l) r of (e, r1) \<Rightarrow> (e, r1, w1)))))"

section \<open>Statistics\<close>

definition read_interval :: "http_request \<Rightarrow> field_error + stats_interval" where
  "read_interval req =
     (let v = get_query_parameter ''interval'' req
      in if v = [] then Inr Interval_day
         else case parse_interval v of
                None \<Rightarrow> Inl (''invalid_interval'', ''interval must be hour or day'')
              | Some i \<Rightarrow> Inr i)"

definition read_bound :: "string \<Rightarrow> field_error \<Rightarrow> int \<Rightarrow> http_request \<Rightarrow> field_error + int" where
  "read_bound name err default_time req =
     (let v = get_query_parameter name req
      in if v = [] then Inr default_time
         else case parse_utc_timestamp v of None \<Rightarrow> Inl err | Some t \<Rightarrow> Inr t)"

text \<open>\<open>sdiv\<close> and \<open>smod\<close> round towards zero, as the division of C++ does.\<close>

definition check_range :: "stats_query \<Rightarrow> field_error + stats_query" where
  "check_range q =
     (let b = bucket_seconds (query_interval q)
      in if from_epoch q smod b \<noteq> 0 \<or> to_epoch q smod b \<noteq> 0 \<or> to_epoch q \<le> from_epoch q
         then Inl (''invalid_statistics_range'', ''from/to must be aligned and increasing'')
         else if to_epoch q - from_epoch q > (if query_interval q = Interval_hour then 31 * 86400 else 366 * 86400)
         then Inl (''statistics_range_too_large'', ''Requested statistics range is too large'')
         else Inr q)"

definition parse_statistics_query :: "int \<Rightarrow> http_request \<Rightarrow> field_error + stats_query" where
  "parse_statistics_query now req =
     (case read_interval req of
        Inl e \<Rightarrow> Inl e
      | Inr interval \<Rightarrow>
          (let b = bucket_seconds interval;
               to0 = ((now + b - 1) sdiv b) * b;
               from0 = to0 - 7 * 86400
           in case read_bound ''from'' (''invalid_from'', ''from must be a UTC timestamp'') from0 req of
                Inl e \<Rightarrow> Inl e
              | Inr from1 \<Rightarrow>
                  (case read_bound ''to'' (''invalid_to'', ''to must be a UTC timestamp'') to0 req of
                     Inl e \<Rightarrow> Inl e
                   | Inr to1 \<Rightarrow> check_range \<lparr>from_epoch = from1, to_epoch = to1, query_interval = interval\<rparr>)))"

text \<open>\<open>setw(3)\<close> with the fill \<open>0\<close> pads on the left.\<close>

definition pad_three :: "string \<Rightarrow> string" where
  "pad_three s = replicate (3 - length s) CHR ''0'' @ s"

definition format_utc_timestamp_ms :: "int \<Rightarrow> string" where
  "format_utc_timestamp_ms ms =
     butlast (format_utc_timestamp (ms sdiv 1000)) @ ''.'' @ pad_three (to_string_int (ms smod 1000)) @ ''Z''"

definition counts_json :: "result_counts \<Rightarrow> json" where
  "counts_json c = json_object
     [(''success'', json_u64 (c ! 0)), (''disabled'', json_u64 (c ! 1)), (''expired'', json_u64 (c ! 2)), (''error'', json_u64 (c ! 3))]"

definition time_json :: "int option \<Rightarrow> json" where
  "time_json t = (case t of None \<Rightarrow> J_null | Some ms \<Rightarrow> J_string (format_utc_timestamp_ms ms))"

definition summary_json :: "stats_summary \<Rightarrow> json" where
  "summary_json s = json_object
     [(''access_count'', json_u64 (summary_counts s ! 0)),
      (''attempt_count'', json_u64 (attempt_count (summary_counts s))),
      (''result_counts'', counts_json (summary_counts s)),
      (''last_access_at'', time_json (last_access_ms s)),
      (''last_attempt_at'', time_json (last_attempt_ms s))]"

definition point_json :: "trend_point \<Rightarrow> json" where
  "point_json p = json_object
     [(''bucket_start'', J_string (format_utc_timestamp (bucket_start p))),
      (''access_count'', json_u64 (bucket_counts p ! 0)),
      (''attempt_count'', json_u64 (attempt_count (bucket_counts p))),
      (''result_counts'', counts_json (bucket_counts p))]"

definition statistics_body :: "stats_query \<Rightarrow> stats_snapshot \<Rightarrow> json" where
  "statistics_body q s = json_object
     [(''code'', J_string (snapshot_code s)), (''consistency'', J_string ''eventual''),
      (''summary'', summary_json (snapshot_summary s)),
      (''trend'', json_object
         [(''interval'', J_string (interval_to_string (query_interval q))),
          (''from'', J_string (format_utc_timestamp (from_epoch q))),
          (''to'', J_string (format_utc_timestamp (to_epoch q))),
          (''points'', J_array (map point_json (snapshot_trend s)))])]"

text \<open>
  The statistics repository is a parameter; it has its own state and counts its errors in the
  metrics object.
\<close>

type_synonym 'q stats_repo = "string \<Rightarrow> stats_query \<Rightarrow> 'q \<times> sl_metrics \<Rightarrow> (exn + stats_snapshot option) \<times> 'q \<times> sl_metrics"

definition handle_statistics ::
  "json_lib \<Rightarrow> 's link_service \<Rightarrow> 'q stats_repo \<Rightarrow> (nat \<Rightarrow> int) \<Rightarrow> u64 \<Rightarrow> ('s world \<times> 'q) handler" where
  "handle_statistics L sv stats clk owner req resp wq =
     (let c = get_path_parameter ''param1'' req
      in case service_get_for_owner sv c owner (fst wq) of
           (Inl e, w1) \<Rightarrow> (Some e, resp, w1, snd wq)
         | (Inr None, w1) \<Rightarrow> (None, link_not_found resp, w1, snd wq)
         | (Inr (Some _), w1) \<Rightarrow>
             (case parse_statistics_query (clk 0) req of
                Inl (code, msg) \<Rightarrow> (None, set_error_response 400 code msg resp, w1, snd wq)
              | Inr q \<Rightarrow>
                  (case stats c q (snd wq, metrics w1) of
                     (res, q1, m) \<Rightarrow>
                       (case res of
                          Inl e \<Rightarrow> (Some e, resp, w1\<lparr>metrics := m\<rparr>, q1)
                        | Inr None \<Rightarrow> (None, link_not_found resp, w1\<lparr>metrics := m\<rparr>, q1)
                        | Inr (Some s) \<Rightarrow>
                            (case set_json L 200 ''OK'' (statistics_body q s) resp of
                               (e, r) \<Rightarrow> (e, r, w1\<lparr>metrics := m\<rparr>, q1))))))"

section \<open>Health and metrics\<close>

definition handle_health :: "json_lib \<Rightarrow> 'w handler" where
  "handle_health L req resp w =
     (case set_json L 200 ''OK'' (json_object [(''status'', J_string ''ok'')]) resp of (e, r) \<Rightarrow> (e, r, w))"

definition handle_readiness :: "json_lib \<Rightarrow> bool \<Rightarrow> bool \<Rightarrow> 'w handler" where
  "handle_readiness L requires pool_healthy req resp w =
     (let ready = (\<not> requires \<or> pool_healthy)
      in case (if ready then set_json L 200 ''OK'' (json_object [(''status'', J_string ''ready'')]) resp
               else set_json L 503 ''Service Unavailable'' (json_object [(''status'', J_string ''not_ready'')]) resp) of
           (e, r) \<Rightarrow> (e, r, w))"

definition metrics_answer :: "(u64 \<Rightarrow> string) \<Rightarrow> http_metrics \<Rightarrow> sl_metrics \<Rightarrow> http_response \<Rightarrow> http_response" where
  "metrics_answer seconds h m resp =
     (let body = render_http_metrics seconds h @ render_prometheus m
      in (set_content_length (word_of_nat (length body))
            (set_content_type ''text/plain; version=0.0.4; charset=utf-8'' (set_status 200 ''OK'' resp)))\<lparr>resp_body := body\<rparr>)"

section \<open>The routes\<close>

record ('s, 'p, 'a, 'c, 'd, 'q) api_state = "('s, 'p) redirect_state" +
  account_world :: "('a, 'c) auth_world"
  limiter_state :: 'd
  stats_state :: 'q

record api_config =
  requires_mysql :: bool
  metrics_enabled :: bool
  metrics_storage :: storage
  api_auth :: auth_http_config

record ('s, 'p, 'a, 'c, 'd, 'q) api =
  api_links :: "'s link_service"
  api_accounts :: "('a, 'c) auth_service"
  api_limiter :: "'d rate_limiter option"
  api_publisher :: "'p publisher"
  api_statistics :: "'q stats_repo option"
  api_json :: json_lib
  api_settings :: api_config

text \<open>What the handlers of one request read from outside: clocks, pool, and the printing of seconds.\<close>

record surroundings =
  clock :: "nat \<Rightarrow> int"
  clock_ms :: int
  pool_is_healthy :: bool
  print_seconds :: "u64 \<Rightarrow> string"

type_synonym ('s, 'p, 'a, 'c, 'd, 'q) api_handler = "('s, 'p, 'a, 'c, 'd, 'q) api_state handler"

definition on_links :: "'s world handler \<Rightarrow> ('s, 'p, 'a, 'c, 'd, 'q) api_handler" where
  "on_links h req resp w = (case h req resp (link_world w) of (e, r, l) \<Rightarrow> (e, r, w\<lparr>link_world := l\<rparr>))"

definition on_limited_links :: "('s world \<times> 'd) handler \<Rightarrow> ('s, 'p, 'a, 'c, 'd, 'q) api_handler" where
  "on_limited_links h req resp w =
     (case h req resp (link_world w, limiter_state w) of (e, r, l, d) \<Rightarrow> (e, r, w\<lparr>link_world := l, limiter_state := d\<rparr>))"

definition on_counted_links :: "('s world \<times> 'q) handler \<Rightarrow> ('s, 'p, 'a, 'c, 'd, 'q) api_handler" where
  "on_counted_links h req resp w =
     (case h req resp (link_world w, stats_state w) of (e, r, l, q) \<Rightarrow> (e, r, w\<lparr>link_world := l, stats_state := q\<rparr>))"

definition on_accounts :: "('a, 'c) auth_world handler \<Rightarrow> ('s, 'p, 'a, 'c, 'd, 'q) api_handler" where
  "on_accounts h req resp w = (case h req resp (account_world w) of (e, r, a) \<Rightarrow> (e, r, w\<lparr>account_world := a\<rparr>))"

definition on_app :: "'w handler \<Rightarrow> 'w server_world handler" where
  "on_app h req resp w = (case h req resp (app w) of (e, r, a) \<Rightarrow> (e, r, w\<lparr>app := a\<rparr>))"

text \<open>\<open>authenticate\<close>, then the rest of the handler for the id of the user.\<close>

definition with_user ::
  "('s, 'p, 'a, 'c, 'd, 'q) api \<Rightarrow> (nat \<Rightarrow> int) \<Rightarrow> (u64 \<Rightarrow> (nat \<Rightarrow> int) \<Rightarrow> ('s, 'p, 'a, 'c, 'd, 'q) api_handler) \<Rightarrow>
   ('s, 'p, 'a, 'c, 'd, 'q) api_handler" where
  "with_user api clk h req resp w =
     (case require_authenticated_user (api_accounts api) (api_auth (api_settings api)) (clk 0) req resp (account_world w) of
        (Inl e, r, a) \<Rightarrow> (Some e, r, w\<lparr>account_world := a\<rparr>)
      | (Inr None, r, a) \<Rightarrow> (None, r, w\<lparr>account_world := a\<rparr>)
      | (Inr (Some u), r, a) \<Rightarrow> h (user_id u) (\<lambda>i. clk (Suc i)) req (no_store r) (w\<lparr>account_world := a\<rparr>))"

definition same_origin_only :: "'w handler \<Rightarrow> 'w handler" where
  "same_origin_only h req resp w =
     (case require_same_origin req resp of (False, r) \<Rightarrow> (None, r, w) | (True, r) \<Rightarrow> h req r w)"

definition create_route :: "('s, 'p, 'a, 'c, 'd, 'q) api \<Rightarrow> surroundings \<Rightarrow> ('s, 'p, 'a, 'c, 'd, 'q) api_handler" where
  "create_route api s = same_origin_only (with_user api (clock s) (\<lambda>own clk. on_limited_links
     (handle_create (api_json api) (api_links api) (metrics_storage (api_settings api)) (api_limiter api) clk own)))"

definition list_route :: "('s, 'p, 'a, 'c, 'd, 'q) api \<Rightarrow> surroundings \<Rightarrow> ('s, 'p, 'a, 'c, 'd, 'q) api_handler" where
  "list_route api s = with_user api (clock s) (\<lambda>own clk. on_links (handle_list (api_json api) (api_links api) own))"

definition detail_route :: "('s, 'p, 'a, 'c, 'd, 'q) api \<Rightarrow> surroundings \<Rightarrow> ('s, 'p, 'a, 'c, 'd, 'q) api_handler" where
  "detail_route api s = with_user api (clock s) (\<lambda>own clk. on_links (handle_detail (api_json api) (api_links api) own))"

definition update_route :: "('s, 'p, 'a, 'c, 'd, 'q) api \<Rightarrow> surroundings \<Rightarrow> ('s, 'p, 'a, 'c, 'd, 'q) api_handler" where
  "update_route api s = same_origin_only (with_user api (clock s) (\<lambda>own clk. on_links
     (handle_update (api_json api) (api_links api) clk own)))"

definition statistics_route ::
  "('s, 'p, 'a, 'c, 'd, 'q) api \<Rightarrow> 'q stats_repo \<Rightarrow> surroundings \<Rightarrow> ('s, 'p, 'a, 'c, 'd, 'q) api_handler" where
  "statistics_route api stats s = with_user api (clock s) (\<lambda>own clk. on_counted_links
     (handle_statistics (api_json api) (api_links api) stats clk own))"

definition redirect_route :: "('s, 'p, 'a, 'c, 'd, 'q) api \<Rightarrow> surroundings \<Rightarrow> ('s, 'p, 'a, 'c, 'd, 'q) api_handler" where
  "redirect_route api s = handle_redirect (api_publisher api) (api_links api) (clock s) (clock_ms s)"

definition metrics_route :: "surroundings \<Rightarrow> ('s, 'p, 'a, 'c, 'd, 'q) api_state server_world handler" where
  "metrics_route s req resp w =
     (None, metrics_answer (print_seconds s) (http_counters w) (metrics (link_world (app w))) resp, w)"

type_synonym ('s, 'p, 'a, 'c, 'd, 'q) api_server =
  "('s, 'p, 'a, 'c, 'd, 'q) api_state http_server \<times> http_metrics"

definition register_auth_routes ::
  "('s, 'p, 'a, 'c, 'd, 'q) api \<Rightarrow> surroundings \<Rightarrow> ('s, 'p, 'a, 'c, 'd, 'q) api_server \<Rightarrow> ('s, 'p, 'a, 'c, 'd, 'q) api_server" where
  "register_auth_routes api s srv =
     (let sv = api_accounts api; cfg = api_auth (api_settings api);
          srv1 = server_post ''/api/auth/register'' (on_app (on_accounts (handle_register (api_json api) sv cfg (clock s)))) srv;
          srv2 = server_post ''/api/auth/login'' (on_app (on_accounts (handle_login (api_json api) sv cfg (clock s)))) srv1;
          srv3 = server_add_route M_delete ''/api/auth/session'' (on_app (on_accounts (handle_logout sv cfg (clock s)))) srv2
      in server_get ''/api/me'' (on_app (on_accounts (handle_me sv cfg (clock s)))) srv3)"

definition register_api ::
  "('s, 'p, 'a, 'c, 'd, 'q) api \<Rightarrow> surroundings \<Rightarrow> ('s, 'p, 'a, 'c, 'd, 'q) api_server \<Rightarrow> ('s, 'p, 'a, 'c, 'd, 'q) api_server" where
  "register_api api s srv =
     (let L = api_json api; cfg = api_settings api;
          s1 = server_get ''/api/health'' (on_app (handle_health L)) srv;
          s2 = server_get ''/api/health/live'' (on_app (handle_health L)) s1;
          s3 = server_get ''/api/health/ready'' (on_app (handle_readiness L (requires_mysql cfg) (pool_is_healthy s))) s2;
          s4 = register_auth_routes api s s3;
          s5 = server_post ''/api/short-links'' (on_app (create_route api s)) s4;
          s6 = server_get ''/api/short-links'' (on_app (list_route api s)) s5;
          s7 = server_add_route M_get ''/api/short-links/:code'' (on_app (detail_route api s)) s6;
          s8 = server_add_route M_put ''/api/short-links/:code'' (on_app (update_route api s)) s7;
          s9 = (case api_statistics api of
                  Some stats \<Rightarrow> server_add_route M_get ''/api/short-links/:code/statistics'' (on_app (statistics_route api stats s)) s8
                | None \<Rightarrow> s8);
          s10 = server_add_route M_get ''/s/:code'' (on_app (redirect_route api s)) s9
      in if metrics_enabled cfg then server_get ''/metrics'' (metrics_route s) s10 else s10)"

section \<open>Lemmas: parsing\<close>

lemma digit_char_bounds: "(c < CHR ''0'' \<or> c > CHR ''9'') = (\<not> is_digit c)"
  by (auto simp: is_digit_def)

lemma dec_value_mono: "acc \<le> dec_value acc s"
proof (induction s arbitrary: acc)
  case (Cons c s)
  have "acc \<le> acc * 10 + digit_val c" by simp
  also have "\<dots> \<le> dec_value (acc * 10 + digit_val c) s" by (rule Cons)
  finally show ?case by simp
qed simp

text \<open>One digit more: the check is exactly that the new value still fits.\<close>

lemma unsigned_step:
  fixes r :: u64
  assumes "d < 10"
  shows "r > (- 1 - word_of_nat d) div 10 \<longleftrightarrow> 2 ^ 64 \<le> unat r * 10 + d"
    and "unat r * 10 + d < 2 ^ 64 \<Longrightarrow> unat (r * 10 + word_of_nat d) = unat r * 10 + d"
proof -
  have le: "m - 1 - d < x \<longleftrightarrow> m \<le> x + d" if "d < m" for m x :: nat using that by arith
  have d: "unat (word_of_nat d :: u64) = d" using assms by (simp add: unsigned_of_nat take_bit_nat_eq_self)
  have "unat (- 1 - word_of_nat d :: u64) = 2 ^ 64 - 1 - d"
    using unat_sub [of "word_of_nat d" "- 1 :: u64"] d by simp
  then have "unat ((- 1 - word_of_nat d) div 10 :: u64) = (2 ^ 64 - 1 - d) div 10"
    by (simp add: unat_div_distrib)
  then have "r > (- 1 - word_of_nat d) div 10 \<longleftrightarrow> (2 ^ 64 - 1 - d) div 10 < unat r"
    by (simp add: word_less_nat_alt)
  also have "\<dots> \<longleftrightarrow> 2 ^ 64 - 1 - d < unat r * 10"
    by (rule div_less_iff_less_mult) simp
  finally show "r > (- 1 - word_of_nat d) div 10 \<longleftrightarrow> 2 ^ 64 \<le> unat r * 10 + d"
    using le [of "2 ^ 64" "unat r * 10"] assms by simp
  assume "unat r * 10 + d < 2 ^ 64"
  then show "unat (r * 10 + word_of_nat d) = unat r * 10 + d"
    using d by (simp add: unat_word_ariths)
qed

lemma parse_unsigned_loop_value:
  "parse_unsigned_loop s r = Some n \<longleftrightarrow> list_all is_digit s \<and> dec_value (unat r) s = unat n"
proof (induction s arbitrary: r)
  case Nil
  then show ?case by (auto simp: unat_inj_u64)
next
  case (Cons c s)
  show ?case
  proof (cases "is_digit c")
    case False
    then show ?thesis by (simp add: digit_char_bounds)
  next
    case True
    then have d: "digit_val c < 10" by simp
    show ?thesis
    proof (cases "2 ^ 64 \<le> unat r * 10 + digit_val c")
      case over: True
      then have "2 ^ 64 \<le> dec_value (unat r * 10 + digit_val c) s"
        using dec_value_mono [of "unat r * 10 + digit_val c" s] by linarith
      then have "dec_value (unat r * 10 + digit_val c) s \<noteq> unat n" using unat_u64_less [of n] by linarith
      moreover have "r > (- 1 - word_of_nat (digit_val c)) div 10" using unsigned_step(1) [OF d] over by blast
      ultimately show ?thesis using True by (simp add: digit_char_bounds Let_def)
    next
      case False
      then have "\<not> r > (- 1 - word_of_nat (digit_val c)) div 10" using unsigned_step(1) [OF d] by blast
      then show ?thesis
        using unsigned_step(2) [OF d, of r] False True Cons.IH [of "r * 10 + word_of_nat (digit_val c)"]
        by (simp add: digit_char_bounds Let_def)
    qed
  qed
qed

lemma sdiv_nonneg: "0 \<le> (a :: int) \<Longrightarrow> 0 < b \<Longrightarrow> a sdiv b = a div b"
  by (simp add: signed_divide_int_def sgn_if)

lemma smod_zero: "(a :: int) smod b = 0 \<longleftrightarrow> b dvd a"
proof
  assume "a smod b = 0"
  then have "a = a sdiv b * b" using sdiv_mult_smod_eq [of a b] by simp
  then show "b dvd a" by (metis dvd_triv_right)
next
  assume "b dvd a"
  then show "a smod b = 0" by (simp add: signed_modulo_int_def signed_divide_int_def) 
qed

lemma parsed_time_nonneg: "parse_utc_timestamp v = Some t \<Longrightarrow> 0 \<le> t"
  using format_parse by blast

lemma json_object_field:
  "distinct (map fst ms) \<Longrightarrow> json_field (json_object ms) k = map_of ms k"
proof -
  have "map_of (foldl (\<lambda>m (k, v). omap_put k v m) m ms) = map_of m ++ map_of (rev ms)" for m
    by (induction ms arbitrary: m) (auto simp: fun_eq_iff map_add_def split: option.split)
  moreover assume d: "distinct (map fst ms)"
  moreover have "map_of (rev ms) = map_of ms"
    using d by (subst map_of_inject_set) (simp_all flip: rev_map)
  ultimately show ?thesis by (simp add: json_object_def)
qed

lemma json_put_field: "json_field (json_put k v (json_object ms)) k' = (if k' = k then Some v else json_field (json_object ms) k')"
  by (simp add: json_put_def json_object_def)

lemma set_json_cases:
  "set_json L st msg body resp = (e, r) \<Longrightarrow>
   (e = None \<and> status_code r = st \<and> json_dump L body = Inr (resp_body r)) \<or>
   (\<exists>x. e = Some x \<and> json_dump L body = Inl x)"
  by (auto simp: set_json_def set_json_body_def set_content_length_def set_content_type_def add_header_def
      set_status_def Let_def split: sum.splits)

lemma check_range_valid: "check_range q = Inr q' \<Longrightarrow> 0 \<le> from_epoch q \<Longrightarrow> is_valid_stats_query q'"
  by (auto simp: check_range_def is_valid_stats_query_def smod_zero mod_eq_0_iff_dvd Let_def split: if_splits)

section \<open>Lemmas: creating\<close>

lemma memory_create_metrics: "repo_create memory_repo now url ex own cu w = (res, w') \<Longrightarrow> metrics w' = metrics w"
  by (auto simp: memory_repo_def on_store_def split: prod.splits)

lemma service_create_cases:
  assumes "repository sv = memory_repo" and "mem_inv w" and "mem_room w"
    and "create_short_link sv clk url ex own cu w = (res, w1)"
  shows "metrics w1 = metrics w \<and>
    ((res = Inl Short_code_conflict \<and> mem_records w1 = mem_records w) \<or> (res = Inr None \<and> mem_records w1 = mem_records w) \<or>
     (\<exists>l. res = Inr (Some l) \<and> mem_records w1 = mem_records w @ [link_of l] \<and> owner_id (link_of l) = own \<and>
          original_url (link_of l) = url \<and> link_status (link_of l) = Active))"
proof (cases "acceptable clk url ex own cu")
  case False
  then show ?thesis using assms(4) by (simp add: create_short_link_invalid)
next
  case True
  obtain res0 w0 where run: "repo_create memory_repo (clk 1) url ex own cu w = (res0, w0)" by fastforce
  have "res0 = Inl Short_code_conflict \<or> (\<exists>r. res0 = Inr (Some r))"
    using run by (auto simp: memory_repo_def on_store_def mem_create_def Let_def split: if_splits)
  then show ?thesis
    using True run mem.create_law [OF assms(2,3) run] memory_create_metrics [OF run] assms(1,4)
    by (auto simp: create_short_link_valid)
qed

text \<open>The outcome of a create request that has passed the rate limiter.\<close>

definition create_outcome ::
  "json_lib \<Rightarrow> storage \<Rightarrow> u64 \<Rightarrow> mem_repo world \<Rightarrow> exn option \<Rightarrow> http_response \<Rightarrow> mem_repo world \<Rightarrow> bool" where
  "create_outcome L st own w e r w' \<longleftrightarrow>
     (e = None \<and> status_code r = 201 \<and> metrics w' = record_create Create_success st (metrics w) \<and>
        (\<exists>l. mem_records w' = mem_records w @ [l] \<and> owner_id l = own \<and> link_status l = Active \<and> is_valid_url (original_url l) \<and>
             json_dump L (record_json l) = Inr (resp_body r))) \<or>
     (e = None \<and> status_code r \<in> {400, 409} \<and> metrics w' = record_create Create_invalid st (metrics w) \<and>
        mem_records w' = mem_records w) \<or>
     (\<exists>l. e \<noteq> None \<and> metrics w' = record_create Create_error st (metrics w) \<and> mem_records w' = mem_records w @ [l] \<and>
        json_dump L (record_json l) = Inl (the e))"

lemma created_url_valid: "create_short_link sv clk url ex own cu w = (Inr (Some l), w1) \<Longrightarrow> is_valid_url url"
  by (auto simp: create_short_link_def split: if_splits)

lemma count_create_simps [simp]:
  "metrics (count_create c st w) = record_create c st (metrics w)" "mem_records (count_create c st w) = mem_records w"
  by (simp_all add: count_create_def note_links_def mem_records_def)

lemma create_link_outcome:
  assumes "repository sv = memory_repo" and "mem_inv w" and "mem_room w" and "\<forall>j. json_dump L j \<noteq> Inl Short_code_conflict"
    and run: "create_link L sv st clk own (url, ex, cu) resp w = (e, r, w')"
  shows "create_outcome L st own w e r w'"
proof -
  obtain res w1 where c: "create_short_link sv clk url ex own cu w = (res, w1)" by fastforce
  note cases = service_create_cases [OF assms(1-3) c]
  then consider "res = Inl Short_code_conflict" | "res = Inr None" | l where "res = Inr (Some l)" by blast
  then show ?thesis
  proof cases
    case 1
    then show ?thesis using run c cases by (auto simp: create_link_def create_failed_def create_outcome_def)
  next
    case 2
    then show ?thesis using run c cases by (auto simp: create_link_def create_outcome_def)
  next
    case (3 l)
    then have l: "mem_records w1 = mem_records w @ [link_of l]" "owner_id (link_of l) = own" "metrics w1 = metrics w"
      "original_url (link_of l) = url" "link_status (link_of l) = Active" using cases by auto
    have u: "is_valid_url url" using c 3 created_url_valid by blast
    obtain x r1 where s: "set_json L 201 ''Created'' (record_json (link_of l)) resp = (x, r1)" by fastforce
    show ?thesis
    proof (cases x)
      case None
      then show ?thesis using run c 3 s l u set_json_cases [OF s] by (auto simp: create_link_def create_outcome_def)
    next
      case (Some err)
      then have d: "json_dump L (record_json (link_of l)) = Inl err" using set_json_cases [OF s] by auto
      then have "err \<noteq> Short_code_conflict" using assms(4) by metis
      then show ?thesis using run c 3 s Some l d by (auto simp: create_link_def create_failed_def create_outcome_def)
    qed
  qed
qed

lemma parse_object_error: "parse_object L req resp = (None, r) \<Longrightarrow> status_code r = 400"
  by (auto simp: parse_object_def invalid_request_def split: if_splits option.splits)

lemma create_body_outcome:
  assumes "repository sv = memory_repo" and "mem_inv w" and "mem_room w" and "\<forall>j. json_dump L j \<noteq> Inl Short_code_conflict"
    and run: "create_from_body L sv st clk own req resp w = (e, r, w')"
  shows "create_outcome L st own w e r w'"
proof -
  obtain j0 r0 where p: "parse_object L req resp = (j0, r0)" by fastforce
  show ?thesis
  proof (cases j0)
    case None
    then show ?thesis using run p parse_object_error [of L req resp r0] by (auto simp: create_from_body_def create_outcome_def)
  next
    case (Some j)
    show ?thesis
    proof (cases "read_create_fields (clk 0) j")
      case (Inl err)
      obtain code msg where "err = (code, msg)" by fastforce
      then show ?thesis using run p Some Inl by (auto simp: create_from_body_def create_outcome_def)
    next
      case (Inr f)
      obtain url ex cu where f: "f = (url, ex, cu)" by (cases f) auto
      then show ?thesis
        using run p Some Inr create_link_outcome [OF assms(1-4), of st "\<lambda>i. clk (Suc i)" own url ex cu r0 e r w']
        by (simp add: create_from_body_def)
    qed
  qed
qed

section \<open>Lemmas: listing\<close>

lemma record_json_fields:
  "json_field (record_json r) ''id'' = Some (json_u64 (link_id r))"
  "json_field (record_json r) ''code'' = Some (J_string (link_code r))"
  "json_field (record_json r) ''original_url'' = Some (J_string (original_url r))"
  by (cases "expires_at r"; simp add: record_json_def json_put_field json_object_field Let_def)+

lemma list_body_fields:
  "json_field (list_body limit rs) ''items'' = Some (J_array (map record_json (take limit rs)))"
  "0 < limit \<Longrightarrow> json_field (list_body limit rs) ''next_cursor'' =
     Some (if length rs > limit then json_u64 (link_id (last (take limit rs))) else J_null)"
  by (cases "length rs > limit"; auto simp: list_body_def json_put_field json_object_field Let_def)+

text \<open>
  A client that follows the listing: it reads the items of each page and asks for the next one with
  the \<open>next_cursor\<close> of the page, until that is null.
\<close>

fun follow_pages :: "nat \<Rightarrow> 's link_service \<Rightarrow> u64 \<Rightarrow> link_state option \<Rightarrow> nat \<Rightarrow> u64 \<Rightarrow> 's world \<Rightarrow> json list" where
  "follow_pages 0 sv own st limit cursor w = []"
| "follow_pages (Suc k) sv own st limit cursor w =
     (case service_list sv \<lparr>q_cursor = cursor, q_limit = limit + 1, q_owner = Some own, q_status = st\<rparr> w of
        (Inl e, w1) \<Rightarrow> []
      | (Inr rs, w1) \<Rightarrow>
          (case json_field (list_body limit rs) ''items'' of Some (J_array xs) \<Rightarrow> xs | _ \<Rightarrow> []) @
          (case json_field (list_body limit rs) ''next_cursor'' of
             Some (J_int n) \<Rightarrow> follow_pages k sv own st limit (word_of_int n) w1
           | _ \<Rightarrow> []))"

context link_repository
begin

lemma follow_pages_complete:
  assumes "repository sv = repo" and "0 < limit"
  shows "inv w \<Longrightarrow>
     length (filter (\<lambda>r. \<not> skipped \<lparr>q_cursor = cursor, q_limit = limit + 1, q_owner = Some own, q_status = st\<rparr> r) (all w)) < k \<Longrightarrow>
     follow_pages k sv own st limit cursor w =
     map record_json (filter (\<lambda>r. \<not> skipped \<lparr>q_cursor = cursor, q_limit = limit + 1, q_owner = Some own, q_status = st\<rparr> r) (all w))"
proof (induction k arbitrary: cursor w)
  case (Suc k)
  let ?q = "\<lambda>c. \<lparr>q_cursor = c, q_limit = limit + 1, q_owner = Some own, q_status = st\<rparr>"
  let ?f = "filter (\<lambda>r. \<not> skipped (?q cursor) r) (all w)"
  obtain w' where l: "service_list sv (?q cursor) w = (Inr (take (limit + 1) ?f), w')" and w': "inv w'" "all w' = all w"
    using list_law [OF Suc.prems(1), of "?q cursor"] assms(1) by (auto simp: service_list_def)
  have page: "take limit (take (limit + 1) ?f) = take limit ?f" by (simp add: min_def)
  show ?case
  proof (cases "length ?f \<le> limit")
    case True
    then show ?thesis using l page assms(2) by (simp add: list_body_fields)
  next
    case False
    let ?c = "link_id (last (take limit ?f))"
    have long: "length (take (limit + 1) ?f) > limit" using False by simp
    have ne: "take limit ?f \<noteq> []" using False assms(2) by auto
    have rest: "filter (\<lambda>r. \<not> skipped (?q ?c) r) (all w') = drop limit ?f"
      using filter_after_cursor [OF ascending [OF Suc.prems(1)], of "?q cursor" "take limit ?f" "drop limit ?f"] ne w' by simp
    have "length (drop limit ?f) < k" using Suc.prems(2) False assms(2) by auto
    then have "follow_pages k sv own st limit ?c w' = map record_json (drop limit ?f)"
      using Suc.IH [OF w'(1), of ?c] rest by simp
    moreover have "word_of_int (int (unat ?c)) = ?c" by simp
    ultimately have "follow_pages (Suc k) sv own st limit cursor w = map record_json (take limit ?f) @ map record_json (drop limit ?f)"
      using l page long assms(2) by (simp add: list_body_fields json_u64_def)
    then show ?thesis by (simp flip: map_append)
  qed
qed simp

text \<open>Links of other owners look like links that do not exist.\<close>

lemma detail_private:
  assumes "repository sv = repo" and "inv w"
    and "owned_by own (view (all w) (get_path_parameter ''param1'' req)) = None"
  shows "\<exists>w'. handle_detail L sv own req resp w = (None, link_not_found resp, w') \<and> all w' = all w"
  using owner_law [OF assms(2), of "get_path_parameter ''param1'' req" own] assms(1,3)
  by (auto simp: handle_detail_def service_get_for_owner_def)

lemma statistics_private:
  assumes "repository sv = repo" and "inv (fst wq)"
    and "owned_by own (view (all (fst wq)) (get_path_parameter ''param1'' req)) = None"
  shows "\<exists>w'. handle_statistics L sv stats clk own req resp wq = (None, link_not_found resp, w', snd wq) \<and> all w' = all (fst wq)"
  using owner_law [OF assms(2), of "get_path_parameter ''param1'' req" own] assms(1,3)
  by (auto simp: handle_statistics_def service_get_for_owner_def Let_def)

end

lemma update_item_owner: "update_item i u = Inr u' \<Longrightarrow> upd_owner u' = upd_owner u"
proof -
  assume h: "update_item i u = Inr u'"
  obtain k v where i: "i = (k, v)" by fastforce
  show ?thesis
    using h by (cases v) (auto simp: update_item_def i split: if_splits option.splits bool.splits)
qed

lemma update_items_owner: "update_items is u = Inr u' \<Longrightarrow> upd_owner u' = upd_owner u"
proof (induction "is" arbitrary: u)
  case (Cons i "is")
  then show ?case using update_item_owner by (auto split: sum.splits)
qed simp

context link_repository
begin

lemma update_private:
  assumes "repository sv = repo" and "inv w"
    and "owned_by own (view (all w) (get_path_parameter ''param1'' req)) = None"
  shows "\<exists>r w'. handle_update L sv clk own req resp w = (None, r, w') \<and> status_code r \<in> {400, 404} \<and> all w' = all w"
proof -
  obtain j0 r0 where p: "parse_object L req resp = (j0, r0)" by fastforce
  show ?thesis
  proof (cases j0)
    case None
    then show ?thesis using p parse_object_error [of L req resp r0] by (simp add: handle_update_def)
  next
    case (Some j)
    show ?thesis
    proof (cases "json_size j = 0 \<or> json_size j > 2")
      case True
      then show ?thesis using p Some by (simp add: handle_update_def invalid_request_def)
    next
      case False
      show ?thesis
      proof (cases "update_items (json_items j) (new_update own)")
        case (Inl err)
        obtain code msg where "err = (code, msg)" by fastforce
        then show ?thesis using p Some False Inl by (simp add: handle_update_def)
      next
        case (Inr u)
        then have "upd_owner u = Some own" using update_items_owner by (fastforce simp: new_update_def)
        then have none: "update_target u (view (all w) (get_path_parameter ''param1'' req)) = None"
          using assms(3) by (simp add: update_target_def)
        obtain w' where "repo_update repo (clk 0) (get_path_parameter ''param1'' req) u w = (Inr None, w')" "all w' = all w"
          using update_law [OF assms(2), of "clk 0" "get_path_parameter ''param1'' req" u] none by auto
        then show ?thesis using p Some False Inr assms(1) by (simp add: handle_update_def service_update_def)
      qed
    qed
  qed
qed

end

section \<open>Properties\<close>

text \<open>Numbers in query strings. \<open>parseUnsigned\<close> accepts exactly the non-empty digit strings whose
  value fits in 64 bits, and returns that value: the overflow check before each digit refuses
  nothing that fits and lets nothing through that does not.\<close>

theorem parse_unsigned_exact:
  "parse_unsigned v = Some n \<longleftrightarrow> v \<noteq> [] \<and> list_all is_digit v \<and> dec_value 0 v = unat n"
  using parse_unsigned_loop_value [of v 0 n] by (simp add: parse_unsigned_def)

text \<open>Statistics queries. Whatever interval and bounds a request asks for, a query the handler
  accepts is one the statistics repository accepts (non-negative, whole buckets, increasing, at most
  31 or 366 days), from any clock later than a week after the epoch, so the repository never throws
  \<open>invalid_argument\<close> for it.\<close>

theorem statistics_query_valid:
  assumes "parse_statistics_query now req = Inr q" and "7 * 86400 \<le> now"
  shows "is_valid_stats_query q"
proof -
  obtain i where i: "read_interval req = Inr i" using assms(1) by (auto simp: parse_statistics_query_def split: sum.splits)
  let ?b = "bucket_seconds i"
  let ?to = "((now + ?b - 1) sdiv ?b) * ?b"
  obtain f t where f: "read_bound ''from'' (''invalid_from'', ''from must be a UTC timestamp'') (?to - 7 * 86400) req = Inr f"
    and q: "check_range \<lparr>from_epoch = f, to_epoch = t, query_interval = i\<rparr> = Inr q"
    using assms(1) i by (auto simp: parse_statistics_query_def Let_def split: sum.splits)
  have b: "0 < ?b" by (simp add: bucket_seconds_def)
  have "now \<le> ?to"
  proof -
    have "?to = (now + ?b - 1) - (now + ?b - 1) mod ?b"
      using assms(2) b by (simp add: sdiv_nonneg minus_mod_eq_div_mult)
    moreover have "(now + ?b - 1) mod ?b < ?b" using b by simp
    ultimately show ?thesis by linarith
  qed
  then have "0 \<le> f"
    using f assms(2) parsed_time_nonneg by (auto simp: read_bound_def Let_def split: if_splits option.splits)
  then show ?thesis
    using check_range_valid [OF q] by simp
qed

definition statistics_request :: http_request where
  "statistics_request = init_request\<lparr>query_params :=
     [(''interval'', ''hour''), (''from'', ''2024-02-29T00:00:00Z''), (''to'', ''2024-03-01T00:00:00Z'')]\<rparr>"

lemma statistics_query_valid_witness:
  "\<exists>q. parse_statistics_query 1700000000 statistics_request = Inr q \<and> is_valid_stats_query q"
proof -
  have "parse_statistics_query 1700000000 statistics_request =
      Inr \<lparr>from_epoch = 1709164800, to_epoch = 1709251200, query_interval = Interval_hour\<rparr>"
    by code_simp
  from statistics_query_valid [OF this] show ?thesis
    using \<open>parse_statistics_query 1700000000 statistics_request = _\<close> by simp
qed


definition create_request :: http_request where
  "create_request = init_request\<lparr>req_headers := [(''Content-Type'', ''application/json'')], req_body := ''{}''\<rparr>"

definition limited :: "nat rate_limiter" where
  "limited k n = (\<lparr>rate_status_of = (if n = 0 then Check_limited else Check_allowed), retry_after = 7\<rparr>, n - 1)"

lemma one_document_no_conflict: "\<forall>j. json_dump (one_document x t) j \<noteq> Inl Short_code_conflict"
  by (simp add: one_document_def)





definition no_statistics :: "'q stats_repo" where
  "no_statistics code q = (\<lambda>w. (Inr None, w))"


text \<open>C11: no session, no access. When the cookie of the request is missing or its session unknown,
  revoked or expired, the management routes answer 401 (or 403 to a cross-site request) and touch
  neither links, statistics, limiter nor publisher.\<close>

theorem management_needs_session:
  assumes "authenticate_request (api_accounts api) (api_auth (api_settings api)) (clock s 0) req (account_world w) = (Inr None, a)"
    and "h \<in> {create_route api s, list_route api s, detail_route api s, update_route api s, statistics_route api stats s}"
  shows "\<exists>r w'. h req resp w = (None, r, w') \<and> status_code r \<in> {401, 403} \<and> w' \<in> {w, w\<lparr>account_world := a\<rparr>}"
proof -
  have wu: "with_user api (clock s) g req r0 w =
      (None, set_error_response 401 ''authentication_required'' ''Authentication required'' (no_store r0), w\<lparr>account_world := a\<rparr>)" for g r0
    using assms(1) by (simp add: with_user_def require_authenticated_user_def)
  obtain ok r0 where so: "require_same_origin req resp = (ok, r0)" by fastforce
  have st: "\<not> ok \<Longrightarrow> status_code r0 = 403" using so by (auto simp: require_same_origin_def Let_def split: if_splits)
  show ?thesis
    using assms(2) wu so st
    by (cases ok) (auto simp: create_route_def list_route_def detail_route_def update_route_def statistics_route_def same_origin_only_def)
qed

definition sample_api :: "(mem_repo, access_event list, mem_auth, nat, nat, unit) api" where
  "sample_api = \<lparr>api_links = \<lparr>repository = memory_repo, service_metrics = True\<rparr>, api_accounts = sample_service,
     api_limiter = None, api_publisher = (\<lambda>e es. es @ [e]), api_statistics = Some no_statistics,
     api_json = one_document J_null [],
     api_settings = \<lparr>requires_mysql = False, metrics_enabled = True, metrics_storage = Storage_memory,
       api_auth = default_auth_http_config\<rparr>\<rparr>"

definition sample_surroundings :: surroundings where
  "sample_surroundings = \<lparr>clock = (\<lambda>i. 9), clock_ms = 9000, pool_is_healthy = True, print_seconds = to_string_u64\<rparr>"

definition sample_api_state :: "(mem_repo, access_event list, mem_auth, nat, nat, unit) api_state" where
  "sample_api_state = redirect_state.extend redirect_sample
     (api_state.fields sample_auth_world 0 ())"

lemma management_needs_session_witness:
  "\<exists>r w'. create_route sample_api sample_surroundings create_request (init_response False) sample_api_state = (None, r, w') \<and>
     status_code r \<in> {401, 403}"
proof -
  have "get_header ''Cookie'' create_request = []" by code_simp
  then have "authenticate_request (api_accounts sample_api) (api_auth (api_settings sample_api)) (clock sample_surroundings 0)
      create_request (account_world sample_api_state) = (Inr None, account_world sample_api_state)"
    by (simp add: authenticate_request_def session_token_from_request_def find_cookie.simps)
  from management_needs_session [OF this] show ?thesis by blast
qed

end
