(* ===== verification/ConsumerMetrics.thy ===== *)
theory ConsumerMetrics
  imports ShortLinkMetrics HttpMessages
begin

text \<open>
  \<open>ConsumerMetrics.h/.cpp\<close> and the answers of \<open>ConsumerObservabilityServer.cpp\<close>: the counters of
  the event consumer, its lag per partition, the time of the last committed event, its health, and
  the two pages that show them. The sockets and the thread of the observability server are in
  \<open>ConsumerObservability\<close>: \<open>handle_connection\<close> is the answer to the bytes of one \<open>recv\<close>.
\<close>

section \<open>State and operations\<close>

datatype message_result = Msg_aggregated | Msg_duplicate | Msg_ignored | Msg_dlq | Msg_error
datatype retry_operation = Retry_mysql | Retry_offset_commit | Retry_dlq_publish
datatype dlq_result = Dlq_success | Dlq_failure

fun message_result_index :: "message_result \<Rightarrow> nat" where
  "message_result_index Msg_aggregated = 0"
| "message_result_index Msg_duplicate = 1"
| "message_result_index Msg_ignored = 2"
| "message_result_index Msg_dlq = 3"
| "message_result_index Msg_error = 4"

fun retry_operation_index :: "retry_operation \<Rightarrow> nat" where
  "retry_operation_index Retry_mysql = 0"
| "retry_operation_index Retry_offset_commit = 1"
| "retry_operation_index Retry_dlq_publish = 2"

fun dlq_result_index :: "dlq_result \<Rightarrow> nat" where
  "dlq_result_index Dlq_success = 0" | "dlq_result_index Dlq_failure = 1"

record consumer_metrics =
  message_counters :: "u64 list"
  retry_counters :: "u64 list"
  dlq_counters :: "u64 list"
  lag_of :: "(int \<times> int) list"
  last_success :: int
  consumer_healthy :: bool

definition init_consumer_metrics :: consumer_metrics where
  "init_consumer_metrics =
     \<lparr>message_counters = replicate 5 0, retry_counters = replicate 3 0, dlq_counters = replicate 2 0,
      lag_of = [], last_success = 0, consumer_healthy = False\<rparr>"

definition record_message :: "message_result \<Rightarrow> consumer_metrics \<Rightarrow> consumer_metrics" where
  "record_message r m = m\<lparr>message_counters := fetch_add_one (message_result_index r) (message_counters m)\<rparr>"

definition record_retry :: "retry_operation \<Rightarrow> consumer_metrics \<Rightarrow> consumer_metrics" where
  "record_retry r m = m\<lparr>retry_counters := fetch_add_one (retry_operation_index r) (retry_counters m)\<rparr>"

definition record_dlq :: "dlq_result \<Rightarrow> consumer_metrics \<Rightarrow> consumer_metrics" where
  "record_dlq r m = m\<lparr>dlq_counters := fetch_add_one (dlq_result_index r) (dlq_counters m)\<rparr>"

definition set_lag :: "int \<Rightarrow> int \<Rightarrow> consumer_metrics \<Rightarrow> consumer_metrics" where
  "set_lag part l m = m\<lparr>lag_of := omap_put part l (lag_of m)\<rparr>"

definition replace_lag :: "(int \<times> int) list \<Rightarrow> consumer_metrics \<Rightarrow> consumer_metrics" where
  "replace_lag l m = m\<lparr>lag_of := l\<rparr>"

definition record_success :: "int \<Rightarrow> consumer_metrics \<Rightarrow> consumer_metrics" where
  "record_success now m = m\<lparr>last_success := now\<rparr>"

definition set_healthy :: "bool \<Rightarrow> consumer_metrics \<Rightarrow> consumer_metrics" where
  "set_healthy h m = m\<lparr>consumer_healthy := h\<rparr>"

section \<open>The Prometheus text\<close>

definition message_result_labels :: "string list" where
  "message_result_labels = [''aggregated'', ''duplicate'', ''ignored'', ''dlq'', ''error'']"
definition retry_operation_labels :: "string list" where
  "retry_operation_labels = [''mysql'', ''offset_commit'', ''dlq_publish'']"
definition dlq_result_labels :: "string list" where
  "dlq_result_labels = [''success'', ''failure'']"

definition render_labelled :: "string \<Rightarrow> string \<Rightarrow> string \<Rightarrow> string list \<Rightarrow> u64 list \<Rightarrow> string" where
  "render_labelled name help key labels cells =
     metric_head name help ''counter'' @
     concat (map (\<lambda>i. sample1 name key (labels ! i) (cells ! i)) [0..<length labels])"

definition render_consumer_metrics :: "consumer_metrics \<Rightarrow> string" where
  "render_consumer_metrics m =
     render_labelled ''haohttp_shortlink_access_consumer_messages_total'' ''Access event consumer results.''
       ''result'' message_result_labels (message_counters m) @
     render_labelled ''haohttp_shortlink_access_consumer_retries_total'' ''Access event consumer retries.''
       ''operation'' retry_operation_labels (retry_counters m) @
     render_labelled ''haohttp_shortlink_access_consumer_dlq_total'' ''Access event DLQ delivery results.''
       ''result'' dlq_result_labels (dlq_counters m) @
     metric_head ''haohttp_shortlink_access_consumer_lag'' ''Uncommitted access events by partition.'' ''gauge'' @
     concat (map (\<lambda>(p, l). ''haohttp_shortlink_access_consumer_lag{partition='' @ quoted (to_string_int p) @ ''} '' @
       to_string_int l @ nl) (lag_of m)) @
     metric_head ''haohttp_shortlink_access_consumer_last_success_unixtime''
       ''Last successfully committed event time.'' ''gauge'' @
     ''haohttp_shortlink_access_consumer_last_success_unixtime '' @ to_string_int (last_success m) @ nl"

section \<open>The observability pages\<close>

definition status_body :: "string \<Rightarrow> string \<Rightarrow> string" where
  "status_body k v = ''{'' @ quoted k @ '':'' @ quoted v @ ''}''"

definition observability_response :: "int \<Rightarrow> string \<Rightarrow> string \<Rightarrow> string \<Rightarrow> string" where
  "observability_response status text_of content_type_of body =
     ''HTTP/1.1 '' @ to_string_int status @ '' '' @ text_of @ crlf @
     ''Content-Type: '' @ content_type_of @ crlf @
     ''Content-Length: '' @ to_string_int (int (length body)) @ crlf @
     ''Connection: close'' @ crlf @ crlf @ body"

text \<open>
  The send loop: the \<open>i\<close>-th call accepts \<open>accepts i n\<close> of \<open>n\<close> bytes, or fails with a result that
  is not positive. The bytes that reached the socket are the value; a result above \<open>n\<close> is impossible.
\<close>

function send_loop :: "(nat \<Rightarrow> nat \<Rightarrow> int) \<Rightarrow> nat \<Rightarrow> string \<Rightarrow> string" where
  "send_loop accepts i s =
     (if s = [] then []
      else (let n = accepts i (length s)
            in if n \<le> 0 then [] else take (nat n) s @ send_loop accepts (Suc i) (drop (nat n) s)))"
  by pat_completeness auto
termination
  by (relation "measure (\<lambda>(f, i, s). length s)") auto

declare send_loop.simps [simp del]

definition handle_connection :: "string \<Rightarrow> consumer_metrics \<Rightarrow> string option" where
  "handle_connection received m =
     (if received = [] then None
      else if starts_with ''GET /metrics '' received
      then Some (observability_response 200 ''OK'' ''text/plain; version=0.0.4; charset=utf-8'' (render_consumer_metrics m))
      else if starts_with ''GET /health '' received
      then (let up = consumer_healthy m
            in Some (observability_response (if up then 200 else 503) (if up then ''OK'' else ''Service Unavailable'')
                 ''application/json; charset=utf-8'' (if up then status_body ''status'' ''up'' else status_body ''status'' ''starting'')))
      else Some (observability_response 404 ''Not Found'' ''application/json; charset=utf-8'' (status_body ''error'' ''not_found'')))"

section \<open>Lemmas\<close>

definition consumer_metrics_ok :: "consumer_metrics \<Rightarrow> bool" where
  "consumer_metrics_ok m \<longleftrightarrow>
     length (message_counters m) = 5 \<and> length (retry_counters m) = 3 \<and> length (dlq_counters m) = 2 \<and> omap_ok (lag_of m)"

lemmas consumer_record_defs = record_message_def record_retry_def record_dlq_def set_lag_def replace_lag_def
  record_success_def set_healthy_def

lemma consumer_metrics_ok_ops [simp]:
  "consumer_metrics_ok init_consumer_metrics"
  "consumer_metrics_ok (record_message r m) = consumer_metrics_ok m"
  "consumer_metrics_ok (record_retry y m) = consumer_metrics_ok m"
  "consumer_metrics_ok (record_dlq d m) = consumer_metrics_ok m"
  "consumer_metrics_ok (record_success t m) = consumer_metrics_ok m"
  "consumer_metrics_ok (set_healthy h m) = consumer_metrics_ok m"
  by (simp_all add: consumer_metrics_ok_def consumer_record_defs init_consumer_metrics_def)

lemma set_lag_ok [simp]: "consumer_metrics_ok m \<Longrightarrow> consumer_metrics_ok (set_lag p l m)"
  by (simp add: consumer_metrics_ok_def set_lag_def omap_ok_put)

text \<open>What a scrape reads for one result.\<close>

definition message_count :: "consumer_metrics \<Rightarrow> message_result \<Rightarrow> u64" where
  "message_count m r = message_counters m ! message_result_index r"

lemma message_index_less: "message_result_index r < 5"
  by (cases r) simp_all

lemma message_index_inj: "message_result_index r = message_result_index r' \<longleftrightarrow> r = r'"
  by (cases r; cases r') simp_all

lemma message_count_record:
  "consumer_metrics_ok m \<Longrightarrow> message_count (record_message r m) r' = message_count m r' + (if r = r' then 1 else 0)"
  by (simp add: message_count_def record_message_def consumer_metrics_ok_def nth_fetch_add_one
      message_index_less message_index_inj)

lemma message_count_others [simp]:
  "message_count (record_retry y m) r = message_count m r"
  "message_count (record_dlq d m) r = message_count m r"
  "message_count (set_lag p l m) r = message_count m r"
  "message_count (replace_lag ls m) r = message_count m r"
  "message_count (record_success t m) r = message_count m r"
  "message_count (set_healthy h m) r = message_count m r"
  by (simp_all add: message_count_def consumer_record_defs)

text \<open>The send loop delivers the response up to the first failure, in order.\<close>

lemma send_loop_prefix: "\<exists>k. send_loop accepts i s = take k s"
proof (induction accepts i s rule: send_loop.induct)
  case (1 accepts i s)
  let ?n = "accepts i (length s)"
  show ?case
  proof (cases "s = [] \<or> ?n \<le> 0")
    case True
    then show ?thesis by (intro exI [of _ 0]) (auto simp: send_loop.simps [of accepts i s] Let_def)
  next
    case False
    then obtain k where "send_loop accepts (Suc i) (drop (nat ?n) s) = take k (drop (nat ?n) s)" using 1 by auto
    then show ?thesis
      using False by (intro exI [of _ "nat ?n + k"]) (simp add: send_loop.simps [of accepts i s] Let_def take_add)
  qed
qed

lemma send_loop_all:
  "(\<And>j n. 0 < n \<Longrightarrow> 0 < accepts j n) \<Longrightarrow> send_loop accepts i s = s"
proof (induction accepts i s rule: send_loop.induct)
  case (1 accepts i s)
  show ?case
  proof (cases "s = []")
    case False
    then have "\<not> accepts i (length s) \<le> 0" using 1(2) [of "length s" i] by simp
    then show ?thesis using 1(1) [OF False refl] 1(2) False by (subst send_loop.simps) (simp add: Let_def)
  qed (simp add: send_loop.simps)
qed

end
