(* ===== verification/KafkaClient.thy ===== *)
theory KafkaClient
  imports HSL_Prelude
begin

text \<open>
  The Kafka client library (\<open>librdkafka\<close>), which is not part of the repository, as parameters of the
  model: a producer that the server and the dead-letter publisher use, and the shared loop that
  hands settings to it. Error codes are integers as in the C interface, \<open>0\<close> for success.
\<close>

section \<open>Error codes\<close>

definition kafka_ok :: int where
  "kafka_ok = 0"

definition kafka_queue_full :: int where
  "kafka_queue_full = - 184"

definition kafka_partition_eof :: int where
  "kafka_partition_eof = - 191"

section \<open>Producers\<close>

text \<open>
  The callbacks a call of \<open>rd_kafka_poll\<close> or \<open>rd_kafka_flush\<close> runs: the report of one message with
  its error code, and an error of the client.
\<close>

datatype kafka_callback = Delivery_report int | Client_error int "string option"

record 'k kafka_producer =
  refused_setting :: "string \<Rightarrow> string \<Rightarrow> string option"
  new_producer :: "(string \<times> string) list \<Rightarrow> string + 'k"
  produce :: "string \<Rightarrow> string \<Rightarrow> string \<Rightarrow> int option \<Rightarrow> 'k \<Rightarrow> int \<times> 'k"
  poll_producer :: "int \<Rightarrow> 'k \<Rightarrow> kafka_callback list \<times> 'k"
  flush_producer :: "int \<Rightarrow> 'k \<Rightarrow> int \<times> kafka_callback list \<times> 'k"
  purge_producer :: "'k \<Rightarrow> 'k"
  outq_len :: "'k \<Rightarrow> int"
  error_text :: "int \<Rightarrow> string"

text \<open>The error codes of the delivery reports among the callbacks, in order.\<close>

fun reports :: "kafka_callback list \<Rightarrow> int list" where
  "reports [] = []"
| "reports (Delivery_report err # cs) = err # reports cs"
| "reports (Client_error err reason # cs) = reports cs"

section \<open>Settings\<close>

text \<open>\<open>setConfig\<close>, one call after another; the first refusal throws. \<open>what\<close> is the start of its message.\<close>

definition set_config :: "(string \<Rightarrow> string \<Rightarrow> string option) \<Rightarrow> string \<Rightarrow> string \<times> string \<Rightarrow> exn option" where
  "set_config refused what kv =
     (case kv of (k, v) \<Rightarrow>
        (case refused k v of None \<Rightarrow> None | Some err \<Rightarrow> Some (Runtime_error (what @ k @ '': '' @ err))))"

fun set_all_config :: "(string \<Rightarrow> string \<Rightarrow> string option) \<Rightarrow> string \<Rightarrow> (string \<times> string) list \<Rightarrow> exn option" where
  "set_all_config refused what [] = None"
| "set_all_config refused what (kv # kvs) =
     (case set_config refused what kv of Some e \<Rightarrow> Some e | None \<Rightarrow> set_all_config refused what kvs)"

lemma set_all_config_none:
  "set_all_config refused what kvs = None \<longleftrightarrow> (\<forall>(k, v)\<in>set kvs. refused k v = None)"
  by (induction kvs) (auto simp: set_config_def split: option.splits)

text \<open>\<open>shouldLog\<close>: the first five failures, then every thousandth.\<close>

definition should_log :: "u64 \<Rightarrow> bool" where
  "should_log n \<longleftrightarrow> n \<le> 5 \<or> n mod 1000 = 0"

end
