(* ===== verification/DeadLetters.thy ===== *)
theory DeadLetters
  imports AccessEvents KafkaClient
begin

text \<open>
  \<open>KafkaDeadLetterPublisher.h/.cpp\<close>: the record of a message the consumer cannot process, its JSON
  form with the original key and payload in base64, and the publisher that waits for the delivery
  report of each record.
\<close>

section \<open>Base64\<close>

definition base64_chars :: string where
  "base64_chars = ''ABCDEFGHIJKLMNOPQRSTUVWXYZabcdefghijklmnopqrstuvwxyz0123456789+/''"

definition char_word :: "char \<Rightarrow> 32 word" where
  "char_word c = of_nat (of_char c)"

definition base64_value_of :: "char \<Rightarrow> char \<Rightarrow> char \<Rightarrow> 32 word" where
  "base64_value_of a b c = push_bit 16 (char_word a) OR push_bit 8 (char_word b) OR char_word c"

definition base64_digit :: "nat \<Rightarrow> 32 word \<Rightarrow> char" where
  "base64_digit shift v = base64_chars ! unat (drop_bit shift v AND 63)"

text \<open>The loop over groups of three bytes; missing bytes are zero and padded.\<close>

fun base64_encode :: "string \<Rightarrow> string" where
  "base64_encode [] = []"
| "base64_encode [a] =
     (let v = base64_value_of a (CHR 0x00) (CHR 0x00) in [base64_digit 18 v, base64_digit 12 v, CHR ''='', CHR ''=''])"
| "base64_encode [a, b] =
     (let v = base64_value_of a b (CHR 0x00) in [base64_digit 18 v, base64_digit 12 v, base64_digit 6 v, CHR ''=''])"
| "base64_encode (a # b # c # s) =
     (let v = base64_value_of a b c
      in [base64_digit 18 v, base64_digit 12 v, base64_digit 6 v, base64_digit 0 v] @ base64_encode s)"

definition base64_encode_prefix :: "string \<Rightarrow> nat \<Rightarrow> string" where
  "base64_encode_prefix s max_bytes = base64_encode (take (min (length s) max_bytes) s)"

section \<open>Records\<close>

datatype dead_letter_reason =
    Dead_invalid_json
  | Dead_unsupported_schema
  | Dead_unsupported_event_type
  | Dead_invalid_contract
  | Dead_key_code_mismatch
  | Dead_orphan_short_link

record dead_letter =
  source_topic :: string
  source_partition :: int
  source_offset :: int
  dead_key :: string
  dead_payload :: string
  dead_reason :: dead_letter_reason

fun dead_reason_to_string :: "dead_letter_reason \<Rightarrow> string" where
  "dead_reason_to_string Dead_invalid_json = ''invalid_json''"
| "dead_reason_to_string Dead_unsupported_schema = ''unsupported_schema''"
| "dead_reason_to_string Dead_unsupported_event_type = ''unsupported_event_type''"
| "dead_reason_to_string Dead_invalid_contract = ''invalid_contract''"
| "dead_reason_to_string Dead_key_code_mismatch = ''key_code_mismatch''"
| "dead_reason_to_string Dead_orphan_short_link = ''orphan_short_link''"

definition max_encoded_source_bytes :: nat where
  "max_encoded_source_bytes = 64 * 1024"

definition dead_letter_payload :: "dead_letter \<Rightarrow> int \<Rightarrow> json" where
  "dead_letter_payload r failed_at =
     (let limit = max_encoded_source_bytes
      in J_object
        [(''schema_version'', J_int 1),
         (''event_type'', J_string ''short_link_access_dead_letter''),
         (''failed_at_ms'', J_int failed_at),
         (''reason'', J_string (dead_reason_to_string (dead_reason r))),
         (''source_topic'', J_string (source_topic r)),
         (''source_partition'', J_int (source_partition r)),
         (''source_offset'', J_int (source_offset r)),
         (''original_key_base64'', J_string (base64_encode_prefix (dead_key r) limit)),
         (''original_key_size'', J_int (int (length (dead_key r)))),
         (''original_key_truncated'', J_bool (length (dead_key r) > limit)),
         (''original_payload_base64'', J_string (base64_encode_prefix (dead_payload r) limit)),
         (''original_payload_size'', J_int (int (length (dead_payload r)))),
         (''original_payload_truncated'', J_bool (length (dead_payload r) > limit))])"

definition serialize_dead_letter :: "json_lib \<Rightarrow> dead_letter \<Rightarrow> int \<Rightarrow> exn + string" where
  "serialize_dead_letter L r failed_at =
     (if source_topic r = [] \<or> source_partition r < 0 \<or> source_offset r < 0 \<or> failed_at \<le> 0
      then Inl (Invalid_argument ''invalid dead-letter source record'')
      else json_dump L (dead_letter_payload r failed_at))"

section \<open>The publisher\<close>

record dead_letter_config =
  dlq_servers :: string
  dlq_topic_name :: string
  dlq_client :: string
  message_timeout :: int
  delivery_timeout :: int

record 'k dead_letter_state =
  dlq_producer :: 'k
  delivery_observed :: bool
  delivery_error :: int

definition dead_letter_settings :: "dead_letter_config \<Rightarrow> (string \<times> string) list" where
  "dead_letter_settings cfg =
     [(''bootstrap.servers'', dlq_servers cfg), (''client.id'', dlq_client cfg), (''enable.idempotence'', ''true''),
      (''acks'', ''all''), (''message.timeout.ms'', to_string_int (message_timeout cfg))]"

definition make_dead_letter_publisher :: "'k kafka_producer \<Rightarrow> dead_letter_config \<Rightarrow> exn + 'k dead_letter_state" where
  "make_dead_letter_publisher K cfg =
     (if dlq_servers cfg = [] \<or> dlq_topic_name cfg = [] \<or> dlq_client cfg = [] \<or>
         message_timeout cfg \<le> 0 \<or> delivery_timeout cfg \<le> 0
      then Inl (Invalid_argument ''invalid Kafka DLQ publisher config'')
      else case set_all_config (refused_setting K) ''invalid Kafka DLQ config '' (dead_letter_settings cfg) of
        Some e \<Rightarrow> Inl e
      | None \<Rightarrow>
          (case new_producer K (dead_letter_settings cfg) of
             Inl err \<Rightarrow> Inl (Runtime_error (''failed to create Kafka DLQ producer: '' @ err))
           | Inr k \<Rightarrow> Inr \<lparr>dlq_producer = k, delivery_observed = False, delivery_error = kafka_ok\<rparr>))"

text \<open>Only delivery reports have a callback here.\<close>

fun delivery_callback :: "kafka_callback \<Rightarrow> 'k dead_letter_state \<Rightarrow> 'k dead_letter_state" where
  "delivery_callback (Delivery_report err) d = d\<lparr>delivery_error := err, delivery_observed := True\<rparr>"
| "delivery_callback (Client_error err reason) d = d"

definition publish_dead_letter ::
  "'k kafka_producer \<Rightarrow> json_lib \<Rightarrow> dead_letter_config \<Rightarrow> int \<Rightarrow> dead_letter \<Rightarrow> 'k dead_letter_state \<Rightarrow> bool \<times> 'k dead_letter_state" where
  "publish_dead_letter K L cfg now r d =
     (case serialize_dead_letter L r now of
        Inl e \<Rightarrow> (False, d)
      | Inr payload \<Rightarrow>
          (let d1 = d\<lparr>delivery_observed := False, delivery_error := kafka_ok\<rparr>
           in case produce K (dlq_topic_name cfg) (dead_key r) payload None (dlq_producer d1) of
                (err, k) \<Rightarrow>
                  if err \<noteq> kafka_ok then (False, d1\<lparr>dlq_producer := k\<rparr>)
                  else (case flush_producer K (delivery_timeout cfg) k of
                          (flushed, calls, k1) \<Rightarrow>
                            (let d2 = fold delivery_callback calls (d1\<lparr>dlq_producer := k1\<rparr>)
                             in if flushed \<noteq> kafka_ok then (False, d2)
                                else (delivery_observed d2 \<and> delivery_error d2 = kafka_ok, d2)))))"

text \<open>The destructor flushes before the producer is destroyed.\<close>

definition close_dead_letter_publisher :: "'k kafka_producer \<Rightarrow> dead_letter_config \<Rightarrow> 'k dead_letter_state \<Rightarrow> 'k dead_letter_state" where
  "close_dead_letter_publisher K cfg d =
     (case flush_producer K (delivery_timeout cfg) (dlq_producer d) of
        (_, calls, k) \<Rightarrow> fold delivery_callback calls (d\<lparr>dlq_producer := k\<rparr>))"

section \<open>Reading base64\<close>

definition base64_index :: "char \<Rightarrow> nat" where
  "base64_index c = (if c = CHR ''='' then 0 else index_of c base64_chars)"

fun base64_decode :: "string \<Rightarrow> string" where
  "base64_decode (w # x # y # z # s) =
     (let v = base64_index w * 262144 + base64_index x * 4096 + base64_index y * 64 + base64_index z;
          bytes = [char_of (v div 65536), char_of (v div 256 mod 256), char_of (v mod 256)]
      in (if y = CHR ''='' then take 1 bytes else if z = CHR ''='' then take 2 bytes else bytes) @ base64_decode s)"
| "base64_decode _ = []"

section \<open>Lemmas\<close>

lemma base64_alphabet: "length base64_chars = 64" "distinct base64_chars" "CHR ''='' \<notin> set base64_chars"
  by (code_simp, code_simp, code_simp)

lemma base64_nth: "i < 64 \<Longrightarrow> base64_index (base64_chars ! i) = i" "i < 64 \<Longrightarrow> base64_chars ! i \<noteq> CHR ''=''"
proof -
  assume i: "i < 64"
  then have "base64_chars ! i \<in> set base64_chars" using base64_alphabet(1) by simp
  then show ne: "base64_chars ! i \<noteq> CHR ''=''" using base64_alphabet(3) by metis
  show "base64_index (base64_chars ! i) = i"
    using i ne base64_alphabet(1,2) by (simp add: base64_index_def index_of_nth)
qed

lemma or_low:
  fixes a b :: nat
  assumes "b < 2 ^ n"
  shows "push_bit n a OR b = a * 2 ^ n + b"
proof -
  have "b = take_bit n b" using assms by (simp add: take_bit_nat_eq_self)
  moreover have "push_bit n a AND take_bit n b = 0" by (auto simp: bit_eq_iff bit_simps)
  ultimately have "push_bit n a AND b = 0" by simp
  then show ?thesis by (simp add: disjunctive_add_eq_or [symmetric] push_bit_eq_mult mult.commute)
qed

lemma char_less [simp]: "(of_char c :: nat) < 256"
  by (metis of_char_mod_256 mod_less_divisor zero_less_numeral)

lemma base64_value_nat:
  "unat (base64_value_of a b c) = of_char a * 65536 + of_char b * 256 + (of_char c :: nat)"
proof -
  have "base64_value_of a b c = of_nat (push_bit 16 (of_char a) OR (push_bit 8 (of_char b) OR of_char c))"
    by (simp add: base64_value_of_def char_word_def push_bit_of_nat of_nat_or_eq or.assoc)
  moreover have "push_bit 16 (of_char a) OR (push_bit 8 (of_char b) OR of_char c) =
      of_char a * 65536 + of_char b * 256 + (of_char c :: nat)"
  proof -
    have "(of_char b :: nat) * 256 + of_char c < 65536" using char_less [of b] char_less [of c] by linarith
    then show ?thesis using or_low [of "of_char c" 8 "of_char b"] or_low [of "of_char b * 256 + of_char c" 16 "of_char a"] by simp
  qed
  moreover have "of_char a * 65536 + of_char b * 256 + (of_char c :: nat) < 2 ^ LENGTH(32)"
  proof -
    have "of_char a * 65536 + of_char b * 256 + (of_char c :: nat) < 16777216"
      using char_less [of a] char_less [of b] char_less [of c] by linarith
    then show ?thesis by simp
  qed
  ultimately show ?thesis by (simp only: unat_of_nat mod_less)
qed

lemma base64_digit_value:
  "base64_index (base64_digit n v) = unat v div 2 ^ n mod 64" "base64_digit n v \<noteq> CHR ''=''"
proof -
  have "unat (drop_bit n v AND 63) = drop_bit n (unat v) AND 63"
    using unsigned_less [of v, where 'a = nat]
    by (simp add: unsigned_and_eq unsigned_drop_bit_eq take_bit_nat_eq_self)
  also have "\<dots> = unat v div 2 ^ n mod 64"
    using take_bit_eq_mask [of 6 "unat v div 2 ^ n"]
    by (simp add: drop_bit_eq_div mask_eq_exp_minus_1 take_bit_eq_mod)
  finally have v: "unat (drop_bit n v AND 63) = unat v div 2 ^ n mod 64" .
  show "base64_index (base64_digit n v) = unat v div 2 ^ n mod 64" "base64_digit n v \<noteq> CHR ''=''"
    unfolding base64_digit_def v by (rule base64_nth, simp)+
qed

lemma base64_digits_sum:
  fixes v :: nat
  assumes "v < 16777216"
  shows "v div 2 ^ 18 mod 64 * 262144 + v div 2 ^ 12 mod 64 * 4096 + v div 2 ^ 6 mod 64 * 64 + v div 2 ^ 0 mod 64 = v"
proof -
  have top: "v div 262144 < 64" using assms by (simp add: less_mult_imp_div_less)
  moreover have "v div 64 * 64 + v mod 64 = v" "v div 4096 * 64 + v div 64 mod 64 = v div 64"
    "v div 262144 * 64 + v div 4096 mod 64 = v div 4096"
    using div_mult_mod_eq [of v 64] div_mult_mod_eq [of "v div 64" 64] div_mult_mod_eq [of "v div 4096" 64]
    by (simp_all add: div_mult2_eq [symmetric])
  ultimately have "v div 262144 mod 64 * 262144 + v div 4096 mod 64 * 4096 + v div 64 mod 64 * 64 + v mod 64 = v"
    by (simp only: mod_less)
  then show ?thesis using top by simp
qed

lemma byte_parts:
  fixes a b c :: nat
  assumes "b < 256" and "c < 256"
  shows "(a * 65536 + b * 256 + c) div 65536 = a" "(a * 65536 + b * 256 + c) div 256 mod 256 = b"
    "(a * 65536 + b * 256 + c) mod 256 = c"
proof -
  show "(a * 65536 + b * 256 + c) div 65536 = a" using assms by (intro div_nat_eqI) simp_all
  have e: "a * 65536 + b * 256 + c = (a * 256 + b) * 256 + c" by simp
  have "(a * 65536 + b * 256 + c) div 256 = a * 256 + b" using assms unfolding e by (intro div_nat_eqI) simp_all
  then show "(a * 65536 + b * 256 + c) div 256 mod 256 = b" using assms by simp
  show "(a * 65536 + b * 256 + c) mod 256 = c" using assms unfolding e by (simp only: mod_mult_self3 mod_less)
qed

text \<open>Three bytes come back from the four digits of their group.\<close>

lemma base64_group:
  "unat (base64_value_of a b c) < 16777216"
  "char_of (unat (base64_value_of a b c) div 65536) = a"
  "char_of (unat (base64_value_of a b c) div 256 mod 256) = b"
  "char_of (unat (base64_value_of a b c) mod 256) = c"
proof -
  have l: "(of_char a :: nat) < 256" "(of_char b :: nat) < 256" "(of_char c :: nat) < 256" by simp_all
  show "unat (base64_value_of a b c) < 16777216" unfolding base64_value_nat using l by linarith
  show "char_of (unat (base64_value_of a b c) div 65536) = a"
    "char_of (unat (base64_value_of a b c) div 256 mod 256) = b"
    "char_of (unat (base64_value_of a b c) mod 256) = c"
    unfolding base64_value_nat using byte_parts [OF l(2,3)] by simp_all
qed

lemma base64_index_pad [simp]: "base64_index CHR ''='' = 0"
  by (simp add: base64_index_def)

lemma base64_decode_group:
  fixes a b c z :: char
  defines "v \<equiv> base64_value_of a b c"
  assumes "base64_index z = unat v mod 64"
  shows "base64_decode (base64_digit 18 v # base64_digit 12 v # base64_digit 6 v # z # s) =
     (if z = CHR ''='' then [a, b] else [a, b, c]) @ base64_decode s"
  using assms(2) base64_digits_sum [OF base64_group(1), of a b c] base64_group [of a b c]
  by (simp add: base64_digit_value Let_def v_def)

lemma base64_decode_short:
  fixes a :: char
  defines "v \<equiv> base64_value_of a (CHR 0x00) (CHR 0x00)"
  shows "base64_decode [base64_digit 18 v, base64_digit 12 v, CHR ''='', CHR ''=''] = [a]"
proof -
  have "unat v = of_char a * 1024 * 64" by (simp add: v_def base64_value_nat)
  then have "unat v div 64 mod 64 = 0" "unat v mod 64 = 0" by (simp_all only: nonzero_mult_div_cancel_right mod_mult_self2_is_0) simp_all
  then show ?thesis
  using base64_digits_sum [OF base64_group(1), of a "CHR 0x00" "CHR 0x00"] base64_group [of a "CHR 0x00" "CHR 0x00"]
  by (simp add: base64_digit_value Let_def v_def)
qed

lemma base64_round_trip: "base64_decode (base64_encode s) = s"
proof (induction s rule: base64_encode.induct)
  case (2 a)
  then show ?case by (simp add: Let_def base64_decode_short del: base64_decode.simps)
next
  case (3 a b)
  have "unat (base64_value_of a b (CHR 0x00)) mod 64 = 0" by (simp add: base64_value_nat)
  then show ?case using base64_decode_group [of "CHR ''=''" a b "CHR 0x00" "[]"]
    by (simp add: Let_def del: base64_decode.simps(1))
next
  case (4 a b c s)
  have "base64_index (base64_digit 0 v) = unat v mod 64" for v by (simp add: base64_digit_value)
  then show ?case using base64_decode_group [of "base64_digit 0 (base64_value_of a b c)" a b c "base64_encode s"] 4
    by (simp add: Let_def base64_digit_value del: base64_decode.simps(1))
qed simp

lemma fold_callbacks:
  "fold delivery_callback cs d =
     (if reports cs = [] then d else d\<lparr>delivery_error := last (reports cs), delivery_observed := True\<rparr>)"
  by (induction cs arbitrary: d rule: reports.induct) auto

text \<open>
  A record is reported as published only when the client accepted it, the flush succeeded and the
  last report of the flush was a success.
\<close>

lemma published_dead_letter:
  assumes "publish_dead_letter K L cfg now r d = (True, d')"
  shows "\<exists>payload k calls. serialize_dead_letter L r now = Inr payload \<and>
    produce K (dlq_topic_name cfg) (dead_key r) payload None (dlq_producer d) = (kafka_ok, k) \<and>
    flush_producer K (delivery_timeout cfg) k = (kafka_ok, calls, dlq_producer d') \<and>
    reports calls \<noteq> [] \<and> last (reports calls) = kafka_ok"
  using assms
  by (auto simp: publish_dead_letter_def Let_def fold_callbacks split: sum.splits prod.splits if_splits)

section \<open>Properties\<close>

text \<open>C33: dead letters can be replayed. What the publisher writes for a record parses to an object that
  names the source position and the reason, whose base64 fields decode to the original key and
  payload (their first 64 KiB), and whose flags say whether anything was cut off.\<close>

theorem dead_letter_replayable:
  assumes "json_laws L" and "serialize_dead_letter L r now = Inr s"
  shows "\<exists>m k p. json_parse L s = Some (J_object m) \<and>
     map_of m ''source_topic'' = Some (J_string (source_topic r)) \<and>
     map_of m ''source_partition'' = Some (J_int (source_partition r)) \<and>
     map_of m ''source_offset'' = Some (J_int (source_offset r)) \<and>
     map_of m ''reason'' = Some (J_string (dead_reason_to_string (dead_reason r))) \<and>
     map_of m ''original_key_base64'' = Some (J_string k) \<and> base64_decode k = take 65536 (dead_key r) \<and>
     map_of m ''original_payload_base64'' = Some (J_string p) \<and> base64_decode p = take 65536 (dead_payload r) \<and>
     map_of m ''original_key_truncated'' = Some (J_bool (base64_decode k \<noteq> dead_key r)) \<and>
     map_of m ''original_payload_truncated'' = Some (J_bool (base64_decode p \<noteq> dead_payload r))"
proof -
  obtain m where m: "dead_letter_payload r now = J_object m" "distinct (map fst m)" "list_all scalar (map snd m)"
    by (simp add: dead_letter_payload_def Let_def)
  have "json_dump L (J_object m) = Inr s"
    using assms(2) m(1) by (simp add: serialize_dead_letter_def split: if_splits)
  then obtain m' where m': "json_parse L s = Some (J_object m')" "map_of m' = map_of m"
    using json_laws_parse [OF assms(1) m(2,3)] by blast
  have dec: "base64_decode (base64_encode_prefix u max_encoded_source_bytes) = take 65536 u" for u
    by (simp add: base64_encode_prefix_def base64_round_trip max_encoded_source_bytes_def min_def)
  have "map_of m = map_of (case dead_letter_payload r now of J_object x \<Rightarrow> x)" using m(1) by simp
  then show ?thesis
    using m'
    by - (rule exI [of _ m'], rule exI [of _ "base64_encode_prefix (dead_key r) max_encoded_source_bytes"],
        rule exI [of _ "base64_encode_prefix (dead_payload r) max_encoded_source_bytes"],
        simp add: dead_letter_payload_def Let_def dec, simp add: max_encoded_source_bytes_def not_le)
qed

definition sample_dead_letter :: dead_letter where
  "sample_dead_letter = \<lparr>source_topic = ''events'', source_partition = 0, source_offset = 7, dead_key = ''abcd'',
     dead_payload = ''{broken'', dead_reason = Dead_invalid_json\<rparr>"

lemma dead_letter_replayable_witness:
  "\<exists>m p. json_parse (one_document (dead_letter_payload sample_dead_letter 5) ''x'') ''x'' = Some (J_object m) \<and>
     map_of m ''original_payload_base64'' = Some (J_string p) \<and> base64_decode p = ''{broken''"
proof -
  have "serialize_dead_letter (one_document (dead_letter_payload sample_dead_letter 5) ''x'') sample_dead_letter 5 = Inr ''x''"
    by (simp add: serialize_dead_letter_def sample_dead_letter_def one_document_def)
  moreover have "json_laws (one_document (dead_letter_payload sample_dead_letter 5) ''x'')"
    by (simp add: dead_letter_payload_def Let_def one_document_laws)
  ultimately show ?thesis
    using dead_letter_replayable [of "one_document (dead_letter_payload sample_dead_letter 5) ''x''" sample_dead_letter 5 "''x''"]
    by (auto simp: sample_dead_letter_def)
qed

end
