(* ===== verification/Database.thy ===== *)
theory Database
  imports HSL_Prelude
begin

text \<open>
  \<open>DbConnection.h/.cpp\<close> and \<open>DbConnectionPool.h/.cpp\<close>. The MySQL connector and the server behind it
  are not part of the repository: they are the parameter \<open>sql_driver\<close>, whose operations act on a
  state of type \<open>'d\<close>, with \<open>'c\<close> the connections, \<open>'u\<close> and \<open>'q\<close> the updating statements and the
  queries of a component with their arguments. A failing call gives the message of the connector's
  exception. A row is what its getters return.
\<close>

section \<open>The connector\<close>

record connect_options =
  option_host :: string
  option_user :: string
  option_password :: string
  option_schema :: string
  option_connect_timeout :: int
  option_reconnect :: bool
  option_io_timeout :: "int option"

datatype raw_sql = Start_transaction | Commit_transaction | Rollback_transaction | Set_names_utf8mb4 | Disable_multi_statements

record sql_row =
  get_string :: "string \<Rightarrow> exn + string"
  get_uint64 :: "string \<Rightarrow> exn + u64"
  get_int64 :: "string \<Rightarrow> exn + int"
  is_null :: "string \<Rightarrow> bool"

record ('c, 'u, 'q, 'd) sql_driver =
  driver_connect :: "connect_options \<Rightarrow> 'd \<Rightarrow> (string + 'c) \<times> 'd"
  driver_raw :: "'c \<Rightarrow> raw_sql \<Rightarrow> 'd \<Rightarrow> (string + int) \<times> 'd"
  driver_update :: "'c \<Rightarrow> 'u \<Rightarrow> 'd \<Rightarrow> (string + int) \<times> 'd"
  driver_query :: "'c \<Rightarrow> 'q \<Rightarrow> 'd \<Rightarrow> (string + sql_row list) \<times> 'd"
  driver_select_one :: "'c \<Rightarrow> 'd \<Rightarrow> (string + bool) \<times> 'd"
  driver_reconnect :: "'c \<Rightarrow> 'd \<Rightarrow> (string + unit) \<times> 'd"

text \<open>An operation on the database: it may throw, and it changes the state in either case.\<close>

type_synonym ('d, 'a) db_op = "'d \<Rightarrow> (exn + 'a) \<times> 'd"

definition db_return :: "'a \<Rightarrow> ('d, 'a) db_op" where
  "db_return x d = (Inr x, d)"

definition db_throw :: "exn \<Rightarrow> ('d, 'a) db_op" where
  "db_throw e d = (Inl e, d)"

definition db_bind :: "('d, 'a) db_op \<Rightarrow> ('a \<Rightarrow> ('d, 'b) db_op) \<Rightarrow> ('d, 'b) db_op" where
  "db_bind m f d = (case m d of (Inl e, d1) \<Rightarrow> (Inl e, d1) | (Inr x, d1) \<Rightarrow> f x d1)"

definition db_lift :: "exn + 'a \<Rightarrow> ('d, 'a) db_op" where
  "db_lift r d = (r, d)"

text \<open>\<open>catch (sql::SQLException)\<close> of every method: the exception becomes a \<open>DbException\<close>.\<close>

definition as_db_exception :: "('d \<Rightarrow> (string + 'a) \<times> 'd) \<Rightarrow> ('d, 'a) db_op" where
  "as_db_exception f d = (case f d of (Inl m, d1) \<Rightarrow> (Inl (Db_exception m), d1) | (Inr x, d1) \<Rightarrow> (Inr x, d1))"

section \<open>Connections\<close>

definition open_options :: "string \<Rightarrow> string \<Rightarrow> string \<Rightarrow> string \<Rightarrow> int \<Rightarrow> bool \<Rightarrow> connect_options" where
  "open_options host user password database timeout io =
     \<lparr>option_host = host, option_user = user, option_password = password, option_schema = database,
      option_connect_timeout = timeout, option_reconnect = True, option_io_timeout = (if io then Some timeout else None)\<rparr>"

definition new_db_connection ::
  "('c, 'u, 'q, 'd) sql_driver \<Rightarrow> string \<Rightarrow> string \<Rightarrow> string \<Rightarrow> string \<Rightarrow> ('d, 'c) db_op" where
  "new_db_connection D host user password database =
     db_bind (as_db_exception (driver_connect D (open_options host user password database 10 False))) (\<lambda>c.
     db_bind (as_db_exception (driver_raw D c Disable_multi_statements)) (\<lambda>_.
     db_bind (as_db_exception (driver_raw D c Set_names_utf8mb4)) (\<lambda>_. db_return c)))"

definition execute_raw_update :: "('c, 'u, 'q, 'd) sql_driver \<Rightarrow> 'c \<Rightarrow> raw_sql \<Rightarrow> ('d, int) db_op" where
  "execute_raw_update D c s = as_db_exception (driver_raw D c s)"

definition execute_update :: "('c, 'u, 'q, 'd) sql_driver \<Rightarrow> 'c \<Rightarrow> 'u \<Rightarrow> ('d, int) db_op" where
  "execute_update D c u = as_db_exception (driver_update D c u)"

definition execute_query :: "('c, 'u, 'q, 'd) sql_driver \<Rightarrow> 'c \<Rightarrow> 'q \<Rightarrow> ('d, sql_row list) db_op" where
  "execute_query D c q = as_db_exception (driver_query D c q)"

definition reconnect :: "('c, 'u, 'q, 'd) sql_driver \<Rightarrow> 'c \<Rightarrow> ('d, unit) db_op" where
  "reconnect D c = as_db_exception (driver_reconnect D c)"

definition ping :: "('c, 'u, 'q, 'd) sql_driver \<Rightarrow> 'c \<Rightarrow> 'd \<Rightarrow> bool \<times> 'd" where
  "ping D c d = (case driver_select_one D c d of (Inl m, d1) \<Rightarrow> (False, d1) | (Inr b, d1) \<Rightarrow> (b, d1))"

definition probe ::
  "('c, 'u, 'q, 'd) sql_driver \<Rightarrow> string \<Rightarrow> string \<Rightarrow> string \<Rightarrow> string \<Rightarrow> int \<Rightarrow> 'd \<Rightarrow> bool \<times> 'd" where
  "probe D host user password database timeout d =
     (case driver_connect D (open_options host user password database timeout True) d of
        (Inl m, d1) \<Rightarrow> (False, d1)
      | (Inr c, d1) \<Rightarrow> ping D c d1)"

section \<open>The pool\<close>

record 'c pool =
  pool_host :: string
  pool_user :: string
  pool_password :: string
  pool_database :: string
  free_connections :: "'c list"
  pool_initialized :: bool

definition empty_pool :: "'c pool" where
  "empty_pool = \<lparr>pool_host = [], pool_user = [], pool_password = [], pool_database = [], free_connections = [], pool_initialized = False\<rparr>"

definition create_connection :: "('c, 'u, 'q, 'd) sql_driver \<Rightarrow> 'c pool \<Rightarrow> ('d, 'c) db_op" where
  "create_connection D p = new_db_connection D (pool_host p) (pool_user p) (pool_password p) (pool_database p)"

text \<open>The loop of \<open>init\<close>; a connection that cannot be made ends it with an exception.\<close>

fun create_connections :: "nat \<Rightarrow> ('c, 'u, 'q, 'd) sql_driver \<Rightarrow> 'c pool \<Rightarrow> 'd \<Rightarrow> exn option \<times> 'c pool \<times> 'd" where
  "create_connections 0 D p d = (None, p, d)"
| "create_connections (Suc n) D p d =
     (case create_connection D p d of
        (Inl e, d1) \<Rightarrow> (Some e, p, d1)
      | (Inr c, d1) \<Rightarrow> create_connections n D (p\<lparr>free_connections := free_connections p @ [c]\<rparr>) d1)"

definition init_pool ::
  "('c, 'u, 'q, 'd) sql_driver \<Rightarrow> string \<Rightarrow> string \<Rightarrow> string \<Rightarrow> string \<Rightarrow> nat \<Rightarrow> 'c pool \<Rightarrow> 'd \<Rightarrow> exn option \<times> 'c pool \<times> 'd" where
  "init_pool D host user password database size_of p d =
     (if pool_initialized p then (None, p, d)
      else (case create_connections size_of D
                   (p\<lparr>pool_host := host, pool_user := user, pool_password := password, pool_database := database\<rparr>) d of
              (Some e, p1, d1) \<Rightarrow> (Some e, p1, d1)
            | (None, p1, d1) \<Rightarrow> (None, p1\<lparr>pool_initialized := True\<rparr>, d1)))"

definition release_connection :: "'c \<Rightarrow> 'c pool \<Rightarrow> 'c pool" where
  "release_connection c p = p\<lparr>free_connections := free_connections p @ [c]\<rparr>"

text \<open>
  \<open>getConnection\<close>; \<open>None\<close> when the call has to wait for another thread. The check of the connection
  (\<open>check_out\<close>) happens outside the lock; on failure the connection goes back before the exception leaves.
\<close>

definition check_out :: "('c, 'u, 'q, 'd) sql_driver \<Rightarrow> 'c \<Rightarrow> 'c pool \<Rightarrow> 'd \<Rightarrow> (exn + 'c) \<times> 'c pool \<times> 'd" where
  "check_out D c p d =
     (case ping D c d of
        (True, d1) \<Rightarrow> (Inr c, p, d1)
      | (False, d1) \<Rightarrow>
          (case reconnect D c d1 of
             (Inl e, d2) \<Rightarrow> (Inl e, release_connection c p, d2)
           | (Inr _, d2) \<Rightarrow> (Inr c, p, d2)))"

definition get_connection ::
  "('c, 'u, 'q, 'd) sql_driver \<Rightarrow> 'c pool \<Rightarrow> 'd \<Rightarrow> ((exn + 'c) \<times> 'c pool \<times> 'd) option" where
  "get_connection D p d =
     (case free_connections p of
        [] \<Rightarrow> if \<not> pool_initialized p then Some (Inl (Db_exception ''Connection pool not initialized''), p, d) else None
      | c # cs \<Rightarrow> Some (check_out D c (p\<lparr>free_connections := cs\<rparr>) d))"

text \<open>\<open>waited\<close> says whether a connection became free in time when there was none.\<close>

definition is_healthy :: "('c, 'u, 'q, 'd) sql_driver \<Rightarrow> bool \<Rightarrow> int \<Rightarrow> 'c pool \<Rightarrow> 'd \<Rightarrow> bool \<times> 'd" where
  "is_healthy D waited timeout p d =
     (if \<not> pool_initialized p then (False, d)
      else if free_connections p = [] \<and> \<not> waited then (False, d)
      else probe D (pool_host p) (pool_user p) (pool_password p) (pool_database p) timeout d)"

text \<open>One round of \<open>checkConnections\<close> over a copy of the queue; what \<open>reconnect\<close> throws is logged.\<close>

fun check_connections :: "('c, 'u, 'q, 'd) sql_driver \<Rightarrow> 'c list \<Rightarrow> 'd \<Rightarrow> 'd" where
  "check_connections D [] d = d"
| "check_connections D (c # cs) d =
     (case ping D c d of
        (True, d1) \<Rightarrow> check_connections D cs d1
      | (False, d1) \<Rightarrow> (case reconnect D c d1 of (_, d2) \<Rightarrow> check_connections D cs d2))"

text \<open>
  A call that has to wait goes on with the connection another thread returns: \<open>wait\<close> says which
  connection that is and in which state of the pool and the database the caller takes it.
\<close>

type_synonym ('c, 'd) pool_wait = "'c pool \<Rightarrow> 'd \<Rightarrow> 'c \<times> 'c pool \<times> 'd"

definition take_connection ::
  "('c, 'u, 'q, 'd) sql_driver \<Rightarrow> ('c, 'd) pool_wait \<Rightarrow> 'c pool \<Rightarrow> 'd \<Rightarrow> (exn + 'c) \<times> 'c pool \<times> 'd" where
  "take_connection D wait p d =
     (case get_connection D p d of
        Some out \<Rightarrow> out
      | None \<Rightarrow> (case wait p d of (c, p1, d1) \<Rightarrow> check_out D c p1 d1))"

text \<open>
  An operation of a repository: a connection from the pool, which goes back to it whether the
  operation throws or not.
\<close>

definition with_connection ::
  "('c, 'u, 'q, 'd) sql_driver \<Rightarrow> ('c, 'd) pool_wait \<Rightarrow> ('c \<Rightarrow> ('d, 'a) db_op) \<Rightarrow> ('c pool \<times> 'd, 'a) db_op" where
  "with_connection D wait body s =
     (case take_connection D wait (fst s) (snd s) of
        (Inl e, p, d) \<Rightarrow> (Inl e, p, d)
      | (Inr c, p, d) \<Rightarrow> (case body c d of (r, d1) \<Rightarrow> (r, release_connection c p, d1)))"

section \<open>Lemmas\<close>

lemma db_bind_simps [simp]:
  "m d = (Inl e, d1) \<Longrightarrow> db_bind m f d = (Inl e, d1)"
  "m d = (Inr x, d1) \<Longrightarrow> db_bind m f d = f x d1"
  by (simp_all add: db_bind_def)

lemma db_basic [simp]: "db_return x d = (Inr x, d)" "db_throw e d = (Inl e, d)" "db_lift r d = (r, d)"
  by (simp_all add: db_return_def db_throw_def db_lift_def)

lemma as_db_exception_cases:
  "as_db_exception f d = (Inr x, d1) \<longleftrightarrow> f d = (Inr x, d1)"
  "as_db_exception f d = (Inl e, d1) \<longleftrightarrow> (\<exists>m. e = Db_exception m \<and> f d = (Inl m, d1))"
  by (auto simp: as_db_exception_def split: prod.splits sum.splits)

section \<open>Hoare triples with an exceptional postcondition\<close>

definition db_hoare :: "('d \<Rightarrow> bool) \<Rightarrow> ('d, 'a) db_op \<Rightarrow> ('a \<Rightarrow> 'd \<Rightarrow> bool) \<Rightarrow> (exn \<Rightarrow> 'd \<Rightarrow> bool) \<Rightarrow> bool" where
  "db_hoare P m Q E \<longleftrightarrow> (\<forall>d. P d \<longrightarrow> (case m d of (Inr x, d') \<Rightarrow> Q x d' | (Inl e, d') \<Rightarrow> E e d'))"

named_theorems db_rules \<open>rules for triples\<close>

lemma db_hoareI:
  assumes "\<And>d r d'. P d \<Longrightarrow> m d = (r, d') \<Longrightarrow> (case r of Inr x \<Rightarrow> Q x d' | Inl e \<Rightarrow> E e d')"
  shows "db_hoare P m Q E"
  unfolding db_hoare_def
proof (intro allI impI)
  fix d
  assume "P d"
  then show "case m d of (Inr x, d') \<Rightarrow> Q x d' | (Inl e, d') \<Rightarrow> E e d'"
    using assms [of d] by (cases "m d") (auto split: sum.splits)
qed

lemma db_hoareD: "db_hoare P m Q E \<Longrightarrow> P d \<Longrightarrow> m d = (r, d') \<Longrightarrow> (case r of Inr x \<Rightarrow> Q x d' | Inl e \<Rightarrow> E e d')"
  by (cases r) (auto simp: db_hoare_def split: sum.splits prod.splits dest!: spec [of _ d])

lemma db_hoare_bind [db_rules]:
  "db_hoare P m R E \<Longrightarrow> (\<And>x. db_hoare (R x) (f x) Q E) \<Longrightarrow> db_hoare P (db_bind m f) Q E"
  by (fastforce simp: db_hoare_def db_bind_def split: prod.splits sum.splits)

lemma db_hoare_basic [db_rules]:
  "db_hoare (Q x) (db_return x) Q E"
  "db_hoare (E e) (db_throw e) Q E"
  "db_hoare (\<lambda>d. case r of Inr x \<Rightarrow> Q x d | Inl e \<Rightarrow> E e d) (db_lift r) Q E"
  by (auto simp: db_hoare_def split: sum.splits)

lemma db_hoare_cons:
  "db_hoare P m Q E \<Longrightarrow> (\<And>d. P' d \<Longrightarrow> P d) \<Longrightarrow> (\<And>x d. Q x d \<Longrightarrow> Q' x d) \<Longrightarrow> (\<And>e d. E e d \<Longrightarrow> E' e d) \<Longrightarrow>
   db_hoare P' m Q' E'"
  by (fastforce simp: db_hoare_def split: prod.splits sum.splits)

lemma db_hoare_pre: "db_hoare P m Q E \<Longrightarrow> (\<And>d. P' d \<Longrightarrow> P d) \<Longrightarrow> db_hoare P' m Q E"
  by (rule db_hoare_cons)

lemma db_hoare_post: "db_hoare P m Q E \<Longrightarrow> (\<And>x d. Q x d \<Longrightarrow> Q' x d) \<Longrightarrow> db_hoare P m Q' E"
  by (rule db_hoare_cons)

lemma db_hoare_pure: "(A \<Longrightarrow> db_hoare P m Q E) \<Longrightarrow> db_hoare (\<lambda>d. P d \<and> A) m Q E"
  by (auto simp: db_hoare_def)

text \<open>
  An operation with a connection of the pool: the check of the connection keeps \<open>P\<close>, and finds it
  alive while the server is \<open>alive\<close>; the connection goes back in any case.
\<close>

lemma with_connection_rule:
  assumes ping: "\<And>c d r d'. P d \<Longrightarrow> driver_select_one D c d = (r, d') \<Longrightarrow> P d' \<and> (alive \<longrightarrow> r = Inr True)"
    and again: "\<And>c d r d'. P d \<Longrightarrow> driver_reconnect D c d = (r, d') \<Longrightarrow> P d'"
    and body: "\<And>c. db_hoare P (body c) Q E" and P: "P d" and free: "free_connections p \<noteq> []"
    and run: "with_connection D wait body (p, d) = (x, p', d')"
  shows "free_connections p' \<noteq> [] \<and> (case x of Inr y \<Rightarrow> Q y d' | Inl e \<Rightarrow> E e d' \<or> \<not> alive \<and> P d')"
proof -
  obtain c cs where p: "free_connections p = c # cs" using free by (cases "free_connections p") auto
  define p1 where "p1 = p\<lparr>free_connections := cs\<rparr>"
  have get: "take_connection D wait p d = check_out D c p1 d"
    by (simp add: take_connection_def get_connection_def p p1_def)
  obtain y d1 where y: "driver_select_one D c d = (y, d1)" by fastforce
  note d1 = ping [OF P y]
  have used: "free_connections p' \<noteq> [] \<and> (case x of Inr y \<Rightarrow> Q y d' | Inl e \<Rightarrow> E e d' \<or> \<not> alive \<and> P d')"
    if "P d2" and "check_out D c p1 d = (Inr c, p1, d2)" for d2
  proof -
    obtain z d3 where z: "body c d2 = (z, d3)" by fastforce
    have "x = z" "p' = release_connection c p1" "d' = d3"
      using run get that(2) z by (simp_all add: with_connection_def)
    then show ?thesis
      using db_hoareD [OF body that(1) z] by (cases z) (auto simp: release_connection_def)
  qed
  show ?thesis
  proof (cases "y = Inr True")
    case True
    then have "check_out D c p1 d = (Inr c, p1, d1)" using y by (simp add: check_out_def ping_def)
    then show ?thesis using used d1 by blast
  next
    case False
    obtain z d2 where z: "driver_reconnect D c d1 = (z, d2)" by fastforce
    have d2: "P d2" using again [OF _ z] d1 by blast
    have "ping D c d = (False, d1)" using y False by (cases y) (auto simp: ping_def)
    then show ?thesis
      using used [OF d2] z d2 d1 False run get
      by (cases z) (auto simp: check_out_def reconnect_def as_db_exception_def with_connection_def release_connection_def)
  qed
qed

end
