(* ===== verification/StatisticsWriter.thy ===== *)
theory StatisticsWriter
  imports Database AccessEvents
begin

text \<open>
  \<open>MySqlAccessStatisticsWriter.h/.cpp\<close>: one transaction per access event that marks the event as
  processed and counts it. The statements are the constructors of \<open>writer_update\<close> and
  \<open>writer_query\<close>; what they do to the tables (\<open>apply_writer_update\<close>) is written after their text in the
  source and the schema in \<open>004_create_access_statistics.sql\<close>. The server is a parameter that may
  fail at any call, under the laws of the locale \<open>statistics_tables\<close>.
\<close>

section \<open>Statements and tables\<close>

datatype writer_update =
    Insert_processed string string int int int
  | Mark_processed string string
  | Count_total u64 string int
  | Count_hour u64 int string

datatype writer_query = Select_link_id string

record processed_row =
  row_topic :: string
  row_partition :: int
  row_offset :: int
  row_occurred :: int
  row_disposition :: string

record total_row =
  total_count :: nat
  first_occurred :: int
  last_occurred :: int

record stats_tables =
  processed :: "string \<Rightarrow> processed_row option"
  totals :: "u64 \<times> string \<Rightarrow> total_row option"
  hourly :: "u64 \<times> int \<times> string \<Rightarrow> nat option"
  link_ids :: "string \<Rightarrow> u64 option"

text \<open>The number of affected rows and the new tables.\<close>

fun apply_writer_update :: "writer_update \<Rightarrow> stats_tables \<Rightarrow> int \<times> stats_tables" where
  "apply_writer_update (Insert_processed eid topic part off ms) t =
     (case processed t eid of
        Some _ \<Rightarrow> (0, t)
      | None \<Rightarrow> (1, t\<lparr>processed := (processed t)(eid \<mapsto> \<lparr>row_topic = topic, row_partition = part, row_offset = off,
                       row_occurred = ms, row_disposition = ''received''\<rparr>)\<rparr>))"
| "apply_writer_update (Mark_processed disposition eid) t =
     (case processed t eid of
        None \<Rightarrow> (0, t)
      | Some r \<Rightarrow> (1, t\<lparr>processed := (processed t)(eid \<mapsto> r\<lparr>row_disposition := disposition\<rparr>)\<rparr>))"
| "apply_writer_update (Count_total l result ms) t =
     (case totals t (l, result) of
        None \<Rightarrow> (1, t\<lparr>totals := (totals t)((l, result) \<mapsto> \<lparr>total_count = 1, first_occurred = ms, last_occurred = ms\<rparr>)\<rparr>)
      | Some r \<Rightarrow> (2, t\<lparr>totals := (totals t)((l, result) \<mapsto> \<lparr>total_count = total_count r + 1,
                       first_occurred = min (first_occurred r) ms, last_occurred = max (last_occurred r) ms\<rparr>)\<rparr>))"
| "apply_writer_update (Count_hour l bucket result) t =
     (case hourly t (l, bucket, result) of
        None \<Rightarrow> (1, t\<lparr>hourly := (hourly t)((l, bucket, result) \<mapsto> 1)\<rparr>)
      | Some n \<Rightarrow> (2, t\<lparr>hourly := (hourly t)((l, bucket, result) \<mapsto> n + 1)\<rparr>))"

section \<open>The writer\<close>

record source_position =
  position_topic :: string
  position_partition :: int
  position_offset :: int

datatype write_result = Write_aggregated | Write_duplicate | Write_ignored

record writer_config =
  writer_host :: string
  writer_user :: string
  writer_password :: string
  writer_database :: string

type_synonym ('c, 'd) stats_driver = "('c, writer_update, writer_query, 'd) sql_driver"

definition validate_writer_config :: "writer_config \<Rightarrow> exn option" where
  "validate_writer_config cfg =
     (if writer_host cfg = [] \<or> writer_user cfg = [] \<or> writer_database cfg = []
      then Some (Invalid_argument ''invalid MySQL access statistics writer config'') else None)"

definition validate_source :: "source_position \<Rightarrow> exn option" where
  "validate_source src =
     (if position_topic src = [] \<or> length (position_topic src) > 249 \<or> position_partition src < 0 \<or> position_offset src < 0
      then Some (Invalid_argument ''invalid Kafka source position'') else None)"

definition make_statistics_writer :: "('c, 'd) stats_driver \<Rightarrow> writer_config \<Rightarrow> ('d, 'c) db_op" where
  "make_statistics_writer D cfg =
     (case validate_writer_config cfg of
        Some e \<Rightarrow> db_throw e
      | None \<Rightarrow> new_db_connection D (writer_host cfg) (writer_user cfg) (writer_password cfg) (writer_database cfg))"

text \<open>The part after the event turned out to be new: the link, the two counters, the mark, the commit.\<close>

definition aggregate_event :: "('c, 'd) stats_driver \<Rightarrow> 'c \<Rightarrow> access_event \<Rightarrow> ('d, write_result) db_op" where
  "aggregate_event D c e =
     (if \<not> is_aggregated_result (event_result e)
      then db_throw (Invalid_argument ''unsupported access statistics result'')
      else db_bind (execute_query D c (Select_link_id (event_code e))) (\<lambda>rows.
        case rows of
          [] \<Rightarrow> db_throw (Orphan_short_link (event_code e))
        | row # _ \<Rightarrow>
            db_bind (db_lift (get_uint64 row ''id'')) (\<lambda>l.
            db_bind (db_lift (hour_bucket_start (occurred_at_ms e))) (\<lambda>bucket.
            db_bind (execute_update D c (Count_total l (access_result_to_string (event_result e)) (occurred_at_ms e))) (\<lambda>_.
            db_bind (execute_update D c (Count_hour l bucket (access_result_to_string (event_result e)))) (\<lambda>_.
            db_bind (execute_update D c (Mark_processed ''aggregated'' (event_id e))) (\<lambda>_.
            db_bind (execute_raw_update D c Commit_transaction) (\<lambda>_. db_return Write_aggregated))))))))"

definition write_in_transaction ::
  "('c, 'd) stats_driver \<Rightarrow> 'c \<Rightarrow> access_event \<Rightarrow> source_position \<Rightarrow> ('d, write_result) db_op" where
  "write_in_transaction D c e src =
     db_bind (execute_update D c (Insert_processed (event_id e) (position_topic src) (position_partition src)
       (position_offset src) (occurred_at_ms e))) (\<lambda>inserted.
     if inserted = 0
     then db_bind (execute_raw_update D c Commit_transaction) (\<lambda>_. db_return Write_duplicate)
     else if event_result e = Access_not_found
     then db_bind (execute_update D c (Mark_processed ''not_found_ignored'' (event_id e))) (\<lambda>_.
          db_bind (execute_raw_update D c Commit_transaction) (\<lambda>_. db_return Write_ignored))
     else aggregate_event D c e)"

text \<open>Whatever is thrown inside the transaction is rethrown after a rollback, whose failure is logged.\<close>

definition rollback_and_rethrow :: "('c, 'd) stats_driver \<Rightarrow> 'c \<Rightarrow> exn \<Rightarrow> ('d, 'a) db_op" where
  "rollback_and_rethrow D c e d = (case execute_raw_update D c Rollback_transaction d of (_, d1) \<Rightarrow> (Inl e, d1))"

definition process_event ::
  "('c, 'd) stats_driver \<Rightarrow> 'c \<Rightarrow> access_event \<Rightarrow> source_position \<Rightarrow> ('d, write_result) db_op" where
  "process_event D c e src =
     (if \<not> is_valid_event e then db_throw (Invalid_argument ''cannot persist invalid access event'')
      else case validate_source src of
        Some err \<Rightarrow> db_throw err
      | None \<Rightarrow>
          db_bind (execute_raw_update D c Start_transaction) (\<lambda>_ d.
            case write_in_transaction D c e src d of
              (Inl err, d1) \<Rightarrow> rollback_and_rethrow D c err d1
            | (Inr r, d1) \<Rightarrow> (Inr r, d1)))"

section \<open>The specification\<close>

text \<open>What one event does to the tables, all at once: nothing when its id is known or its code is not.\<close>

definition count_event :: "access_event \<Rightarrow> source_position \<Rightarrow> u64 \<Rightarrow> stats_tables \<Rightarrow> stats_tables" where
  "count_event e src l t =
     (let result = access_result_to_string (event_result e); ms = occurred_at_ms e; seconds = ms div 1000
      in t\<lparr>processed := (processed t)(event_id e \<mapsto> \<lparr>row_topic = position_topic src, row_partition = position_partition src,
             row_offset = position_offset src, row_occurred = ms, row_disposition = ''aggregated''\<rparr>),
           totals := (totals t)((l, result) \<mapsto>
             (case totals t (l, result) of
                None \<Rightarrow> \<lparr>total_count = 1, first_occurred = ms, last_occurred = ms\<rparr>
              | Some r \<Rightarrow> \<lparr>total_count = total_count r + 1, first_occurred = min (first_occurred r) ms,
                          last_occurred = max (last_occurred r) ms\<rparr>)),
           hourly := (hourly t)((l, seconds - seconds mod 3600, result) \<mapsto>
             (case hourly t (l, seconds - seconds mod 3600, result) of None \<Rightarrow> 1 | Some n \<Rightarrow> n + 1))\<rparr>)"

definition settle :: "access_event \<Rightarrow> source_position \<Rightarrow> stats_tables \<Rightarrow> stats_tables" where
  "settle e src t =
     (if processed t (event_id e) \<noteq> None then t
      else if event_result e = Access_not_found
      then t\<lparr>processed := (processed t)(event_id e \<mapsto> \<lparr>row_topic = position_topic src, row_partition = position_partition src,
             row_offset = position_offset src, row_occurred = occurred_at_ms e, row_disposition = ''not_found_ignored''\<rparr>)\<rparr>
      else (case link_ids t (event_code e) of None \<Rightarrow> t | Some l \<Rightarrow> count_event e src l t))"

text \<open>What the writer promises to answer; \<open>None\<close> is the exception of an unknown code.\<close>

definition settle_result :: "access_event \<Rightarrow> stats_tables \<Rightarrow> write_result option" where
  "settle_result e t =
     (if processed t (event_id e) \<noteq> None then Some Write_duplicate
      else if event_result e = Access_not_found then Some Write_ignored
      else (case link_ids t (event_code e) of None \<Rightarrow> None | Some l \<Rightarrow> Some Write_aggregated))"

section \<open>The server\<close>

text \<open>
  The laws of a transactional server, for the connection \<open>c\<close>: every call may fail. A statement inside
  a transaction that succeeds acts on the view of the transaction; one that fails leaves the committed
  tables alone and may lose the transaction with the connection. A commit publishes the view, and one
  that fails may have published it. After a rollback or a reconnect no transaction is open.
\<close>

locale statistics_tables =
  fixes D :: "('c, 'd) stats_driver"
    and c :: 'c
    and committed :: "'d \<Rightarrow> stats_tables"
    and working :: "'d \<Rightarrow> stats_tables option"
  assumes start_law: "working d = None \<Longrightarrow> driver_raw D c Start_transaction d = (r, d') \<Longrightarrow>
          committed d' = committed d \<and> (case r of Inr n \<Rightarrow> working d' = Some (committed d) | Inl m \<Rightarrow> working d' = None)"
    and update_law: "working d = Some t \<Longrightarrow> driver_update D c u d = (r, d') \<Longrightarrow>
          committed d' = committed d \<and>
          (case r of Inr n \<Rightarrow> apply_writer_update u t = (n, the (working d')) \<and> working d' \<noteq> None
           | Inl m \<Rightarrow> working d' = Some t \<or> working d' = None)"
    and query_law: "working d = Some t \<Longrightarrow> driver_query D c (Select_link_id code) d = (found, d') \<Longrightarrow>
          committed d' = committed d \<and>
          (case found of Inr rows \<Rightarrow> working d' = Some t \<and>
             (case link_ids t code of None \<Rightarrow> rows = [] | Some l \<Rightarrow> \<exists>row. rows = [row] \<and> get_uint64 row ''id'' = Inr l)
           | Inl m \<Rightarrow> working d' = Some t \<or> working d' = None)"
    and commit_law: "working d = Some t \<Longrightarrow> driver_raw D c Commit_transaction d = (r, d') \<Longrightarrow>
          working d' = None \<and> (case r of Inr n \<Rightarrow> committed d' = t | Inl m \<Rightarrow> committed d' \<in> {committed d, t})"
    and rollback_law: "driver_raw D c Rollback_transaction d = (r, d') \<Longrightarrow> committed d' = committed d \<and> working d' = None"
    and reconnect_law: "driver_reconnect D c d = (done_again, d') \<Longrightarrow> committed d' = committed d \<and> working d' = None"

section \<open>The statements of a transaction together\<close>

definition received :: "access_event \<Rightarrow> source_position \<Rightarrow> stats_tables \<Rightarrow> stats_tables" where
  "received e src t = snd (apply_writer_update (Insert_processed (event_id e) (position_topic src) (position_partition src)
     (position_offset src) (occurred_at_ms e)) t)"

lemma ignored_steps:
  "processed t (event_id e) = None \<Longrightarrow> event_result e = Access_not_found \<Longrightarrow>
   snd (apply_writer_update (Mark_processed ''not_found_ignored'' (event_id e)) (received e src t)) = settle e src t"
  by (simp add: received_def settle_def)

lemma counted_steps:
  assumes "processed t (event_id e) = None" and "event_result e \<noteq> Access_not_found" and "link_ids t (event_code e) = Some l"
  shows "snd (apply_writer_update (Mark_processed ''aggregated'' (event_id e))
     (snd (apply_writer_update (Count_hour l (occurred_at_ms e div 1000 - occurred_at_ms e div 1000 mod 3600)
             (access_result_to_string (event_result e)))
       (snd (apply_writer_update (Count_total l (access_result_to_string (event_result e)) (occurred_at_ms e))
         (received e src t)))))) = settle e src t"
  using assms by (simp add: received_def settle_def count_event_def Let_def split: option.split)

lemma inserted_iff:
  "(fst (apply_writer_update (Insert_processed (event_id e) topic part off ms) t) = 0) = (processed t (event_id e) \<noteq> None)"
  by (simp split: option.split)

lemma aggregated_iff: "is_aggregated_result r \<longleftrightarrow> r \<noteq> Access_not_found"
  by (cases r) (simp_all add: is_aggregated_result_def)

lemma settle_idem [simp]: "settle e src' (settle e src t) = settle e src t"
  by (auto simp: settle_def count_event_def Let_def split: option.splits)

context statistics_tables
begin

text \<open>
  The states inside the transaction that started from the committed tables \<open>t0\<close>, after it, and after an
  exception of a transaction that should end in the tables \<open>settle e src t0\<close>.
\<close>

definition inside :: "stats_tables \<Rightarrow> stats_tables \<Rightarrow> 'd \<Rightarrow> bool" where
  "inside t0 t d \<longleftrightarrow> committed d = t0 \<and> working d = Some t"

definition settled :: "stats_tables \<Rightarrow> 'd \<Rightarrow> bool" where
  "settled t d \<longleftrightarrow> committed d = t \<and> working d = None"

definition thrown_by :: "access_event \<Rightarrow> source_position \<Rightarrow> stats_tables \<Rightarrow> exn \<Rightarrow> 'd \<Rightarrow> bool" where
  "thrown_by e src t0 err d \<longleftrightarrow>
     (case err of Orphan_short_link x \<Rightarrow> x = event_code e \<and> settle_result e t0 = None \<and> committed d = t0
      | Db_exception m \<Rightarrow> committed d \<in> {t0, settle e src t0}
      | _ \<Rightarrow> False)"

lemma inserted_step:
  "db_hoare (inside t0 t) (execute_update D c u)
     (\<lambda>n d. inside t0 (snd (apply_writer_update u t)) d \<and> n = fst (apply_writer_update u t)) (thrown_by e src t0)"
proof (rule db_hoareI)
  fix d r d'
  assume "inside t0 t d" and "execute_update D c u d = (r, d')"
  then show "case r of Inr n \<Rightarrow> inside t0 (snd (apply_writer_update u t)) d' \<and> n = fst (apply_writer_update u t)
      | Inl err \<Rightarrow> thrown_by e src t0 err d'"
    using update_law [of d t u]
    by (cases r) (fastforce simp: inside_def thrown_by_def execute_update_def as_db_exception_cases)+
qed

lemma update_step:
  "db_hoare (inside t0 t) (execute_update D c u) (\<lambda>n. inside t0 (snd (apply_writer_update u t))) (thrown_by e src t0)"
  by (rule db_hoare_post [OF inserted_step]) simp

lemma query_step:
  "db_hoare (inside t0 t) (execute_query D c (Select_link_id code))
     (\<lambda>rows d. inside t0 t d \<and> (case link_ids t code of None \<Rightarrow> rows = []
        | Some l \<Rightarrow> \<exists>row. rows = [row] \<and> get_uint64 row ''id'' = Inr l)) (thrown_by e src t0)"
proof (rule db_hoareI)
  fix d r d'
  assume "inside t0 t d" and "execute_query D c (Select_link_id code) d = (r, d')"
  then show "case r of Inr rows \<Rightarrow> inside t0 t d' \<and> (case link_ids t code of None \<Rightarrow> rows = []
        | Some l \<Rightarrow> \<exists>row. rows = [row] \<and> get_uint64 row ''id'' = Inr l) | Inl err \<Rightarrow> thrown_by e src t0 err d'"
    using query_law [of d t code]
    by (cases r) (fastforce simp: inside_def thrown_by_def execute_query_def as_db_exception_cases)+
qed

lemma commit_step:
  assumes "t \<in> {t0, settle e src t0}"
  shows "db_hoare (inside t0 t) (execute_raw_update D c Commit_transaction) (\<lambda>n. settled t) (thrown_by e src t0)"
proof (rule db_hoareI)
  fix d r d'
  assume "inside t0 t d" and "execute_raw_update D c Commit_transaction d = (r, d')"
  then show "case r of Inr n \<Rightarrow> settled t d' | Inl err \<Rightarrow> thrown_by e src t0 err d'"
    using commit_law [of d t] assms
    by (cases r) (fastforce simp: inside_def settled_def thrown_by_def execute_raw_update_def as_db_exception_cases)+
qed

lemma commit_and_return:
  "db_hoare (inside t0 (settle e src t0)) (db_bind (execute_raw_update D c Commit_transaction) (\<lambda>_. db_return x))
     (\<lambda>r d. r = x \<and> settled (settle e src t0) d) (thrown_by e src t0)"
  by (rule db_hoare_bind [OF commit_step], simp, rule db_hoare_pre [OF db_hoare_basic(1)], simp)

lemma aggregate_spec:
  assumes "is_valid_event e" and "processed t0 (event_id e) = None" and "event_result e \<noteq> Access_not_found"
  shows "db_hoare (inside t0 (received e src t0)) (aggregate_event D c e)
     (\<lambda>r d. settle_result e t0 = Some r \<and> settled (settle e src t0) d) (thrown_by e src t0)"
proof -
  let ?m = "access_result_to_string (event_result e)"
  let ?bucket = "occurred_at_ms e div 1000 - occurred_at_ms e div 1000 mod 3600"
  have links: "link_ids (received e src t0) = link_ids t0"
    by (simp add: received_def split: option.split)
  have bucket: "hour_bucket_start (occurred_at_ms e) = Inr ?bucket"
    using assms(1) by (simp add: is_valid_event_def hour_bucket_start_def Let_def)
  have body: "db_hoare (inside t0 (received e src t0))
     (db_bind (execute_update D c (Count_total l ?m (occurred_at_ms e))) (\<lambda>_.
      db_bind (execute_update D c (Count_hour l ?bucket ?m)) (\<lambda>_.
      db_bind (execute_update D c (Mark_processed ''aggregated'' (event_id e))) (\<lambda>_.
      db_bind (execute_raw_update D c Commit_transaction) (\<lambda>_. db_return Write_aggregated)))))
     (\<lambda>r d. settle_result e t0 = Some r \<and> settled (settle e src t0) d) (thrown_by e src t0)"
    if l: "link_ids t0 (event_code e) = Some l" for l
  proof (rule db_hoare_bind [OF update_step], rule db_hoare_bind [OF update_step], rule db_hoare_bind [OF update_step],
      simp only: counted_steps [OF assms(2,3) l], rule db_hoare_post [OF commit_and_return])
    fix r d
    assume "r = Write_aggregated \<and> settled (settle e src t0) d"
    then show "settle_result e t0 = Some r \<and> settled (settle e src t0) d" using assms l by (simp add: settle_result_def)
  qed
  have orphan: "settle_result e t0 = None" if "link_ids t0 (event_code e) = None"
    using that assms by (simp add: settle_result_def)
  show ?thesis
    unfolding aggregate_event_def
  proof (simp only: aggregated_iff assms(3) not_False_eq_True if_False, simp only: not_True_eq_False if_False,
      rule db_hoare_bind [OF query_step], rule db_hoare_pure, unfold links)
    fix rows
    assume found: "case link_ids t0 (event_code e) of None \<Rightarrow> rows = [] | Some l \<Rightarrow> \<exists>row. rows = [row] \<and> get_uint64 row ''id'' = Inr l"
    show "db_hoare (inside t0 (received e src t0))
     (case rows of [] \<Rightarrow> db_throw (Orphan_short_link (event_code e))
      | row # x \<Rightarrow> db_bind (db_lift (get_uint64 row ''id'')) (\<lambda>l.
            db_bind (db_lift (hour_bucket_start (occurred_at_ms e))) (\<lambda>bucket.
            db_bind (execute_update D c (Count_total l ?m (occurred_at_ms e))) (\<lambda>_.
            db_bind (execute_update D c (Count_hour l bucket ?m)) (\<lambda>_.
            db_bind (execute_update D c (Mark_processed ''aggregated'' (event_id e))) (\<lambda>_.
            db_bind (execute_raw_update D c Commit_transaction) (\<lambda>_. db_return Write_aggregated)))))))
     (\<lambda>r d. settle_result e t0 = Some r \<and> settled (settle e src t0) d) (thrown_by e src t0)"
    proof (cases "link_ids t0 (event_code e)")
      case None
      then show ?thesis
        using found orphan by (auto intro!: db_hoareI simp: thrown_by_def inside_def)
    next
      case (Some l)
      then obtain row where "rows = [row]" "get_uint64 row ''id'' = Inr l" using found by auto
      then show ?thesis using body [OF Some] by (simp add: bucket db_hoare_def db_bind_def)
    qed
  qed
qed

lemma write_spec:
  assumes "is_valid_event e"
  shows "db_hoare (inside t0 t0) (write_in_transaction D c e src)
     (\<lambda>r d. settle_result e t0 = Some r \<and> settled (settle e src t0) d) (thrown_by e src t0)"
  unfolding write_in_transaction_def
proof (rule db_hoare_bind [OF inserted_step], rule db_hoare_pure, unfold received_def [symmetric])
  fix n
  assume n: "n = fst (apply_writer_update (Insert_processed (event_id e) (position_topic src) (position_partition src)
     (position_offset src) (occurred_at_ms e)) t0)"
  show "db_hoare (inside t0 (received e src t0))
     (if n = 0 then db_bind (execute_raw_update D c Commit_transaction) (\<lambda>_. db_return Write_duplicate)
      else if event_result e = Access_not_found
      then db_bind (execute_update D c (Mark_processed ''not_found_ignored'' (event_id e))) (\<lambda>_.
           db_bind (execute_raw_update D c Commit_transaction) (\<lambda>_. db_return Write_ignored))
      else aggregate_event D c e)
     (\<lambda>r d. settle_result e t0 = Some r \<and> settled (settle e src t0) d) (thrown_by e src t0)"
  proof (cases "processed t0 (event_id e) = None")
    case False
    then have "n = 0" "received e src t0 = settle e src t0" "settle_result e t0 = Some Write_duplicate"
      by (auto simp: n received_def settle_def settle_result_def)
    then show ?thesis by (simp add: db_hoare_post [OF commit_and_return])
  next
    case True
    then have n0: "n \<noteq> 0" by (simp add: n)
    show ?thesis
    proof (cases "event_result e = Access_not_found")
      case nf: True
      have "db_hoare (inside t0 (received e src t0))
         (db_bind (execute_update D c (Mark_processed ''not_found_ignored'' (event_id e))) (\<lambda>_.
          db_bind (execute_raw_update D c Commit_transaction) (\<lambda>_. db_return Write_ignored)))
         (\<lambda>r d. r = Write_ignored \<and> settled (settle e src t0) d) (thrown_by e src t0)"
        using commit_and_return by (intro db_hoare_bind [OF update_step]) (simp only: ignored_steps [OF True nf])
      then have "db_hoare (inside t0 (received e src t0))
         (db_bind (execute_update D c (Mark_processed ''not_found_ignored'' (event_id e))) (\<lambda>_.
          db_bind (execute_raw_update D c Commit_transaction) (\<lambda>_. db_return Write_ignored)))
         (\<lambda>r d. settle_result e t0 = Some r \<and> settled (settle e src t0) d) (thrown_by e src t0)"
        by (rule db_hoare_post) (simp add: settle_result_def True nf)
      then show ?thesis using n0 nf by simp
    qed (use n0 aggregate_spec [OF assms True] in simp)
  qed
qed

text \<open>The whole operation: no transaction stays open, whatever happens.\<close>

definition processed_as :: "access_event \<Rightarrow> source_position \<Rightarrow> stats_tables \<Rightarrow> (exn + write_result) \<Rightarrow> 'd \<Rightarrow> bool" where
  "processed_as e src t0 res d \<longleftrightarrow> working d = None \<and>
     (case res of
        Inr r \<Rightarrow> settle_result e t0 = Some r \<and> committed d = settle e src t0
      | Inl err \<Rightarrow> thrown_by e src t0 err d)"

lemma process_spec:
  assumes "is_valid_event e" and "validate_source src = None" and "working d = None"
    and "process_event D c e src d = (res, d')"
  shows "processed_as e src (committed d) res d'"
proof -
  obtain r1 d1 where s: "driver_raw D c Start_transaction d = (r1, d1)" by fastforce
  show ?thesis
  proof (cases r1)
    case (Inl m)
    then show ?thesis
      using s start_law [OF assms(3) s] assms
      by (auto simp: process_event_def execute_raw_update_def as_db_exception_def db_bind_def processed_as_def thrown_by_def)
  next
    case (Inr n)
    then have i: "inside (committed d) (committed d) d1" using start_law [OF assms(3) s] by (simp add: inside_def)
    obtain r2 d2 where w: "write_in_transaction D c e src d1 = (r2, d2)" by fastforce
    have spec: "case r2 of Inr x \<Rightarrow> settle_result e (committed d) = Some x \<and> settled (settle e src (committed d)) d2
        | Inl err \<Rightarrow> thrown_by e src (committed d) err d2"
      by (rule db_hoareD [OF write_spec [OF assms(1)] i w])
    have run: "process_event D c e src d =
        (case r2 of Inl err \<Rightarrow> rollback_and_rethrow D c err d2 | Inr x \<Rightarrow> (Inr x, d2))"
      using s Inr w assms(1,2) by (simp add: process_event_def execute_raw_update_def as_db_exception_def db_bind_def)
    show ?thesis
    proof (cases r2)
      case (Inr x)
      then show ?thesis using run spec assms(4) by (simp add: processed_as_def settled_def)
    next
      case (Inl err)
      obtain r3 d3 where b: "driver_raw D c Rollback_transaction d2 = (r3, d3)" by fastforce
      then have "committed d3 = committed d2" "working d3 = None" using rollback_law by blast+
      moreover have "res = Inl err" "d' = d3"
        using run assms(4) b Inl by (auto simp: rollback_and_rethrow_def execute_raw_update_def as_db_exception_def split: sum.splits)
      ultimately show ?thesis using spec Inl by (cases err) (simp_all add: processed_as_def thrown_by_def)
    qed
  qed
qed

end

section \<open>A server for evaluation\<close>

text \<open>Tables, the view of an open transaction, and a script of faults: a fault loses the connection.\<close>

record plain_db =
  plain_tables :: stats_tables
  plain_view :: "stats_tables option"
  plain_faults :: "bool list"

definition next_fault :: "plain_db \<Rightarrow> bool \<times> plain_db" where
  "next_fault d = (case plain_faults d of [] \<Rightarrow> (False, d) | b # bs \<Rightarrow> (b, d\<lparr>plain_faults := bs\<rparr>))"

definition lost :: "plain_db \<Rightarrow> (string + 'a) \<times> plain_db" where
  "lost d = (Inl ''Lost connection to MySQL server'', d\<lparr>plain_view := None\<rparr>)"

fun plain_raw :: "raw_sql \<Rightarrow> plain_db \<Rightarrow> (string + int) \<times> plain_db" where
  "plain_raw Start_transaction d = (Inr 0, d\<lparr>plain_view := Some (plain_tables d)\<rparr>)"
| "plain_raw Commit_transaction d =
     (Inr 0, d\<lparr>plain_tables := (case plain_view d of None \<Rightarrow> plain_tables d | Some t \<Rightarrow> t), plain_view := None\<rparr>)"
| "plain_raw Rollback_transaction d = (Inr 0, d\<lparr>plain_view := None\<rparr>)"
| "plain_raw s d = (Inr 0, d)"

definition id_row :: "u64 \<Rightarrow> sql_row" where
  "id_row l = \<lparr>get_string = (\<lambda>k. Inr (to_string_u64 l)), get_uint64 = (\<lambda>k. Inr l), get_int64 = (\<lambda>k. Inr (sint l)), is_null = (\<lambda>k. False)\<rparr>"

definition plain_update :: "writer_update \<Rightarrow> plain_db \<Rightarrow> (string + int) \<times> plain_db" where
  "plain_update u d =
     (case plain_view d of
        None \<Rightarrow> (case apply_writer_update u (plain_tables d) of (n, t) \<Rightarrow> (Inr n, d\<lparr>plain_tables := t\<rparr>))
      | Some t0 \<Rightarrow> (case apply_writer_update u t0 of (n, t) \<Rightarrow> (Inr n, d\<lparr>plain_view := Some t\<rparr>)))"

fun plain_query :: "writer_query \<Rightarrow> plain_db \<Rightarrow> (string + sql_row list) \<times> plain_db" where
  "plain_query (Select_link_id code) d =
     (Inr (case link_ids (case plain_view d of None \<Rightarrow> plain_tables d | Some t \<Rightarrow> t) code of None \<Rightarrow> [] | Some l \<Rightarrow> [id_row l]), d)"

definition plain_stats :: "(unit, plain_db) stats_driver" where
  "plain_stats = \<lparr>driver_connect = (\<lambda>opts d. (Inr (), d)),
     driver_raw = (\<lambda>c s d. case next_fault d of (True, d1) \<Rightarrow> lost d1 | (False, d1) \<Rightarrow> plain_raw s d1),
     driver_update = (\<lambda>c u d. case next_fault d of (True, d1) \<Rightarrow> lost d1 | (False, d1) \<Rightarrow> plain_update u d1),
     driver_query = (\<lambda>c q d. case next_fault d of (True, d1) \<Rightarrow> lost d1 | (False, d1) \<Rightarrow> plain_query q d1),
     driver_select_one = (\<lambda>c d. case next_fault d of (True, d1) \<Rightarrow> lost d1 | (False, d1) \<Rightarrow> (Inr True, d1)),
     driver_reconnect = (\<lambda>c d. case next_fault d of (True, d1) \<Rightarrow> lost d1 | (False, d1) \<Rightarrow> (Inr (), d1\<lparr>plain_view := None\<rparr>))\<rparr>"

lemma next_fault_same: "next_fault d = (b, d1) \<Longrightarrow> plain_tables d1 = plain_tables d \<and> plain_view d1 = plain_view d"
  by (auto simp: next_fault_def split: list.splits)

interpretation plain_statistics: statistics_tables plain_stats "()" plain_tables plain_view
proof (unfold_locales, goal_cases)
  case (1 d r d')
  then show ?case by (auto simp: plain_stats_def lost_def dest: next_fault_same split: prod.splits bool.splits)
next
  case (2 d t u r d')
  obtain b d1 where f: "next_fault d = (b, d1)" by fastforce
  with next_fault_same [OF f] 2 show ?case
    by (cases b) (auto simp: plain_stats_def lost_def plain_update_def split: prod.splits)
next
  case (3 d t code r d')
  then show ?case
    by (auto simp: plain_stats_def lost_def id_row_def dest: next_fault_same split: prod.splits bool.splits option.splits)
next
  case (4 d t r d')
  then show ?case by (auto simp: plain_stats_def lost_def dest: next_fault_same split: prod.splits bool.splits)
next
  case (5 d r d')
  then show ?case by (auto simp: plain_stats_def lost_def dest: next_fault_same split: prod.splits bool.splits)
next
  case (6 d r d')
  then show ?case by (auto simp: plain_stats_def lost_def dest: next_fault_same split: prod.splits bool.splits)
qed

section \<open>Properties\<close>

text \<open>C24: counting an event is atomic and idempotent. On every transactional server, failing anywhere,
  \<open>process\<close> leaves no transaction open and refines \<open>settle\<close>: when it returns, the tables are settled
  and the answer is the specified one; when the code is unknown it throws and changes nothing; when a
  statement fails the tables are the old ones or the settled ones; and settling twice is settling once.\<close>

theorem statistics_writer_refines:
  assumes "statistics_tables D c committed working" and "working d = None"
    and "process_event D c e src d = (res, d')"
  shows "(working d' = None \<and>
     (case res of
        Inr r \<Rightarrow> settle_result e (committed d) = Some r \<and> committed d' = settle e src (committed d)
      | Inl (Orphan_short_link x) \<Rightarrow> x = event_code e \<and> settle_result e (committed d) = None \<and> committed d' = committed d
      | Inl (Db_exception m) \<Rightarrow> committed d' = committed d \<or> committed d' = settle e src (committed d)
      | Inl err \<Rightarrow> (\<not> is_valid_event e \<or> validate_source src \<noteq> None) \<and> d' = d)) \<and>
     settle e src (settle e src (committed d)) = settle e src (committed d)"
proof (cases "is_valid_event e \<and> validate_source src = None")
  case True
  then have "statistics_tables.processed_as committed working e src (committed d) res d'"
    using statistics_tables.process_spec [OF assms(1) _ _ assms(2,3)] by blast
  then show ?thesis
    using settle_idem [of e src src "committed d"]
    by (auto simp: statistics_tables.processed_as_def [OF assms(1)] statistics_tables.thrown_by_def [OF assms(1)]
        split: sum.splits exn.splits)
next
  case False
  then show ?thesis
    using assms(2,3) settle_idem [of e src src "committed d"]
    by (auto simp: process_event_def validate_source_def split: if_splits)
qed

definition no_counts :: stats_tables where
  "no_counts = \<lparr>processed = (\<lambda>k. None), totals = (\<lambda>k. None), hourly = (\<lambda>k. None), link_ids = [''abcd'' \<mapsto> 5]\<rparr>"

definition sample_source :: source_position where
  "sample_source = \<lparr>position_topic = ''events'', position_partition = 0, position_offset = 7\<rparr>"

lemma statistics_writer_refines_witness:
  "\<exists>res d'. process_event plain_stats () sample_event sample_source
       \<lparr>plain_tables = no_counts, plain_view = None, plain_faults = [False, False, False, True]\<rparr> = (res, d') \<and>
     plain_view d' = None"
proof -
  let ?d = "\<lparr>plain_tables = no_counts, plain_view = None, plain_faults = [False, False, False, True]\<rparr>"
  obtain res d' where run: "process_event plain_stats () sample_event sample_source ?d = (res, d')" by fastforce
  have "plain_view ?d = None" by simp
  from statistics_writer_refines [OF plain_statistics.statistics_tables_axioms this run] run show ?thesis by blast
qed

end
