(* ===== verification/EventConsumer.thy ===== *)
theory EventConsumer
  imports StatisticsWriter DeadLetters ConsumerMetrics
begin

text \<open>
  \<open>main.cpp\<close> of the event consumer: how one message is handled (counted, or sent to the dead-letter
  topic), the retries with their delays, the commit of the offset, the lag gauges and the loop. The
  Kafka consumer is a parameter; the messages that polling delivers are the argument of the loop,
  \<open>None\<close> for a poll that timed out, and the loop ends with them (a stop was requested). The sleeps
  between retries are collected in the state. The \<open>i\<close>-th reading of a clock is \<open>env_clock i\<close>.
\<close>

section \<open>State\<close>

record kafka_message =
  message_error :: int
  message_partition :: int
  message_offset :: int
  message_key :: string
  message_payload :: string

record topic_partition =
  tp_topic :: string
  tp_partition :: int
  tp_offset :: int

text \<open>Errors come first in the results; a failing query of the offsets leaves them unread.\<close>

record 'k kafka_consumer =
  commit_message :: "kafka_message \<Rightarrow> 'k \<Rightarrow> int \<times> 'k"
  cached_watermarks :: "string \<Rightarrow> int \<Rightarrow> 'k \<Rightarrow> int \<times> int \<times> int"
  query_watermarks :: "string \<Rightarrow> int \<Rightarrow> int \<Rightarrow> 'k \<Rightarrow> int \<times> int \<times> int"
  current_assignment :: "'k \<Rightarrow> int \<times> topic_partition list option"
  committed_offsets :: "topic_partition list \<Rightarrow> int \<Rightarrow> 'k \<Rightarrow> int \<times> topic_partition list"

record consumer_config =
  bootstrap_servers :: string
  consumer_topic :: string
  consumer_group :: string
  consumer_client :: string
  auto_offset_reset :: string
  poll_timeout :: int
  session_timeout :: int
  dlq_topic_setting :: string
  dlq_client_setting :: string
  dlq_message_timeout :: int
  dlq_delivery_timeout :: int
  mysql_host :: string
  mysql_user :: string
  mysql_password :: string
  mysql_database :: string
  processing_max_attempts :: int
  retry_initial :: int
  retry_max :: int
  offset_commit_max_attempts :: int
  observability_enabled :: bool
  observability_address :: string
  observability_port :: int
  lag_refresh :: int
  kafka_query_timeout :: int

record ('k, 'p, 'd) consumer_state =
  kafka :: 'k
  dead_letters :: "'p dead_letter_state"
  stats_db :: 'd
  consumer_counters :: consumer_metrics
  failure_count :: u64
  next_lag_refresh :: int
  slept :: "int list"
  clock_reads :: nat

record ('k, 'p, 'c, 'd) consumer_env =
  env_kafka :: "'k kafka_consumer"
  env_producer :: "'p kafka_producer"
  env_json :: json_lib
  env_driver :: "('c, 'd) stats_driver"
  env_connection :: 'c
  env_config :: consumer_config
  env_clock :: "nat \<Rightarrow> int"

type_synonym ('k, 'p, 'd, 'a) consumer_op = "(('k, 'p, 'd) consumer_state, 'a) db_op"

section \<open>Small steps\<close>

definition dlq_config :: "consumer_config \<Rightarrow> dead_letter_config" where
  "dlq_config cfg = \<lparr>dlq_servers = bootstrap_servers cfg, dlq_topic_name = dlq_topic_setting cfg,
     dlq_client = dlq_client_setting cfg, message_timeout = dlq_message_timeout cfg, delivery_timeout = dlq_delivery_timeout cfg\<rparr>"

definition log_failure :: "('k, 'p, 'd) consumer_state \<Rightarrow> ('k, 'p, 'd) consumer_state" where
  "log_failure w = w\<lparr>failure_count := failure_count w + 1\<rparr>"

definition note_consumer :: "(consumer_metrics \<Rightarrow> consumer_metrics) \<Rightarrow> ('k, 'p, 'd) consumer_state \<Rightarrow> ('k, 'p, 'd) consumer_state" where
  "note_consumer f w = w\<lparr>consumer_counters := f (consumer_counters w)\<rparr>"

definition sleep_ms :: "int \<Rightarrow> ('k, 'p, 'd) consumer_state \<Rightarrow> ('k, 'p, 'd) consumer_state" where
  "sleep_ms ms w = w\<lparr>slept := slept w @ [ms]\<rparr>"

definition read_clock :: "('k, 'p, 'c, 'd) consumer_env \<Rightarrow> ('k, 'p, 'd) consumer_state \<Rightarrow> int \<times> ('k, 'p, 'd) consumer_state" where
  "read_clock env w = (env_clock env (clock_reads w), w\<lparr>clock_reads := Suc (clock_reads w)\<rparr>)"

fun dead_letter_reason_of :: "event_parse_error \<Rightarrow> dead_letter_reason" where
  "dead_letter_reason_of Invalid_json = Dead_invalid_json"
| "dead_letter_reason_of Unsupported_schema = Dead_unsupported_schema"
| "dead_letter_reason_of Unsupported_event_type = Dead_unsupported_event_type"
| "dead_letter_reason_of Invalid_contract = Dead_invalid_contract"
| "dead_letter_reason_of Parse_ok = Dead_invalid_contract"

fun write_result_metric :: "write_result \<Rightarrow> message_result" where
  "write_result_metric Write_aggregated = Msg_aggregated"
| "write_result_metric Write_duplicate = Msg_duplicate"
| "write_result_metric Write_ignored = Msg_ignored"

definition next_retry_delay :: "int \<Rightarrow> int \<Rightarrow> int" where
  "next_retry_delay delay maximum = (if delay \<ge> maximum - delay then maximum else delay * 2)"

section \<open>Starting\<close>

definition consumer_settings :: "consumer_config \<Rightarrow> (string \<times> string) list" where
  "consumer_settings cfg =
     [(''bootstrap.servers'', bootstrap_servers cfg), (''group.id'', consumer_group cfg), (''client.id'', consumer_client cfg),
      (''enable.auto.commit'', ''false''), (''enable.auto.offset.store'', ''false''), (''auto.offset.reset'', auto_offset_reset cfg),
      (''session.timeout.ms'', to_string_int (session_timeout cfg)), (''enable.partition.eof'', ''true'')]"

definition start_kafka_consumer ::
  "(string \<Rightarrow> string \<Rightarrow> string option) \<Rightarrow> ((string \<times> string) list \<Rightarrow> string + 'k) \<Rightarrow> (string \<Rightarrow> 'k \<Rightarrow> int \<times> 'k) \<Rightarrow> (int \<Rightarrow> string) \<Rightarrow>
   consumer_config \<Rightarrow> exn + 'k" where
  "start_kafka_consumer refused new_client subscribe err_text cfg =
     (case set_all_config refused ''invalid Kafka config '' (consumer_settings cfg) of
        Some e \<Rightarrow> Inl e
      | None \<Rightarrow>
          (case new_client (consumer_settings cfg) of
             Inl err \<Rightarrow> Inl (Runtime_error (''failed to create Kafka consumer: '' @ err))
           | Inr k \<Rightarrow>
               (case subscribe (consumer_topic cfg) k of
                  (err, k1) \<Rightarrow> if err \<noteq> kafka_ok
                    then Inl (Runtime_error (''failed to subscribe to access event topic: '' @ err_text err)) else Inr k1)))"

definition writer_config_of :: "consumer_config \<Rightarrow> writer_config" where
  "writer_config_of cfg = \<lparr>writer_host = mysql_host cfg, writer_user = mysql_user cfg, writer_password = mysql_password cfg,
     writer_database = mysql_database cfg\<rparr>"

text \<open>The constructor: the writer, the dead-letter publisher, then the consumer; the counters are the caller's.\<close>

definition start_consumer ::
  "('c, 'd) stats_driver \<Rightarrow> 'p kafka_producer \<Rightarrow> (consumer_config \<Rightarrow> exn + 'k) \<Rightarrow> consumer_config \<Rightarrow> consumer_metrics \<Rightarrow> 'd \<Rightarrow>
   (exn + 'c \<times> ('k, 'p, 'd) consumer_state) \<times> 'd" where
  "start_consumer D K start cfg counters d =
     (case make_statistics_writer D (writer_config_of cfg) d of
        (Inl e, d1) \<Rightarrow> (Inl e, d1)
      | (Inr c, d1) \<Rightarrow>
          (case make_dead_letter_publisher K (dlq_config cfg) of
             Inl e \<Rightarrow> (Inl e, d1)
           | Inr p \<Rightarrow>
               (case start cfg of
                  Inl e \<Rightarrow> (Inl e, d1)
                | Inr k \<Rightarrow>
                    (Inr (c, \<lparr>kafka = k, dead_letters = p, stats_db = d1, consumer_counters = counters, failure_count = 0,
                              next_lag_refresh = 0, slept = [], clock_reads = 0\<rparr>), d1))))"

section \<open>Counting with retries\<close>

definition on_database :: "('d, 'a) db_op \<Rightarrow> ('k, 'p, 'd, 'a) consumer_op" where
  "on_database f w = (case f (stats_db w) of (r, d) \<Rightarrow> (r, w\<lparr>stats_db := d\<rparr>))"

text \<open>The attempts that are left, and the delay before the next one.\<close>

fun persist_attempts ::
  "nat \<Rightarrow> int \<Rightarrow> ('k, 'p, 'c, 'd) consumer_env \<Rightarrow> access_event \<Rightarrow> source_position \<Rightarrow> ('k, 'p, 'd, write_result) consumer_op" where
  "persist_attempts 0 delay env e src w = (Inl (Runtime_error ''unreachable access statistics retry state''), w)"
| "persist_attempts (Suc n) delay env e src w =
     (case on_database (process_event (env_driver env) (env_connection env) e src) w of
        (Inr r, w1) \<Rightarrow> (Inr r, w1)
      | (Inl (Orphan_short_link x), w1) \<Rightarrow> (Inl (Orphan_short_link x), w1)
      | (Inl err, w1) \<Rightarrow>
          (let w2 = log_failure w1
           in if n = 0 then (Inl err, note_consumer (record_message Msg_error) w2)
              else (let w3 = sleep_ms delay (note_consumer (record_retry Retry_mysql) w2)
                    in case on_database (reconnect (env_driver env) (env_connection env)) w3 of
                         (Inl again, w4) \<Rightarrow>
                           persist_attempts n (next_retry_delay delay (retry_max (env_config env))) env e src (log_failure w4)
                       | (Inr _, w4) \<Rightarrow>
                           persist_attempts n (next_retry_delay delay (retry_max (env_config env))) env e src w4)))"

definition message_source :: "('k, 'p, 'c, 'd) consumer_env \<Rightarrow> kafka_message \<Rightarrow> source_position" where
  "message_source env m = \<lparr>position_topic = consumer_topic (env_config env), position_partition = message_partition m,
     position_offset = message_offset m\<rparr>"

definition persist_with_retry ::
  "('k, 'p, 'c, 'd) consumer_env \<Rightarrow> access_event \<Rightarrow> kafka_message \<Rightarrow> ('k, 'p, 'd, write_result) consumer_op" where
  "persist_with_retry env e m =
     persist_attempts (nat (processing_max_attempts (env_config env))) (retry_initial (env_config env)) env e (message_source env m)"

section \<open>Dead letters with retries\<close>

definition dead_letter_of :: "('k, 'p, 'c, 'd) consumer_env \<Rightarrow> kafka_message \<Rightarrow> dead_letter_reason \<Rightarrow> dead_letter" where
  "dead_letter_of env m reason = \<lparr>source_topic = consumer_topic (env_config env), source_partition = message_partition m,
     source_offset = message_offset m, dead_key = message_key m, dead_payload = message_payload m, dead_reason = reason\<rparr>"

definition try_dead_letter :: "('k, 'p, 'c, 'd) consumer_env \<Rightarrow> dead_letter \<Rightarrow> ('k, 'p, 'd) consumer_state \<Rightarrow> bool \<times> ('k, 'p, 'd) consumer_state" where
  "try_dead_letter env r w =
     (case read_clock env w of (now, w1) \<Rightarrow>
        (case publish_dead_letter (env_producer env) (env_json env) (dlq_config (env_config env)) now r (dead_letters w1) of
           (ok, s) \<Rightarrow> (ok, w1\<lparr>dead_letters := s\<rparr>)))"

fun dead_letter_attempts :: "nat \<Rightarrow> int \<Rightarrow> ('k, 'p, 'c, 'd) consumer_env \<Rightarrow> dead_letter \<Rightarrow> ('k, 'p, 'd, unit) consumer_op" where
  "dead_letter_attempts 0 delay env r w =
     (Inl (Runtime_error ''failed to publish access event to DLQ''), note_consumer (record_message Msg_error) w)"
| "dead_letter_attempts (Suc n) delay env r w =
     (case try_dead_letter env r w of
        (True, w1) \<Rightarrow> (Inr (), note_consumer (record_dlq Dlq_success) w1)
      | (False, w1) \<Rightarrow>
          (let w2 = log_failure (note_consumer (record_dlq Dlq_failure) w1)
           in if n = 0 then dead_letter_attempts n delay env r w2
              else dead_letter_attempts n (next_retry_delay delay (retry_max (env_config env))) env r
                     (sleep_ms delay (note_consumer (record_retry Retry_dlq_publish) w2))))"

definition publish_to_dead_letter ::
  "('k, 'p, 'c, 'd) consumer_env \<Rightarrow> kafka_message \<Rightarrow> dead_letter_reason \<Rightarrow> ('k, 'p, 'd, unit) consumer_op" where
  "publish_to_dead_letter env m reason =
     dead_letter_attempts (nat (processing_max_attempts (env_config env))) (retry_initial (env_config env)) env (dead_letter_of env m reason)"

section \<open>Lag and offsets\<close>

definition observe_message_lag ::
  "('k, 'p, 'c, 'd) consumer_env \<Rightarrow> kafka_message \<Rightarrow> bool \<Rightarrow> ('k, 'p, 'd) consumer_state \<Rightarrow> ('k, 'p, 'd) consumer_state" where
  "observe_message_lag env m done w =
     (if message_error m \<noteq> kafka_ok then w
      else (let w1 = (if \<not> done then note_consumer (set_lag (message_partition m) 1) w else w)
            in case cached_watermarks (env_kafka env) (consumer_topic (env_config env)) (message_partition m) (kafka w1) of
                 (err, low, high) \<Rightarrow>
                   if err \<noteq> kafka_ok then w1
                   else (let next = message_offset m + (if done then 1 else 0); least = (if done then 0 else 1)
                         in note_consumer (set_lag (message_partition m) (max least (high - next))) w1)))"

text \<open>The attempt number and the attempts that are left after it.\<close>

fun commit_attempts :: "nat \<Rightarrow> int \<Rightarrow> ('k, 'p, 'c, 'd) consumer_env \<Rightarrow> kafka_message \<Rightarrow> ('k, 'p, 'd, unit) consumer_op" where
  "commit_attempts 0 attempt env m w =
     (Inl (Runtime_error ''failed to commit access event offset after configured attempts''), note_consumer (record_message Msg_error) w)"
| "commit_attempts (Suc n) attempt env m w =
     (case commit_message (env_kafka env) m (kafka w) of
        (err, k) \<Rightarrow>
          if err = kafka_ok
          then (case read_clock env (w\<lparr>kafka := k\<rparr>) of
                  (now, w1) \<Rightarrow> (Inr (), observe_message_lag env m True (note_consumer (record_success (now div 1000)) w1)))
          else (let w1 = log_failure (w\<lparr>kafka := k\<rparr>)
                in if n = 0 then commit_attempts n (attempt + 1) env m w1
                   else commit_attempts n (attempt + 1) env m
                          (sleep_ms (100 * attempt) (note_consumer (record_retry Retry_offset_commit) w1))))"

definition commit_with_retry :: "('k, 'p, 'c, 'd) consumer_env \<Rightarrow> kafka_message \<Rightarrow> ('k, 'p, 'd, unit) consumer_op" where
  "commit_with_retry env m = commit_attempts (nat (offset_commit_max_attempts (env_config env))) 1 env m"

section \<open>One message\<close>

definition send_to_dead_letters ::
  "('k, 'p, 'c, 'd) consumer_env \<Rightarrow> kafka_message \<Rightarrow> dead_letter_reason \<Rightarrow> ('k, 'p, 'd, unit) consumer_op" where
  "send_to_dead_letters env m reason =
     db_bind (publish_to_dead_letter env m reason) (\<lambda>_.
     db_bind (commit_with_retry env m) (\<lambda>_ w. (Inr (), note_consumer (record_message Msg_dlq) w)))"

definition count_message ::
  "('k, 'p, 'c, 'd) consumer_env \<Rightarrow> kafka_message \<Rightarrow> access_event \<Rightarrow> ('k, 'p, 'd, unit) consumer_op" where
  "count_message env m e w =
     (case persist_with_retry env e m w of
        (Inl (Orphan_short_link x), w1) \<Rightarrow> send_to_dead_letters env m Dead_orphan_short_link w1
      | (Inl err, w1) \<Rightarrow> (Inl err, w1)
      | (Inr r, w1) \<Rightarrow>
          db_bind (commit_with_retry env m) (\<lambda>_ w2. (Inr (), note_consumer (record_message (write_result_metric r)) w2)) w1)"

definition handle_message :: "('k, 'p, 'c, 'd) consumer_env \<Rightarrow> kafka_message \<Rightarrow> ('k, 'p, 'd, unit) consumer_op" where
  "handle_message env m w =
     (if message_error m \<noteq> kafka_ok
      then (if message_error m \<noteq> kafka_partition_eof then (Inr (), sleep_ms 250 (log_failure w)) else (Inr (), w))
      else (let parsed = parse_event_detailed (env_json env) (message_payload m)
            in case parsed_event parsed of
                 None \<Rightarrow> send_to_dead_letters env m (dead_letter_reason_of (parse_error parsed)) w
               | Some e \<Rightarrow>
                   if message_key m \<noteq> event_code e then send_to_dead_letters env m Dead_key_code_mismatch w
                   else count_message env m e w))"

section \<open>The loop\<close>

fun lag_entries ::
  "('k, 'p, 'c, 'd) consumer_env \<Rightarrow> topic_partition list \<Rightarrow> (int \<times> int) list \<Rightarrow> ('k, 'p, 'd) consumer_state \<Rightarrow>
   (int \<times> int) list \<times> ('k, 'p, 'd) consumer_state" where
  "lag_entries env [] lags w = (lags, w)"
| "lag_entries env (tp # tps) lags w =
     (case query_watermarks (env_kafka env) (tp_topic tp) (tp_partition tp) (kafka_query_timeout (env_config env)) (kafka w) of
        (err, low, high) \<Rightarrow>
          if err \<noteq> kafka_ok then lag_entries env tps lags (log_failure w)
          else lag_entries env tps
                 (omap_put (tp_partition tp) (max 0 (high - (if tp_offset tp \<ge> 0 then tp_offset tp else low))) lags) w)"

definition refresh_lag :: "('k, 'p, 'c, 'd) consumer_env \<Rightarrow> bool \<Rightarrow> ('k, 'p, 'd) consumer_state \<Rightarrow> ('k, 'p, 'd) consumer_state" where
  "refresh_lag env force w =
     (case read_clock env w of
        (now, w1) \<Rightarrow>
          if \<not> force \<and> now < next_lag_refresh w1 then w1
          else (let w2 = w1\<lparr>next_lag_refresh := now + lag_refresh (env_config env)\<rparr>
                in case current_assignment (env_kafka env) (kafka w2) of
                     (err, assigned) \<Rightarrow>
                       (case (if err \<noteq> kafka_ok then None else assigned) of
                          None \<Rightarrow> w2
                        | Some [] \<Rightarrow> w2
                        | Some tps \<Rightarrow>
                            (case committed_offsets (env_kafka env) tps (kafka_query_timeout (env_config env)) (kafka w2) of
                               (cerr, ctps) \<Rightarrow>
                                 if cerr \<noteq> kafka_ok then log_failure w2
                                 else (case lag_entries env ctps [] w2 of
                                         (lags, w3) \<Rightarrow> note_consumer (replace_lag lags) w3)))))"

fun run_consumer :: "('k, 'p, 'c, 'd) consumer_env \<Rightarrow> kafka_message option list \<Rightarrow> ('k, 'p, 'd, unit) consumer_op" where
  "run_consumer env [] w = (Inr (), w)"
| "run_consumer env (None # polls) w = run_consumer env polls (refresh_lag env False w)"
| "run_consumer env (Some m # polls) w =
     (case handle_message env m (observe_message_lag env m False w) of
        (Inl err, w1) \<Rightarrow> (Inl err, w1)
      | (Inr _, w1) \<Rightarrow> run_consumer env polls w1)"

text \<open>\<open>main\<close> around the loop: the health of the process and its exit code.\<close>

definition consumer_main ::
  "('k, 'p, 'c, 'd) consumer_env \<Rightarrow> kafka_message option list \<Rightarrow> ('k, 'p, 'd) consumer_state \<Rightarrow> int \<times> ('k, 'p, 'd) consumer_state" where
  "consumer_main env polls w =
     (case run_consumer env polls (note_consumer (set_healthy True) w) of
        (Inl err, w1) \<Rightarrow> (1, note_consumer (set_healthy False) w1)
      | (Inr _, w1) \<Rightarrow> (0, note_consumer (set_healthy False) w1))"

section \<open>Lemmas: counting\<close>

lemma settle_none: "settle_result e t = None \<Longrightarrow> settle e src t = t"
  by (auto simp: settle_result_def settle_def split: if_splits option.splits)

lemma settle_changes: "settle e src t \<noteq> t \<Longrightarrow> settle_result e (settle e src t) = Some Write_duplicate"
  by (auto simp: settle_def settle_result_def count_event_def Let_def split: if_splits option.splits)

lemma settled_result: "settle_result e (settle e src t) \<noteq> None \<Longrightarrow> settle_result e t \<noteq> None"
  using settle_none by metis

lemmas consumer_step_defs = log_failure_def note_consumer_def sleep_ms_def read_clock_def

context statistics_tables
begin

text \<open>The tables after one or more attempts to count an event, with the result of the last one.\<close>

definition attempted :: "access_event \<Rightarrow> source_position \<Rightarrow> stats_tables \<Rightarrow> (exn + write_result) \<Rightarrow> 'd \<Rightarrow> bool" where
  "attempted e src t0 res d \<longleftrightarrow> working d = None \<and>
     (case res of
        Inr r \<Rightarrow> settle_result e t0 \<noteq> None \<and> committed d = settle e src t0
      | Inl err \<Rightarrow> (case err of Orphan_short_link x \<Rightarrow> settle_result e t0 = None \<and> committed d = t0
                   | _ \<Rightarrow> committed d \<in> {t0, settle e src t0}))"

lemma process_attempted:
  assumes "working d = None" and "process_event D c e src d = (res, d')"
  shows "attempted e src (committed d) res d'"
proof (cases "is_valid_event e \<and> validate_source src = None")
  case True
  then have "processed_as e src (committed d) res d'" using process_spec assms by blast
  then show ?thesis
    by (auto simp: attempted_def processed_as_def thrown_by_def split: sum.splits exn.splits)
next
  case False
  then show ?thesis
    using assms by (auto simp: process_event_def validate_source_def attempted_def split: if_splits)
qed

lemma attempted_again:
  assumes "committed d \<in> {t0, settle e src t0}" and "attempted e src (committed d) res d'"
  shows "attempted e src t0 res d'"
proof (cases "committed d = t0")
  case False
  then have d: "committed d = settle e src t0" using assms(1) by simp
  show ?thesis
  proof (cases res)
    case (Inr r)
    then show ?thesis using assms(2) d settled_result [of e src t0] by (simp add: attempted_def)
  next
    case (Inl err)
    have "settle_result e (settle e src t0) \<noteq> None" using False d settle_changes [of e src t0] by simp
    then show ?thesis using assms(2) d Inl by (cases err) (auto simp: attempted_def)
  qed
qed (use assms in simp)

lemma persist_attempted:
  assumes "env_driver env = D" and "env_connection env = c"
  shows "persist_attempts n delay env e src w = (res, w') \<Longrightarrow> working (stats_db w) = None \<Longrightarrow>
     committed (stats_db w) \<in> {t0, settle e src t0} \<Longrightarrow>
     attempted e src t0 res (stats_db w') \<and> kafka w' = kafka w \<and> dead_letters w' = dead_letters w"
proof (induction n arbitrary: delay w)
  case 0
  then show ?case by (auto simp: attempted_def)
next
  case (Suc n)
  obtain r1 d1 where p: "process_event D c e src (stats_db w) = (r1, d1)" by fastforce
  have a: "attempted e src t0 r1 d1" using attempted_again [OF Suc.prems(3) process_attempted [OF Suc.prems(2) p]] .
  have run: "on_database (process_event (env_driver env) (env_connection env) e src) w = (r1, w\<lparr>stats_db := d1\<rparr>)"
    using p assms by (simp add: on_database_def)
  show ?case
  proof (cases "\<exists>err. r1 = Inl err \<and> (\<forall>x. err \<noteq> Orphan_short_link x)")
    case False
    then have "res = r1 \<and> w' = w\<lparr>stats_db := d1\<rparr>"
      using Suc.prems(1) run by (auto split: sum.splits exn.splits)
    then show ?thesis using a by simp
  next
    case True
    then obtain err where err: "r1 = Inl err" "\<And>x. err \<noteq> Orphan_short_link x" by blast
    have d1: "working d1 = None" "committed d1 \<in> {t0, settle e src t0}"
      using a err by (cases err; simp add: attempted_def)+
    show ?thesis
    proof (cases "n = 0")
      case True
      then have "res = Inl err \<and> w' = note_consumer (record_message Msg_error) (log_failure (w\<lparr>stats_db := d1\<rparr>))"
        using Suc.prems(1) run err by (auto simp: Let_def split: exn.splits)
      then show ?thesis using a err(1) by (simp add: consumer_step_defs)
    next
      case False
      let ?w3 = "sleep_ms delay (note_consumer (record_retry Retry_mysql) (log_failure (w\<lparr>stats_db := d1\<rparr>)))"
      obtain r2 d2 where q: "driver_reconnect D c (stats_db ?w3) = (r2, d2)" by fastforce
      then have d2: "committed d2 = committed d1" "working d2 = None"
        using reconnect_law [OF q] by (simp_all add: consumer_step_defs)
      let ?w4 = "case r2 of Inl m \<Rightarrow> log_failure (?w3\<lparr>stats_db := d2\<rparr>) | Inr u \<Rightarrow> ?w3\<lparr>stats_db := d2\<rparr>"
      have same: "stats_db ?w4 = d2" "kafka ?w4 = kafka w" "dead_letters ?w4 = dead_letters w"
        by (simp_all add: consumer_step_defs split: sum.split)
      have again: "on_database (reconnect (env_driver env) (env_connection env)) ?w3 =
          (case r2 of Inl m \<Rightarrow> Inl (Db_exception m) | Inr u \<Rightarrow> Inr u, ?w3\<lparr>stats_db := d2\<rparr>)"
        using q assms by (simp add: on_database_def reconnect_def as_db_exception_def split: sum.split)
      have "persist_attempts n (next_retry_delay delay (retry_max (env_config env))) env e src ?w4 = (res, w')"
        using Suc.prems(1) run err False again by (cases r2; cases err; simp add: Let_def)
      note w4 = same this
      show ?thesis
        using Suc.IH [OF w4(4)] w4 d1 d2 by simp
    qed
  qed
qed

end

section \<open>Lemmas: one message\<close>

lemma commit_keeps:
  "commit_attempts n a env m w = (res, w') \<Longrightarrow> stats_db w' = stats_db w \<and> dead_letters w' = dead_letters w"
proof (induction n arbitrary: a w)
  case (Suc n)
  obtain err k where c: "commit_message (env_kafka env) m (kafka w) = (err, k)" by fastforce
  let ?w1 = "log_failure (w\<lparr>kafka := k\<rparr>)"
  let ?w2 = "sleep_ms (100 * a) (note_consumer (record_retry Retry_offset_commit) ?w1)"
  have keep: "stats_db ?w1 = stats_db w" "dead_letters ?w1 = dead_letters w" "stats_db ?w2 = stats_db w" "dead_letters ?w2 = dead_letters w"
    by (simp_all add: consumer_step_defs)
  show ?case
  proof (cases "err = kafka_ok")
    case True
    then show ?thesis
      using Suc.prems c by (auto simp: observe_message_lag_def consumer_step_defs Let_def split: prod.splits)
  next
    case False
    then have "commit_attempts n (a + 1) env m (if n = 0 then ?w1 else ?w2) = (res, w')"
      using Suc.prems c by (simp add: Let_def split: if_splits)
    from Suc.IH [OF this] keep show ?thesis by (simp split: if_splits)
  qed
qed (auto simp: consumer_step_defs)

lemma dead_letter_keeps:
  "dead_letter_attempts n delay env r w = (res, w') \<Longrightarrow> stats_db w' = stats_db w \<and> kafka w' = kafka w \<and>
   (res = Inr () \<longrightarrow> (\<exists>now s. publish_dead_letter (env_producer env) (env_json env) (dlq_config (env_config env)) now r s = (True, dead_letters w')))"
proof (induction n arbitrary: delay w)
  case (Suc n)
  obtain ok s where p: "publish_dead_letter (env_producer env) (env_json env) (dlq_config (env_config env))
      (env_clock env (clock_reads w)) r (dead_letters w) = (ok, s)" by fastforce
  then have t: "try_dead_letter env r w = (ok, w\<lparr>clock_reads := Suc (clock_reads w), dead_letters := s\<rparr>)"
    by (simp add: try_dead_letter_def read_clock_def)
  show ?case
  proof (cases ok)
    case True
    then have "res = Inr () \<and> w' = note_consumer (record_dlq Dlq_success) (w\<lparr>clock_reads := Suc (clock_reads w), dead_letters := s\<rparr>)"
      using Suc.prems t by auto
    then show ?thesis using p True by (simp add: consumer_step_defs) blast
  next
    case False
    let ?w1 = "log_failure (note_consumer (record_dlq Dlq_failure) (w\<lparr>clock_reads := Suc (clock_reads w), dead_letters := s\<rparr>))"
    let ?w2 = "if n = 0 then ?w1 else sleep_ms delay (note_consumer (record_retry Retry_dlq_publish) ?w1)"
    have "dead_letter_attempts n (if n = 0 then delay else next_retry_delay delay (retry_max (env_config env))) env r ?w2 = (res, w')"
      using Suc.prems t False by (simp add: Let_def split: if_splits)
    moreover have "stats_db ?w2 = stats_db w" "kafka ?w2 = kafka w" by (simp_all add: consumer_step_defs)
    ultimately show ?thesis using Suc.IH by metis
  qed
qed (auto simp: consumer_step_defs)

text \<open>The event a message stands for, when it is counted and not sent to the dead letters at once.\<close>

definition delivery :: "('k, 'p, 'c, 'd) consumer_env \<Rightarrow> kafka_message \<Rightarrow> (access_event \<times> source_position) list" where
  "delivery env m =
     (if message_error m \<noteq> kafka_ok then []
      else (case parsed_event (parse_event_detailed (env_json env) (message_payload m)) of
              Some e \<Rightarrow> if message_key m = event_code e then [(e, message_source env m)] else []
            | None \<Rightarrow> []))"

definition settle_all :: "(access_event \<times> source_position) list \<Rightarrow> stats_tables \<Rightarrow> stats_tables" where
  "settle_all ds t = fold (\<lambda>(e, src). settle e src) ds t"

definition reason_for :: "('k, 'p, 'c, 'd) consumer_env \<Rightarrow> kafka_message \<Rightarrow> stats_tables \<Rightarrow> dead_letter_reason option" where
  "reason_for env m t =
     (let parsed = parse_event_detailed (env_json env) (message_payload m)
      in case parsed_event parsed of
           None \<Rightarrow> Some (dead_letter_reason_of (parse_error parsed))
         | Some e \<Rightarrow>
             if message_key m \<noteq> event_code e then Some Dead_key_code_mismatch
             else if settle_result e t = None then Some Dead_orphan_short_link else None)"

text \<open>The record of the message is in the dead-letter topic.\<close>

definition dead_lettered :: "('k, 'p, 'c, 'd) consumer_env \<Rightarrow> kafka_message \<Rightarrow> dead_letter_reason \<Rightarrow> 'p dead_letter_state \<Rightarrow> bool" where
  "dead_lettered env m reason s \<longleftrightarrow>
     (\<exists>now s0. publish_dead_letter (env_producer env) (env_json env) (dlq_config (env_config env)) now (dead_letter_of env m reason) s0 = (True, s))"

text \<open>A handled message is either counted or a dead letter, and not before that is its offset committed.\<close>

lemma send_to_dead_letters_spec:
  assumes "send_to_dead_letters env m reason w = (res, w')"
  shows "stats_db w' = stats_db w \<and>
     ((res \<noteq> Inr () \<and> kafka w' = kafka w) \<or> dead_lettered env m reason (dead_letters w'))"
proof -
  obtain r1 w1 where p: "publish_to_dead_letter env m reason w = (r1, w1)" by fastforce
  then have k: "stats_db w1 = stats_db w" "kafka w1 = kafka w" "r1 = Inr () \<longrightarrow> dead_lettered env m reason (dead_letters w1)"
    using dead_letter_keeps [OF p [unfolded publish_to_dead_letter_def]] by (auto simp: dead_lettered_def)
  show ?thesis
  proof (cases r1)
    case (Inl err)
    then show ?thesis using assms p k by (auto simp: send_to_dead_letters_def db_bind_def)
  next
    case (Inr u)
    obtain r2 w2 where c: "commit_with_retry env m w1 = (r2, w2)" by fastforce
    then have "stats_db w2 = stats_db w1" "dead_letters w2 = dead_letters w1"
      using commit_keeps [of _ 1 env m w1] by (auto simp: commit_with_retry_def)
    then show ?thesis
      using assms p c Inr k by (auto simp: send_to_dead_letters_def db_bind_def note_consumer_def split: sum.splits)
  qed
qed

context statistics_tables
begin

text \<open>Either the message is not committed and the tables are the old or the settled ones, or it is settled.\<close>

definition handled :: "('k, 'p, 'c, 'd) consumer_env \<Rightarrow> kafka_message \<Rightarrow> (exn + unit) \<Rightarrow> ('k, 'p, 'd) consumer_state \<Rightarrow>
    ('k, 'p, 'd) consumer_state \<Rightarrow> bool" where
  "handled env m res w w' \<longleftrightarrow> working (stats_db w') = None \<and>
     ((res \<noteq> Inr () \<and> kafka w' = kafka w \<and>
         committed (stats_db w') \<in> {committed (stats_db w), settle_all (delivery env m) (committed (stats_db w))}) \<or>
      (committed (stats_db w') = settle_all (delivery env m) (committed (stats_db w)) \<and>
         (message_error m = kafka_ok \<longrightarrow>
            (\<forall>r. reason_for env m (committed (stats_db w)) = Some r \<longrightarrow> dead_lettered env m r (dead_letters w')))))"

lemma count_message_spec:
  assumes env: "env_driver env = D" "env_connection env = c"
    and m: "message_error m = kafka_ok" "parsed_event (parse_event_detailed (env_json env) (message_payload m)) = Some e"
      "message_key m = event_code e"
    and w: "working (stats_db w) = None" "count_message env m e w = (res, w')"
  shows "handled env m res w w'"
proof -
  let ?t = "committed (stats_db w)"
  let ?src = "message_source env m"
  have d: "settle_all (delivery env m) ?t = settle e ?src ?t" using m by (simp add: delivery_def settle_all_def)
  have r: "reason_for env m ?t = (if settle_result e ?t = None then Some Dead_orphan_short_link else None)"
    using m by (simp add: reason_for_def Let_def)
  obtain r1 w1 where p: "persist_with_retry env e m w = (r1, w1)" by fastforce
  have a: "attempted e ?src ?t r1 (stats_db w1)" "kafka w1 = kafka w"
    using persist_attempted [OF env p [unfolded persist_with_retry_def] w(1)] by auto
  show ?thesis
  proof (cases r1)
    case (Inr x)
    obtain r2 w2 where c: "commit_with_retry env m w1 = (r2, w2)" by fastforce
    then have k: "stats_db w2 = stats_db w1" using commit_keeps [of _ 1 env m w1] by (auto simp: commit_with_retry_def)
    have "stats_db w' = stats_db w2"
      using w(2) p Inr c by (auto simp: count_message_def db_bind_def note_consumer_def split: sum.splits)
    then show ?thesis using a k d r Inr by (auto simp: handled_def attempted_def)
  next
    case (Inl err)
    show ?thesis
    proof (cases "\<exists>x. err = Orphan_short_link x")
      case True
      then obtain x where x: "err = Orphan_short_link x" by blast
      then have "send_to_dead_letters env m Dead_orphan_short_link w1 = (res, w')"
        using w(2) p Inl by (simp add: count_message_def)
      from send_to_dead_letters_spec [OF this] show ?thesis
        using a d r Inl x settle_none [of e ?t ?src] by (auto simp: handled_def attempted_def)
    next
      case False
      then have "res = Inl err \<and> w' = w1" using w(2) p Inl by (auto simp: count_message_def split: exn.splits)
      then show ?thesis using a d Inl False by (cases err) (simp_all add: handled_def attempted_def)
    qed
  qed
qed

lemma handle_message_spec:
  assumes env: "env_driver env = D" "env_connection env = c"
    and w: "working (stats_db w) = None" "handle_message env m w = (res, w')"
  shows "handled env m res w w'"
proof (cases "message_error m = kafka_ok")
  case False
  then have "stats_db w' = stats_db w" "res = Inr ()"
    using w(2) by (auto simp: handle_message_def consumer_step_defs split: if_splits)
  then show ?thesis using False w(1) by (simp add: handled_def delivery_def settle_all_def)
next
  case True
  have dead: "handled env m res w w'"
    if "send_to_dead_letters env m reason w = (res, w')" "delivery env m = []" "reason_for env m (committed (stats_db w)) = Some reason" for reason
    using send_to_dead_letters_spec [OF that(1)] that(2,3) w(1) by (auto simp: handled_def settle_all_def)
  show ?thesis
  proof (cases "parsed_event (parse_event_detailed (env_json env) (message_payload m))")
    case None
    then show ?thesis
      using w(2) True by (intro dead) (simp_all add: handle_message_def Let_def delivery_def reason_for_def)
  next
    case (Some e)
    show ?thesis
    proof (cases "message_key m = event_code e")
      case key: True
      then show ?thesis
        using w True Some env by (intro count_message_spec) (simp_all add: handle_message_def Let_def)
    next
      case False
      then show ?thesis
        using w(2) True Some by (intro dead) (simp_all add: handle_message_def Let_def delivery_def reason_for_def)
    qed
  qed
qed

end

section \<open>Lemmas: the loop\<close>

definition all_deliveries :: "('k, 'p, 'c, 'd) consumer_env \<Rightarrow> kafka_message option list \<Rightarrow> (access_event \<times> source_position) list" where
  "all_deliveries env polls = concat (map (\<lambda>p. case p of None \<Rightarrow> [] | Some m \<Rightarrow> delivery env m) polls)"

lemma settle_all_append: "settle_all (ds @ es) t = settle_all es (settle_all ds t)"
  by (simp add: settle_all_def)

lemma lag_entries_keeps: "lag_entries env tps lags w = (l, w') \<Longrightarrow> stats_db w' = stats_db w"
  by (induction env tps lags w rule: lag_entries.induct) (auto simp: consumer_step_defs split: prod.splits if_splits)

lemma lag_keeps:
  "stats_db (observe_message_lag env m b w) = stats_db w" "stats_db (refresh_lag env b w) = stats_db w"
  by (auto simp: observe_message_lag_def refresh_lag_def consumer_step_defs Let_def dest: lag_entries_keeps
      split: prod.splits if_splits option.splits list.splits)

context statistics_tables
begin

lemma run_settles:
  assumes env: "env_driver env = D" "env_connection env = c"
  shows "run_consumer env polls w = (res, w') \<Longrightarrow> working (stats_db w) = None \<Longrightarrow>
     working (stats_db w') = None \<and>
     (\<exists>k. committed (stats_db w') = settle_all (take k (all_deliveries env polls)) (committed (stats_db w)) \<and>
        (res = Inr () \<longrightarrow> k = length (all_deliveries env polls)))"
proof (induction polls arbitrary: w)
  case Nil
  then show ?case by (auto simp: all_deliveries_def settle_all_def)
next
  case (Cons p polls)
  show ?case
  proof (cases p)
    case None
    then show ?thesis
      using Cons.IH [of "refresh_lag env False w"] Cons.prems lag_keeps(2) [of env False w] by (simp add: all_deliveries_def)
  next
    case (Some m)
    let ?w0 = "observe_message_lag env m False w"
    obtain r1 w1 where h: "handle_message env m ?w0 = (r1, w1)" by fastforce
    have "handled env m r1 ?w0 w1"
      by (rule handle_message_spec [OF env _ h]) (simp add: lag_keeps Cons.prems)
    then have w1: "working (stats_db w1) = None"
      "committed (stats_db w1) \<in> {committed (stats_db w), settle_all (delivery env m) (committed (stats_db w))}"
      "r1 = Inr () \<Longrightarrow> committed (stats_db w1) = settle_all (delivery env m) (committed (stats_db w))"
      by (auto simp: handled_def lag_keeps)
    have all: "all_deliveries env (p # polls) = delivery env m @ all_deliveries env polls"
      using Some by (simp add: all_deliveries_def)
    show ?thesis
    proof (cases r1)
      case (Inr u)
      then have "run_consumer env polls w1 = (res, w')" using Cons.prems Some h by simp
      from Cons.IH [OF this w1(1)] obtain k where k: "working (stats_db w') = None"
        "committed (stats_db w') = settle_all (take k (all_deliveries env polls)) (committed (stats_db w1))"
        "res = Inr () \<longrightarrow> k = length (all_deliveries env polls)" by blast
      then have "committed (stats_db w') =
          settle_all (take (length (delivery env m) + k) (all_deliveries env (p # polls))) (committed (stats_db w))"
        using w1(3) Inr by (simp add: all settle_all_append)
      then show ?thesis using k(1,3) by (intro conjI exI [of _ "length (delivery env m) + k"]) (simp_all add: all)
    next
      case (Inl err)
      then have "res = Inl err" "w' = w1" using Cons.prems Some h by auto
      moreover have "\<exists>k. committed (stats_db w1) = settle_all (take k (all_deliveries env (p # polls))) (committed (stats_db w))"
        using w1(2)
      proof
        assume "committed (stats_db w1) = committed (stats_db w)"
        then show ?thesis by (intro exI [of _ 0]) (simp add: settle_all_def)
      next
        assume "committed (stats_db w1) \<in> {settle_all (delivery env m) (committed (stats_db w))}"
        then show ?thesis by (intro exI [of _ "length (delivery env m)"]) (simp add: all)
      qed
      ultimately show ?thesis using w1(1) by blast
    qed
  qed
qed

end

section \<open>Lemmas: the counters\<close>

definition total_of :: "stats_tables \<Rightarrow> u64 \<Rightarrow> string \<Rightarrow> nat" where
  "total_of t l result = (case totals t (l, result) of None \<Rightarrow> 0 | Some r \<Rightarrow> total_count r)"

definition hour_of :: "stats_tables \<Rightarrow> u64 \<Rightarrow> int \<Rightarrow> string \<Rightarrow> nat" where
  "hour_of t l bucket result = (case hourly t (l, bucket, result) of None \<Rightarrow> 0 | Some n \<Rightarrow> n)"

text \<open>The ids of the delivered events that count for a link and a result, and those that are remembered.\<close>

definition counted_ids :: "(string \<Rightarrow> u64 option) \<Rightarrow> (access_event \<times> source_position) list \<Rightarrow> u64 \<Rightarrow> string \<Rightarrow> (access_event \<Rightarrow> bool) \<Rightarrow> string set" where
  "counted_ids codes ds l result P =
     event_id ` {e \<in> fst ` set ds. event_result e \<noteq> Access_not_found \<and> codes (event_code e) = Some l \<and>
       access_result_to_string (event_result e) = result \<and> P e}"

definition known_ids :: "(string \<Rightarrow> u64 option) \<Rightarrow> (access_event \<times> source_position) list \<Rightarrow> string set" where
  "known_ids codes ds = event_id ` {e \<in> fst ` set ds. event_result e = Access_not_found \<or> codes (event_code e) \<noteq> None}"

definition event_hour :: "access_event \<Rightarrow> int" where
  "event_hour e = occurred_at_ms e div 1000 - occurred_at_ms e div 1000 mod 3600"

definition no_statistics_yet :: "stats_tables \<Rightarrow> bool" where
  "no_statistics_yet t \<longleftrightarrow> processed t = (\<lambda>k. None) \<and> totals t = (\<lambda>k. None) \<and> hourly t = (\<lambda>k. None)"

definition ids_name_events :: "(access_event \<times> source_position) list \<Rightarrow> bool" where
  "ids_name_events ds \<longleftrightarrow> inj_on event_id (fst ` set ds)"

lemma known_ids_snoc:
  "known_ids codes (ds @ [(e, src)]) =
     (if event_result e = Access_not_found \<or> codes (event_code e) \<noteq> None then insert (event_id e) (known_ids codes ds) else known_ids codes ds)"
  by (auto simp: known_ids_def)

lemma counted_ids_snoc:
  "counted_ids codes (ds @ [(e, src)]) l r P =
     (if event_result e \<noteq> Access_not_found \<and> codes (event_code e) = Some l \<and> access_result_to_string (event_result e) = r \<and> P e
      then insert (event_id e) (counted_ids codes ds l r P) else counted_ids codes ds l r P)"
  by (auto simp: counted_ids_def)

lemma counted_ids_known: "counted_ids codes ds l r P \<subseteq> known_ids codes ds"
  by (auto simp: counted_ids_def known_ids_def)

lemma finite_counted_ids [simp]: "finite (counted_ids codes ds l r P)"
  by (simp add: counted_ids_def)

lemma delivered_again:
  assumes "e \<in> fst ` set ds"
  shows "known_ids codes (ds @ [(e, src)]) = known_ids codes ds" "counted_ids codes (ds @ [(e, src)]) l r P = counted_ids codes ds l r P"
  using assms by (auto simp: known_ids_def counted_ids_def)

lemma dom_one_more: "dom (\<lambda>a. if a = k then Some v else m a) = insert k (dom m)"
  by (auto simp: dom_def)

lemma count_event_fields:
  "total_of (count_event e src l t) l' r = total_of t l' r + (if l = l' \<and> access_result_to_string (event_result e) = r then 1 else 0)"
  "hour_of (count_event e src l t) l' b r =
     hour_of t l' b r + (if l = l' \<and> access_result_to_string (event_result e) = r \<and> event_hour e = b then 1 else 0)"
  "dom (processed (count_event e src l t)) = insert (event_id e) (dom (processed t))"
  "link_ids (count_event e src l t) = link_ids t"
  by (auto simp: total_of_def hour_of_def count_event_def event_hour_def Let_def split: option.split if_splits)

lemma settle_all_counts:
  assumes "no_statistics_yet t0" and "ids_name_events ds"
  shows "link_ids (settle_all ds t0) = link_ids t0 \<and> dom (processed (settle_all ds t0)) = known_ids (link_ids t0) ds \<and>
     (\<forall>l r. total_of (settle_all ds t0) l r = card (counted_ids (link_ids t0) ds l r (\<lambda>e. True))) \<and>
     (\<forall>l b r. hour_of (settle_all ds t0) l b r = card (counted_ids (link_ids t0) ds l r (\<lambda>e. event_hour e = b)))"
  using assms(2)
proof (induction ds rule: rev_induct)
  case Nil
  then show ?case
    using assms(1) by (simp add: settle_all_def known_ids_def counted_ids_def total_of_def hour_of_def no_statistics_yet_def)
next
  case (snoc d ds)
  obtain e src where d: "d = (e, src)" by fastforce
  let ?t = "settle_all ds t0"
  have inj: "ids_name_events ds" using snoc.prems by (auto simp: ids_name_events_def inj_on_def)
  note IH = snoc.IH [OF inj]
  have step: "settle_all (ds @ [(e, src)]) t0 = settle e src ?t" by (simp add: settle_all_def)
  let ?L = "link_ids t0"
  have fresh: "event_id e \<notin> counted_ids ?L ds l r P" if "processed ?t (event_id e) = None" for l r P
    using that IH counted_ids_known [of ?L ds l r P] by auto
  consider (again) "processed ?t (event_id e) \<noteq> None"
    | (ignored) "processed ?t (event_id e) = None" "event_result e = Access_not_found"
    | (orphan) "processed ?t (event_id e) = None" "event_result e \<noteq> Access_not_found" "?L (event_code e) = None"
    | (new) l where "processed ?t (event_id e) = None" "event_result e \<noteq> Access_not_found" "?L (event_code e) = Some l"
    by (cases "?L (event_code e)") blast+
  then show ?case
  proof cases
    case again
    then have "event_id e \<in> known_ids ?L ds" using IH by auto
    then obtain e' where e': "e' \<in> fst ` set ds" "event_id e' = event_id e"
      unfolding known_ids_def by (metis (no_types, lifting) imageE mem_Collect_eq)
    have "inj_on event_id (fst ` set (ds @ [d]))" using snoc.prems by (simp add: ids_name_events_def)
    from inj_onD [OF this e'(2)] have "e' = e" using e'(1) d by simp
    then have "e \<in> fst ` set ds" using e' by simp
    then show ?thesis using IH again by (simp add: step settle_def d delivered_again)
  next
    case ignored
    then show ?thesis
      using IH by (simp add: step settle_def d known_ids_snoc counted_ids_snoc total_of_def hour_of_def dom_one_more)
  next
    case orphan
    then show ?thesis
      using IH by (simp add: step settle_def d known_ids_snoc counted_ids_snoc)
  next
    case new
    have "settle e src ?t = count_event e src l ?t" using new IH by (simp add: settle_def)
    then show ?thesis
      using IH new fresh [OF new(1)] unfolding d step by (simp add: count_event_fields known_ids_snoc counted_ids_snoc)
  qed
qed

section \<open>Lemmas: retries\<close>

lemma next_retry_delay_min: "next_retry_delay delay maximum = min (2 * delay) maximum"
  by (auto simp: next_retry_delay_def min_def)

text \<open>The \<open>i\<close>-th delay doubles the initial one up to the maximum.\<close>

definition backoff :: "consumer_config \<Rightarrow> nat \<Rightarrow> int" where
  "backoff cfg i = min (retry_initial cfg * 2 ^ i) (retry_max cfg)"

lemma backoff_next:
  assumes "0 < retry_initial cfg" and "retry_initial cfg \<le> retry_max cfg"
  shows "next_retry_delay (backoff cfg i) (retry_max cfg) = backoff cfg (Suc i)"
proof -
  define x where "x = retry_initial cfg * 2 ^ i"
  have "0 < x" using assms(1) by (simp add: x_def)
  moreover have "backoff cfg i = min x (retry_max cfg)" "backoff cfg (Suc i) = min (2 * x) (retry_max cfg)"
    by (simp_all add: backoff_def x_def)
  ultimately show ?thesis using assms by (auto simp: next_retry_delay_min min_def)
qed

lemma backoff_range: "0 < retry_initial cfg \<Longrightarrow> retry_initial cfg \<le> retry_max cfg \<Longrightarrow> retry_initial cfg \<le> backoff cfg i \<and> backoff cfg i \<le> retry_max cfg"
  by (simp add: backoff_def)

lemma slept_steps [simp]:
  "slept (log_failure w) = slept w" "slept (note_consumer f w) = slept w" "slept (sleep_ms d w) = slept w @ [d]"
  by (simp_all add: consumer_step_defs)

lemma slept_database [simp]: "on_database f w = (r, w') \<Longrightarrow> slept w' = slept w"
  by (auto simp: on_database_def split: prod.splits)

lemma backoff_cons: "map (backoff cfg) [i..<Suc (i + k)] = backoff cfg i # map (backoff cfg) [Suc i..<Suc (i + k)]"
  by (simp add: upt_conv_Cons del: upt_Suc)

lemma persist_slept:
  assumes "0 < retry_initial (env_config env)" and "retry_initial (env_config env) \<le> retry_max (env_config env)"
  shows "persist_attempts n (backoff (env_config env) i) env e src w = (res, w') \<Longrightarrow>
     \<exists>k. (n = 0 \<or> k < n) \<and> slept w' = slept w @ map (backoff (env_config env)) [i..<i + k]"
proof (induction n arbitrary: i w)
  case 0
  then show ?case by (intro exI [of _ 0]) simp
next
  case (Suc n)
  obtain r1 w1 where p: "on_database (process_event (env_driver env) (env_connection env) e src) w = (r1, w1)" by fastforce
  note s1 = slept_database [OF p]
  show ?case
  proof (cases "n = 0 \<or> (\<forall>err. r1 = Inl err \<longrightarrow> (\<exists>x. err = Orphan_short_link x))")
    case True
    then have "slept w' = slept w"
      using Suc.prems p s1 by (auto simp: Let_def split: sum.splits exn.splits)
    then show ?thesis by (intro exI [of _ 0]) simp
  next
    case False
    then obtain err where err: "r1 = Inl err" "\<And>x. err \<noteq> Orphan_short_link x" "n \<noteq> 0" by blast
    let ?d = "backoff (env_config env) i"
    let ?w3 = "sleep_ms ?d (note_consumer (record_retry Retry_mysql) (log_failure w1))"
    obtain r2 w4 where q: "on_database (reconnect (env_driver env) (env_connection env)) ?w3 = (r2, w4)" by fastforce
    let ?w5 = "case r2 of Inl x \<Rightarrow> log_failure w4 | Inr u \<Rightarrow> w4"
    have "persist_attempts n (backoff (env_config env) (Suc i)) env e src ?w5 = (res, w')"
      using Suc.prems p q err assms by (cases r2; cases err; simp add: Let_def backoff_next)
    from Suc.IH [OF this] obtain k where k: "k < n" "slept w' = slept ?w5 @ map (backoff (env_config env)) [Suc i..<Suc i + k]"
      using err(3) by blast
    moreover have "slept ?w5 = slept w @ [?d]" using slept_database [OF q] s1 by (simp split: sum.split)
    ultimately show ?thesis by (intro exI [of _ "Suc k"]) (simp add: backoff_cons del: upt_Suc)
  qed
qed

lemma dead_letter_slept:
  assumes "0 < retry_initial (env_config env)" and "retry_initial (env_config env) \<le> retry_max (env_config env)"
  shows "dead_letter_attempts n (backoff (env_config env) i) env r w = (res, w') \<Longrightarrow>
     \<exists>k. (n = 0 \<or> k < n) \<and> slept w' = slept w @ map (backoff (env_config env)) [i..<i + k]"
proof (induction n arbitrary: i w)
  case 0
  then show ?case by (intro exI [of _ 0]) auto
next
  case (Suc n)
  obtain ok w1 where t: "try_dead_letter env r w = (ok, w1)" by fastforce
  then have s1: "slept w1 = slept w" by (auto simp: try_dead_letter_def read_clock_def split: prod.splits)
  show ?case
  proof (cases "ok \<or> n = 0")
    case True
    then have "slept w' = slept w" using Suc.prems t s1 by (cases ok) (auto simp: Let_def)
    then show ?thesis by (intro exI [of _ 0]) simp
  next
    case False
    let ?d = "backoff (env_config env) i"
    let ?w2 = "sleep_ms ?d (note_consumer (record_retry Retry_dlq_publish) (log_failure (note_consumer (record_dlq Dlq_failure) w1)))"
    have "dead_letter_attempts n (backoff (env_config env) (Suc i)) env r ?w2 = (res, w')"
      using Suc.prems t False assms by (simp add: Let_def backoff_next)
    from Suc.IH [OF this] obtain k where k: "k < n" "slept w' = slept ?w2 @ map (backoff (env_config env)) [Suc i..<Suc i + k]"
      using False by blast
    then show ?thesis using s1 by (intro exI [of _ "Suc k"]) (simp add: backoff_cons del: upt_Suc)
  qed
qed

text \<open>The faults that the plain server still has in store.\<close>

definition faults_left :: "plain_db \<Rightarrow> nat" where
  "faults_left d = length (filter id (plain_faults d))"

text \<open>An operation that fails with a database exception has used up a fault.\<close>

definition uses_faults :: "nat \<Rightarrow> (plain_db, 'a) db_op \<Rightarrow> bool" where
  "uses_faults n m \<longleftrightarrow> db_hoare (\<lambda>d. faults_left d \<le> n) m (\<lambda>x d. faults_left d \<le> n)
     (\<lambda>e d. faults_left d \<le> n \<and> ((\<exists>t. e = Db_exception t) \<longrightarrow> faults_left d < n))"

lemma next_fault_left: "next_fault d = (b, d1) \<Longrightarrow> faults_left d = faults_left d1 + (if b then 1 else 0)"
  by (auto simp: next_fault_def faults_left_def split: list.splits)

lemma faults_left_same [simp]:
  "faults_left (d\<lparr>plain_view := v\<rparr>) = faults_left d" "faults_left (d\<lparr>plain_tables := t\<rparr>) = faults_left d"
  by (simp_all add: faults_left_def)

lemma plain_raw_left: "plain_raw s d = (r, d') \<Longrightarrow> (\<exists>n. r = Inr n) \<and> faults_left d' = faults_left d"
  by (cases s) auto

lemma plain_update_left: "plain_update u d = (r, d') \<Longrightarrow> (\<exists>n. r = Inr n) \<and> faults_left d' = faults_left d"
  by (auto simp: plain_update_def split: option.splits prod.splits)

lemma uses_faults_call:
  assumes "\<And>d r d'. g d = (r, d') \<Longrightarrow> (\<exists>x. r = Inr x \<and> Q x) \<and> faults_left d' = faults_left d"
  shows "db_hoare (\<lambda>d. faults_left d \<le> n) (as_db_exception (\<lambda>d. case next_fault d of (True, d1) \<Rightarrow> lost d1 | (False, d1) \<Rightarrow> g d1))
     (\<lambda>x d. faults_left d \<le> n \<and> Q x) (\<lambda>e d. faults_left d \<le> n \<and> ((\<exists>t. e = Db_exception t) \<longrightarrow> faults_left d < n))"
proof (rule db_hoareI)
  fix d r d'
  assume n: "faults_left d \<le> n"
    and run: "as_db_exception (\<lambda>d. case next_fault d of (True, d1) \<Rightarrow> lost d1 | (False, d1) \<Rightarrow> g d1) d = (r, d')"
  obtain b d1 where f: "next_fault d = (b, d1)" by fastforce
  obtain r2 d2 where g: "g d1 = (r2, d2)" by fastforce
  show "case r of Inr x \<Rightarrow> faults_left d' \<le> n \<and> Q x
      | Inl e \<Rightarrow> faults_left d' \<le> n \<and> ((\<exists>t. e = Db_exception t) \<longrightarrow> faults_left d' < n)"
    using run f g assms [OF g] next_fault_left [OF f] n
    by (cases b) (auto simp: as_db_exception_def lost_def)
qed

lemma uses_faults_calls:
  "uses_faults n (execute_raw_update plain_stats () s)" "uses_faults n (execute_update plain_stats () u)"
  "uses_faults n (reconnect plain_stats ())"
  using uses_faults_call [of "plain_raw s" "\<lambda>x. True" n] plain_raw_left
    uses_faults_call [of "plain_update u" "\<lambda>x. True" n] plain_update_left
    uses_faults_call [of "\<lambda>d. (Inr (), d\<lparr>plain_view := None\<rparr>)" "\<lambda>x. True" n]
  by (simp_all add: uses_faults_def execute_raw_update_def execute_update_def reconnect_def plain_stats_def)

lemma uses_faults_bind:
  "uses_faults n m \<Longrightarrow> (\<And>x. uses_faults n (f x)) \<Longrightarrow> uses_faults n (db_bind m f)"
  unfolding uses_faults_def by (rule db_hoare_bind)

lemma uses_faults_query:
  assumes "\<And>rows. (\<And>row. row \<in> set rows \<Longrightarrow> \<exists>l. get_uint64 row ''id'' = Inr l) \<Longrightarrow> uses_faults n (f rows)"
  shows "uses_faults n (db_bind (execute_query plain_stats () q) f)"
proof -
  have rows: "\<And>d r d'. plain_query q d = (r, d') \<Longrightarrow>
      (\<exists>x. r = Inr x \<and> (\<forall>row\<in>set x. \<exists>l. get_uint64 row ''id'' = Inr l)) \<and> faults_left d' = faults_left d"
    by (cases q) (auto simp: id_row_def split: option.splits)
  show ?thesis
    unfolding uses_faults_def
  proof (rule db_hoare_bind)
    show "db_hoare (\<lambda>d. faults_left d \<le> n) (execute_query plain_stats () q)
        (\<lambda>x d. faults_left d \<le> n \<and> (\<forall>row\<in>set x. \<exists>l. get_uint64 row ''id'' = Inr l))
        (\<lambda>e d. faults_left d \<le> n \<and> ((\<exists>t. e = Db_exception t) \<longrightarrow> faults_left d < n))"
      using uses_faults_call [where g = "plain_query q" and n = n, OF rows] by (simp add: execute_query_def plain_stats_def)
  next
    fix x :: "sql_row list"
    show "db_hoare (\<lambda>d. faults_left d \<le> n \<and> (\<forall>row\<in>set x. \<exists>l. get_uint64 row ''id'' = Inr l)) (f x) (\<lambda>x d. faults_left d \<le> n)
        (\<lambda>e d. faults_left d \<le> n \<and> ((\<exists>t. e = Db_exception t) \<longrightarrow> faults_left d < n))"
      using assms [of x] by (intro db_hoare_pure) (auto simp: uses_faults_def)
  qed
qed

lemma uses_faults_basic:
  "uses_faults n (db_return x)" "\<forall>t. e \<noteq> Db_exception t \<Longrightarrow> uses_faults n (db_throw e)" "uses_faults n (db_lift (Inr y))"
  by (auto simp: uses_faults_def db_hoare_def)

lemma uses_faults_aggregate: "is_valid_event e \<Longrightarrow> uses_faults n (aggregate_event plain_stats () e)"
proof -
  assume v: "is_valid_event e"
  then obtain bucket where b: "hour_bucket_start (occurred_at_ms e) = Inr bucket"
    by (auto simp: is_valid_event_def hour_bucket_start_def Let_def)
  show ?thesis
    unfolding aggregate_event_def b
  proof (cases "is_aggregated_result (event_result e)", simp_all only: if_True if_False not_True_eq_False not_False_eq_True)
    show "uses_faults n (db_throw (Invalid_argument ''unsupported access statistics result''))" by (rule uses_faults_basic) simp
  next
    show "uses_faults n (db_bind (execute_query plain_stats () (Select_link_id (event_code e))) (\<lambda>rows.
        case rows of [] \<Rightarrow> db_throw (Orphan_short_link (event_code e))
        | row # x \<Rightarrow> db_bind (db_lift (get_uint64 row ''id'')) (\<lambda>l. db_bind (db_lift (Inr bucket)) (\<lambda>bucket.
            db_bind (execute_update plain_stats () (Count_total l (access_result_to_string (event_result e)) (occurred_at_ms e))) (\<lambda>_.
            db_bind (execute_update plain_stats () (Count_hour l bucket (access_result_to_string (event_result e)))) (\<lambda>_.
            db_bind (execute_update plain_stats () (Mark_processed ''aggregated'' (event_id e))) (\<lambda>_.
            db_bind (execute_raw_update plain_stats () Commit_transaction) (\<lambda>_. db_return Write_aggregated))))))))"
    proof (rule uses_faults_query)
      fix rows :: "sql_row list"
      assume r: "\<And>row. row \<in> set rows \<Longrightarrow> \<exists>l. get_uint64 row ''id'' = Inr l"
      show "uses_faults n (case rows of [] \<Rightarrow> db_throw (Orphan_short_link (event_code e))
        | row # x \<Rightarrow> db_bind (db_lift (get_uint64 row ''id'')) (\<lambda>l. db_bind (db_lift (Inr bucket)) (\<lambda>bucket.
            db_bind (execute_update plain_stats () (Count_total l (access_result_to_string (event_result e)) (occurred_at_ms e))) (\<lambda>_.
            db_bind (execute_update plain_stats () (Count_hour l bucket (access_result_to_string (event_result e)))) (\<lambda>_.
            db_bind (execute_update plain_stats () (Mark_processed ''aggregated'' (event_id e))) (\<lambda>_.
            db_bind (execute_raw_update plain_stats () Commit_transaction) (\<lambda>_. db_return Write_aggregated)))))))"
      proof (cases rows)
        case (Cons row x)
        then obtain l where "get_uint64 row ''id'' = Inr l" using r [of row] by auto
        then show ?thesis
          unfolding Cons by (simp, intro uses_faults_bind uses_faults_calls uses_faults_basic)
      qed (simp add: uses_faults_basic)
    qed
  qed
qed

lemma uses_faults_write: "is_valid_event e \<Longrightarrow> uses_faults n (write_in_transaction plain_stats () e src)"
  unfolding write_in_transaction_def
  by (intro uses_faults_bind uses_faults_calls)
     (auto intro!: uses_faults_bind uses_faults_calls uses_faults_basic uses_faults_aggregate)

lemma uses_faults_rollback:
  assumes "faults_left d \<le> n" and "rollback_and_rethrow plain_stats () err d = (r, d')"
  shows "r = Inl err \<and> faults_left d' \<le> n"
proof -
  obtain r1 d1 where b: "execute_raw_update plain_stats () Rollback_transaction d = (r1, d1)" by fastforce
  have "case r1 of Inr x \<Rightarrow> faults_left d1 \<le> n
      | Inl e \<Rightarrow> faults_left d1 \<le> n \<and> ((\<exists>t. e = Db_exception t) \<longrightarrow> faults_left d1 < n)"
    using db_hoareD [OF uses_faults_calls(1) [unfolded uses_faults_def] assms(1) b] .
  then show ?thesis using assms(2) b by (auto simp: rollback_and_rethrow_def split: sum.splits)
qed

lemma uses_faults_process: "is_valid_event e \<Longrightarrow> uses_faults n (process_event plain_stats () e src)"
proof -
  assume v: "is_valid_event e"
  have guarded: "uses_faults n (\<lambda>d. case write_in_transaction plain_stats () e src d of
      (Inl err, d1) \<Rightarrow> rollback_and_rethrow plain_stats () err d1 | (Inr r, d1) \<Rightarrow> (Inr r, d1))"
    unfolding uses_faults_def
  proof (rule db_hoareI)
    fix d r d'
    assume n: "faults_left d \<le> n" and run: "(case write_in_transaction plain_stats () e src d of
      (Inl err, d1) \<Rightarrow> rollback_and_rethrow plain_stats () err d1 | (Inr r, d1) \<Rightarrow> (Inr r, d1)) = (r, d')"
    obtain r1 d1 where w: "write_in_transaction plain_stats () e src d = (r1, d1)" by fastforce
    have l: "case r1 of Inr x \<Rightarrow> faults_left d1 \<le> n
        | Inl e \<Rightarrow> faults_left d1 \<le> n \<and> ((\<exists>t. e = Db_exception t) \<longrightarrow> faults_left d1 < n)"
      using db_hoareD [OF uses_faults_write [OF v, unfolded uses_faults_def] n w] .
    show "case r of Inr x \<Rightarrow> faults_left d' \<le> n
        | Inl e \<Rightarrow> faults_left d' \<le> n \<and> ((\<exists>t. e = Db_exception t) \<longrightarrow> faults_left d' < n)"
    proof (cases r1)
      case (Inr x)
      then show ?thesis using run w l by auto
    next
      case (Inl err)
      then have b: "rollback_and_rethrow plain_stats () err d1 = (r, d')" using run w by simp
      have "r = Inl err \<and> faults_left d' \<le> faults_left d1" by (rule uses_faults_rollback [OF order_refl b])
      then show ?thesis using l Inl by auto
    qed
  qed
  show ?thesis
    unfolding process_event_def
    using v guarded by (auto split: option.split intro!: uses_faults_bind uses_faults_calls uses_faults_basic simp: validate_source_def)
qed

text \<open>Fewer faults than attempts cannot keep an event from being counted.\<close>

lemma persist_overcomes_faults:
  assumes env: "env_driver env = plain_stats" "env_connection env = ()"
    and ev: "is_valid_event e" "validate_source src = None" "settle_result e t0 \<noteq> None"
  shows "faults_left (stats_db w) < n \<Longrightarrow> plain_view (stats_db w) = None \<Longrightarrow> plain_tables (stats_db w) \<in> {t0, settle e src t0} \<Longrightarrow>
     \<exists>r w'. persist_attempts n delay env e src w = (Inr r, w')"
proof (induction n arbitrary: delay w)
  case (Suc n)
  obtain r1 d1 where p: "process_event plain_stats () e src (stats_db w) = (r1, d1)" by fastforce
  have run: "on_database (process_event (env_driver env) (env_connection env) e src) w = (r1, w\<lparr>stats_db := d1\<rparr>)"
    using p env by (simp add: on_database_def)
  show ?case
  proof (cases r1)
    case (Inr r)
    then show ?thesis using run by simp
  next
    case (Inl err)
    have s: "plain_statistics.processed_as e src (plain_tables (stats_db w)) r1 d1"
      by (rule plain_statistics.process_spec [OF ev(1,2) Suc.prems(2) p])
    have ne: "settle_result e (plain_tables (stats_db w)) \<noteq> None"
      using Suc.prems(3) ev(3) settle_changes [of e src t0] by (cases "settle e src t0 = t0") auto
    obtain t where t: "err = Db_exception t" "plain_view d1 = None" "plain_tables d1 \<in> {t0, settle e src t0}"
      using s ne Inl Suc.prems(3) by (cases err) (auto simp: plain_statistics.processed_as_def plain_statistics.thrown_by_def)
    have left: "faults_left d1 < faults_left (stats_db w)"
      using db_hoareD [OF uses_faults_process [OF ev(1), unfolded uses_faults_def] order_refl p] Inl t(1) by simp
    then have n: "n \<noteq> 0" using Suc.prems(1) by simp
    let ?w3 = "sleep_ms delay (note_consumer (record_retry Retry_mysql) (log_failure (w\<lparr>stats_db := d1\<rparr>)))"
    obtain r2 d2 where q: "reconnect plain_stats () d1 = (r2, d2)" by fastforce
    have d2: "faults_left d2 \<le> faults_left d1" "plain_tables d2 = plain_tables d1" "plain_view d2 = None"
    proof -
      show "faults_left d2 \<le> faults_left d1"
        using db_hoareD [OF uses_faults_calls(3) [unfolded uses_faults_def] order_refl q] by (cases r2) auto
      obtain r3 where "driver_reconnect plain_stats () d1 = (r3, d2)"
        using q by (auto simp: reconnect_def as_db_exception_def split: prod.splits sum.splits)
      then show "plain_tables d2 = plain_tables d1" "plain_view d2 = None" using plain_statistics.reconnect_law by blast+
    qed
    have again: "on_database (reconnect (env_driver env) (env_connection env)) ?w3 = (r2, ?w3\<lparr>stats_db := d2\<rparr>)"
      using q env by (simp add: on_database_def consumer_step_defs)
    let ?w4 = "case r2 of Inl x \<Rightarrow> log_failure (?w3\<lparr>stats_db := d2\<rparr>) | Inr u \<Rightarrow> ?w3\<lparr>stats_db := d2\<rparr>"
    have "stats_db ?w4 = d2" by (simp add: consumer_step_defs split: sum.split)
    then have "\<exists>r w'. persist_attempts n (next_retry_delay delay (retry_max (env_config env))) env e src ?w4 = (Inr r, w')"
      using Suc.prems(1) left d2 t by (intro Suc.IH) auto
    then show ?thesis using run Inl t(1) n again by (cases r2) (simp_all add: Let_def)
  qed
qed simp

lemma delivered_valid: "delivery env m = [(e, src)] \<Longrightarrow> is_valid_event e"
  using parse_event_outcome [of "env_json env" "message_payload m"]
  by (auto simp: delivery_def parse_outcome_def rejected_def split: if_splits option.splits)

lemma commit_accepted:
  "0 < n \<Longrightarrow> (\<And>k. fst (commit_message (env_kafka env) m k) = kafka_ok) \<Longrightarrow> \<exists>w'. commit_attempts n a env m w = (Inr (), w')"
proof (cases n)
  case (Suc j)
  assume ok: "\<And>k. fst (commit_message (env_kafka env) m k) = kafka_ok"
  obtain err k where "commit_message (env_kafka env) m (kafka w) = (err, k)" by fastforce
  then show ?thesis using ok [of "kafka w"] Suc by (simp add: read_clock_def)
qed simp

section \<open>Properties\<close>


definition counting_kafka :: "nat kafka_consumer" where
  "counting_kafka = \<lparr>commit_message = (\<lambda>m k. (kafka_ok, k + 1)), cached_watermarks = (\<lambda>t p k. (kafka_ok, 0, 10)),
     query_watermarks = (\<lambda>t p ms k. (kafka_ok, 0, 10)), current_assignment = (\<lambda>k. (kafka_ok, None)),
     committed_offsets = (\<lambda>tps ms k. (kafka_ok, tps))\<rparr>"

definition plain_producer :: "unit kafka_producer" where
  "plain_producer = \<lparr>refused_setting = (\<lambda>k v. None), new_producer = (\<lambda>s. Inr ()), produce = (\<lambda>t k v ts p. (kafka_ok, p)),
     poll_producer = (\<lambda>ms p. ([], p)), flush_producer = (\<lambda>ms p. (kafka_ok, [Delivery_report kafka_ok], p)),
     purge_producer = (\<lambda>p. p), outq_len = (\<lambda>p. 0), error_text = (\<lambda>e. ''error'')\<rparr>"

definition default_consumer_config :: consumer_config where
  "default_consumer_config = \<lparr>bootstrap_servers = ''127.0.0.1:19092'', consumer_topic = ''hao-shortlink.access-events.v1'',
     consumer_group = ''hao-shortlink-access-statistics-v1'', consumer_client = ''hao-shortlink-access-statistics-consumer'',
     auto_offset_reset = ''earliest'', poll_timeout = 500, session_timeout = 10000,
     dlq_topic_setting = ''hao-shortlink.access-events.dlq.v1'', dlq_client_setting = ''hao-shortlink-access-statistics-dlq'',
     dlq_message_timeout = 10000, dlq_delivery_timeout = 12000, mysql_host = ''tcp://127.0.0.1:3306'', mysql_user = ''root'',
     mysql_password = [], mysql_database = ''hao_shortlink'', processing_max_attempts = 5, retry_initial = 100, retry_max = 5000,
     offset_commit_max_attempts = 3, observability_enabled = True, observability_address = ''127.0.0.1'', observability_port = 9091,
     lag_refresh = 5000, kafka_query_timeout = 1000\<rparr>"

definition sample_env :: "(nat, unit, unit, plain_db) consumer_env" where
  "sample_env = \<lparr>env_kafka = counting_kafka, env_producer = plain_producer,
     env_json = one_document (event_payload sample_event) ''event'', env_driver = plain_stats, env_connection = (),
     env_config = default_consumer_config, env_clock = (\<lambda>i. 1700000000000)\<rparr>"

definition sample_message :: kafka_message where
  "sample_message = \<lparr>message_error = kafka_ok, message_partition = 0, message_offset = 7, message_key = ''abcd'', message_payload = ''event''\<rparr>"

definition sample_consumer :: "bool list \<Rightarrow> (nat, unit, plain_db) consumer_state" where
  "sample_consumer faults = \<lparr>kafka = 0, dead_letters = \<lparr>dlq_producer = (), delivery_observed = False, delivery_error = kafka_ok\<rparr>,
     stats_db = \<lparr>plain_tables = no_counts, plain_view = None, plain_faults = faults\<rparr>, consumer_counters = init_consumer_metrics,
     failure_count = 0, next_lag_refresh = 0, slept = [], clock_reads = 0\<rparr>"

lemma sample_env_parts [simp]:
  "env_driver sample_env = plain_stats" "env_connection sample_env = ()" "env_config sample_env = default_consumer_config"
  "env_kafka sample_env = counting_kafka"
  by (simp_all add: sample_env_def)

lemma sample_consumer_db [simp]: "plain_view (stats_db (sample_consumer fs)) = None" "plain_tables (stats_db (sample_consumer fs)) = no_counts"
  "faults_left (stats_db (sample_consumer fs)) = length (filter id fs)"
  by (simp_all add: sample_consumer_def faults_left_def)

lemma sample_delivery: "delivery sample_env sample_message = [(sample_event, message_source sample_env sample_message)]"
proof -
  obtain ms where ms: "event_payload sample_event = J_object ms" by (simp add: event_payload_def)
  have "json_laws (one_document (J_object ms) ''event'')" by (rule one_document_laws)
  moreover have "occurred_at_ms sample_event < 2 ^ 63" by (simp add: sample_event_def)
  moreover have "map_of ms = map_of (case event_payload sample_event of J_object m0 \<Rightarrow> m0)" by (simp add: ms)
  moreover have "json_parse (one_document (J_object ms) ''event'') ''event'' = Some (J_object ms)" by (simp add: one_document_def)
  ultimately have "parse_event_detailed (one_document (J_object ms) ''event'') ''event'' =
      \<lparr>parsed_event = Some sample_event, parse_error = Parse_ok\<rparr>"
    using sample_event_valid by (intro parse_payload)
  then show ?thesis using ms by (simp add: delivery_def sample_env_def sample_message_def) (simp add: sample_event_def)
qed


text \<open>C2: accesses are counted exactly once. However often events are delivered again, however the
  database fails and wherever the loop stops, the tables are those of the deliveries that were
  handled (of all of them when the loop returns), and the total of a link and a result, and its
  count in every hour, is the number of distinct event ids among them.\<close>

theorem accesses_counted_once:
  assumes "statistics_tables D c committed working" and "env_driver env = D" and "env_connection env = c"
    and "working (stats_db w) = None" and "committed (stats_db w) = settle_all earlier t0" and "no_statistics_yet t0"
    and "ids_name_events (earlier @ all_deliveries env polls)" and "run_consumer env polls w = (res, w')"
  shows "\<exists>k. (res = Inr () \<longrightarrow> k = length (all_deliveries env polls)) \<and>
     (let ds = earlier @ take k (all_deliveries env polls); t = committed (stats_db w')
      in t = settle_all ds t0 \<and>
         (\<forall>l r. total_of t l r = card (counted_ids (link_ids t0) ds l r (\<lambda>e. True))) \<and>
         (\<forall>l b r. hour_of t l b r = card (counted_ids (link_ids t0) ds l r (\<lambda>e. event_hour e = b))))"
proof -
  obtain k where k: "committed (stats_db w') = settle_all (take k (all_deliveries env polls)) (settle_all earlier t0)"
    "res = Inr () \<longrightarrow> k = length (all_deliveries env polls)"
    using statistics_tables.run_settles [OF assms(1-3,8,4)] assms(5) by auto
  let ?ds = "earlier @ take k (all_deliveries env polls)"
  have "set ?ds \<subseteq> set (earlier @ all_deliveries env polls)" using set_take_subset by fastforce
  then have "ids_name_events ?ds"
    using assms(7) unfolding ids_name_events_def by (rule inj_on_subset [OF _ image_mono, rotated])
  from settle_all_counts [OF assms(6) this] show ?thesis
    using k by (intro exI [of _ k]) (simp add: settle_all_append [symmetric] Let_def)
qed

lemma no_counts_ok: "no_statistics_yet no_counts"
  by (simp add: no_statistics_yet_def no_counts_def)

lemma accesses_counted_once_witness:
  "\<exists>res w'. run_consumer sample_env [Some sample_message, None, Some sample_message] (sample_consumer [False, True]) = (res, w') \<and>
     total_of (plain_tables (stats_db w')) 5 ''success'' \<le> 1"
proof -
  let ?polls = "[Some sample_message, None, Some sample_message]"
  obtain res w' where run: "run_consumer sample_env ?polls (sample_consumer [False, True]) = (res, w')" by fastforce
  have all: "all_deliveries sample_env ?polls =
      [(sample_event, message_source sample_env sample_message), (sample_event, message_source sample_env sample_message)]"
    by (simp add: all_deliveries_def sample_delivery)
  have ids: "ids_name_events ([] @ all_deliveries sample_env ?polls)" by (simp add: all ids_name_events_def)
  have start: "plain_tables (stats_db (sample_consumer [False, True])) = settle_all [] no_counts" by (simp add: settle_all_def)
  obtain k where k: "\<forall>l r. total_of (plain_tables (stats_db w')) l r =
      card (counted_ids (link_ids no_counts) ([] @ take k (all_deliveries sample_env ?polls)) l r (\<lambda>e. True))"
    using accesses_counted_once [OF plain_statistics.statistics_tables_axioms sample_env_parts(1,2) sample_consumer_db(1) start no_counts_ok ids run]
    by (auto simp: Let_def)
  have "counted_ids (link_ids no_counts) ([] @ take k (all_deliveries sample_env ?polls)) l r (\<lambda>e. True) \<subseteq> {event_id sample_event}" for l r
    by (auto simp: counted_ids_def all dest!: in_set_takeD)
  then have "total_of (plain_tables (stats_db w')) 5 ''success'' \<le> card {event_id sample_event}"
    unfolding k [rule_format] by (intro card_mono) simp_all
  then show ?thesis using run by auto
qed



text \<open>Back-off. The sleeps between the attempts to count an event or to publish a dead letter double
  from the initial delay up to the maximum, and there are fewer of them than attempts.\<close>

theorem retry_delays_bounded:
  assumes "0 < retry_initial (env_config env)" and "retry_initial (env_config env) \<le> retry_max (env_config env)"
    and "0 < processing_max_attempts (env_config env)"
    and "persist_with_retry env e m w = (res, w1) \<or> publish_to_dead_letter env m reason w = (done, w1)"
  shows "\<exists>k. int k < processing_max_attempts (env_config env) \<and>
     slept w1 = slept w @ map (\<lambda>i. min (retry_initial (env_config env) * 2 ^ i) (retry_max (env_config env))) [0..<k] \<and>
     (\<forall>d\<in>set (drop (length (slept w)) (slept w1)). retry_initial (env_config env) \<le> d \<and> d \<le> retry_max (env_config env))"
proof -
  let ?n = "nat (processing_max_attempts (env_config env))"
  have first: "retry_initial (env_config env) = backoff (env_config env) 0" using assms(2) by (simp add: backoff_def)
  obtain k where k: "?n = 0 \<or> k < ?n" "slept w1 = slept w @ map (backoff (env_config env)) [0..<0 + k]"
    using assms(4) persist_slept [OF assms(1,2), of ?n 0] dead_letter_slept [OF assms(1,2), of ?n 0]
    unfolding persist_with_retry_def publish_to_dead_letter_def first [symmetric] by metis
  have "\<forall>d\<in>set (map (backoff (env_config env)) [0..<k]). retry_initial (env_config env) \<le> d \<and> d \<le> retry_max (env_config env)"
    using backoff_range [OF assms(1,2)] by simp
  then show ?thesis using k assms(3) by (intro exI [of _ k]) (auto simp: backoff_def)
qed

lemma retry_delays_bounded_witness:
  "\<exists>res w1. persist_with_retry sample_env sample_event sample_message (sample_consumer [True, False, True]) = (res, w1) \<and>
     (\<forall>d\<in>set (slept w1). 100 \<le> d \<and> d \<le> 5000)"
proof -
  obtain res w1 where run: "persist_with_retry sample_env sample_event sample_message (sample_consumer [True, False, True]) = (res, w1)"
    by fastforce
  from retry_delays_bounded [OF _ _ _ disjI1 [OF run]] show ?thesis
    using run by (simp add: default_consumer_config_def sample_consumer_def) blast
qed

end
