(* ===== verification/Configuration.thy ===== *)
theory Configuration
  imports EventConsumer HttpContext
begin

text \<open>
  \<open>utils/Config.h/.cpp\<close>: configuration files and their typed accessors, and the two loaders built on
  them, \<open>ServerConfig.h/.cpp\<close> and \<open>ConsumerConfig.h/.cpp\<close>. The text of the file is an argument,
  \<open>None\<close> when it cannot be opened.
\<close>

section \<open>Files\<close>

type_synonym config_values = "(string \<times> string) list"

definition trim_config :: "string \<Rightarrow> string" where
  "trim_config s = rev (dropWhile is_space (rev (dropWhile is_space s)))"

text \<open>\<open>std::getline\<close>: the lines, without an empty one after the last line break.\<close>

function file_lines :: "string \<Rightarrow> string list" where
  "file_lines s =
     (if s = [] then []
      else (case cut_at (CHR 0x0A) s of (l, None) \<Rightarrow> [l] | (l, Some more_text) \<Rightarrow> l # file_lines more_text))"
  by pat_completeness auto
termination
  by (relation "measure length") (auto dest: cut_at_shorter [OF sym])

declare file_lines.simps [simp del]

text \<open>One line: skipped, refused, or a pair.\<close>

datatype config_line = Skip_line | Bad_line | Config_pair string string

definition read_config_line :: "string \<Rightarrow> config_line" where
  "read_config_line raw =
     (let l = trim_config raw
      in if l = [] \<or> hd l = CHR ''#'' then Skip_line
         else (case cut_at CHR ''='' l of
                 (k, None) \<Rightarrow> Bad_line
               | (k, Some v) \<Rightarrow> if trim_config k = [] then Bad_line else Config_pair (trim_config k) (trim_config v)))"

fun load_lines :: "string list \<Rightarrow> config_values \<Rightarrow> config_values option" where
  "load_lines [] vs = Some vs"
| "load_lines (l # ls) vs =
     (case read_config_line l of
        Skip_line \<Rightarrow> load_lines ls vs
      | Bad_line \<Rightarrow> None
      | Config_pair k v \<Rightarrow> load_lines ls (AList.update k v vs))"

definition load_from_file :: "string option \<Rightarrow> config_values \<Rightarrow> bool \<times> config_values" where
  "load_from_file file vs =
     (case file of
        None \<Rightarrow> (False, vs)
      | Some s \<Rightarrow> (case load_lines (file_lines s) [] of None \<Rightarrow> (False, vs) | Some new_values \<Rightarrow> (True, new_values)))"

section \<open>Typed values\<close>

definition config_has :: "config_values \<Rightarrow> string \<Rightarrow> bool" where
  "config_has vs k \<longleftrightarrow> map_of vs k \<noteq> None"

definition config_string :: "config_values \<Rightarrow> string \<Rightarrow> string \<Rightarrow> string" where
  "config_string vs k d = (case map_of vs k of None \<Rightarrow> d | Some v \<Rightarrow> v)"

definition config_int :: "config_values \<Rightarrow> string \<Rightarrow> int \<Rightarrow> int" where
  "config_int vs k d =
     (case map_of vs k of
        None \<Rightarrow> d
      | Some v \<Rightarrow> (case stoi v of Inl e \<Rightarrow> d | Inr (i, n) \<Rightarrow> if n \<noteq> length v then d else i))"

definition config_bool :: "config_values \<Rightarrow> string \<Rightarrow> bool \<Rightarrow> bool" where
  "config_bool vs k d =
     (case map_of vs k of
        None \<Rightarrow> d
      | Some v \<Rightarrow>
          (let x = lower_string (trim_config v)
           in if x = ''true'' \<or> x = ''1'' \<or> x = ''yes'' \<or> x = ''on'' then True
              else if x = ''false'' \<or> x = ''0'' \<or> x = ''no'' \<or> x = ''off'' then False
              else d))"

section \<open>The server's configuration\<close>

record server_config =
  server_name :: string
  server_port :: int
  thread_num :: int
  metrics_on :: bool
  storage_type :: string
  statistics_on :: bool
  db_host :: string
  db_user :: string
  db_password :: string
  db_name :: string
  db_pool_size :: int
  redis_on :: bool
  redis_host :: string
  redis_port :: int
  redis_database :: int
  redis_ttl :: int
  redis_key_prefix :: string
  rate_limit_on :: bool
  rate_limit_requests :: int
  rate_limit_window :: int
  rate_limit_prefix :: string
  kafka_on :: bool
  kafka_servers :: string
  kafka_topic :: string
  kafka_client :: string
  kafka_queue_max :: int
  kafka_message_timeout :: int
  kafka_linger :: int
  kafka_shutdown_timeout :: int
  registration_on :: bool
  secure_cookie :: bool
  session_ttl_seconds :: int

definition default_server_config :: server_config where
  "default_server_config =
     \<lparr>server_name = ''HaoShortLink'', server_port = 8080, thread_num = 4, metrics_on = True, storage_type = ''memory'',
      statistics_on = False, db_host = ''tcp://127.0.0.1:3306'', db_user = ''root'', db_password = [],
      db_name = ''hao_shortlink'', db_pool_size = 4, redis_on = False, redis_host = ''127.0.0.1'', redis_port = 6379,
      redis_database = 0, redis_ttl = 3600, redis_key_prefix = ''shortlink:'', rate_limit_on = False,
      rate_limit_requests = 100, rate_limit_window = 60, rate_limit_prefix = ''rate-limit:create:'', kafka_on = False,
      kafka_servers = ''127.0.0.1:9092'', kafka_topic = ''hao-shortlink.access-events.v1'',
      kafka_client = ''hao-shortlink-server'', kafka_queue_max = 10000, kafka_message_timeout = 10000, kafka_linger = 5,
      kafka_shutdown_timeout = 3000, registration_on = True, secure_cookie = False, session_ttl_seconds = 604800\<rparr>"

definition read_server_config :: "config_values \<Rightarrow> server_config \<Rightarrow> server_config" where
  "read_server_config vs c =
     \<lparr>server_name = config_string vs ''server.name'' (server_name c),
      server_port = config_int vs ''server.port'' (server_port c),
      thread_num = config_int vs ''server.thread_num'' (thread_num c),
      metrics_on = config_bool vs ''metrics.enabled'' (metrics_on c),
      storage_type = config_string vs ''storage.type'' (storage_type c),
      statistics_on = config_bool vs ''statistics.enabled'' (statistics_on c),
      db_host = config_string vs ''mysql.host'' (db_host c),
      db_user = config_string vs ''mysql.user'' (db_user c),
      db_password = config_string vs ''mysql.password'' (db_password c),
      db_name = config_string vs ''mysql.database'' (db_name c),
      db_pool_size = config_int vs ''mysql.pool_size'' (db_pool_size c),
      redis_on = config_bool vs ''redis.enabled'' (redis_on c),
      redis_host = config_string vs ''redis.host'' (redis_host c),
      redis_port = config_int vs ''redis.port'' (redis_port c),
      redis_database = config_int vs ''redis.database'' (redis_database c),
      redis_ttl = config_int vs ''redis.ttl_seconds'' (redis_ttl c),
      redis_key_prefix = config_string vs ''redis.key_prefix'' (redis_key_prefix c),
      rate_limit_on = config_bool vs ''rate_limit.enabled'' (rate_limit_on c),
      rate_limit_requests = config_int vs ''rate_limit.requests'' (rate_limit_requests c),
      rate_limit_window = config_int vs ''rate_limit.window_seconds'' (rate_limit_window c),
      rate_limit_prefix = config_string vs ''rate_limit.key_prefix'' (rate_limit_prefix c),
      kafka_on = config_bool vs ''kafka.enabled'' (kafka_on c),
      kafka_servers = config_string vs ''kafka.bootstrap_servers'' (kafka_servers c),
      kafka_topic = config_string vs ''kafka.topic'' (kafka_topic c),
      kafka_client = config_string vs ''kafka.client_id'' (kafka_client c),
      kafka_queue_max = config_int vs ''kafka.queue_max_messages'' (kafka_queue_max c),
      kafka_message_timeout = config_int vs ''kafka.message_timeout_ms'' (kafka_message_timeout c),
      kafka_linger = config_int vs ''kafka.linger_ms'' (kafka_linger c),
      kafka_shutdown_timeout = config_int vs ''kafka.shutdown_timeout_ms'' (kafka_shutdown_timeout c),
      registration_on = config_bool vs ''auth.registration_enabled'' (registration_on c),
      secure_cookie = config_bool vs ''auth.cookie_secure'' (secure_cookie c),
      session_ttl_seconds = config_int vs ''auth.session_ttl_seconds'' (session_ttl_seconds c)\<rparr>"

definition repair_basics :: "server_config \<Rightarrow> server_config" where
  "repair_basics c =
     (let c1 = (if server_port c \<le> 0 \<or> server_port c > 65535 then c\<lparr>server_port := 8080\<rparr> else c);
          c2 = (if thread_num c1 \<le> 0 then c1\<lparr>thread_num := 4\<rparr> else c1);
          c3 = (if storage_type c2 \<noteq> ''memory'' \<and> storage_type c2 \<noteq> ''mysql'' then c2\<lparr>storage_type := ''memory''\<rparr> else c2);
          c4 = (if db_pool_size c3 \<le> 0 then c3\<lparr>db_pool_size := 4\<rparr> else c3)
      in if statistics_on c4 \<and> storage_type c4 \<noteq> ''mysql'' then c4\<lparr>statistics_on := False\<rparr> else c4)"

definition repair_redis :: "server_config \<Rightarrow> server_config" where
  "repair_redis c =
     (let c1 = (if redis_port c \<le> 0 \<or> redis_port c > 65535 then c\<lparr>redis_port := 6379\<rparr> else c);
          c2 = (if redis_database c1 < 0 then c1\<lparr>redis_database := 0\<rparr> else c1);
          c3 = (if redis_ttl c2 \<le> 0 \<or> redis_ttl c2 > 86400 then c2\<lparr>redis_ttl := 3600\<rparr> else c2)
      in if rate_limit_requests c3 \<le> 0 \<or> rate_limit_window c3 \<le> 0 \<or> rate_limit_prefix c3 = [] \<or>
            rate_limit_prefix c3 = redis_key_prefix c3
         then c3\<lparr>rate_limit_on := False\<rparr> else c3)"

definition repair_kafka :: "server_config \<Rightarrow> server_config" where
  "repair_kafka c =
     (if kafka_servers c = [] \<or> kafka_topic c = [] \<or> kafka_client c = [] \<or> kafka_queue_max c \<le> 0 \<or>
         kafka_message_timeout c \<le> 0 \<or> kafka_linger c < 0 \<or> kafka_shutdown_timeout c < 0
      then c\<lparr>kafka_on := False\<rparr> else c)"

definition repair_session :: "server_config \<Rightarrow> server_config" where
  "repair_session c =
     (if session_ttl_seconds c < 300 \<or> session_ttl_seconds c > 2592000 then c\<lparr>session_ttl_seconds := 604800\<rparr> else c)"

text \<open>\<open>files p\<close> is the text of the file at a path. A file that cannot be loaded skips the repairs.\<close>

definition load_server_config :: "(string \<Rightarrow> string option) \<Rightarrow> string \<Rightarrow> server_config" where
  "load_server_config files path =
     (let repair = (\<lambda>c. repair_session (repair_kafka (repair_redis (repair_basics c))))
      in if path = [] then repair default_server_config
         else (case load_from_file (files path) [] of
                 (False, vs) \<Rightarrow> default_server_config
               | (True, vs) \<Rightarrow> repair (read_server_config vs default_server_config)))"

section \<open>The consumer's configuration\<close>

definition read_consumer_config :: "config_values \<Rightarrow> consumer_config \<Rightarrow> consumer_config" where
  "read_consumer_config vs c =
     \<lparr>bootstrap_servers = config_string vs ''consumer.bootstrap_servers'' (bootstrap_servers c),
      consumer_topic = config_string vs ''consumer.topic'' (consumer_topic c),
      consumer_group = config_string vs ''consumer.group_id'' (consumer_group c),
      consumer_client = config_string vs ''consumer.client_id'' (consumer_client c),
      auto_offset_reset = config_string vs ''consumer.auto_offset_reset'' (auto_offset_reset c),
      poll_timeout = config_int vs ''consumer.poll_timeout_ms'' (poll_timeout c),
      session_timeout = config_int vs ''consumer.session_timeout_ms'' (session_timeout c),
      dlq_topic_setting = config_string vs ''consumer.dlq_topic'' (dlq_topic_setting c),
      dlq_client_setting = config_string vs ''consumer.dlq_client_id'' (dlq_client_setting c),
      dlq_message_timeout = config_int vs ''consumer.dlq_message_timeout_ms'' (dlq_message_timeout c),
      dlq_delivery_timeout = config_int vs ''consumer.dlq_delivery_timeout_ms'' (dlq_delivery_timeout c),
      mysql_host = config_string vs ''mysql.host'' (mysql_host c),
      mysql_user = config_string vs ''mysql.user'' (mysql_user c),
      mysql_password = config_string vs ''mysql.password'' (mysql_password c),
      mysql_database = config_string vs ''mysql.database'' (mysql_database c),
      processing_max_attempts = config_int vs ''consumer.processing_max_attempts'' (processing_max_attempts c),
      retry_initial = config_int vs ''consumer.retry_initial_ms'' (retry_initial c),
      retry_max = config_int vs ''consumer.retry_max_ms'' (retry_max c),
      offset_commit_max_attempts = config_int vs ''consumer.offset_commit_max_attempts'' (offset_commit_max_attempts c),
      observability_enabled = config_bool vs ''consumer.observability_enabled'' (observability_enabled c),
      observability_address = config_string vs ''consumer.observability_listen_address'' (observability_address c),
      observability_port = config_int vs ''consumer.observability_port'' (observability_port c),
      lag_refresh = config_int vs ''consumer.lag_refresh_ms'' (lag_refresh c),
      kafka_query_timeout = config_int vs ''consumer.kafka_query_timeout_ms'' (kafka_query_timeout c)\<rparr>"

definition invalid_consumer_config :: "consumer_config \<Rightarrow> bool" where
  "invalid_consumer_config c \<longleftrightarrow>
     bootstrap_servers c = [] \<or> consumer_topic c = [] \<or> consumer_group c = [] \<or> consumer_client c = [] \<or>
     dlq_topic_setting c = [] \<or> dlq_client_setting c = [] \<or> mysql_host c = [] \<or> mysql_user c = [] \<or> mysql_database c = [] \<or>
     (auto_offset_reset c \<noteq> ''earliest'' \<and> auto_offset_reset c \<noteq> ''latest'') \<or>
     poll_timeout c \<le> 0 \<or> session_timeout c \<le> 0 \<or> dlq_message_timeout c \<le> 0 \<or> dlq_delivery_timeout c \<le> 0 \<or>
     processing_max_attempts c \<le> 0 \<or> retry_initial c \<le> 0 \<or> retry_max c < retry_initial c \<or>
     offset_commit_max_attempts c \<le> 0 \<or> observability_address c = [] \<or> observability_port c \<le> 0 \<or>
     observability_port c > 65535 \<or> lag_refresh c \<le> 0 \<or> kafka_query_timeout c \<le> 0"

definition load_consumer_config :: "(string \<Rightarrow> string option) \<Rightarrow> string \<Rightarrow> exn + consumer_config" where
  "load_consumer_config files path =
     (case load_from_file (files path) [] of
        (False, vs) \<Rightarrow> Inl (Runtime_error (''failed to load consumer config: '' @ path))
      | (True, vs) \<Rightarrow>
          (let c = read_consumer_config vs default_consumer_config
           in if invalid_consumer_config c then Inl (Invalid_argument ''invalid access event consumer config'') else Inr c))"

section \<open>Properties\<close>

text \<open>A file as one writes it: one pair per line.\<close>

definition config_text :: "(string \<times> string) list \<Rightarrow> string" where
  "config_text kvs = concat (map (\<lambda>(k, v). k @ '' = '' @ v @ [CHR 0x0A]) kvs)"

definition clean_pair :: "string \<times> string \<Rightarrow> bool" where
  "clean_pair kv \<longleftrightarrow> fst kv \<noteq> [] \<and> hd (fst kv) \<noteq> CHR ''#'' \<and> trimmed (fst kv) \<and> trimmed (snd kv) \<and>
     CHR ''='' \<notin> set (fst kv) \<and> CHR 0x0A \<notin> set (fst kv) \<and> CHR 0x0A \<notin> set (snd kv)"

lemma trim_config_trimmed: "trimmed s \<Longrightarrow> trim_config s = s"
proof (cases "s = []")
  case False
  assume "trimmed s"
  then have "dropWhile is_space s = s" "dropWhile is_space (rev s) = rev s"
    using False by (auto simp: trimmed_def dropWhile_eq_self_iff hd_rev)
  then show ?thesis by (simp add: trim_config_def)
qed (simp add: trim_config_def)

lemma trim_config_around: "trimmed s \<Longrightarrow> trim_config (CHR '' '' # s) = s" "trimmed s \<Longrightarrow> trim_config (s @ '' '') = s"
proof -
  have sp: "is_space CHR '' ''" by (simp add: is_space_def)
  show "trimmed s \<Longrightarrow> trim_config (CHR '' '' # s) = s"
    using sp trim_config_trimmed [of s] by (simp add: trim_config_def)
  assume t: "trimmed s"
  show "trim_config (s @ '' '') = s"
  proof (cases "s = []")
    case False
    then have "\<not> is_space (hd s)" using t by (simp add: trimmed_def)
    then have "dropWhile is_space (s @ '' '') = s @ '' ''" "dropWhile is_space s = s"
      using False by (auto simp: dropWhile_eq_self_iff hd_append)
    then show ?thesis using sp trim_config_trimmed [OF t] by (simp add: trim_config_def)
  qed (simp add: trim_config_def sp)
qed

lemma read_clean_line:
  assumes "clean_pair (k, v)"
  shows "read_config_line (k @ '' = '' @ v) = Config_pair k v"
proof -
  have k: "k \<noteq> []" "hd k \<noteq> CHR ''#''" "trimmed k" "CHR ''='' \<notin> set k" "trimmed v"
    using assms by (simp_all add: clean_pair_def)
  have eq: "cut_at CHR ''='' (k @ CHR '' '' # CHR ''='' # r) = (k @ '' '', Some r)" for r
    using cut_at_append [of "CHR ''=''" "k @ '' ''" r] k(4) by simp
  have start: "dropWhile is_space (k @ r) = k @ r" for r
    using k(1,3) by (auto simp: dropWhile_eq_self_iff trimmed_def hd_append)
  show ?thesis
  proof (cases "v = []")
    case True
    have "trim_config (k @ '' = '') = k @ '' =''"
      using start [of "'' = ''"] by (simp add: trim_config_def is_space_def)
    then show ?thesis
      using True k eq [of "[]"] trim_config_around(2) [OF k(3)] trim_config_trimmed [of "[]"]
      by (simp add: read_config_line_def Let_def)
  next
    case False
    then have "trimmed (k @ '' = '' @ v)" using k by (auto simp: trimmed_def hd_append)
    then have "trim_config (k @ '' = '' @ v) = k @ '' = '' @ v" by (rule trim_config_trimmed)
    then show ?thesis
      using k eq [of "CHR '' '' # v"] trim_config_around by (simp add: read_config_line_def Let_def)
  qed
qed

lemma file_lines_config: "list_all clean_pair kvs \<Longrightarrow> file_lines (config_text kvs) = map (\<lambda>(k, v). k @ '' = '' @ v) kvs"
proof (induction kvs)
  case Nil
  then show ?case by (simp add: config_text_def file_lines.simps)
next
  case (Cons kv kvs)
  obtain k v where kv: "kv = (k, v)" by fastforce
  have "CHR 0x0A \<notin> set (k @ '' = '' @ v)" using Cons.prems kv by (auto simp: clean_pair_def)
  then have "cut_at (CHR 0x0A) ((k @ '' = '' @ v) @ CHR 0x0A # config_text kvs) = (k @ '' = '' @ v, Some (config_text kvs))"
    by (rule cut_at_append)
  then have "cut_at (CHR 0x0A) (config_text (kv # kvs)) = (k @ '' = '' @ v, Some (config_text kvs))"
    by (simp add: config_text_def kv)
  moreover have "config_text (kv # kvs) \<noteq> []" by (simp add: config_text_def kv)
  ultimately show ?case using Cons kv by (subst file_lines.simps) simp
qed

lemma load_clean_lines:
  "list_all clean_pair kvs \<Longrightarrow> \<exists>vs'. load_lines (map (\<lambda>(k, v). k @ '' = '' @ v) kvs) vs = Some vs' \<and>
     map_of vs' = map_of vs ++ map_of (rev kvs)"
proof (induction kvs arbitrary: vs)
  case (Cons kv kvs)
  obtain k v where kv: "kv = (k, v)" by fastforce
  then obtain vs' where "load_lines (map (\<lambda>(k, v). k @ '' = '' @ v) kvs) (AList.update k v vs) = Some vs'"
    "map_of vs' = map_of (AList.update k v vs) ++ map_of (rev kvs)" using Cons by fastforce
  then show ?case using Cons.prems kv read_clean_line [of k v]
    by (auto simp: update_conv' map_add_def fun_eq_iff split: option.split)
qed simp

text \<open>Configuration files read back. A file of lines \<open>key = value\<close> loads, whatever was loaded before,
  and every key has the value of its last line.\<close>

theorem config_file_reads_back:
  assumes "list_all clean_pair kvs"
  shows "\<exists>vs'. load_from_file (Some (config_text kvs)) vs = (True, vs') \<and> map_of vs' = map_of (rev kvs)"
  using load_clean_lines [OF assms, of "[]"] file_lines_config [OF assms] by (auto simp: load_from_file_def)

lemma config_file_reads_back_witness:
  "\<exists>vs'. load_from_file (Some (config_text [(''server.port'', ''80''), (''server.port'', ''8081'')])) [] = (True, vs') \<and>
     config_int vs' ''server.port'' 1 = 8081"
proof -
  have "list_all clean_pair [(''server.port'', ''80''), (''server.port'', ''8081'')]" by code_simp
  from config_file_reads_back [OF this, of "[]"] obtain vs' where
    v: "load_from_file (Some (config_text [(''server.port'', ''80''), (''server.port'', ''8081'')])) [] = (True, vs')"
    "map_of vs' = map_of (rev [(''server.port'', ''80''), (''server.port'', ''8081'')])" by blast
  moreover have "stoi ''8081'' = Inr (8081, 4)" by code_simp
  ultimately show ?thesis by (simp add: config_int_def)
qed

definition server_config_ok :: "server_config \<Rightarrow> bool" where
  "server_config_ok c \<longleftrightarrow>
     0 < server_port c \<and> server_port c \<le> 65535 \<and> 0 < thread_num c \<and> storage_type c \<in> {''memory'', ''mysql''} \<and> 0 < db_pool_size c \<and>
     (statistics_on c \<longrightarrow> storage_type c = ''mysql'') \<and> 0 < redis_port c \<and> redis_port c \<le> 65535 \<and> 0 \<le> redis_database c \<and>
     0 < redis_ttl c \<and> redis_ttl c \<le> 86400 \<and>
     (rate_limit_on c \<longrightarrow> 0 < rate_limit_requests c \<and> 0 < rate_limit_window c \<and> rate_limit_prefix c \<notin> {[], redis_key_prefix c}) \<and>
     (kafka_on c \<longrightarrow> kafka_servers c \<noteq> [] \<and> kafka_topic c \<noteq> [] \<and> kafka_client c \<noteq> [] \<and> 0 < kafka_queue_max c \<and>
        0 < kafka_message_timeout c \<and> 0 \<le> kafka_linger c \<and> 0 \<le> kafka_shutdown_timeout c) \<and>
     300 \<le> session_ttl_seconds c \<and> session_ttl_seconds c \<le> 2592000"

lemma repaired_ok: "server_config_ok (repair_session (repair_kafka (repair_redis (repair_basics c))))"
proof -
  define b where "b = repair_basics c"
  define r where "r = repair_redis b"
  have b: "0 < server_port b" "server_port b \<le> 65535" "0 < thread_num b" "storage_type b \<in> {''memory'', ''mysql''}"
    "0 < db_pool_size b" "statistics_on b \<longrightarrow> storage_type b = ''mysql''"
    by (auto simp: b_def repair_basics_def Let_def)
  have r: "server_port r = server_port b" "thread_num r = thread_num b" "storage_type r = storage_type b"
    "db_pool_size r = db_pool_size b" "statistics_on r = statistics_on b" "0 < redis_port r" "redis_port r \<le> 65535"
    "0 \<le> redis_database r" "0 < redis_ttl r" "redis_ttl r \<le> 86400"
    "rate_limit_on r \<longrightarrow> 0 < rate_limit_requests r \<and> 0 < rate_limit_window r \<and> rate_limit_prefix r \<notin> {[], redis_key_prefix r}"
    by (auto simp: r_def repair_redis_def Let_def)
  show ?thesis
    unfolding b_def [symmetric] r_def [symmetric] server_config_ok_def
    using b r by (auto simp: repair_kafka_def repair_session_def)
qed

lemma default_ok: "server_config_ok default_server_config"
  by (simp add: server_config_ok_def default_server_config_def)


end
