(* ===== verification/LinkSpec.thy ===== *)
theory LinkSpec
  imports LinkStore
begin

text \<open>
  An abstract specification of \<open>ShortLinkRepository\<close> that is independent of the store: what a sequence
  of calls answers, timestamps and the kind of exception apart. The in-memory repository implements it
  here, the MySQL repository in its own theory, so the two agree.
\<close>

section \<open>What a repository shows\<close>

text \<open>
  Calls of the interface and their answers without the two timestamps, which the repositories
  set by different clocks, and without the kind of exception.
\<close>

datatype repo_call =
    Call_create int string "int option" u64 "string option"
  | Call_find int string
  | Call_find_owned string u64
  | Call_list list_query
  | Call_update int string lifecycle_update

datatype repo_answer = Refused | Answer_link "link_record option" | Answer_links "link_record list"

definition visible :: "link_record \<Rightarrow> link_record" where
  "visible r = r\<lparr>created_at := 0, updated_at := 0\<rparr>"

fun do_call :: "'s link_repo \<Rightarrow> repo_call \<Rightarrow> 's world \<Rightarrow> repo_answer \<times> 's world" where
  "do_call rp (Call_create now url ex own cu) w =
     (case repo_create rp now url ex own cu w of
        (Inl e, w1) \<Rightarrow> (Refused, w1) | (Inr r, w1) \<Rightarrow> (Answer_link (map_option visible r), w1))"
| "do_call rp (Call_find now c) w =
     (case repo_find rp now c w of
        (Inl e, w1) \<Rightarrow> (Refused, w1) | (Inr lr, w1) \<Rightarrow> (Answer_link (map_option visible (lookup_record lr)), w1))"
| "do_call rp (Call_find_owned c own) w =
     (case repo_find_for_owner rp c own w of
        (Inl e, w1) \<Rightarrow> (Refused, w1) | (Inr r, w1) \<Rightarrow> (Answer_link (map_option visible r), w1))"
| "do_call rp (Call_list q) w =
     (case repo_list rp q w of
        (Inl e, w1) \<Rightarrow> (Refused, w1) | (Inr rs, w1) \<Rightarrow> (Answer_links (map visible rs), w1))"
| "do_call rp (Call_update now c u) w =
     (case repo_update rp now c u w of
        (Inl e, w1) \<Rightarrow> (Refused, w1) | (Inr r, w1) \<Rightarrow> (Answer_link (map_option visible r), w1))"

fun answers :: "'s link_repo \<Rightarrow> repo_call list \<Rightarrow> 's world \<Rightarrow> repo_answer list" where
  "answers rp [] w = []"
| "answers rp (call # calls) w = (case do_call rp call w of (a, w1) \<Rightarrow> a # answers rp calls w1)"

text \<open>The specification: the visible records in the order of their ids and the next id.\<close>

fun spec_call :: "repo_call \<Rightarrow> link_record list \<times> u64 \<Rightarrow> repo_answer \<times> link_record list \<times> u64" where
  "spec_call (Call_create now url ex own cu) (rs, n) =
     (let code = (case cu of Some c \<Rightarrow> c | None \<Rightarrow> encode_base62 n);
          r = \<lparr>link_id = n, owner_id = own, link_code = code, original_url = url, link_status = Active,
               expires_at = ex, created_at = 0, updated_at = 0\<rparr>
      in if view rs code \<noteq> None then (Refused, rs, n + 1) else (Answer_link (Some r), rs @ [r], n + 1))"
| "spec_call (Call_find now c) (rs, n) = (Answer_link (view rs c), rs, n)"
| "spec_call (Call_find_owned c own) (rs, n) = (Answer_link (owned_by own (view rs c)), rs, n)"
| "spec_call (Call_list q) (rs, n) = (Answer_links (take (q_limit q) (filter (\<lambda>r. \<not> skipped q r) rs)), rs, n)"
| "spec_call (Call_update now c u) (rs, n) =
     (case update_target u (view rs c) of
        None \<Rightarrow> (Answer_link None, rs, n)
      | Some r \<Rightarrow> (Answer_link (Some (visible (apply_update now u r))),
                   replace_record (visible (apply_update now u r)) rs, n))"

lemma visible_simps [simp]:
  "link_id (visible r) = link_id r" "owner_id (visible r) = owner_id r" "link_code (visible r) = link_code r"
  "original_url (visible r) = original_url r" "link_status (visible r) = link_status r"
  "expires_at (visible r) = expires_at r" "created_at (visible r) = 0" "updated_at (visible r) = 0"
  by (simp_all add: visible_def)

lemma visible_idem [simp]: "visible (visible r) = visible r"
  by (simp add: visible_def)

lemma visible_view: "view (map f rs) c = map_option f (view rs c)" if "\<And>r. link_code (f r) = link_code r"
  using that by (induction rs) (simp_all add: view_def)

lemma visible_skipped [simp]: "skipped q (visible r) = skipped q r"
  by (simp add: skipped_def split: option.splits)

lemma visible_owned: "owned_by own (map_option visible ro) = map_option visible (owned_by own ro)"
  by (simp add: owned_by_def split: option.splits)

lemma visible_target: "update_target u (map_option visible ro) = map_option visible (update_target u ro)"
  by (simp add: update_target_def visible_owned split: option.splits)

lemma visible_update: "visible (apply_update now u (visible r)) = visible (apply_update now' u r)"
  by (cases "upd_status u") (simp_all add: apply_update_def visible_def Let_def)

lemma visible_replace:
  "replace_record (visible r') (map visible rs) = map visible (replace_record r' rs)"
  by (simp add: replace_record_def)

lemma visible_filter: "filter (\<lambda>r. \<not> skipped q r) (map visible rs) = map visible (filter (\<lambda>r. \<not> skipped q r) rs)"
  by (simp add: filter_map comp_def)

section \<open>The in-memory repository implements the specification\<close>

definition mem_shows :: "mem_repo world \<Rightarrow> link_record list \<times> u64" where
  "mem_shows w = (map visible (mem_records w), next_id (store w))"

lemma mem_call_spec:
  assumes "mem_inv w" and "mem_room w" and "do_call memory_repo call w = (a, w')"
  shows "spec_call call (mem_shows w) = (a, mem_shows w') \<and> mem_inv w' \<and>
     (next_id (store w') = next_id (store w) \<or> next_id (store w') = next_id (store w) + 1)"
proof -
  have ok: "mem_ok (store w)" using assms(1) by (simp add: mem_inv_def)
  have nid: "next_id (store w) + 1 \<noteq> 0"
    using assms(2) unfolding mem_room_def by (metis add.commute eq_neg_iff_add_eq_0)
  note views = view_mem_all [OF ok] visible_view [of visible]
  show ?thesis
  proof (cases call)
    case (Call_create now url ex own cu)
    show ?thesis
    proof (cases "map_of (links (store w)) (create_code (store w) cu)")
      case (Some r)
      then show ?thesis
        using assms Call_create views mem_ok_bump [OF ok] nid
        by (auto simp: memory_repo_def on_store_def mem_create_conflict mem_shows_def mem_records_def mem_all_def
            mem_inv_def mem_room_def create_code_def Let_def)
    next
      case None
      have run: "repo_create memory_repo now url ex own cu w =
          (Inr (Some (fresh_record now url ex own cu (store w))),
           w\<lparr>store := snd (mem_create now url ex own cu (store w))\<rparr>)"
        using None by (simp add: memory_repo_def on_store_def mem_create_fresh)
      then have a: "a = Answer_link (Some (visible (fresh_record now url ex own cu (store w))))"
        and w': "w' = w\<lparr>store := snd (mem_create now url ex own cu (store w))\<rparr>"
        using assms(3) Call_create by simp_all
      have "mem_records w' = mem_records w @ [fresh_record now url ex own cu (store w)]" "mem_inv w'"
        using mem.create_law [OF assms(1,2) run] w' by simp_all
      then show ?thesis
        using Call_create None a w' views
        by (simp add: mem_shows_def mem_records_def Let_def create_code_def fresh_record_def visible_def)
    qed
  next
    case (Call_find now c)
    then show ?thesis
      using assms views by (auto simp: memory_repo_def on_store_def mem_shows_def mem_records_def mem_find_view [OF ok])
  next
    case (Call_find_owned c own)
    then show ?thesis
      using assms views
      by (auto simp: memory_repo_def on_store_def mem_shows_def mem_records_def mem_find_for_owner_view [OF ok] visible_owned)
  next
    case (Call_list q)
    then show ?thesis
      using assms by (auto simp: memory_repo_def on_store_def mem_shows_def mem_records_def mem_list_take [OF ok]
          visible_filter take_map)
  next
    case (Call_update now c u)
    obtain w1 where w1: "repo_update memory_repo now c u w =
          (Inr (map_option (apply_update now u) (update_target u (view (mem_records w) c))), w1)" "mem_inv w1"
        "mem_records w1 = (case update_target u (view (mem_records w) c) of None \<Rightarrow> mem_records w
                           | Some r \<Rightarrow> replace_record (apply_update now u r) (mem_records w))"
      using mem.update_law [OF assms(1), of now c u] by blast
    have same: "next_id (store w1) = next_id (store w)"
      using w1(1) by (auto simp: memory_repo_def on_store_def mem_update_target [OF ok] split: option.splits)
    show ?thesis
    proof (cases "update_target u (view (mem_records w) c)")
      case (Some r)
      have t: "update_target u (view (map visible (mem_records w)) c) = Some (visible r)"
        using Some by (simp add: visible_view visible_target)
      show ?thesis
        using w1 same assms(3) Call_update Some
        by (auto simp: mem_shows_def t visible_update [of now u r now] visible_replace)
    qed (use w1 same assms(3) Call_update in \<open>auto simp: mem_shows_def visible_view visible_target\<close>)
  qed
qed

end
