(* ===== verification/MySqlLinks.thy ===== *)
theory MySqlLinks
  imports Database LinkSpec
begin

text \<open>
  \<open>MySqlShortLinkRepository.h/.cpp\<close>: the repository interface over pooled connections. The
  statements it sends are the constructors of \<open>link_update\<close> and \<open>link_query\<close>; what they do to the
  table \<open>short_links\<close> is written after their text and the schema. The server that runs them is the
  parameter \<open>sql_driver\<close> under the laws of the locale \<open>links_server\<close>.
\<close>

section \<open>Statements and the table\<close>

datatype link_update =
    Insert_link u64 "string option" string "int option"
  | Set_code string u64
  | Set_lifecycle "string option" "int option option" string u64

datatype link_query =
    Last_insert_id
  | Link_by_id u64
  | Link_by_code string
  | Link_of_owner string u64
  | Link_for_update string u64
  | Links_page "u64 option" "string option" u64 nat

record link_row =
  row_id :: u64
  row_owner :: u64
  row_code :: "string option"
  row_url :: string
  row_status :: string
  row_expires :: "int option"
  row_created :: int
  row_updated :: int

text \<open>
  The rows in the order of the primary key. An \<open>UPDATE\<close> sets \<open>updated_at\<close> (\<open>ON UPDATE
  CURRENT_TIMESTAMP\<close>) only in rows of which another column changes. \<open>None\<close> is the violation of the
  unique key on \<open>code\<close>, which several \<open>NULL\<close>s do not violate.
\<close>

definition change_row :: "int \<Rightarrow> (link_row \<Rightarrow> link_row) \<Rightarrow> link_row \<Rightarrow> link_row" where
  "change_row now f r = (if f r = r then r else (f r)\<lparr>row_updated := now\<rparr>)"

definition set_lifecycle_fields :: "string option \<Rightarrow> int option option \<Rightarrow> link_row \<Rightarrow> link_row" where
  "set_lifecycle_fields status expiry r =
     (let r1 = (case status of Some s \<Rightarrow> r\<lparr>row_status := s\<rparr> | None \<Rightarrow> r)
      in (case expiry of Some e \<Rightarrow> r1\<lparr>row_expires := e\<rparr> | None \<Rightarrow> r1))"

definition row_matches :: "string \<Rightarrow> u64 \<Rightarrow> link_row \<Rightarrow> bool" where
  "row_matches code own r \<longleftrightarrow> row_code r = Some code \<and> (own = 0 \<or> row_owner r = own)"

fun apply_link_update :: "int \<Rightarrow> u64 \<Rightarrow> link_update \<Rightarrow> link_row list \<Rightarrow> link_row list option" where
  "apply_link_update now auto (Insert_link own code url expiry) rows =
     (if code \<noteq> None \<and> code \<in> row_code ` set rows then None
      else Some (rows @ [\<lparr>row_id = auto, row_owner = own, row_code = code, row_url = url, row_status = ''active'',
                          row_expires = expiry, row_created = now, row_updated = now\<rparr>]))"
| "apply_link_update now auto (Set_code code i) rows =
     (if i \<in> row_id ` set rows \<and> (\<exists>r\<in>set rows. row_id r \<noteq> i \<and> row_code r = Some code) then None
      else Some (map (\<lambda>r. if row_id r = i then change_row now (row_code_update (\<lambda>_. Some code)) r else r) rows))"
| "apply_link_update now auto (Set_lifecycle status expiry code own) rows =
     Some (map (\<lambda>r. if row_matches code own r then change_row now (set_lifecycle_fields status expiry) r else r) rows)"

fun link_rows :: "link_query \<Rightarrow> link_row list \<Rightarrow> link_row list" where
  "link_rows Last_insert_id rows = []"
| "link_rows (Link_by_id i) rows = take 1 (filter (\<lambda>r. row_id r = i) rows)"
| "link_rows (Link_by_code code) rows = take 1 (filter (\<lambda>r. row_code r = Some code) rows)"
| "link_rows (Link_of_owner code own) rows = take 1 (filter (\<lambda>r. row_code r = Some code \<and> row_owner r = own) rows)"
| "link_rows (Link_for_update code own) rows = take 1 (filter (row_matches code own) rows)"
| "link_rows (Links_page own status cursor limit) rows =
     take limit (filter (\<lambda>r. (own = None \<or> own = Some (row_owner r)) \<and> cursor < row_id r \<and>
       (status = None \<or> status = Some (row_status r))) rows)"

section \<open>The repository\<close>

type_synonym ('c, 'd) link_driver = "('c, link_update, link_query, 'd) sql_driver"

text \<open>\<open>readRecord\<close>.\<close>

definition get_optional :: "sql_row \<Rightarrow> string \<Rightarrow> exn + int option" where
  "get_optional row column =
     (if is_null row column then Inr None else (case get_int64 row column of Inl e \<Rightarrow> Inl e | Inr v \<Rightarrow> Inr (Some v)))"

definition read_record :: "sql_row \<Rightarrow> ('d, link_record) db_op" where
  "read_record row =
     db_bind (db_lift (get_string row ''status'')) (\<lambda>text_of.
     case parse_status text_of of
       None \<Rightarrow> db_throw (Runtime_error ''Unknown short link status'')
     | Some status \<Rightarrow>
         db_bind (db_lift (get_uint64 row ''id'')) (\<lambda>i.
         db_bind (db_lift (get_uint64 row ''owner_id'')) (\<lambda>own.
         db_bind (db_lift (get_string row ''code'')) (\<lambda>code.
         db_bind (db_lift (get_string row ''original_url'')) (\<lambda>url.
         db_bind (db_lift (get_optional row ''expires_at_epoch'')) (\<lambda>expiry.
         db_bind (db_lift (get_int64 row ''created_at_epoch'')) (\<lambda>created.
         db_bind (db_lift (get_int64 row ''updated_at_epoch'')) (\<lambda>updated.
         db_return \<lparr>link_id = i, owner_id = own, link_code = code, original_url = url, link_status = status,
                    expires_at = expiry, created_at = created, updated_at = updated\<rparr>))))))))"

fun read_records :: "sql_row list \<Rightarrow> ('d, link_record list) db_op" where
  "read_records [] = db_return []"
| "read_records (row # rows) = db_bind (read_record row) (\<lambda>r. db_bind (read_records rows) (\<lambda>rs. db_return (r # rs)))"

definition read_first :: "sql_row list \<Rightarrow> ('d, link_record option) db_op" where
  "read_first rows = (case rows of [] \<Rightarrow> db_return None | row # _ \<Rightarrow> db_bind (read_record row) (\<lambda>r. db_return (Some r)))"

text \<open>\<open>create\<close>: the transaction, and what follows when it throws.\<close>

definition create_in_transaction ::
  "('c, 'd) link_driver \<Rightarrow> string \<Rightarrow> int option \<Rightarrow> u64 \<Rightarrow> string option \<Rightarrow> 'c \<Rightarrow> ('d, link_record option) db_op" where
  "create_in_transaction D url expiry own custom c =
     db_bind (execute_raw_update D c Start_transaction) (\<lambda>_.
     db_bind (execute_update D c (Insert_link own custom url expiry)) (\<lambda>_.
     db_bind (execute_query D c Last_insert_id) (\<lambda>ids.
     case ids of
       [] \<Rightarrow> db_throw (Runtime_error ''Failed to read last insert id'')
     | id_of # _ \<Rightarrow>
         db_bind (db_lift (get_uint64 id_of ''1'')) (\<lambda>i.
         db_bind (case custom of
                    Some _ \<Rightarrow> db_return 0
                  | None \<Rightarrow> execute_update D c (Set_code (encode_base62 i) i)) (\<lambda>_.
         db_bind (execute_query D c (Link_by_id i)) (\<lambda>rows.
         case rows of
           [] \<Rightarrow> db_throw (Runtime_error ''Failed to read created short link'')
         | row # _ \<Rightarrow>
             db_bind (read_record row) (\<lambda>r.
             db_bind (execute_raw_update D c Commit_transaction) (\<lambda>_. db_return (Some r)))))))))"

definition create_exception :: "string option \<Rightarrow> exn \<Rightarrow> exn" where
  "create_exception custom e =
     (if custom \<noteq> None \<and> (contains_sub ''Duplicate entry'' (exn_what e) \<or> contains_sub ''1062'' (exn_what e))
      then Short_code_conflict else e)"

text \<open>The connection is not yet held when taking it from the pool throws: nothing is rolled back then.\<close>

definition create_rolled_back ::
  "('c, 'd) link_driver \<Rightarrow> string \<Rightarrow> int option \<Rightarrow> u64 \<Rightarrow> string option \<Rightarrow> 'c \<Rightarrow> ('d, link_record option) db_op" where
  "create_rolled_back D url expiry own custom c d =
     (case create_in_transaction D url expiry own custom c d of
        (Inr r, d1) \<Rightarrow> (Inr r, d1)
      | (Inl e, d1) \<Rightarrow> (case execute_raw_update D c Rollback_transaction d1 of (_, d2) \<Rightarrow> (Inl e, d2)))"

text \<open>Every operation counts an exception as a backend error before it rethrows it.\<close>

definition mysql_op ::
  "('c, 'd) link_driver \<Rightarrow> ('c, 'd) pool_wait \<Rightarrow> backend_operation \<Rightarrow> ('c \<Rightarrow> ('d, 'a) db_op) \<Rightarrow>
   ('c pool \<times> 'd) world \<Rightarrow> (exn + 'a) \<times> ('c pool \<times> 'd) world" where
  "mysql_op D wait op body w =
     (case with_connection D wait body (store w) of
        (Inr x, s) \<Rightarrow> (Inr x, w\<lparr>store := s\<rparr>)
      | (Inl e, s) \<Rightarrow> (Inl e, w\<lparr>store := s, metrics := record_backend_error Backend_mysql op (metrics w)\<rparr>))"

definition mysql_create ::
  "('c, 'd) link_driver \<Rightarrow> ('c, 'd) pool_wait \<Rightarrow> string \<Rightarrow> int option \<Rightarrow> u64 \<Rightarrow> string option \<Rightarrow>
   ('c pool \<times> 'd) world \<Rightarrow> (exn + link_record option) \<times> ('c pool \<times> 'd) world" where
  "mysql_create D wait url expiry own custom w =
     (case mysql_op D wait Op_create (create_rolled_back D url expiry own custom) w of
        (Inr r, w1) \<Rightarrow> (Inr r, w1)
      | (Inl e, w1) \<Rightarrow> (Inl (create_exception custom e), w1))"

definition find_by_code :: "('c, 'd) link_driver \<Rightarrow> string \<Rightarrow> 'c \<Rightarrow> ('d, lookup_result) db_op" where
  "find_by_code D code c =
     db_bind (execute_query D c (Link_by_code code)) (\<lambda>rows.
     db_bind (read_first rows) (\<lambda>r. db_return \<lparr>lookup_record = r, lookup_from = Source_mysql\<rparr>))"

definition find_by_code_for_owner :: "('c, 'd) link_driver \<Rightarrow> string \<Rightarrow> u64 \<Rightarrow> 'c \<Rightarrow> ('d, link_record option) db_op" where
  "find_by_code_for_owner D code own c = db_bind (execute_query D c (Link_of_owner code own)) read_first"

definition list_links :: "('c, 'd) link_driver \<Rightarrow> list_query \<Rightarrow> 'c \<Rightarrow> ('d, link_record list) db_op" where
  "list_links D q c =
     db_bind (execute_query D c (Links_page (q_owner q) (map_option status_to_string (q_status q)) (q_cursor q) (q_limit q)))
       read_records"

text \<open>The five branches of \<open>updateLifecycle\<close>; without status and expiry nothing is updated.\<close>

definition update_owner_id :: "lifecycle_update \<Rightarrow> u64" where
  "update_owner_id u = (case upd_owner u of Some own \<Rightarrow> own | None \<Rightarrow> 0)"

definition lifecycle_statement :: "string \<Rightarrow> lifecycle_update \<Rightarrow> link_update option" where
  "lifecycle_statement code u =
     (case upd_status u of
        Some s \<Rightarrow>
          if expires_at_provided u
          then Some (Set_lifecycle (Some (status_to_string s)) (Some (upd_expires_at u)) code (update_owner_id u))
          else Some (Set_lifecycle (Some (status_to_string s)) None code (update_owner_id u))
      | None \<Rightarrow>
          if expires_at_provided u then Some (Set_lifecycle None (Some (upd_expires_at u)) code (update_owner_id u))
          else None)"

definition update_lifecycle :: "('c, 'd) link_driver \<Rightarrow> string \<Rightarrow> lifecycle_update \<Rightarrow> 'c \<Rightarrow> ('d, link_record option) db_op" where
  "update_lifecycle D code u c =
     db_bind (case lifecycle_statement code u of None \<Rightarrow> db_return 0 | Some s \<Rightarrow> execute_update D c s) (\<lambda>_.
     db_bind (execute_query D c (Link_for_update code (update_owner_id u))) read_first)"

definition mysql_repo :: "('c, 'd) link_driver \<Rightarrow> ('c, 'd) pool_wait \<Rightarrow> ('c pool \<times> 'd) link_repo" where
  "mysql_repo D wait =
     \<lparr>repo_create = (\<lambda>now. mysql_create D wait),
      repo_find = (\<lambda>now code. mysql_op D wait Op_find (find_by_code D code)),
      repo_find_for_owner = (\<lambda>code own. mysql_op D wait Op_find (find_by_code_for_owner D code own)),
      repo_default_source = Source_mysql,
      repo_list = (\<lambda>q. mysql_op D wait Op_list (list_links D q)),
      repo_update = (\<lambda>now code u. mysql_op D wait Op_update (update_lifecycle D code u))\<rparr>"

section \<open>The server\<close>

text \<open>
  What the getters of a result set return for a row. Columns of a collation that pads with spaces
  compare equal when they differ in trailing spaces only; the laws are stated for codes without them.
\<close>

definition row_shows :: "link_row \<Rightarrow> sql_row \<Rightarrow> bool" where
  "row_shows r s \<longleftrightarrow>
     get_uint64 s ''id'' = Inr (row_id r) \<and> get_uint64 s ''owner_id'' = Inr (row_owner r) \<and>
     get_string s ''code'' = Inr (case row_code r of Some c \<Rightarrow> c | None \<Rightarrow> []) \<and>
     get_string s ''original_url'' = Inr (row_url r) \<and> get_string s ''status'' = Inr (row_status r) \<and>
     is_null s ''expires_at_epoch'' = (row_expires r = None) \<and>
     (row_expires r \<noteq> None \<longrightarrow> get_int64 s ''expires_at_epoch'' = Inr (the (row_expires r))) \<and>
     get_int64 s ''created_at_epoch'' = Inr (row_created r) \<and> get_int64 s ''updated_at_epoch'' = Inr (row_updated r)"

definition plain_code :: "string \<Rightarrow> bool" where
  "plain_code c \<longleftrightarrow> c = [] \<or> last c \<noteq> CHR '' ''"

definition plain_rows :: "link_row list \<Rightarrow> bool" where
  "plain_rows rows \<longleftrightarrow> (\<forall>r\<in>set rows. case row_code r of Some c \<Rightarrow> plain_code c | None \<Rightarrow> True)"

fun plain_query :: "link_query \<Rightarrow> bool" where
  "plain_query (Link_by_code c) = plain_code c"
| "plain_query (Link_of_owner c own) = plain_code c"
| "plain_query (Link_for_update c own) = plain_code c"
| "plain_query q = True"

fun is_insert :: "link_update \<Rightarrow> bool" where
  "is_insert (Insert_link own code url ex) = True"
| "is_insert u = False"

text \<open>
  The documented behaviour of a transactional server while one operation at a time holds a connection:
  \<open>working\<close> is the view of the transaction open on it, \<open>counter\<close> the next value of \<open>AUTO_INCREMENT\<close>, which
  every attempted insertion consumes and no rollback returns, \<open>inserted\<close> the value of \<open>LAST_INSERT_ID()\<close>,
  \<open>storable\<close> says which statements the types, checks and foreign keys of the schema accept, and \<open>up\<close> that
  the server and the connection to it do not fail. A failing call leaves the committed rows alone, unless
  it commits: then the answer may be all that is lost.
\<close>

locale links_server =
  fixes D :: "('c, 'd) link_driver"
    and committed :: "'d \<Rightarrow> link_row list"
    and working :: "'d \<Rightarrow> link_row list option"
    and counter :: "'d \<Rightarrow> u64"
    and inserted :: "'d \<Rightarrow> u64"
    and server_time :: "'d \<Rightarrow> int"
    and up :: "'d \<Rightarrow> bool"
    and storable :: "link_update \<Rightarrow> bool"
  assumes storable_plain: "storable (Insert_link own (Some code) url ex) \<Longrightarrow> plain_code code"
    and storable_code: "length code \<le> 11 \<Longrightarrow> set code \<subseteq> set base62_chars \<Longrightarrow> storable (Set_code code i)"
    and ping_law: "working d = None \<Longrightarrow> driver_select_one D c d = (alive, d') \<Longrightarrow>
          committed d' = committed d \<and> working d' = None \<and> counter d' = counter d \<and> (up d \<longrightarrow> up d' \<and> alive = Inr True)"
    and reconnect_law: "driver_reconnect D c d = (again, d') \<Longrightarrow>
          committed d' = committed d \<and> working d' = None \<and> counter d' = counter d \<and> (up d \<longrightarrow> up d')"
    and start_law: "working d = None \<Longrightarrow> driver_raw D c Start_transaction d = (r, d') \<Longrightarrow>
          committed d' = committed d \<and> counter d' = counter d \<and> (up d \<longrightarrow> up d') \<and>
          (case r of Inr n \<Rightarrow> working d' = Some (committed d) | Inl m \<Rightarrow> working d' = None \<and> \<not> up d)"
    and update_law: "storable u \<Longrightarrow> plain_rows (committed d) \<Longrightarrow> working d = Some t \<Longrightarrow> plain_rows t \<Longrightarrow>
          driver_update D c u d = (r, d') \<Longrightarrow>
          committed d' = committed d \<and> (up d \<longrightarrow> up d') \<and>
          counter d' \<in> (if is_insert u then {counter d, counter d + 1} else {counter d}) \<and>
          (case r of
             Inr n \<Rightarrow> working d' \<noteq> None \<and> working d' = apply_link_update (server_time d) (counter d) u t
           | Inl m \<Rightarrow> working d' \<in> {Some t, None} \<and>
               (up d \<longrightarrow> apply_link_update (server_time d) (counter d) u t = None \<and> contains_sub ''Duplicate entry'' m)) \<and>
          (up d \<or> r \<in> range Inr \<longrightarrow>
             counter d' = (if is_insert u then counter d + 1 else counter d) \<and>
             (is_insert u \<and> r \<in> range Inr \<longrightarrow> inserted d' = counter d))"
    and autocommit_law: "storable u \<Longrightarrow> \<not> is_insert u \<Longrightarrow> plain_rows (committed d) \<Longrightarrow> working d = None \<Longrightarrow>
          driver_update D c u d = (r, d') \<Longrightarrow>
          working d' = None \<and> counter d' = counter d \<and> (up d \<longrightarrow> up d') \<and>
          (case r of
             Inr n \<Rightarrow> apply_link_update (server_time d) (counter d) u (committed d) = Some (committed d')
           | Inl m \<Rightarrow>
               (committed d' = committed d \<or> apply_link_update (server_time d) (counter d) u (committed d) = Some (committed d')) \<and>
               (up d \<longrightarrow> apply_link_update (server_time d) (counter d) u (committed d) = None))"
    and query_law: "q \<noteq> Last_insert_id \<Longrightarrow> plain_query q \<Longrightarrow>
          plain_rows (case working d of Some t \<Rightarrow> t | None \<Rightarrow> committed d) \<Longrightarrow> driver_query D c q d = (found, d') \<Longrightarrow>
          committed d' = committed d \<and> counter d' = counter d \<and> (up d \<longrightarrow> up d') \<and>
          (case found of
             Inr rows \<Rightarrow> working d' = working d \<and>
               list_all2 row_shows (link_rows q (case working d of Some t \<Rightarrow> t | None \<Rightarrow> committed d)) rows
           | Inl m \<Rightarrow> working d' \<in> {working d, None} \<and> \<not> up d)"
    and last_id_law: "driver_query D c Last_insert_id d = (found, d') \<Longrightarrow>
          committed d' = committed d \<and> counter d' = counter d \<and> (up d \<longrightarrow> up d') \<and>
          (case found of
             Inr rows \<Rightarrow> working d' = working d \<and> (\<exists>row. rows = [row] \<and> get_uint64 row ''1'' = Inr (inserted d))
           | Inl m \<Rightarrow> working d' \<in> {working d, None} \<and> \<not> up d)"
    and commit_law: "working d = Some t \<Longrightarrow> driver_raw D c Commit_transaction d = (r, d') \<Longrightarrow>
          working d' = None \<and> counter d' = counter d \<and> (up d \<longrightarrow> up d') \<and>
          (case r of Inr n \<Rightarrow> committed d' = t | Inl m \<Rightarrow> \<not> up d \<and> committed d' \<in> {committed d, t})"
    and rollback_law: "driver_raw D c Rollback_transaction d = (r, d') \<Longrightarrow>
          committed d' = committed d \<and> working d' = None \<and> counter d' = counter d \<and> (up d \<longrightarrow> up d')"

section \<open>Rows and records\<close>

definition link_of_row :: "link_row \<Rightarrow> link_record" where
  "link_of_row r =
     \<lparr>link_id = row_id r, owner_id = row_owner r, link_code = (case row_code r of Some c \<Rightarrow> c | None \<Rightarrow> []),
      original_url = row_url r, link_status = (if row_status r = ''active'' then Active else Disabled),
      expires_at = row_expires r, created_at = row_created r, updated_at = row_updated r\<rparr>"

definition shown :: "link_row \<Rightarrow> link_record" where
  "shown r = visible (link_of_row r)"

definition row_ok :: "link_row \<Rightarrow> bool" where
  "row_ok r \<longleftrightarrow> row_status r \<in> {''active'', ''disabled''} \<and> (\<exists>c. row_code r = Some c \<and> plain_code c)"

definition table_ok :: "link_row list \<Rightarrow> u64 \<Rightarrow> bool" where
  "table_ok rows n \<longleftrightarrow> (\<forall>r\<in>set rows. row_ok r \<and> row_id r < n) \<and> distinct (map row_code rows)"

lemma read_record_shows:
  assumes "row_shows r s" and "row_status r \<in> {''active'', ''disabled''}"
  shows "read_record s d = (Inr (link_of_row r), d)"
proof -
  have "parse_status (row_status r) = Some (if row_status r = ''active'' then Active else Disabled)"
    using assms(2) by (auto simp: parse_status_def)
  then show ?thesis
    using assms(1) by (cases "row_expires r")
      (simp_all add: read_record_def row_shows_def db_bind_def get_optional_def link_of_row_def)
qed

lemma read_records_shows:
  "list_all2 row_shows rs ss \<Longrightarrow> (\<And>r. r \<in> set rs \<Longrightarrow> row_ok r) \<Longrightarrow> read_records ss d = (Inr (map link_of_row rs), d)"
proof (induction rs ss arbitrary: d rule: list_all2_induct)
  case (Cons r rs s ss)
  have "read_record s d = (Inr (link_of_row r), d)"
    using Cons.hyps(1) Cons.prems [of r] by (intro read_record_shows) (simp_all add: row_ok_def)
  then show ?case using Cons.IH Cons.prems by (simp add: db_bind_def)
qed simp

lemma read_first_shows:
  assumes "list_all2 row_shows rs ss" and "\<And>r. r \<in> set rs \<Longrightarrow> row_ok r"
  shows "read_first ss d = (Inr (map_option link_of_row (case rs of [] \<Rightarrow> None | r # _ \<Rightarrow> Some r)), d)"
proof (cases rs)
  case (Cons r rs')
  then obtain s ss' where "ss = s # ss'" "row_shows r s" using assms(1) by (auto simp: list_all2_Cons1)
  moreover have "row_ok r" using assms(2) Cons by simp
  ultimately show ?thesis
    using read_record_shows [of r s d] Cons by (simp add: read_first_def db_bind_def row_ok_def)
qed (use assms(1) in \<open>simp add: read_first_def\<close>)

lemma table_plain: "table_ok rows n \<Longrightarrow> plain_rows rows"
  by (fastforce simp: table_ok_def plain_rows_def row_ok_def)

text \<open>The row a creation adds, before and after it gets its code.\<close>

definition fresh_row :: "u64 \<Rightarrow> string option \<Rightarrow> string \<Rightarrow> int option \<Rightarrow> u64 \<Rightarrow> link_row \<Rightarrow> bool" where
  "fresh_row own code url ex i r \<longleftrightarrow>
     row_id r = i \<and> row_owner r = own \<and> row_code r = code \<and> row_url r = url \<and> row_status r = ''active'' \<and>
     row_expires r = ex"

definition code_for :: "string option \<Rightarrow> u64 \<Rightarrow> string" where
  "code_for custom i = (case custom of Some c \<Rightarrow> c | None \<Rightarrow> encode_base62 i)"

lemma plain_base62: "set code \<subseteq> set base62_chars \<Longrightarrow> plain_code code"
proof -
  assume a: "set code \<subseteq> set base62_chars"
  have "CHR '' '' \<notin> set base62_chars" by (simp add: base62_chars_def)
  moreover have "code \<noteq> [] \<Longrightarrow> last code \<in> set base62_chars" using a last_in_set by blast
  ultimately show ?thesis by (auto simp: plain_code_def)
qed

lemma insert_new_row:
  "apply_link_update now auto (Insert_link own code url ex) rows = Some t \<Longrightarrow>
   (\<exists>r. t = rows @ [r] \<and> fresh_row own code url ex auto r) \<and> (code = None \<or> code \<notin> row_code ` set rows)"
  by (auto simp: fresh_row_def split: if_splits)

lemma set_code_new_row:
  assumes "\<And>x. x \<in> set rows \<Longrightarrow> row_id x \<noteq> i" and "fresh_row own None url ex i r"
    and "apply_link_update now auto (Set_code code i) (rows @ [r]) = Some t"
  shows "(\<exists>r'. t = rows @ [r'] \<and> fresh_row own (Some code) url ex i r') \<and> Some code \<notin> row_code ` set rows"
proof -
  have i: "row_id r = i" using assms(2) by (simp add: fresh_row_def)
  have "map (\<lambda>r. if row_id r = i then f r else r) rows = rows" for f
    using assms(1) by (auto intro: map_idI)
  then have "t = rows @ [change_row now (row_code_update (\<lambda>_. Some code)) r]"
    "\<not> (\<exists>x\<in>set rows. row_id x \<noteq> i \<and> row_code x = Some code)"
    using assms(3) i by (auto split: if_splits)
  moreover have "fresh_row own (Some code) url ex i (change_row now (row_code_update (\<lambda>_. Some code)) r)"
    using assms(2) by (cases r) (simp add: fresh_row_def change_row_def)
  ultimately show ?thesis using assms(1) by auto
qed

lemma set_code_taken:
  assumes "\<And>x. x \<in> set rows \<Longrightarrow> row_id x \<noteq> i" and "row_id r = i"
    and "apply_link_update now auto (Set_code code i) (rows @ [r]) = None"
  shows "Some code \<in> row_code ` set rows"
  using assms by (auto simp: image_iff split: if_splits) metis

lemma shown_map: "map_option (\<lambda>r. visible (link_of_row r)) x = map_option shown x"
  by (cases x) (simp_all add: shown_def)

text \<open>The rows as visible records: lookups, pages and updates commute.\<close>

lemma shown_simps [simp]:
  "link_id (shown r) = row_id r" "owner_id (shown r) = row_owner r"
  "link_code (shown r) = (case row_code r of Some c \<Rightarrow> c | None \<Rightarrow> [])" "expires_at (shown r) = row_expires r"
  "link_status (shown r) = (if row_status r = ''active'' then Active else Disabled)"
  by (simp_all add: shown_def link_of_row_def)

lemma row_ok_code: "row_ok r \<Longrightarrow> link_code (shown r) = c \<longleftrightarrow> row_code r = Some c"
  by (auto simp: row_ok_def)

lemma table_Cons: "table_ok (r # rows) n \<Longrightarrow> row_ok r \<and> table_ok rows n \<and> row_code r \<notin> row_code ` set rows"
  by (auto simp: table_ok_def)

lemma view_shown: "table_ok rows n \<Longrightarrow> view (map shown rows) c = map_option shown (find (\<lambda>r. row_code r = Some c) rows)"
proof (induction rows)
  case (Cons r rows)
  then show ?case using row_ok_code [of r c] table_Cons [OF Cons.prems] by (simp add: view_def)
qed (simp add: view_def)

lemma find_narrow:
  "distinct (map row_code rows) \<Longrightarrow>
   find (\<lambda>r. row_code r = Some c \<and> Q r) rows =
     (case find (\<lambda>r. row_code r = Some c) rows of Some r \<Rightarrow> if Q r then Some r else None | None \<Rightarrow> None)"
proof (induction rows)
  case (Cons r rows)
  have "find (\<lambda>r. row_code r = Some c) rows = None" if "row_code r = Some c"
    using Cons.prems that by (force simp: find_None_iff image_iff)
  then show ?case using Cons by (auto split: option.splits)
qed simp

lemma find_owned:
  assumes "table_ok rows n"
  shows "map_option shown (find (\<lambda>r. row_code r = Some c \<and> row_owner r = own) rows) = owned_by own (view (map shown rows) c)"
proof -
  have "distinct (map row_code rows)" using assms by (simp add: table_ok_def)
  from find_narrow [OF this, of c "\<lambda>r. row_owner r = own"] show ?thesis
    by (simp add: view_shown [OF assms] owned_by_def split: option.split)
qed

lemma find_for_update:
  assumes "table_ok rows n" and "upd_owner u \<noteq> Some 0"
  shows "map_option shown (find (row_matches c (update_owner_id u)) rows) = update_target u (view (map shown rows) c)"
proof (cases "upd_owner u")
  case None
  then have "row_matches c (update_owner_id u) = (\<lambda>r. row_code r = Some c)"
    by (simp add: row_matches_def update_owner_id_def fun_eq_iff)
  then show ?thesis using None by (simp add: view_shown [OF assms(1)] update_target_def)
next
  case (Some own)
  then have "row_matches c (update_owner_id u) = (\<lambda>r. row_code r = Some c \<and> row_owner r = own)"
    using assms(2) by (auto simp: row_matches_def update_owner_id_def fun_eq_iff)
  then show ?thesis using Some find_owned [OF assms(1)] by (simp add: update_target_def)
qed

definition in_page :: "list_query \<Rightarrow> link_row \<Rightarrow> bool" where
  "in_page q r \<longleftrightarrow> (q_owner q = None \<or> q_owner q = Some (row_owner r)) \<and> q_cursor q < row_id r \<and>
     (map_option status_to_string (q_status q) = None \<or> map_option status_to_string (q_status q) = Some (row_status r))"

lemma status_of_row: "row_ok r \<Longrightarrow> row_status r = status_to_string s \<longleftrightarrow> link_status (shown r) = s"
  by (cases s) (auto simp: row_ok_def status_to_string_def)

lemma in_page_shown: "row_ok r \<Longrightarrow> \<not> skipped q (shown r) \<longleftrightarrow> in_page q r"
  using status_of_row [of r]
  by (cases "q_owner q"; cases "q_status q")
    (auto simp: in_page_def skipped_def not_le eq_commute [of "status_to_string _"] simp del: shown_simps(5))

lemma page_shown:
  assumes "table_ok rows n"
  shows "map shown (link_rows (Links_page (q_owner q) (map_option status_to_string (q_status q)) (q_cursor q) (q_limit q)) rows) =
     take (q_limit q) (filter (\<lambda>r. \<not> skipped q r) (map shown rows))"
proof -
  have "filter (in_page q) rows = filter (\<lambda>r. \<not> skipped q (shown r)) rows"
    using assms by (intro filter_cong [OF refl]) (simp add: in_page_shown table_ok_def)
  then have "map shown (filter (in_page q) rows) = filter (\<lambda>r. \<not> skipped q r) (map shown rows)"
    by (simp add: filter_map comp_def)
  moreover have "link_rows (Links_page (q_owner q) (map_option status_to_string (q_status q)) (q_cursor q) (q_limit q)) rows =
      take (q_limit q) (filter (in_page q) rows)" by (simp add: in_page_def [abs_def])
  ultimately show ?thesis by (simp add: take_map [symmetric] del: link_rows.simps)
qed

definition new_status :: "lifecycle_update \<Rightarrow> string option" where
  "new_status u = map_option status_to_string (upd_status u)"

definition new_expiry :: "lifecycle_update \<Rightarrow> int option option" where
  "new_expiry u = (if expires_at_provided u then Some (upd_expires_at u) else None)"

lemma lifecycle_statement_alt:
  "lifecycle_statement c u =
     (if new_status u = None \<and> new_expiry u = None then None
      else Some (Set_lifecycle (new_status u) (new_expiry u) c (update_owner_id u)))"
  by (cases "upd_status u") (simp_all add: lifecycle_statement_def new_status_def new_expiry_def)

definition updated_row :: "int \<Rightarrow> lifecycle_update \<Rightarrow> link_row \<Rightarrow> link_row" where
  "updated_row t u = change_row t (set_lifecycle_fields (new_status u) (new_expiry u))"

lemma updated_row_same [simp]:
  "row_id (updated_row t u r) = row_id r" "row_code (updated_row t u r) = row_code r" "row_owner (updated_row t u r) = row_owner r"
  by (auto simp: updated_row_def change_row_def set_lifecycle_fields_def Let_def split: option.splits)

lemma updated_row_ok: "row_ok r \<Longrightarrow> row_ok (updated_row t u r)"
  by (auto simp: row_ok_def updated_row_def change_row_def set_lifecycle_fields_def new_status_def status_to_string_def Let_def
      split: option.splits if_splits)

lemma shown_change: "shown (change_row t f r) = shown (f r)"
  by (simp add: change_row_def shown_def link_of_row_def visible_def)

lemma updated_row_shown: "shown (updated_row t u r) = visible (apply_update now u (shown r))"
proof -
  have "s \<noteq> Active \<longleftrightarrow> s = Disabled" for s by (cases s) simp_all
  then show ?thesis
    unfolding updated_row_def shown_change
    by (cases "upd_status u")
      (simp_all add: set_lifecycle_fields_def new_status_def new_expiry_def shown_def link_of_row_def visible_def
        apply_update_def status_to_string_def Let_def)
qed

lemma updated_row_idle: "new_status u = None \<Longrightarrow> new_expiry u = None \<Longrightarrow> updated_row t u r = r"
  by (simp add: updated_row_def change_row_def set_lifecycle_fields_def)

definition updated_rows :: "int \<Rightarrow> string \<Rightarrow> lifecycle_update \<Rightarrow> link_row list \<Rightarrow> link_row list" where
  "updated_rows t c u = map (\<lambda>r. if row_matches c (update_owner_id u) r then updated_row t u r else r)"

lemma updated_rows_ok:
  assumes "table_ok rows n"
  shows "table_ok (updated_rows t c u rows) n"
proof -
  have "map row_code (updated_rows t c u rows) = map row_code rows" by (simp add: updated_rows_def)
  moreover have "row_ok r \<and> row_id r < n" if "r \<in> set (updated_rows t c u rows)" for r
    using assms that by (auto simp: updated_rows_def table_ok_def updated_row_ok)
  ultimately show ?thesis using assms by (simp add: table_ok_def)
qed

lemma find_updated:
  "find (row_matches c (update_owner_id u)) (updated_rows t c u rows) =
   map_option (updated_row t u) (find (row_matches c (update_owner_id u)) rows)"
  by (induction rows) (auto simp: updated_rows_def row_matches_def)

lemma updated_rows_shown:
  assumes "table_ok rows n" and "find (row_matches c (update_owner_id u)) rows = Some r"
  shows "map shown (updated_rows t c u rows) = replace_record (visible (apply_update now u (shown r))) (map shown rows)"
proof -
  obtain k where k: "k < length rows" "r = rows ! k" "row_matches c (update_owner_id u) r"
    using assms(2) by (auto simp: find_Some_iff)
  have code: "row_code r = Some c" using k(3) by (simp add: row_matches_def)
  have r: "r \<in> set rows" "row_ok r" using k assms(1) by (auto simp: table_ok_def)
  have "shown (if row_matches c (update_owner_id u) x then updated_row t u x else x) =
      (if link_code (shown x) = link_code (visible (apply_update now u (shown r)))
       then visible (apply_update now u (shown r)) else shown x)" if "x \<in> set rows" for x
  proof (cases "row_code x = Some c")
    case True
    have "x = r" using assms(1) that r(1) code True by (auto simp: table_ok_def distinct_map inj_on_def)
    then show ?thesis using k(3) updated_row_shown [of t u r now] code by simp
  next
    case False
    have "row_ok x" using assms(1) that by (simp add: table_ok_def)
    then have "link_code (shown x) \<noteq> c" using row_ok_code False by blast
    moreover have "link_code (visible (apply_update now u (shown r))) = c" using code by simp
    ultimately show ?thesis using False by (simp add: row_matches_def del: shown_simps)
  qed
  then show ?thesis by (simp add: updated_rows_def replace_record_def)
qed

lemma updated_rows_none:
  "find (row_matches c (update_owner_id u)) rows = None \<Longrightarrow> updated_rows t c u rows = rows"
  by (auto simp: updated_rows_def find_None_iff intro: map_idI)

text \<open>
  The calls the two repositories agree on: what they store fits the columns, the codes have no
  trailing space, and an update names no owner with the id 0, which the statement reads as no owner.
\<close>

fun good_call :: "(link_update \<Rightarrow> bool) \<Rightarrow> repo_call \<Rightarrow> bool" where
  "good_call storable (Call_create now url ex own cu) = storable (Insert_link own cu url ex)"
| "good_call storable (Call_find now c) = plain_code c"
| "good_call storable (Call_find_owned c own) = plain_code c"
| "good_call storable (Call_list q) = True"
| "good_call storable (Call_update now c u) =
     (plain_code c \<and> upd_owner u \<noteq> Some 0 \<and>
      (case lifecycle_statement c u of None \<Rightarrow> True | Some s \<Rightarrow> storable s))"

context links_server
begin

text \<open>
  The states inside the transaction of a creation that started from \<open>rows\<close> with the counter at \<open>n\<close>, and
  what is known when it throws. \<open>alive\<close> says that the server was up at the start.
\<close>

definition idle :: "bool \<Rightarrow> link_row list \<Rightarrow> u64 \<Rightarrow> 'd \<Rightarrow> bool" where
  "idle alive rows n d \<longleftrightarrow> committed d = rows \<and> counter d = n \<and> working d = None \<and> (alive \<longrightarrow> up d)"

definition in_creation :: "bool \<Rightarrow> link_row list \<Rightarrow> u64 \<Rightarrow> link_row list \<Rightarrow> 'd \<Rightarrow> bool" where
  "in_creation alive rows n t d \<longleftrightarrow>
     committed d = rows \<and> counter d = n \<and> working d = Some t \<and> (alive \<longrightarrow> up d)"

definition creation_thrown :: "bool \<Rightarrow> link_row list \<Rightarrow> u64 \<Rightarrow> string \<Rightarrow> int option \<Rightarrow> u64 \<Rightarrow> string option \<Rightarrow> exn \<Rightarrow> 'd \<Rightarrow> bool" where
  "creation_thrown alive rows n url ex own cu e d \<longleftrightarrow>
     (committed d = rows \<or> (\<exists>r. committed d = rows @ [r] \<and> fresh_row own (Some (code_for cu n)) url ex n r)) \<and>
     counter d \<in> {n, n + 1} \<and>
     (alive \<longrightarrow> up d \<and> committed d = rows \<and> counter d = n + 1 \<and> Some (code_for cu n) \<in> row_code ` set rows \<and>
        (cu \<noteq> None \<longrightarrow> contains_sub ''Duplicate entry'' (exn_what e)))"

definition creation_done :: "bool \<Rightarrow> link_row list \<Rightarrow> u64 \<Rightarrow> string \<Rightarrow> int option \<Rightarrow> u64 \<Rightarrow> string option \<Rightarrow> link_record option \<Rightarrow> 'd \<Rightarrow> bool" where
  "creation_done alive rows n url ex own cu x d \<longleftrightarrow>
     (\<exists>r. x = Some (link_of_row r) \<and> fresh_row own (Some (code_for cu n)) url ex n r \<and> committed d = rows @ [r] \<and>
        working d = None \<and> counter d = n + 1 \<and> (alive \<longrightarrow> up d) \<and> Some (code_for cu n) \<notin> row_code ` set rows)"

lemma start_step:
  "db_hoare (idle alive rows n)
     (execute_raw_update D c Start_transaction) (\<lambda>_. in_creation alive rows n rows)
     (\<lambda>e d. committed d = rows \<and> counter d = n \<and> working d = None \<and> \<not> alive)"
proof (rule db_hoareI)
  fix d r d'
  assume pre: "idle alive rows n d"
    and run: "execute_raw_update D c Start_transaction d = (r, d')"
  obtain r0 where r0: "driver_raw D c Start_transaction d = (r0, d')"
    and r: "r = (case r0 of Inl m \<Rightarrow> Inl (Db_exception m) | Inr x \<Rightarrow> Inr x)"
    using run by (auto simp: execute_raw_update_def as_db_exception_def split: prod.splits sum.splits)
  show "case r of Inr x \<Rightarrow> in_creation alive rows n rows d'
      | Inl e \<Rightarrow> committed d' = rows \<and> counter d' = n \<and> working d' = None \<and> \<not> alive"
    using start_law [OF _ r0] pre r by (auto simp: idle_def in_creation_def split: sum.splits)
qed

lemma insert_step:
  assumes "storable (Insert_link own cu url ex)" and "plain_rows rows"
  shows "db_hoare (in_creation alive rows n rows) (execute_update D c (Insert_link own cu url ex))
     (\<lambda>_ d. \<exists>r. in_creation alive rows (n + 1) (rows @ [r]) d \<and> inserted d = n \<and> fresh_row own cu url ex n r \<and>
        (cu = None \<or> cu \<notin> row_code ` set rows))
     (creation_thrown alive rows n url ex own cu)"
proof (rule db_hoareI)
  fix d r d'
  assume pre: "in_creation alive rows n rows d" and run: "execute_update D c (Insert_link own cu url ex) d = (r, d')"
  obtain r0 where r0: "driver_update D c (Insert_link own cu url ex) d = (r0, d')"
    and r: "r = (case r0 of Inl m \<Rightarrow> Inl (Db_exception m) | Inr x \<Rightarrow> Inr x)"
    using run by (auto simp: execute_update_def as_db_exception_def split: prod.splits sum.splits)
  note law = update_law [OF assms(1) _ _ assms(2) r0]
  show "case r of
      Inr x \<Rightarrow> \<exists>r. in_creation alive rows (n + 1) (rows @ [r]) d' \<and> inserted d' = n \<and> fresh_row own cu url ex n r \<and>
        (cu = None \<or> cu \<notin> row_code ` set rows)
    | Inl e \<Rightarrow> creation_thrown alive rows n url ex own cu e d'"
  proof (cases r0)
    case (Inl m)
    have taken: "Some (code_for cu n) \<in> row_code ` set rows"
      if "apply_link_update (server_time d) n (Insert_link own cu url ex) rows = None"
      using that by (auto simp: code_for_def split: if_splits option.splits)
    show ?thesis
      using law pre Inl r assms(2) taken
      by (auto simp: in_creation_def creation_thrown_def simp del: apply_link_update.simps)
  next
    case (Inr k)
    then obtain t where t: "apply_link_update (server_time d) n (Insert_link own cu url ex) rows = Some t" "working d' = Some t"
      using law pre assms(2) by (auto simp: in_creation_def simp del: apply_link_update.simps)
    obtain row where row: "t = rows @ [row]" "fresh_row own cu url ex n row" "cu = None \<or> cu \<notin> row_code ` set rows"
      using insert_new_row [OF t(1)] by blast
    have "in_creation alive rows (n + 1) (rows @ [row]) d' \<and> inserted d' = n"
      using law pre Inr assms(2) t(2) row(1) by (simp add: in_creation_def del: apply_link_update.simps)
    then show ?thesis using row(2,3) Inr r by auto
  qed
qed

lemma set_code_step:
  assumes "plain_rows rows" and "\<And>x. x \<in> set rows \<Longrightarrow> row_id x \<noteq> n" and r: "fresh_row own None url ex n r"
  shows "db_hoare (in_creation alive rows (n + 1) (rows @ [r])) (execute_update D c (Set_code (encode_base62 n) n))
     (\<lambda>_ d. \<exists>r. in_creation alive rows (n + 1) (rows @ [r]) d \<and> fresh_row own (Some (encode_base62 n)) url ex n r \<and>
        Some (encode_base62 n) \<notin> row_code ` set rows)
     (creation_thrown alive rows n url ex own None)"
proof (rule db_hoareI)
  fix d x d'
  assume pre: "in_creation alive rows (n + 1) (rows @ [r]) d"
    and run: "execute_update D c (Set_code (encode_base62 n) n) d = (x, d')"
  obtain r0 where r0: "driver_update D c (Set_code (encode_base62 n) n) d = (r0, d')"
    and x: "x = (case r0 of Inl m \<Rightarrow> Inl (Db_exception m) | Inr x \<Rightarrow> Inr x)"
    using run by (auto simp: execute_update_def as_db_exception_def split: prod.splits sum.splits)
  have ok: "storable (Set_code (encode_base62 n) n)"
    using storable_code encode_base62_max_length encode_base62_chars by blast
  have plain: "plain_rows (rows @ [r])" using assms(1) r by (simp add: plain_rows_def fresh_row_def)
  note law = update_law [OF ok _ _ plain r0]
  show "case x of
      Inr x \<Rightarrow> \<exists>r. in_creation alive rows (n + 1) (rows @ [r]) d' \<and> fresh_row own (Some (encode_base62 n)) url ex n r \<and>
        Some (encode_base62 n) \<notin> row_code ` set rows
    | Inl e \<Rightarrow> creation_thrown alive rows n url ex own None e d'"
  proof (cases r0)
    case (Inl m)
    have i: "row_id r = n" using r by (simp add: fresh_row_def)
    have taken: "Some (encode_base62 n) \<in> row_code ` set rows"
      if "apply_link_update (server_time d) (n + 1) (Set_code (encode_base62 n) n) (rows @ [r]) = None"
      by (rule set_code_taken [OF assms(2) i that])
    show ?thesis
      using law pre Inl x assms(1) taken
      by (auto simp: in_creation_def creation_thrown_def code_for_def simp del: apply_link_update.simps)
  next
    case (Inr k)
    then obtain t where t: "apply_link_update (server_time d) (n + 1) (Set_code (encode_base62 n) n) (rows @ [r]) = Some t"
        "working d' = Some t"
      using law pre assms(1) by (auto simp: in_creation_def simp del: apply_link_update.simps)
    obtain row where row: "t = rows @ [row]" "fresh_row own (Some (encode_base62 n)) url ex n row"
        "Some (encode_base62 n) \<notin> row_code ` set rows"
      using set_code_new_row [OF assms(2) r t(1)] by blast
    have "in_creation alive rows (n + 1) (rows @ [row]) d'"
      using law pre Inr assms(1) t(2) row(1) by (simp add: in_creation_def del: apply_link_update.simps)
    then show ?thesis using row(2,3) Inr x by auto
  qed
qed

lemma last_id_step:
  "db_hoare (\<lambda>d. in_creation alive rows (n + 1) t d \<and> inserted d = n) (execute_query D c Last_insert_id)
     (\<lambda>ids d. in_creation alive rows (n + 1) t d \<and> (\<exists>row. ids = [row] \<and> get_uint64 row ''1'' = Inr n))
     (creation_thrown alive rows n url ex own cu)"
proof (rule db_hoareI)
  fix d r d'
  assume pre: "in_creation alive rows (n + 1) t d \<and> inserted d = n" and run: "execute_query D c Last_insert_id d = (r, d')"
  obtain r0 where r0: "driver_query D c Last_insert_id d = (r0, d')"
    and r: "r = (case r0 of Inl m \<Rightarrow> Inl (Db_exception m) | Inr x \<Rightarrow> Inr x)"
    using run by (auto simp: execute_query_def as_db_exception_def split: prod.splits sum.splits)
  show "case r of
      Inr ids \<Rightarrow> in_creation alive rows (n + 1) t d' \<and> (\<exists>row. ids = [row] \<and> get_uint64 row ''1'' = Inr n)
    | Inl e \<Rightarrow> creation_thrown alive rows n url ex own cu e d'"
    using last_id_law [OF r0] pre r by (auto simp: in_creation_def creation_thrown_def split: sum.splits)
qed

lemma select_step:
  assumes "plain_rows (rows @ [r])" and "\<And>x. x \<in> set rows \<Longrightarrow> row_id x \<noteq> n" and "row_id r = n"
  shows "db_hoare (in_creation alive rows (n + 1) (rows @ [r])) (execute_query D c (Link_by_id n))
     (\<lambda>found d. in_creation alive rows (n + 1) (rows @ [r]) d \<and> (\<exists>row. found = [row] \<and> row_shows r row))
     (creation_thrown alive rows n url ex own cu)"
proof (rule db_hoareI)
  fix d x d'
  assume pre: "in_creation alive rows (n + 1) (rows @ [r]) d" and run: "execute_query D c (Link_by_id n) d = (x, d')"
  obtain r0 where r0: "driver_query D c (Link_by_id n) d = (r0, d')"
    and x: "x = (case r0 of Inl m \<Rightarrow> Inl (Db_exception m) | Inr x \<Rightarrow> Inr x)"
    using run by (auto simp: execute_query_def as_db_exception_def split: prod.splits sum.splits)
  have "filter (\<lambda>x. row_id x = n) rows = []" using assms(2) by (simp add: filter_empty_conv)
  then have one: "link_rows (Link_by_id n) (rows @ [r]) = [r]" using assms(3) by simp
  have view: "(case working d of Some t \<Rightarrow> t | None \<Rightarrow> committed d) = rows @ [r]" using pre by (simp add: in_creation_def)
  show "case x of
      Inr found \<Rightarrow> in_creation alive rows (n + 1) (rows @ [r]) d' \<and> (\<exists>row. found = [row] \<and> row_shows r row)
    | Inl e \<Rightarrow> creation_thrown alive rows n url ex own cu e d'"
    using query_law [OF _ _ _ r0, unfolded view one] assms(1) pre x
    by (auto simp: in_creation_def creation_thrown_def list_all2_Cons1 split: sum.splits)
qed

lemma commit_step:
  assumes "fresh_row own (Some (code_for cu n)) url ex n r" and "Some (code_for cu n) \<notin> row_code ` set rows"
  shows "db_hoare (in_creation alive rows (n + 1) (rows @ [r]))
     (db_bind (execute_raw_update D c Commit_transaction) (\<lambda>_. db_return (Some (link_of_row r))))
     (creation_done alive rows n url ex own cu) (creation_thrown alive rows n url ex own cu)"
proof (rule db_hoareI)
  fix d x d'
  assume pre: "in_creation alive rows (n + 1) (rows @ [r]) d"
    and run: "db_bind (execute_raw_update D c Commit_transaction) (\<lambda>_. db_return (Some (link_of_row r))) d = (x, d')"
  obtain r0 where r0: "driver_raw D c Commit_transaction d = (r0, d')"
    and x: "x = (case r0 of Inl m \<Rightarrow> Inl (Db_exception m) | Inr _ \<Rightarrow> Inr (Some (link_of_row r)))"
    using run by (auto simp: db_bind_def execute_raw_update_def as_db_exception_def split: prod.splits sum.splits)
  have w: "working d = Some (rows @ [r])" using pre by (simp add: in_creation_def)
  show "case x of
      Inr y \<Rightarrow> creation_done alive rows n url ex own cu y d'
    | Inl e \<Rightarrow> creation_thrown alive rows n url ex own cu e d'"
    using commit_law [OF w r0] pre x assms
    by (auto simp: in_creation_def creation_done_def creation_thrown_def split: sum.splits)
qed

text \<open>The transaction from the point where the new row has its code.\<close>

lemma coded_row_spec:
  assumes ok: "table_ok rows n" and r: "fresh_row own (Some (code_for cu n)) url ex n r"
    and new: "Some (code_for cu n) \<notin> row_code ` set rows" and plain: "plain_code (code_for cu n)"
  shows "db_hoare (in_creation alive rows (n + 1) (rows @ [r]))
     (db_bind (execute_query D c (Link_by_id n)) (\<lambda>rows.
        case rows of
          [] \<Rightarrow> db_throw (Runtime_error ''Failed to read created short link'')
        | row # _ \<Rightarrow>
            db_bind (read_record row) (\<lambda>r.
            db_bind (execute_raw_update D c Commit_transaction) (\<lambda>_. db_return (Some r)))))
     (creation_done alive rows n url ex own cu) (creation_thrown alive rows n url ex own cu)"
proof (rule db_hoare_bind [OF select_step])
  show "plain_rows (rows @ [r])"
    using table_plain [OF ok] r plain by (simp add: plain_rows_def fresh_row_def)
  show "row_id x \<noteq> n" if "x \<in> set rows" for x using ok that by (auto simp: table_ok_def)
  show "row_id r = n" using r by (simp add: fresh_row_def)
next
  fix found
  show "db_hoare (\<lambda>d. in_creation alive rows (n + 1) (rows @ [r]) d \<and> (\<exists>row. found = [row] \<and> row_shows r row))
     (case found of
        [] \<Rightarrow> db_throw (Runtime_error ''Failed to read created short link'')
      | row # _ \<Rightarrow>
          db_bind (read_record row) (\<lambda>r.
          db_bind (execute_raw_update D c Commit_transaction) (\<lambda>_. db_return (Some r))))
     (creation_done alive rows n url ex own cu) (creation_thrown alive rows n url ex own cu)"
  proof (rule db_hoare_pure)
    assume "\<exists>row. found = [row] \<and> row_shows r row"
    then obtain row where row: "found = [row]" "row_shows r row" by blast
    have read: "read_record row d = (Inr (link_of_row r), d)" for d :: 'd
      using read_record_shows [OF row(2)] r by (simp add: fresh_row_def)
    show "db_hoare (in_creation alive rows (n + 1) (rows @ [r]))
     (case found of
        [] \<Rightarrow> db_throw (Runtime_error ''Failed to read created short link'')
      | row # _ \<Rightarrow>
          db_bind (read_record row) (\<lambda>r.
          db_bind (execute_raw_update D c Commit_transaction) (\<lambda>_. db_return (Some r))))
     (creation_done alive rows n url ex own cu) (creation_thrown alive rows n url ex own cu)"
      using commit_step [OF r new, of alive c] row(1) read by (simp add: db_hoare_def db_bind_def [of "read_record row"])
  qed
qed

lemma create_spec:
  assumes ok: "table_ok rows n" and st: "storable (Insert_link own cu url ex)"
  shows "db_hoare (idle alive rows n)
     (create_in_transaction D url ex own cu c)
     (creation_done alive rows n url ex own cu) (creation_thrown alive rows n url ex own cu)"
proof -
  note plain = table_plain [OF ok]
  have other: "row_id x \<noteq> n" if "x \<in> set rows" for x using ok that by (auto simp: table_ok_def)
  have start: "db_hoare (idle alive rows n)
     (execute_raw_update D c Start_transaction) (\<lambda>_. in_creation alive rows n rows) (creation_thrown alive rows n url ex own cu)"
    by (rule db_hoare_cons [OF start_step]) (auto simp: creation_thrown_def)
  show ?thesis
    unfolding create_in_transaction_def
  proof (rule db_hoare_bind [OF start], rule db_hoare_bind [OF insert_step [OF st plain]], rule db_hoareI)
    fix d x d'
    let ?rest = "\<lambda>ids. case ids of
       [] \<Rightarrow> db_throw (Runtime_error ''Failed to read last insert id'')
     | id_of # _ \<Rightarrow>
         db_bind (db_lift (get_uint64 id_of ''1'')) (\<lambda>i.
         db_bind (case cu of Some _ \<Rightarrow> db_return 0 | None \<Rightarrow> execute_update D c (Set_code (encode_base62 i) i)) (\<lambda>_.
         db_bind (execute_query D c (Link_by_id i)) (\<lambda>rows.
         case rows of
           [] \<Rightarrow> db_throw (Runtime_error ''Failed to read created short link'')
         | row # _ \<Rightarrow>
             db_bind (read_record row) (\<lambda>r.
             db_bind (execute_raw_update D c Commit_transaction) (\<lambda>_. db_return (Some r))))))"
    assume pre: "\<exists>r. in_creation alive rows (n + 1) (rows @ [r]) d \<and> inserted d = n \<and> fresh_row own cu url ex n r \<and>
        (cu = None \<or> cu \<notin> row_code ` set rows)"
      and run: "db_bind (execute_query D c Last_insert_id) ?rest d = (x, d')"
    then obtain r where r: "in_creation alive rows (n + 1) (rows @ [r]) d \<and> inserted d = n" "fresh_row own cu url ex n r"
        "cu = None \<or> cu \<notin> row_code ` set rows" by blast
    have rest: "db_hoare (in_creation alive rows (n + 1) (rows @ [r]))
       (db_bind (case cu of Some _ \<Rightarrow> db_return 0 | None \<Rightarrow> execute_update D c (Set_code (encode_base62 n) n)) (\<lambda>_.
         db_bind (execute_query D c (Link_by_id n)) (\<lambda>rows.
         case rows of
           [] \<Rightarrow> db_throw (Runtime_error ''Failed to read created short link'')
         | row # _ \<Rightarrow>
             db_bind (read_record row) (\<lambda>r.
             db_bind (execute_raw_update D c Commit_transaction) (\<lambda>_. db_return (Some r))))))
       (creation_done alive rows n url ex own cu) (creation_thrown alive rows n url ex own cu)"
    proof (cases cu)
      case None
      then have code: "code_for cu n = encode_base62 n" by (simp add: code_for_def)
      have plain_new: "plain_code (code_for cu n)" unfolding code by (rule plain_base62 [OF encode_base62_chars])
      show ?thesis
        unfolding None option.case
      proof (rule db_hoare_bind [OF set_code_step [OF plain other]], assumption, use r None in simp, rule db_hoareI)
        fix d0 y d1
        assume "\<exists>r. in_creation alive rows (n + 1) (rows @ [r]) d0 \<and> fresh_row own (Some (encode_base62 n)) url ex n r \<and>
           Some (encode_base62 n) \<notin> row_code ` set rows"
        then obtain r' where r': "in_creation alive rows (n + 1) (rows @ [r']) d0"
            "fresh_row own (Some (code_for cu n)) url ex n r'" "Some (code_for cu n) \<notin> row_code ` set rows"
          by (auto simp: code)
        assume last: "db_bind (execute_query D c (Link_by_id n)) (\<lambda>rows.
         case rows of
           [] \<Rightarrow> db_throw (Runtime_error ''Failed to read created short link'')
         | row # _ \<Rightarrow>
             db_bind (read_record row) (\<lambda>r.
             db_bind (execute_raw_update D c Commit_transaction) (\<lambda>_. db_return (Some r)))) d0 = (y, d1)"
        show "case y of Inr z \<Rightarrow> creation_done alive rows n url ex own None z d1
          | Inl e \<Rightarrow> creation_thrown alive rows n url ex own None e d1"
          using db_hoareD [OF coded_row_spec [OF ok r'(2,3) plain_new] r'(1) last] unfolding None .
      qed
    next
      case (Some code)
      then have "code_for cu n = code" "plain_code code" using storable_plain st by (auto simp: code_for_def)
      then show ?thesis
        using coded_row_spec [OF ok, of own cu url ex r alive c] r(2,3) Some by (simp add: db_hoare_def db_bind_def [of "db_return 0"])
    qed
    have "db_hoare (\<lambda>d. in_creation alive rows (n + 1) (rows @ [r]) d \<and> inserted d = n)
       (db_bind (execute_query D c Last_insert_id) ?rest)
       (creation_done alive rows n url ex own cu) (creation_thrown alive rows n url ex own cu)"
    proof (rule db_hoare_bind [OF last_id_step], rule db_hoare_pure)
      fix ids
      assume "\<exists>row. ids = [row] \<and> get_uint64 row ''1'' = Inr n"
      then obtain row where "ids = [row]" "get_uint64 row ''1'' = Inr n" by blast
      then show "db_hoare (in_creation alive rows (n + 1) (rows @ [r])) (?rest ids)
         (creation_done alive rows n url ex own cu) (creation_thrown alive rows n url ex own cu)"
        using rest by (simp add: db_hoare_def db_bind_def [of "db_lift _"])
    qed
    then show "case x of Inr y \<Rightarrow> creation_done alive rows n url ex own cu y d'
        | Inl e \<Rightarrow> creation_thrown alive rows n url ex own cu e d'"
      by (rule db_hoareD) (rule r(1), rule run)
  qed
qed

lemma rolled_back_spec:
  assumes "table_ok rows n" and "storable (Insert_link own cu url ex)"
  shows "db_hoare (idle alive rows n) (create_rolled_back D url ex own cu c)
     (creation_done alive rows n url ex own cu) (\<lambda>e d. creation_thrown alive rows n url ex own cu e d \<and> working d = None)"
proof (rule db_hoareI)
  fix d x d'
  assume pre: "idle alive rows n d" and run: "create_rolled_back D url ex own cu c d = (x, d')"
  obtain y d1 where y: "create_in_transaction D url ex own cu c d = (y, d1)" by fastforce
  have spec: "case y of Inr z \<Rightarrow> creation_done alive rows n url ex own cu z d1
      | Inl e \<Rightarrow> creation_thrown alive rows n url ex own cu e d1"
    by (rule db_hoareD [OF create_spec [OF assms] pre y])
  show "case x of Inr z \<Rightarrow> creation_done alive rows n url ex own cu z d'
      | Inl e \<Rightarrow> creation_thrown alive rows n url ex own cu e d' \<and> working d' = None"
  proof (cases y)
    case (Inl e)
    obtain r where r: "driver_raw D c Rollback_transaction d1 = (r, d')" and x: "x = Inl e"
      using run y Inl by (auto simp: create_rolled_back_def execute_raw_update_def as_db_exception_def
          split: prod.splits sum.splits)
    show ?thesis
      using rollback_law [OF r] spec Inl x by (auto simp: creation_thrown_def)
  next
    case (Inr z)
    then show ?thesis using run y spec by (auto simp: create_rolled_back_def)
  qed
qed

text \<open>The connection: taking it keeps the database idle, and it always goes back.\<close>

lemma with_connection_spec:
  assumes body: "\<And>c. db_hoare (idle alive rows n) (body c) Q E" and "idle alive rows n d" and "free_connections p \<noteq> []"
    and run: "with_connection D wait body (p, d) = (x, p', d')"
  shows "free_connections p' \<noteq> [] \<and>
     (case x of Inr y \<Rightarrow> Q y d' | Inl e \<Rightarrow> E e d' \<or> \<not> alive \<and> idle alive rows n d')"
  by (rule with_connection_rule [OF _ _ body assms(2,3) run]) (auto simp: idle_def dest: ping_law reconnect_law)

text \<open>Queries outside a transaction.\<close>

lemma query_up:
  assumes "idle True rows n d" and "plain_rows rows" and "plain_query q" and "q \<noteq> Last_insert_id"
  shows "\<exists>ss d'. execute_query D c q d = (Inr ss, d') \<and> idle True rows n d' \<and> list_all2 row_shows (link_rows q rows) ss"
proof -
  obtain r d' where r: "driver_query D c q d = (r, d')" by fastforce
  have view: "(case working d of Some t \<Rightarrow> t | None \<Rightarrow> committed d) = rows" using assms(1) by (simp add: idle_def)
  show ?thesis
    using query_law [OF assms(4,3) _ r, unfolded view] assms(1,2) r
    by (cases r) (auto simp: execute_query_def as_db_exception_def idle_def)
qed

lemma query_first:
  assumes "idle True rows n d" and ok: "table_ok rows n" and "plain_query q" and "q \<noteq> Last_insert_id"
    and one: "link_rows q rows = take 1 (filter P rows)"
  shows "\<exists>d'. db_bind (execute_query D c q) read_first d = (Inr (map_option link_of_row (find P rows)), d') \<and> idle True rows n d'"
proof -
  obtain ss d' where ss: "execute_query D c q d = (Inr ss, d')" "idle True rows n d'" "list_all2 row_shows (link_rows q rows) ss"
    using query_up [OF assms(1) table_plain [OF ok] assms(3,4)] by blast
  have "\<And>r. r \<in> set (link_rows q rows) \<Longrightarrow> row_ok r"
    using one ok by (auto simp: table_ok_def dest!: in_set_takeD)
  moreover have "(case link_rows q rows of [] \<Rightarrow> None | r # _ \<Rightarrow> Some r) = find P rows"
    unfolding one by (induction rows) auto
  ultimately show ?thesis
    using read_first_shows [OF ss(3), of d'] ss(1,2) by (simp add: db_bind_def)
qed

lemma update_up:
  assumes "idle True rows n d" and "plain_rows rows" and "storable u" and "\<not> is_insert u"
    and "apply_link_update (server_time d) n u rows = Some t"
  shows "\<exists>k d'. execute_update D c u d = (Inr k, d') \<and> idle True t n d'"
proof -
  obtain r d' where r: "driver_update D c u d = (r, d')" by fastforce
  show ?thesis
    using autocommit_law [OF assms(3,4) _ _ r] assms r
    by (cases r) (auto simp: execute_update_def as_db_exception_def idle_def)
qed

section \<open>The MySQL repository implements the specification\<close>

definition sql_shows :: "('c pool \<times> 'd) world \<Rightarrow> link_record list \<times> u64" where
  "sql_shows w = (map shown (committed (snd (store w))), counter (snd (store w)))"

definition sql_inv :: "('c pool \<times> 'd) world \<Rightarrow> bool" where
  "sql_inv w \<longleftrightarrow> (case store w of (p, d) \<Rightarrow>
     free_connections p \<noteq> [] \<and> working d = None \<and> up d \<and> table_ok (committed d) (counter d))"

text \<open>An operation that returns the value \<open>v\<close> and leaves the rows \<open>rows'\<close>.\<close>

lemma mysql_op_up:
  assumes body: "\<And>c d. idle True rows n d \<Longrightarrow> \<exists>d'. body c d = (Inr v, d') \<and> idle True (rows' d') n d' \<and> table_ok (rows' d') n \<and> R (rows' d')"
    and inv: "sql_inv w" and rows: "committed (snd (store w)) = rows" "counter (snd (store w)) = n"
    and run: "mysql_op D wait op body w = (x, w')"
  shows "x = Inr v \<and> sql_inv w' \<and> counter (snd (store w')) = n \<and> R (committed (snd (store w')))"
proof -
  obtain p d where pd: "store w = (p, d)" by fastforce
  have d: "idle True rows n d" and p: "free_connections p \<noteq> []" using inv rows pd by (auto simp: sql_inv_def idle_def)
  have triple: "db_hoare (idle True rows n) (body c)
      (\<lambda>y d'. y = v \<and> idle True (rows' d') n d' \<and> table_ok (rows' d') n \<and> R (rows' d')) (\<lambda>e d'. False)" for c
    using body [of _ c] by (force simp: db_hoare_def)
  obtain y p' d' where y: "with_connection D wait body (p, d) = (y, p', d')" by (metis prod_cases3)
  then have "free_connections p' \<noteq> [] \<and> (case y of
      Inr y \<Rightarrow> y = v \<and> idle True (rows' d') n d' \<and> table_ok (rows' d') n \<and> R (rows' d')
    | Inl e \<Rightarrow> False \<or> \<not> True \<and> idle True rows n d')"
    by (rule with_connection_spec [OF triple d p])
  then show ?thesis using run y pd by (cases y) (auto simp: mysql_op_def sql_inv_def idle_def)
qed

lemma mysql_find_spec:
  assumes inv: "sql_inv w" and q: "plain_query q" "q \<noteq> Last_insert_id"
    and one: "link_rows q (committed (snd (store w))) = take 1 (filter P (committed (snd (store w))))"
    and run: "mysql_op D wait op (\<lambda>c. db_bind (execute_query D c q) (\<lambda>rows. db_bind (read_first rows) (\<lambda>r. db_return (f r)))) w = (x, w')"
  shows "x = Inr (f (map_option link_of_row (find P (committed (snd (store w)))))) \<and> sql_inv w' \<and> sql_shows w' = sql_shows w"
proof -
  let ?rows = "committed (snd (store w))" and ?n = "counter (snd (store w))"
  have ok: "table_ok ?rows ?n" using inv by (auto simp: sql_inv_def split: prod.splits)
  have body: "\<exists>d'. db_bind (execute_query D c q) (\<lambda>rows. db_bind (read_first rows) (\<lambda>r. db_return (f r))) d =
      (Inr (f (map_option link_of_row (find P ?rows))), d') \<and> idle True ?rows ?n d' \<and> table_ok ?rows ?n \<and> ?rows = ?rows"
    if d: "idle True ?rows ?n d" for c d
  proof -
    obtain d' where "db_bind (execute_query D c q) read_first d = (Inr (map_option link_of_row (find P ?rows)), d')"
      "idle True ?rows ?n d'"
      using query_first [OF d ok q one] by blast
    then show ?thesis using ok by (auto simp: db_bind_def split: prod.splits sum.splits)
  qed
  from mysql_op_up [where rows' = "\<lambda>_. ?rows" and R = "\<lambda>rows. rows = ?rows", OF body inv refl refl run]
  show ?thesis by (simp add: sql_shows_def)
qed

lemma sql_inv_table: "sql_inv w \<Longrightarrow> table_ok (committed (snd (store w))) (counter (snd (store w)))"
  by (auto simp: sql_inv_def split: prod.splits)

lemma mysql_find_call:
  assumes inv: "sql_inv w" and "plain_code c"
  shows "\<exists>lr w'. repo_find (mysql_repo D wait) now c w = (Inr lr, w') \<and>
     map_option visible (lookup_record lr) = view (map shown (committed (snd (store w)))) c \<and> sql_inv w' \<and> sql_shows w' = sql_shows w"
proof -
  let ?P = "\<lambda>r. row_code r = Some c"
  obtain x w1 where x: "mysql_op D wait Op_find (find_by_code D c) w = (x, w1)" by fastforce
  have "x = Inr \<lparr>lookup_record = map_option link_of_row (find ?P (committed (snd (store w)))), lookup_from = Source_mysql\<rparr> \<and>
      sql_inv w1 \<and> sql_shows w1 = sql_shows w"
    using mysql_find_spec [OF inv _ _ _ x [unfolded find_by_code_def], where P = ?P] assms(2) by simp
  then show ?thesis
    using x by (simp add: mysql_repo_def view_shown [OF sql_inv_table [OF inv]] option.map_comp comp_def shown_map)
qed

lemma mysql_owned_call:
  assumes inv: "sql_inv w" and "plain_code c"
  shows "\<exists>r w'. repo_find_for_owner (mysql_repo D wait) c own w = (Inr r, w') \<and>
     map_option visible r = owned_by own (view (map shown (committed (snd (store w)))) c) \<and> sql_inv w' \<and> sql_shows w' = sql_shows w"
proof -
  let ?P = "\<lambda>r. row_code r = Some c \<and> row_owner r = own"
  obtain x w1 where x: "mysql_op D wait Op_find (find_by_code_for_owner D c own) w = (x, w1)" by fastforce
  have eta: "find_by_code_for_owner D c own =
      (\<lambda>k. db_bind (execute_query D k (Link_of_owner c own)) (\<lambda>rows. db_bind (read_first rows) (\<lambda>r. db_return r)))"
    by (simp add: fun_eq_iff find_by_code_for_owner_def db_bind_def split: prod.split sum.split)
  have "x = Inr (map_option link_of_row (find ?P (committed (snd (store w))))) \<and> sql_inv w1 \<and> sql_shows w1 = sql_shows w"
    using mysql_find_spec [OF inv _ _ _ x [unfolded eta], where P = ?P] assms(2) by simp
  then show ?thesis
    using x find_owned [OF sql_inv_table [OF inv], of c own, symmetric]
    by (simp add: mysql_repo_def option.map_comp comp_def shown_map)
qed

lemma mysql_list_call:
  assumes inv: "sql_inv w"
  shows "\<exists>rs w'. repo_list (mysql_repo D wait) q w = (Inr rs, w') \<and>
     map visible rs = take (q_limit q) (filter (\<lambda>r. \<not> skipped q r) (map shown (committed (snd (store w))))) \<and>
     sql_inv w' \<and> sql_shows w' = sql_shows w"
proof -
  let ?rows = "committed (snd (store w))" and ?n = "counter (snd (store w))"
  let ?q = "Links_page (q_owner q) (map_option status_to_string (q_status q)) (q_cursor q) (q_limit q)"
  note ok = sql_inv_table [OF inv]
  obtain x w1 where x: "mysql_op D wait Op_list (list_links D q) w = (x, w1)" by fastforce
  have body: "\<exists>d'. list_links D q c d = (Inr (map link_of_row (link_rows ?q ?rows)), d') \<and> idle True ?rows ?n d' \<and>
      table_ok ?rows ?n \<and> ?rows = ?rows"
    if d: "idle True ?rows ?n d" for c d
  proof -
    obtain ss d' where ss: "execute_query D c ?q d = (Inr ss, d')" "idle True ?rows ?n d'" "list_all2 row_shows (link_rows ?q ?rows) ss"
      using query_up [OF d table_plain [OF ok], of ?q c] by auto
    have "\<And>r. r \<in> set (link_rows ?q ?rows) \<Longrightarrow> row_ok r" using ok by (auto simp: table_ok_def dest!: in_set_takeD)
    then show ?thesis using read_records_shows [OF ss(3), of d'] ss(1,2) ok by (simp add: list_links_def db_bind_def del: link_rows.simps)
  qed
  have "x = Inr (map link_of_row (link_rows ?q ?rows)) \<and> sql_inv w1 \<and> sql_shows w1 = sql_shows w"
    using mysql_op_up [where rows' = "\<lambda>_. ?rows" and R = "\<lambda>r. r = ?rows", OF body inv refl refl x]
    by (simp add: sql_shows_def del: link_rows.simps)
  moreover have "map visible (map link_of_row (link_rows ?q ?rows)) = map shown (link_rows ?q ?rows)" by (simp add: shown_def comp_def)
  ultimately show ?thesis
    using x page_shown [OF ok, of q] by (simp add: mysql_repo_def del: link_rows.simps map_map)
qed

lemma update_body:
  assumes ok: "table_ok rows n" and good: "plain_code c" "upd_owner u \<noteq> Some 0"
      "\<And>s. lifecycle_statement c u = Some s \<Longrightarrow> storable s"
    and d: "idle True rows n d"
  shows "\<exists>t d'. update_lifecycle D c u k d =
      (Inr (map_option (\<lambda>r. link_of_row (updated_row t u r)) (find (row_matches c (update_owner_id u)) rows)), d') \<and>
     idle True (updated_rows t c u rows) n d'"
proof -
  have stepped: "\<exists>t v d1. (case lifecycle_statement c u of None \<Rightarrow> db_return 0 | Some s \<Rightarrow> execute_update D k s) d = (Inr v, d1) \<and>
      idle True (updated_rows t c u rows) n d1"
  proof (cases "lifecycle_statement c u")
    case None
    then have "new_status u = None" "new_expiry u = None" by (auto simp: lifecycle_statement_alt split: if_splits)
    then have "updated_rows 0 c u rows = rows" by (simp add: updated_rows_def updated_row_idle cong: if_cong)
    then show ?thesis using None d by (intro exI [of _ 0]) simp
  next
    case (Some s)
    then have s: "s = Set_lifecycle (new_status u) (new_expiry u) c (update_owner_id u)"
      by (auto simp: lifecycle_statement_alt split: if_splits)
    have "apply_link_update (server_time d) n s rows = Some (updated_rows (server_time d) c u rows)"
      by (simp add: s updated_rows_def updated_row_def)
    from update_up [OF d table_plain [OF ok] good(3) [OF Some] _ this, of k] show ?thesis
      using Some s by auto
  qed
  then obtain t v d1 where d1: "(case lifecycle_statement c u of None \<Rightarrow> db_return 0 | Some s \<Rightarrow> execute_update D k s) d = (Inr v, d1)"
      "idle True (updated_rows t c u rows) n d1" by blast
  have "plain_query (Link_for_update c (update_owner_id u))" "Link_for_update c (update_owner_id u) \<noteq> Last_insert_id"
    "link_rows (Link_for_update c (update_owner_id u)) (updated_rows t c u rows) =
       take 1 (filter (row_matches c (update_owner_id u)) (updated_rows t c u rows))"
    using good(1) by simp_all
  from query_first [OF d1(2) updated_rows_ok [OF ok] this, of k] show ?thesis
    using d1(1) by (auto simp: update_lifecycle_def db_bind_def find_updated option.map_comp comp_def split: prod.splits sum.splits)
qed

lemma mysql_update_call:
  assumes inv: "sql_inv w" and good: "plain_code c" "upd_owner u \<noteq> Some 0"
      "\<And>s. lifecycle_statement c u = Some s \<Longrightarrow> storable s"
  shows "\<exists>r w'. repo_update (mysql_repo D wait) now c u w = (Inr r, w') \<and> sql_inv w' \<and>
     spec_call (Call_update now c u) (sql_shows w) = (Answer_link (map_option visible r), sql_shows w')"
proof -
  let ?rows = "committed (snd (store w))" and ?n = "counter (snd (store w))"
  let ?found = "find (row_matches c (update_owner_id u)) ?rows"
  note ok = sql_inv_table [OF inv]
  obtain p d where pd: "store w = (p, d)" by fastforce
  have d: "idle True ?rows ?n d" and p: "free_connections p \<noteq> []" using inv pd by (auto simp: sql_inv_def idle_def)
  define Q where "Q = (\<lambda>y d'. \<exists>t. y = map_option (\<lambda>r. link_of_row (updated_row t u r)) ?found \<and> idle True (updated_rows t c u ?rows) ?n d')"
  have triple: "db_hoare (idle True ?rows ?n) (update_lifecycle D c u k) Q (\<lambda>e d'. False)" for k
    using update_body [OF ok good, of _ k] unfolding db_hoare_def Q_def by fastforce
  obtain y p' d' where y: "with_connection D wait (update_lifecycle D c u) (p, d) = (y, p', d')" by (metis prod_cases3)
  then have out: "free_connections p' \<noteq> [] \<and> (case y of Inr z \<Rightarrow> Q z d' | Inl e \<Rightarrow> False \<or> \<not> True \<and> idle True ?rows ?n d')"
    by (rule with_connection_spec [OF triple d p])
  then obtain z where z: "y = Inr z" "Q z d'" by (cases y) auto
  then obtain t where t: "z = map_option (\<lambda>r. link_of_row (updated_row t u r)) ?found" "idle True (updated_rows t c u ?rows) ?n d'"
    unfolding Q_def by blast
  define w' where "w' = w\<lparr>store := (p', d')\<rparr>"
  have run: "repo_update (mysql_repo D wait) now c u w = (Inr z, w')"
    using y z(1) pd by (simp add: mysql_repo_def mysql_op_def w'_def)
  have inv': "sql_inv w'" using out t(2) updated_rows_ok [OF ok] by (simp add: w'_def sql_inv_def idle_def)
  have shows': "sql_shows w' = (map shown (updated_rows t c u ?rows), ?n)" using t(2) by (simp add: w'_def sql_shows_def idle_def)
  have target: "update_target u (view (map shown ?rows) c) = map_option shown ?found"
    using find_for_update [OF ok good(2)] by simp
  have "spec_call (Call_update now c u) (sql_shows w) = (Answer_link (map_option visible z), sql_shows w')"
  proof (cases ?found)
    case None
    then show ?thesis
      using t(1) updated_rows_none [OF None, of t] by (simp add: sql_shows_def [of w] shows' target)
  next
    case (Some r)
    then show ?thesis
      using t(1) updated_rows_shown [OF ok Some, of t now] updated_row_shown [of t u r now]
      by (simp add: sql_shows_def [of w] shows' target shown_def [of "updated_row t u r"])
  qed
  then show ?thesis using run inv' by blast
qed

text \<open>A creation, on a server that may fail at any call.\<close>

lemma mysql_create_outcome:
  assumes idle: "idle alive rows n d" and pd: "store w = (p, d)" "free_connections p \<noteq> []"
    and ok: "table_ok rows n" and st: "storable (Insert_link own cu url ex)"
    and run: "mysql_create D wait url ex own cu w = (res, w')"
  shows "\<exists>p' d'. store w' = (p', d') \<and> free_connections p' \<noteq> [] \<and> working d' = None \<and>
     (case res of
        Inr x \<Rightarrow> creation_done alive rows n url ex own cu x d' \<and> metrics w' = metrics w
      | Inl e \<Rightarrow> metrics w' = record_backend_error Backend_mysql Op_create (metrics w) \<and>
          (committed d' = rows \<or> (\<exists>r. committed d' = rows @ [r] \<and> fresh_row own (Some (code_for cu n)) url ex n r)) \<and>
          (alive \<longrightarrow> up d' \<and> committed d' = rows \<and> counter d' = n + 1 \<and> Some (code_for cu n) \<in> row_code ` set rows \<and>
             (cu \<noteq> None \<longrightarrow> e = Short_code_conflict)))"
proof -
  obtain y p' d' where y: "with_connection D wait (create_rolled_back D url ex own cu) (p, d) = (y, p', d')" by (metis prod_cases3)
  note out = with_connection_spec [OF rolled_back_spec [OF ok st] idle pd(2) y]
  show ?thesis
  proof (cases y)
    case (Inl e)
    then have "res = Inl (create_exception cu e)" "store w' = (p', d')"
      "metrics w' = record_backend_error Backend_mysql Op_create (metrics w)"
      using run y pd(1) by (auto simp: mysql_create_def mysql_op_def)
    then show ?thesis using out Inl by (auto simp: creation_thrown_def idle_def create_exception_def)
  next
    case (Inr x)
    then show ?thesis using run y pd(1) out by (auto simp: mysql_create_def mysql_op_def creation_done_def)
  qed
qed

lemma fresh_row_shown:
  "fresh_row own (Some code) url ex i r \<Longrightarrow>
   shown r = \<lparr>link_id = i, owner_id = own, link_code = code, original_url = url, link_status = Active, expires_at = ex,
              created_at = 0, updated_at = 0\<rparr>"
  by (simp add: fresh_row_def shown_def link_of_row_def visible_def)

lemma table_grows:
  assumes "table_ok rows n" and "n \<noteq> - 1"
  shows "table_ok rows (n + 1)"
    and "fresh_row own (Some code) url ex n r \<Longrightarrow> plain_code code \<Longrightarrow> Some code \<notin> row_code ` set rows \<Longrightarrow>
         table_ok (rows @ [r]) (n + 1)"
proof -
  have n: "n < n + 1" using assms(2) by (simp add: word_less_nat_alt unat_add_one_u64)
  then have less: "row_id x < n + 1" if "x \<in> set rows" for x using assms(1) that by (force simp: table_ok_def)
  then show "table_ok rows (n + 1)" using assms(1) by (simp add: table_ok_def)
  assume "fresh_row own (Some code) url ex n r" "plain_code code" "Some code \<notin> row_code ` set rows"
  then show "table_ok (rows @ [r]) (n + 1)"
    using assms(1) less n by (auto simp: table_ok_def row_ok_def fresh_row_def)
qed

lemma plain_code_for: "storable (Insert_link own cu url ex) \<Longrightarrow> plain_code (code_for cu n)"
  using storable_plain plain_base62 [OF encode_base62_chars] by (auto simp: code_for_def split: option.splits)

lemma mysql_create_call:
  assumes inv: "sql_inv w" and room: "counter (snd (store w)) \<noteq> - 1" and good: "storable (Insert_link own cu url ex)"
    and run: "do_call (mysql_repo D wait) (Call_create now url ex own cu) w = (a, w')"
  shows "spec_call (Call_create now url ex own cu) (sql_shows w) = (a, sql_shows w') \<and> sql_inv w' \<and>
     counter (snd (store w')) = counter (snd (store w)) + 1"
proof -
  let ?rows = "committed (snd (store w))" and ?n = "counter (snd (store w))"
  note ok = sql_inv_table [OF inv]
  obtain p d where pd: "store w = (p, d)" by fastforce
  have d: "idle True ?rows ?n d" and p: "free_connections p \<noteq> []" using inv pd by (auto simp: sql_inv_def idle_def)
  obtain res where res: "mysql_create D wait url ex own cu w = (res, w')"
    and a: "a = (case res of Inl e \<Rightarrow> Refused | Inr x \<Rightarrow> Answer_link (map_option visible x))"
    using run by (auto simp: mysql_repo_def split: prod.splits sum.splits)
  have taken: "view (map shown ?rows) (code_for cu ?n) = None \<longleftrightarrow> Some (code_for cu ?n) \<notin> row_code ` set ?rows"
    by (auto simp: view_shown [OF ok] find_None_iff image_iff)
  obtain p' d' where out: "store w' = (p', d')" "free_connections p' \<noteq> []" "working d' = None"
    "case res of
        Inr x \<Rightarrow> creation_done True ?rows ?n url ex own cu x d' \<and> metrics w' = metrics w
      | Inl e \<Rightarrow> metrics w' = record_backend_error Backend_mysql Op_create (metrics w) \<and>
          (committed d' = ?rows \<or> (\<exists>r. committed d' = ?rows @ [r] \<and> fresh_row own (Some (code_for cu ?n)) url ex ?n r)) \<and>
          (True \<longrightarrow> up d' \<and> committed d' = ?rows \<and> counter d' = ?n + 1 \<and> Some (code_for cu ?n) \<in> row_code ` set ?rows \<and>
             (cu \<noteq> None \<longrightarrow> e = Short_code_conflict))"
    using mysql_create_outcome [OF d pd p ok good res] by blast
  show ?thesis
  proof (cases res)
    case (Inl e)
    then have "committed d' = ?rows" "counter d' = ?n + 1" "up d'" "view (map shown ?rows) (code_for cu ?n) \<noteq> None"
      using out(4) taken by auto
    then show ?thesis
      using out(1-3) a Inl table_grows(1) [OF ok room]
      by (auto simp: sql_shows_def sql_inv_def code_for_def [symmetric] Let_def)
  next
    case (Inr x)
    then obtain r where r: "x = Some (link_of_row r)" "fresh_row own (Some (code_for cu ?n)) url ex ?n r"
        "committed d' = ?rows @ [r]" "counter d' = ?n + 1" "up d'" "Some (code_for cu ?n) \<notin> row_code ` set ?rows"
      using out(4) by (auto simp: creation_done_def)
    then show ?thesis
      using out(1-3) a Inr taken table_grows(2) [OF ok room r(2) plain_code_for [OF good] r(6)] fresh_row_shown [OF r(2)]
      by (auto simp: sql_shows_def sql_inv_def code_for_def [symmetric] Let_def shown_def)
  qed
qed

lemma mysql_call_spec:
  assumes inv: "sql_inv w" and room: "counter (snd (store w)) \<noteq> - 1" and good: "good_call storable call"
    and run: "do_call (mysql_repo D wait) call w = (a, w')"
  shows "spec_call call (sql_shows w) = (a, sql_shows w') \<and> sql_inv w' \<and>
     (snd (sql_shows w') = snd (sql_shows w) \<or> snd (sql_shows w') = snd (sql_shows w) + 1)"
proof (cases call)
  case (Call_create now url ex own cu)
  then show ?thesis using mysql_create_call [OF inv room] good run by (simp add: sql_shows_def)
next
  case (Call_find now c)
  then show ?thesis using mysql_find_call [OF inv, of c wait now] good run by (auto simp: sql_shows_def)
next
  case (Call_find_owned c own)
  then show ?thesis using mysql_owned_call [OF inv, of c wait own] good run by (auto simp: sql_shows_def)
next
  case (Call_list q)
  then show ?thesis using mysql_list_call [OF inv, of wait q] run by (auto simp: sql_shows_def)
next
  case (Call_update now c u)
  have st: "storable s" if "lifecycle_statement c u = Some s" for s using good Call_update that by simp
  obtain r w1 where w1: "repo_update (mysql_repo D wait) now c u w = (Inr r, w1)" "sql_inv w1"
      "spec_call (Call_update now c u) (sql_shows w) = (Answer_link (map_option visible r), sql_shows w1)"
    using mysql_update_call [OF inv _ _ st] good Call_update by (metis good_call.simps(5))
  have "snd (sql_shows w1) = snd (sql_shows w)"
    using w1(3) by (auto simp: sql_shows_def split: option.splits)
  then show ?thesis using w1 run Call_update by (simp del: spec_call.simps)
qed

lemma mysql_answers:
  assumes "sql_inv w" and "mem_inv v" and "mem_shows v = sql_shows w"
    and "\<And>call. call \<in> set calls \<Longrightarrow> good_call storable call"
    and "unat (counter (snd (store w))) + length calls < 2 ^ 64"
  shows "answers (mysql_repo D wait) calls w = answers memory_repo calls v"
  using assms
proof (induction calls arbitrary: w v)
  case (Cons call calls)
  obtain a w1 where w1: "do_call (mysql_repo D wait) call w = (a, w1)" by fastforce
  obtain b v1 where v1: "do_call memory_repo call v = (b, v1)" by fastforce
  have nid: "next_id (store v) = counter (snd (store w))" using Cons.prems(3) by (simp add: mem_shows_def sql_shows_def)
  have room: "counter (snd (store w)) \<noteq> - 1" using Cons.prems(5) by auto
  have s: "spec_call call (sql_shows w) = (a, sql_shows w1) \<and> sql_inv w1 \<and>
     (snd (sql_shows w1) = snd (sql_shows w) \<or> snd (sql_shows w1) = snd (sql_shows w) + 1)"
    using mysql_call_spec [OF Cons.prems(1) room _ w1] Cons.prems(4) by simp
  have m: "spec_call call (mem_shows v) = (b, mem_shows v1)" "mem_inv v1"
    using mem_call_spec [OF Cons.prems(2) _ v1] room nid by (auto simp: mem_room_def)
  have same: "a = b" "mem_shows v1 = sql_shows w1" using s m(1) Cons.prems(3) by simp_all
  have "unat (counter (snd (store w1))) \<le> unat (counter (snd (store w))) + 1"
    using s by (auto simp: sql_shows_def unat_add_one_u64 [OF room])
  then have "unat (counter (snd (store w1))) + length calls < 2 ^ 64" using Cons.prems(5) by simp
  then have "answers (mysql_repo D wait) calls w1 = answers memory_repo calls v1"
    using Cons.IH [OF _ m(2) same(2)] s Cons.prems(4) by simp
  then show ?case using w1 v1 same(1) by simp
qed simp

end

section \<open>A server for evaluation\<close>

text \<open>Rows, the view of an open transaction, the counter, and a script of faults that lose the connection.\<close>

record link_db =
  db_rows :: "link_row list"
  db_view :: "link_row list option"
  db_counter :: u64
  db_inserted :: u64
  db_faults :: "bool list"

definition link_fault :: "link_db \<Rightarrow> bool \<times> link_db" where
  "link_fault d = (case db_faults d of [] \<Rightarrow> (False, d) | b # bs \<Rightarrow> (b, d\<lparr>db_faults := bs\<rparr>))"

definition link_lost :: "link_db \<Rightarrow> (string + 'a) \<times> link_db" where
  "link_lost d = (Inl ''Lost connection to MySQL server'', d\<lparr>db_view := None\<rparr>)"

fun link_raw :: "raw_sql \<Rightarrow> link_db \<Rightarrow> (string + int) \<times> link_db" where
  "link_raw Start_transaction d = (Inr 0, d\<lparr>db_view := Some (db_rows d)\<rparr>)"
| "link_raw Commit_transaction d =
     (Inr 0, d\<lparr>db_rows := (case db_view d of None \<Rightarrow> db_rows d | Some t \<Rightarrow> t), db_view := None\<rparr>)"
| "link_raw Rollback_transaction d = (Inr 0, d\<lparr>db_view := None\<rparr>)"
| "link_raw s d = (Inr 0, d)"

definition link_view :: "link_db \<Rightarrow> link_row list" where
  "link_view d = (case db_view d of None \<Rightarrow> db_rows d | Some t \<Rightarrow> t)"

definition link_store :: "link_update \<Rightarrow> link_db \<Rightarrow> (string + int) \<times> link_db" where
  "link_store u d =
     (let d1 = (if is_insert u then d\<lparr>db_counter := db_counter d + 1\<rparr> else d)
      in case apply_link_update 0 (db_counter d) u (link_view d) of
           None \<Rightarrow> (Inl ''Duplicate entry for key uk_short_links_code'', d1)
         | Some t \<Rightarrow>
             (Inr 1, (case db_view d of None \<Rightarrow> d1\<lparr>db_rows := t\<rparr> | Some _ \<Rightarrow> d1\<lparr>db_view := Some t\<rparr>)
                \<lparr>db_inserted := (if is_insert u then db_counter d else db_inserted d)\<rparr>))"

definition sql_row_of :: "link_row \<Rightarrow> sql_row" where
  "sql_row_of r =
     \<lparr>get_string = (\<lambda>k. Inr (if k = ''code'' then (case row_code r of Some c \<Rightarrow> c | None \<Rightarrow> [])
                            else if k = ''status'' then row_status r else row_url r)),
      get_uint64 = (\<lambda>k. Inr (if k = ''owner_id'' then row_owner r else row_id r)),
      get_int64 = (\<lambda>k. Inr (if k = ''created_at_epoch'' then row_created r
                           else if k = ''updated_at_epoch'' then row_updated r
                           else (case row_expires r of Some e \<Rightarrow> e | None \<Rightarrow> 0))),
      is_null = (\<lambda>k. k = ''expires_at_epoch'' \<and> row_expires r = None)\<rparr>"

definition number_row :: "u64 \<Rightarrow> sql_row" where
  "number_row i = \<lparr>get_string = (\<lambda>k. Inr (to_string_u64 i)), get_uint64 = (\<lambda>k. Inr i),
     get_int64 = (\<lambda>k. Inr (sint i)), is_null = (\<lambda>k. False)\<rparr>"

definition link_select :: "link_query \<Rightarrow> link_db \<Rightarrow> (string + sql_row list) \<times> link_db" where
  "link_select q d =
     (Inr (if q = Last_insert_id then [number_row (db_inserted d)] else map sql_row_of (link_rows q (link_view d))), d)"

definition plain_links :: "(nat, link_db) link_driver" where
  "plain_links =
     \<lparr>driver_connect = (\<lambda>opts d. (Inr 0, d)),
      driver_raw = (\<lambda>c s d. case link_fault d of (True, d1) \<Rightarrow> link_lost d1 | (False, d1) \<Rightarrow> link_raw s d1),
      driver_update = (\<lambda>c u d. case link_fault d of (True, d1) \<Rightarrow> link_lost d1 | (False, d1) \<Rightarrow> link_store u d1),
      driver_query = (\<lambda>c q d. case link_fault d of (True, d1) \<Rightarrow> link_lost d1 | (False, d1) \<Rightarrow> link_select q d1),
      driver_select_one = (\<lambda>c d. case link_fault d of (True, d1) \<Rightarrow> link_lost d1 | (False, d1) \<Rightarrow> (Inr True, d1)),
      driver_reconnect = (\<lambda>c d. case link_fault d of
          (True, d1) \<Rightarrow> link_lost d1 | (False, d1) \<Rightarrow> (Inr (), d1\<lparr>db_view := None\<rparr>))\<rparr>"

definition fits_expiry :: "int option \<Rightarrow> bool" where
  "fits_expiry ex = (case ex of Some e \<Rightarrow> 0 \<le> e \<and> e < 253402300800 | None \<Rightarrow> True)"

fun fits_columns :: "link_update \<Rightarrow> bool" where
  "fits_columns (Insert_link own code url ex) =
     ((case code of Some c \<Rightarrow> plain_code c \<and> length c \<le> 32 | None \<Rightarrow> True) \<and> length url \<le> 65535 \<and> fits_expiry ex)"
| "fits_columns (Set_code code i) = (length code \<le> 32)"
| "fits_columns (Set_lifecycle status ex code own) = (case ex of Some e \<Rightarrow> fits_expiry e | None \<Rightarrow> True)"

lemma link_fault_same:
  "link_fault d = (b, d1) \<Longrightarrow>
   db_rows d1 = db_rows d \<and> db_view d1 = db_view d \<and> db_counter d1 = db_counter d \<and> db_inserted d1 = db_inserted d \<and>
   (db_faults d = [] \<longrightarrow> \<not> b \<and> db_faults d1 = [])"
  by (auto simp: link_fault_def split: list.splits)

lemma sql_row_of_shows: "row_shows r (sql_row_of r)"
  by (cases "row_expires r") (simp_all add: row_shows_def sql_row_of_def)

lemma list_all2_sql_rows: "list_all2 row_shows rs (map sql_row_of rs)"
  by (simp add: list_all2_map2 list.rel_refl sql_row_of_shows)

interpretation plain_server: links_server plain_links db_rows db_view db_counter db_inserted "\<lambda>d. 0" "\<lambda>d. db_faults d = []" fits_columns
proof (unfold_locales, goal_cases)
  case (1 own code url ex)
  then show ?case by simp
next
  case (2 code i)
  then show ?case by simp
next
  case (3 d c alive d')
  obtain b d1 where f: "link_fault d = (b, d1)" by fastforce
  with link_fault_same [OF f] 3 show ?case by (cases b) (auto simp: plain_links_def link_lost_def)
next
  case (4 c d again d')
  obtain b d1 where f: "link_fault d = (b, d1)" by fastforce
  with link_fault_same [OF f] 4 show ?case by (cases b) (auto simp: plain_links_def link_lost_def)
next
  case (5 d c r d')
  obtain b d1 where f: "link_fault d = (b, d1)" by fastforce
  with link_fault_same [OF f] 5 show ?case by (cases b) (auto simp: plain_links_def link_lost_def)
next
  case (6 u d t c r d')
  obtain b d1 where f: "link_fault d = (b, d1)" by fastforce
  show ?case
  proof (cases b)
    case True
    then show ?thesis using 6 f link_fault_same [OF f] by (auto simp: plain_links_def link_lost_def)
  next
    case False
    have run: "link_store u d1 = (r, d')" using 6 f False by (simp add: plain_links_def)
    have view: "link_view d1 = t" using 6 link_fault_same [OF f] by (simp add: link_view_def)
    show ?thesis
      using run 6 link_fault_same [OF f] view
      by (cases "apply_link_update 0 (db_counter d) u t")
        (auto simp: link_store_def Let_def contains_sub.simps starts_with.simps simp del: apply_link_update.simps)
  qed
next
  case (7 u d c r d')
  obtain b d1 where f: "link_fault d = (b, d1)" by fastforce
  show ?case
  proof (cases b)
    case True
    then show ?thesis using 7 f link_fault_same [OF f] by (auto simp: plain_links_def link_lost_def)
  next
    case False
    have run: "link_store u d1 = (r, d')" using 7 f False by (simp add: plain_links_def)
    have view: "link_view d1 = db_rows d" using 7 link_fault_same [OF f] by (simp add: link_view_def)
    show ?thesis
      using run 7 link_fault_same [OF f] view
      by (cases "apply_link_update 0 (db_counter d) u (db_rows d)")
        (auto simp: link_store_def Let_def simp del: apply_link_update.simps)
  qed
next
  case (8 q d c found d')
  obtain b d1 where f: "link_fault d = (b, d1)" by fastforce
  then have view: "link_view d1 = (case db_view d of Some t \<Rightarrow> t | None \<Rightarrow> db_rows d)"
    using link_fault_same [OF f] by (auto simp: link_view_def split: option.splits)
  from f link_fault_same [OF f] 8 list_all2_sql_rows view show ?case
    by (cases b) (auto simp: plain_links_def link_lost_def link_select_def simp del: link_rows.simps)
next
  case (9 c d found d')
  obtain b d1 where f: "link_fault d = (b, d1)" by fastforce
  with link_fault_same [OF f] 9 show ?case
    by (cases b) (auto simp: plain_links_def link_lost_def link_select_def number_row_def)
next
  case (10 d t c r d')
  obtain b d1 where f: "link_fault d = (b, d1)" by fastforce
  with link_fault_same [OF f] 10 show ?case by (cases b) (auto simp: plain_links_def link_lost_def)
next
  case (11 c d r d')
  obtain b d1 where f: "link_fault d = (b, d1)" by fastforce
  with link_fault_same [OF f] 11 show ?case by (cases b) (auto simp: plain_links_def link_lost_def)
qed

section \<open>Properties\<close>

text \<open>C14: the two repositories are interchangeable. From stores that show the same links, the MySQL
  repository over a server that stays up and the in-memory repository answer every sequence of calls
  alike: the same links under the same codes and ids, the same pages, the same refusals; only the two
  timestamps and the kind of exception may differ.\<close>

theorem mysql_equals_memory:
  assumes "links_server D committed working counter inserted server_time up storable"
    and "store w = (p, d)" and "free_connections p \<noteq> []" and "working d = None" and "up d"
    and "table_ok (committed d) (counter d)"
    and "mem_inv v" and "map visible (mem_records v) = map shown (committed d)" and "next_id (store v) = counter d"
    and "\<And>call. call \<in> set calls \<Longrightarrow> good_call storable call" and "unat (counter d) + length calls < 2 ^ 64"
  shows "answers (mysql_repo D wait) calls w = answers memory_repo calls v"
proof (rule links_server.mysql_answers [OF assms(1)])
  show "links_server.sql_inv committed working counter up w"
    using assms by (simp add: links_server.sql_inv_def [OF assms(1)])
  show "mem_shows v = links_server.sql_shows committed counter w"
    using assms by (simp add: links_server.sql_shows_def [OF assms(1)] mem_shows_def)
  show "unat (counter (snd (store w))) + length calls < 2 ^ 64" using assms by simp
qed (use assms in auto)

definition sample_row :: "u64 \<Rightarrow> u64 \<Rightarrow> string \<Rightarrow> link_row" where
  "sample_row i own c = \<lparr>row_id = i, row_owner = own, row_code = Some c, row_url = ''http://a'', row_status = ''active'',
     row_expires = None, row_created = 9, row_updated = 9\<rparr>"

definition sample_db :: "bool list \<Rightarrow> link_db" where
  "sample_db faults = \<lparr>db_rows = [sample_row 1 1 ''aaaa'', sample_row 2 2 ''abcd'', sample_row 3 1 ''cccc''], db_view = None,
     db_counter = 4, db_inserted = 0, db_faults = faults\<rparr>"

definition sample_sql_world :: "bool list \<Rightarrow> (nat pool \<times> link_db) world" where
  "sample_sql_world faults =
     \<lparr>store = (empty_pool\<lparr>free_connections := [0], pool_initialized := True\<rparr>, sample_db faults), metrics = init_metrics\<rparr>"

lemma sample_table_ok: "table_ok (db_rows (sample_db faults)) (db_counter (sample_db faults))"
  by (simp add: table_ok_def sample_db_def sample_row_def row_ok_def plain_code_def)

lemma mysql_equals_memory_witness:
  "answers (mysql_repo plain_links (\<lambda>p d. (0, p, d)))
     [Call_create 7 ''http://b'' None 1 (Some ''abcd''), Call_create 8 ''http://c'' (Some 50) 2 None,
      Call_update 9 ''cccc'' \<lparr>upd_status = Some Disabled, expires_at_provided = False, upd_expires_at = None, upd_owner = Some 1\<rparr>,
      Call_find 10 ''cccc'', Call_list \<lparr>q_cursor = 1, q_limit = 5, q_owner = None, q_status = Some Active\<rparr>]
     (sample_sql_world []) =
   answers memory_repo
     [Call_create 7 ''http://b'' None 1 (Some ''abcd''), Call_create 8 ''http://c'' (Some 50) 2 None,
      Call_update 9 ''cccc'' \<lparr>upd_status = Some Disabled, expires_at_provided = False, upd_expires_at = None, upd_owner = Some 1\<rparr>,
      Call_find 10 ''cccc'', Call_list \<lparr>q_cursor = 1, q_limit = 5, q_owner = None, q_status = Some Active\<rparr>]
     sample_world"
proof (rule mysql_equals_memory [OF plain_server.links_server_axioms])
  show "store (sample_sql_world []) = (empty_pool\<lparr>free_connections := [0], pool_initialized := True\<rparr>, sample_db [])"
    by (simp add: sample_sql_world_def)
  show "map visible (mem_records sample_world) = map shown (db_rows (sample_db []))"
    by (simp add: mem_records_def mem_all_def sample_world_def sample_link_def sample_db_def sample_row_def shown_def
        link_of_row_def visible_def)
qed (use sample_inv(1) sample_table_ok [of "[]"] in
    \<open>auto simp: sample_db_def sample_world_def plain_code_def fits_expiry_def lifecycle_statement_def\<close>)

text \<open>C15: a creation in MySQL is all or nothing. On a server that may fail at any call, \<open>create\<close> leaves no
  transaction open and no connection missing, and no row without its code: the rows are the old ones or
  have exactly the complete new link added. When it returns the link was added and its code was free; when
  it throws on a server that is up, the code was taken, nothing was added, and for a custom code the
  exception is the conflict.\<close>

theorem mysql_create_atomic:
  assumes "links_server D committed working counter inserted server_time up storable"
    and "store w = (p, d)" and "free_connections p \<noteq> []" and "working d = None"
    and "table_ok (committed d) (counter d)" and "storable (Insert_link own cu url ex)"
    and "repo_create (mysql_repo D wait) now url ex own cu w = (res, w')"
  shows "free_connections (fst (store w')) \<noteq> [] \<and> working (snd (store w')) = None \<and>
     (committed (snd (store w')) = committed d \<or>
      (\<exists>r. committed (snd (store w')) = committed d @ [r] \<and> fresh_row own (Some (code_for cu (counter d))) url ex (counter d) r)) \<and>
     (case res of
        Inr x \<Rightarrow> (\<exists>r. x = Some (link_of_row r) \<and> committed (snd (store w')) = committed d @ [r]) \<and>
          Some (code_for cu (counter d)) \<notin> row_code ` set (committed d)
      | Inl e \<Rightarrow> metrics w' = record_backend_error Backend_mysql Op_create (metrics w) \<and>
          (up d \<longrightarrow> committed (snd (store w')) = committed d \<and> Some (code_for cu (counter d)) \<in> row_code ` set (committed d) \<and>
             (cu \<noteq> None \<longrightarrow> e = Short_code_conflict)))"
proof -
  have idle: "links_server.idle committed working counter up (up d) (committed d) (counter d) d"
    using assms(4) by (simp add: links_server.idle_def [OF assms(1)])
  have run: "mysql_create D wait url ex own cu w = (res, w')" using assms(7) by (simp add: mysql_repo_def)
  show ?thesis
    using links_server.mysql_create_outcome [OF assms(1) idle assms(2,3,5,6) run]
    by (cases res) (auto simp: links_server.creation_done_def [OF assms(1)])
qed

lemma mysql_create_atomic_witness:
  "\<exists>res w'. repo_create (mysql_repo plain_links (\<lambda>p d. (0, p, d))) 7 ''http://b'' None 1 (Some ''bbbb'')
       (sample_sql_world [False, False, False, False, True]) = (res, w') \<and>
     db_view (snd (store w')) = None \<and> free_connections (fst (store w')) \<noteq> []"
proof -
  let ?w = "sample_sql_world [False, False, False, False, True]"
  obtain res w' where run: "repo_create (mysql_repo plain_links (\<lambda>p d. (0, p, d))) 7 ''http://b'' None 1 (Some ''bbbb'') ?w = (res, w')"
    by fastforce
  have st: "store ?w = (empty_pool\<lparr>free_connections := [0], pool_initialized := True\<rparr>, sample_db [False, False, False, False, True])"
    by (simp add: sample_sql_world_def)
  from mysql_create_atomic [OF plain_server.links_server_axioms st _ _ sample_table_ok _ run] run show ?thesis
    by (simp add: sample_db_def plain_code_def fits_expiry_def)
qed

end
