(* ===== verification/EventPublisher.thy ===== *)
theory EventPublisher
  imports KafkaClient AccessEvents ShortLinkMetrics
begin

text \<open>
  \<open>KafkaAccessEventPublisher.h/.cpp\<close>: the publisher of access events with its delivery and error
  callbacks and its poll thread. The client library is the parameter \<open>kafka_producer\<close>. The server's
  threads publish while the poll thread runs: a run is a sequence of the steps of both, in any order.
\<close>

section \<open>State\<close>

record publisher_config =
  publisher_servers :: string
  publisher_topic :: string
  publisher_client :: string
  queue_max_messages :: int
  publish_timeout_ms :: int
  linger_ms :: int
  shutdown_timeout_ms :: int

definition default_publisher_config :: publisher_config where
  "default_publisher_config =
     \<lparr>publisher_servers = ''127.0.0.1:9092'', publisher_topic = ''hao-shortlink.access-events.v1'',
      publisher_client = ''hao-shortlink-server'', queue_max_messages = 10000, publish_timeout_ms = 10000,
      linger_ms = 5, shutdown_timeout_ms = 3000\<rparr>"

record 'k event_publisher =
  publisher_producer :: 'k
  publisher_metrics :: sl_metrics
  enqueue_failures :: u64
  delivery_failures :: u64
  client_errors :: u64

section \<open>Operations\<close>

definition publisher_settings :: "publisher_config \<Rightarrow> (string \<times> string) list" where
  "publisher_settings cfg =
     [(''bootstrap.servers'', publisher_servers cfg), (''client.id'', publisher_client cfg),
      (''enable.idempotence'', ''true''), (''acks'', ''all''),
      (''queue.buffering.max.messages'', to_string_int (queue_max_messages cfg)),
      (''message.timeout.ms'', to_string_int (publish_timeout_ms cfg)),
      (''linger.ms'', to_string_int (linger_ms cfg)), (''compression.type'', ''lz4'')]"

definition make_event_publisher :: "'k kafka_producer \<Rightarrow> publisher_config \<Rightarrow> sl_metrics \<Rightarrow> exn + 'k event_publisher" where
  "make_event_publisher K cfg m =
     (if publisher_servers cfg = [] \<or> publisher_topic cfg = [] \<or> publisher_client cfg = [] \<or>
         queue_max_messages cfg \<le> 0 \<or> publish_timeout_ms cfg \<le> 0 \<or> linger_ms cfg < 0 \<or> shutdown_timeout_ms cfg < 0
      then Inl (Invalid_argument ''invalid Kafka access event publisher config'')
      else case set_all_config (refused_setting K) ''invalid Kafka config '' (publisher_settings cfg) of
        Some e \<Rightarrow> Inl e
      | None \<Rightarrow>
          (case new_producer K (publisher_settings cfg) of
             Inl err \<Rightarrow> Inl (Runtime_error (''failed to create Kafka producer: '' @ err))
           | Inr k \<Rightarrow> Inr \<lparr>publisher_producer = k, publisher_metrics = m, enqueue_failures = 0, delivery_failures = 0,
                          client_errors = 0\<rparr>))"

text \<open>\<open>static_cast<std::uint64_t>\<close> of the queue length.\<close>

definition record_queue_size :: "'k kafka_producer \<Rightarrow> 'k event_publisher \<Rightarrow> 'k event_publisher" where
  "record_queue_size K p =
     p\<lparr>publisher_metrics := set_access_event_queue_size (word_of_int (outq_len K (publisher_producer p))) (publisher_metrics p)\<rparr>"

text \<open>The log functions count; whether the line is written is \<open>should_log\<close> of the new count.\<close>

definition log_enqueue_failure :: "'k event_publisher \<Rightarrow> 'k event_publisher" where
  "log_enqueue_failure p = p\<lparr>enqueue_failures := enqueue_failures p + 1\<rparr>"

definition log_delivery_failure :: "'k event_publisher \<Rightarrow> 'k event_publisher" where
  "log_delivery_failure p = p\<lparr>delivery_failures := delivery_failures p + 1\<rparr>"

definition log_client_error :: "'k event_publisher \<Rightarrow> 'k event_publisher" where
  "log_client_error p = p\<lparr>client_errors := client_errors p + 1\<rparr>"

definition count_enqueue :: "enqueue_result \<Rightarrow> 'k event_publisher \<Rightarrow> 'k event_publisher" where
  "count_enqueue r p = p\<lparr>publisher_metrics := record_enqueue r (publisher_metrics p)\<rparr>"

definition publish_event ::
  "json_lib \<Rightarrow> 'k kafka_producer \<Rightarrow> publisher_config \<Rightarrow> access_event \<Rightarrow> 'k event_publisher \<Rightarrow> 'k event_publisher" where
  "publish_event L K cfg e p =
     (case serialize_event L e of
        Inl err \<Rightarrow> log_enqueue_failure (count_enqueue Enqueue_error p)
      | Inr payload \<Rightarrow>
          (case produce K (publisher_topic cfg) (event_code e) payload (Some (occurred_at_ms e)) (publisher_producer p) of
             (err, k) \<Rightarrow>
               (let p1 = p\<lparr>publisher_producer := k\<rparr>;
                    p2 = (if err = kafka_ok then count_enqueue Enqueue_accepted p1
                          else if err = kafka_queue_full
                          then log_enqueue_failure (count_enqueue Enqueue_queue_full p1)
                          else log_enqueue_failure (count_enqueue Enqueue_error p1))
                in record_queue_size K p2)))"

text \<open>\<open>deliveryCallback\<close> and \<open>errorCallback\<close>.\<close>

fun publisher_callback :: "'k kafka_producer \<Rightarrow> kafka_callback \<Rightarrow> 'k event_publisher \<Rightarrow> 'k event_publisher" where
  "publisher_callback K (Delivery_report err) p =
     (let p1 = (if err = kafka_ok
                then p\<lparr>publisher_metrics := record_delivery Delivery_success (publisher_metrics p)\<rparr>
                else log_delivery_failure (p\<lparr>publisher_metrics := record_delivery Delivery_failure (publisher_metrics p)\<rparr>))
      in record_queue_size K p1)"
| "publisher_callback K (Client_error err reason) p = log_client_error p"

text \<open>
  \<open>rd_kafka_poll\<close> and \<open>rd_kafka_flush\<close> run the callbacks before they return. The queue lengths the
  callbacks read on the way are those after the call; the gauge is written again afterwards.
\<close>

definition run_callbacks :: "'k kafka_producer \<Rightarrow> kafka_callback list \<Rightarrow> 'k \<Rightarrow> 'k event_publisher \<Rightarrow> 'k event_publisher" where
  "run_callbacks K calls k p = fold (publisher_callback K) calls (p\<lparr>publisher_producer := k\<rparr>)"

text \<open>One round of \<open>pollLoop\<close>.\<close>

definition poll_round :: "'k kafka_producer \<Rightarrow> 'k event_publisher \<Rightarrow> 'k event_publisher" where
  "poll_round K p =
     (case poll_producer K 100 (publisher_producer p) of
        (calls, k) \<Rightarrow> record_queue_size K (run_callbacks K calls k p))"

text \<open>The destructor, after the poll thread has ended with its last poll.\<close>

definition close_publisher :: "'k kafka_producer \<Rightarrow> publisher_config \<Rightarrow> 'k event_publisher \<Rightarrow> 'k event_publisher" where
  "close_publisher K cfg p =
     (case poll_producer K 0 (publisher_producer p) of
        (calls0, k0) \<Rightarrow>
          (let p0 = run_callbacks K calls0 k0 p
           in case flush_producer K (shutdown_timeout_ms cfg) (publisher_producer p0) of
                (flushed, calls1, k1) \<Rightarrow>
                  (let p1 = run_callbacks K calls1 k1 p0
                   in if flushed = kafka_ok then record_queue_size K p1
                      else (case flush_producer K 1000 (purge_producer K (publisher_producer p1)) of
                              (again, calls2, k2) \<Rightarrow> record_queue_size K (run_callbacks K calls2 k2 p1)))))"

text \<open>The interleaved run of publishing threads and the poll thread.\<close>

datatype publisher_step = Publish access_event | Poll

fun publisher_exec :: "json_lib \<Rightarrow> 'k kafka_producer \<Rightarrow> publisher_config \<Rightarrow> publisher_step \<Rightarrow> 'k event_publisher \<Rightarrow> 'k event_publisher" where
  "publisher_exec L K cfg (Publish e) p = publish_event L K cfg e p"
| "publisher_exec L K cfg Poll p = poll_round K p"

section \<open>The client library\<close>

text \<open>
  What the accounting relies on: \<open>unreported\<close> messages of the client are those it accepted and whose
  delivery report has not been served yet. A purge leaves the reports of the messages it drops to be
  served, and a successful flush has served all.
\<close>

locale reporting_producer =
  fixes K :: "'k kafka_producer"
    and unreported :: "'k \<Rightarrow> nat"
  assumes produce_law: "produce K topic key payload ms k = (err, k') \<Longrightarrow>
          unreported k' = unreported k + (if err = kafka_ok then 1 else 0)"
    and poll_law: "poll_producer K timeout k = (calls, k') \<Longrightarrow> unreported k = unreported k' + length (reports calls)"
    and flush_law: "flush_producer K timeout k = (err, calls, k') \<Longrightarrow>
          unreported k = unreported k' + length (reports calls) \<and> (err = kafka_ok \<longrightarrow> unreported k' = 0)"
    and purge_law: "unreported (purge_producer K k) = unreported k"

definition accepted :: "'k event_publisher \<Rightarrow> u64" where
  "accepted p = enqueue_counters (publisher_metrics p) ! 0"

definition refused :: "'k event_publisher \<Rightarrow> u64" where
  "refused p = enqueue_counters (publisher_metrics p) ! 1 + enqueue_counters (publisher_metrics p) ! 2"

definition delivered :: "'k event_publisher \<Rightarrow> u64" where
  "delivered p = delivery_counters (publisher_metrics p) ! 0 + delivery_counters (publisher_metrics p) ! 1"

definition publisher_ok :: "'k event_publisher \<Rightarrow> bool" where
  "publisher_ok p \<longleftrightarrow> length (enqueue_counters (publisher_metrics p)) = 3 \<and> length (delivery_counters (publisher_metrics p)) = 2 \<and>
     enqueue_failures p = refused p \<and> delivery_failures p = delivery_counters (publisher_metrics p) ! 1"

lemmas publisher_defs = accepted_def refused_def delivered_def publisher_ok_def record_queue_size_def count_enqueue_def
  log_enqueue_failure_def log_delivery_failure_def log_client_error_def record_enqueue_def record_delivery_def
  set_access_event_queue_size_def fetch_add_one_def

lemma callback_effect:
  assumes "publisher_ok p"
  shows "publisher_ok (publisher_callback K cb p) \<and> accepted (publisher_callback K cb p) = accepted p \<and>
     refused (publisher_callback K cb p) = refused p \<and> publisher_producer (publisher_callback K cb p) = publisher_producer p \<and>
     delivered (publisher_callback K cb p) = delivered p + of_nat (length (reports [cb]))"
  using assms by (cases cb) (auto simp: publisher_defs Let_def)

lemma callbacks_effect:
  assumes "publisher_ok p"
  shows "publisher_ok (run_callbacks K calls k p)" and "accepted (run_callbacks K calls k p) = accepted p"
    and "refused (run_callbacks K calls k p) = refused p" and "publisher_producer (run_callbacks K calls k p) = k"
    and "delivered (run_callbacks K calls k p) = delivered p + of_nat (length (reports calls))"
proof -
  have "publisher_ok q \<Longrightarrow> publisher_ok (fold (publisher_callback K) calls q) \<and>
     accepted (fold (publisher_callback K) calls q) = accepted q \<and> refused (fold (publisher_callback K) calls q) = refused q \<and>
     publisher_producer (fold (publisher_callback K) calls q) = publisher_producer q \<and>
     delivered (fold (publisher_callback K) calls q) = delivered q + of_nat (length (reports calls))" for q
  proof (induction calls arbitrary: q)
    case (Cons cb calls)
    note one = callback_effect [OF Cons.prems, of K cb]
    have "length (reports (cb # calls)) = length (reports [cb]) + length (reports calls)" by (cases cb) simp_all
    then show ?case using Cons.IH [of "publisher_callback K cb q"] one by (simp del: publisher_callback.simps reports.simps)
  qed simp
  moreover have "publisher_ok (p\<lparr>publisher_producer := k\<rparr>)" using assms by (simp add: publisher_defs)
  ultimately show "publisher_ok (run_callbacks K calls k p)" and "accepted (run_callbacks K calls k p) = accepted p"
    and "refused (run_callbacks K calls k p) = refused p" and "publisher_producer (run_callbacks K calls k p) = k"
    and "delivered (run_callbacks K calls k p) = delivered p + of_nat (length (reports calls))"
    by (simp_all add: run_callbacks_def publisher_defs(1-3))
qed

lemma queue_size_effect [simp]:
  "publisher_ok (record_queue_size K p) = publisher_ok p" "accepted (record_queue_size K p) = accepted p"
  "refused (record_queue_size K p) = refused p" "delivered (record_queue_size K p) = delivered p"
  "publisher_producer (record_queue_size K p) = publisher_producer p"
  by (simp_all add: publisher_defs)

context reporting_producer
begin

text \<open>Every accepted message is reported once or still outstanding.\<close>

definition balanced :: "'k event_publisher \<Rightarrow> bool" where
  "balanced p \<longleftrightarrow> publisher_ok p \<and> accepted p = delivered p + of_nat (unreported (publisher_producer p))"

lemma publish_balanced:
  assumes "balanced p"
  shows "balanced (publish_event L K cfg e p) \<and>
     accepted (publish_event L K cfg e p) + refused (publish_event L K cfg e p) = accepted p + refused p + 1"
proof (cases "serialize_event L e")
  case (Inl err)
  then show ?thesis using assms by (simp add: publish_event_def balanced_def publisher_defs)
next
  case (Inr payload)
  obtain err k where k: "produce K (publisher_topic cfg) (event_code e) payload (Some (occurred_at_ms e)) (publisher_producer p) = (err, k)"
    by fastforce
  note u = produce_law [OF k]
  consider "err = kafka_ok" | "err \<noteq> kafka_ok" "err = kafka_queue_full" | "err \<noteq> kafka_ok" "err \<noteq> kafka_queue_full" by blast
  then show ?thesis
    using assms Inr k u
    by cases (simp_all add: publish_event_def Let_def balanced_def, simp_all add: publisher_defs)
qed

lemma callbacks_balanced:
  assumes "publisher_ok p" and "accepted p = delivered p + of_nat (unreported k0)"
    and "unreported k0 = unreported k + length (reports calls)"
  shows "balanced (run_callbacks K calls k p)"
  using callbacks_effect [OF assms(1), of K calls k] assms(2,3) by (simp add: balanced_def)

lemma balanced_ok: "balanced p \<Longrightarrow> publisher_ok p"
  by (simp add: balanced_def)

lemma poll_balanced:
  assumes "balanced p"
  shows "balanced (poll_round K p) \<and> accepted (poll_round K p) + refused (poll_round K p) = accepted p + refused p"
proof -
  obtain calls k where k: "poll_producer K 100 (publisher_producer p) = (calls, k)" by fastforce
  have "balanced (run_callbacks K calls k p)"
    using assms by (intro callbacks_balanced [OF _ _ poll_law [OF k]]) (simp_all add: balanced_def)
  then show ?thesis
    using k callbacks_effect(2,3) [OF balanced_ok [OF assms], of K calls k] by (simp add: poll_round_def balanced_def)
qed

lemma run_balanced:
  assumes "balanced p"
  shows "balanced (fold (publisher_exec L K cfg) steps p) \<and>
     accepted (fold (publisher_exec L K cfg) steps p) + refused (fold (publisher_exec L K cfg) steps p) =
       accepted p + refused p + of_nat (length (filter (\<lambda>s. s \<noteq> Poll) steps))"
  using assms
proof (induction steps arbitrary: p)
  case (Cons s steps)
  then show ?case
    using publish_balanced [OF Cons.prems, of L cfg] poll_balanced [OF Cons.prems]
    by (cases s) (auto simp: algebra_simps)
qed simp

lemma close_balanced:
  assumes "balanced p"
  shows "balanced (close_publisher K cfg p) \<and> accepted (close_publisher K cfg p) = accepted p"
proof -
  obtain calls0 k0 where k0: "poll_producer K 0 (publisher_producer p) = (calls0, k0)" by fastforce
  define p0 where "p0 = run_callbacks K calls0 k0 p"
  have p0: "publisher_producer p0 = k0" "accepted p0 = accepted p" "balanced p0"
    using callbacks_effect(2,4) [OF balanced_ok [OF assms], of K calls0 k0] assms
      callbacks_balanced [OF balanced_ok [OF assms] _ poll_law [OF k0]]
    unfolding p0_def by (auto simp: balanced_def)
  obtain flushed calls1 k1 where k1: "flush_producer K (shutdown_timeout_ms cfg) k0 = (flushed, calls1, k1)" by (metis prod_cases3)
  define p1 where "p1 = run_callbacks K calls1 k1 p0"
  have p1: "publisher_producer p1 = k1" "accepted p1 = accepted p" "balanced p1"
    using callbacks_effect(2,4) [OF balanced_ok [OF p0(3)], of K calls1 k1] p0
      callbacks_balanced [OF balanced_ok [OF p0(3)], of k0 k1 calls1] flush_law [OF k1]
    unfolding p1_def by (auto simp: balanced_def)
  obtain again calls2 k2 where k2: "flush_producer K 1000 (purge_producer K k1) = (again, calls2, k2)" by (metis prod_cases3)
  define p2 where "p2 = run_callbacks K calls2 k2 p1"
  have p2: "accepted p2 = accepted p" "balanced p2"
    using callbacks_effect(2) [OF balanced_ok [OF p1(3)], of K calls2 k2] p1 purge_law [of k1]
      callbacks_balanced [OF balanced_ok [OF p1(3)], of "purge_producer K k1" k2 calls2] flush_law [OF k2]
    unfolding p2_def by (auto simp: balanced_def)
  have "close_publisher K cfg p = (if flushed = kafka_ok then record_queue_size K p1 else record_queue_size K p2)"
    using k0 k1 k2 p0(1) p1(1) by (simp add: close_publisher_def Let_def p0_def [symmetric] p1_def [symmetric] p2_def [symmetric])
  then show ?thesis using p1 p2 by (simp add: balanced_def)
qed

lemma close_flushed:
  assumes "balanced p" and "\<And>timeout k. fst (flush_producer K timeout k) = kafka_ok"
  shows "unreported (publisher_producer (close_publisher K cfg p)) = 0"
proof -
  obtain calls0 k0 where k0: "poll_producer K 0 (publisher_producer p) = (calls0, k0)" by fastforce
  obtain flushed calls1 k1 where k1: "flush_producer K (shutdown_timeout_ms cfg) k0 = (flushed, calls1, k1)" by (metis prod_cases3)
  have ok0: "publisher_ok (run_callbacks K calls0 k0 p)" "publisher_producer (run_callbacks K calls0 k0 p) = k0"
    using assms(1) callbacks_effect [of p K calls0 k0] by (simp_all add: balanced_def)
  have "flushed = kafka_ok" using assms(2) [of "shutdown_timeout_ms cfg" k0] k1 by simp
  then show ?thesis
    using k0 k1 ok0 callbacks_effect [OF ok0(1), of K calls1 k1] flush_law [OF k1] by (simp add: close_publisher_def Let_def)
qed

end

lemma new_publisher_balanced:
  assumes "reporting_producer K unreported" and "make_event_publisher K cfg init_metrics = Inr p"
    and "unreported (publisher_producer p) = 0"
  shows "reporting_producer.balanced unreported p"
  using assms(2,3) by (auto simp: make_event_publisher_def reporting_producer.balanced_def [OF assms(1)] publisher_defs init_metrics_def
      split: if_splits option.splits sum.splits)

section \<open>A client for evaluation\<close>

text \<open>A queue of at most two messages; a poll reports one of them, alternating success and failure.\<close>

definition small_queue :: "nat kafka_producer" where
  "small_queue =
     \<lparr>refused_setting = (\<lambda>k v. None), new_producer = (\<lambda>settings. Inr 0),
      produce = (\<lambda>topic key payload ms n. if n < 2 then (kafka_ok, Suc n) else (kafka_queue_full, n)),
      poll_producer = (\<lambda>ms n. case n of 0 \<Rightarrow> ([Client_error 5 None], 0) | Suc k \<Rightarrow> ([Delivery_report (int k)], k)),
      flush_producer = (\<lambda>ms n. (kafka_ok, replicate n (Delivery_report 0), 0)),
      purge_producer = (\<lambda>n. n), outq_len = int, error_text = (\<lambda>e. ''error'')\<rparr>"

lemma reports_replicate [simp]: "reports (replicate n (Delivery_report e)) = replicate n e"
  by (induction n) simp_all

interpretation small: reporting_producer small_queue id
  by unfold_locales (auto simp: small_queue_def kafka_ok_def kafka_queue_full_def split: if_splits nat.splits)

section \<open>Properties\<close>

text \<open>C27: no access event disappears unnoticed. However publishing threads and the poll thread interleave,
  every published event is counted once as accepted or refused, every refusal once as a failure, and every
  accepted event is counted as delivered or failed or is still outstanding. Closing counts what it flushes
  and purges the same way, and leaves nothing outstanding when the flush succeeds.\<close>

theorem events_accounted:
  assumes "reporting_producer K unreported" and "make_event_publisher K cfg init_metrics = Inr p0"
    and "unreported (publisher_producer p0) = 0"
    and "p = fold (publisher_exec L K cfg) steps p0" and "q = close_publisher K cfg p"
  shows "accepted p + refused p = of_nat (length (filter (\<lambda>s. s \<noteq> Poll) steps)) \<and> enqueue_failures p = refused p \<and>
     accepted p = delivered p + of_nat (unreported (publisher_producer p)) \<and> accepted q = accepted p \<and>
     accepted q = delivered q + of_nat (unreported (publisher_producer q)) \<and>
     ((\<forall>timeout k. fst (flush_producer K timeout k) = kafka_ok) \<longrightarrow> accepted q = delivered q)"
proof -
  note b0 = new_publisher_balanced [OF assms(1-3)]
  have "accepted p0 + refused p0 = 0"
    using assms(2) by (auto simp: make_event_publisher_def publisher_defs init_metrics_def split: if_splits option.splits sum.splits)
  then have p: "reporting_producer.balanced unreported p" "accepted p + refused p = of_nat (length (filter (\<lambda>s. s \<noteq> Poll) steps))"
    using reporting_producer.run_balanced [OF assms(1) b0, of L cfg steps] assms(4) by simp_all
  have q: "reporting_producer.balanced unreported q" "accepted q = accepted p"
    using reporting_producer.close_balanced [OF assms(1) p(1), of cfg] assms(5) by simp_all
  have "unreported (publisher_producer q) = 0" if "\<forall>timeout k. fst (flush_producer K timeout k) = kafka_ok"
    using reporting_producer.close_flushed [OF assms(1) p(1), of cfg] that assms(5) by simp
  then show ?thesis
    using p q by (auto simp: reporting_producer.balanced_def [OF assms(1)] publisher_ok_def)
qed

lemma events_accounted_witness:
  "\<exists>p0 q. make_event_publisher small_queue default_publisher_config init_metrics = Inr p0 \<and>
     q = close_publisher small_queue default_publisher_config
       (fold (publisher_exec (one_document (event_payload sample_event) ''x'') small_queue default_publisher_config)
         [Publish sample_event, Publish sample_event, Publish sample_event, Poll, Poll, Poll, Publish sample_event] p0) \<and>
     accepted q = delivered q"
proof -
  let ?L = "one_document (event_payload sample_event) ''x''"
  obtain p0 where p0: "make_event_publisher small_queue default_publisher_config init_metrics = Inr p0" "publisher_producer p0 = 0"
    by (simp add: make_event_publisher_def default_publisher_config_def set_all_config_none small_queue_def publisher_settings_def
        set_config_def)
  have flushed: "\<forall>timeout k. fst (flush_producer small_queue timeout k) = kafka_ok" by (simp add: small_queue_def)
  show ?thesis
    using events_accounted [OF small.reporting_producer_axioms p0(1) _ refl refl, of ?L
        "[Publish sample_event, Publish sample_event, Publish sample_event, Poll, Poll, Poll, Publish sample_event]"]
      p0 flushed by auto
qed

end
