(* ===== verification/PoolConcurrency.thy ===== *)
theory PoolConcurrency
  imports Database "HOL-Library.Multiset"
begin

text \<open>
  \<open>DbConnectionPool\<close> under concurrency: what \<open>getConnection\<close>, the deleter of a connection and \<open>isHealthy\<close>
  of several threads do to the queue and the condition variable. A step is what one thread does while it
  holds the mutex, up to the next wait or return; the checks of a connection happen between steps. The
  flag of the relation says whether threads call \<open>isHealthy\<close>.
\<close>

section \<open>Threads\<close>

text \<open>
  A thread is outside the pool, in the wait of \<open>getConnection\<close> or of \<open>isHealthy\<close>, woken from it but without
  the mutex yet, checking the connection it took, or using it.
\<close>

datatype 'c pool_thread =
    Outside
  | Get_waiting
  | Get_notified
  | Checking 'c
  | Holding 'c
  | Health_waiting
  | Health_notified

text \<open>\<open>notify_one\<close> wakes one waiting thread, whichever call it waits in, or does nothing.\<close>

inductive notify_one :: "'c pool_thread list \<Rightarrow> 'c pool_thread list \<Rightarrow> bool" where
  nobody: "Get_waiting \<notin> set ts \<Longrightarrow> Health_waiting \<notin> set ts \<Longrightarrow> notify_one ts ts"
| getter: "i < length ts \<Longrightarrow> ts ! i = Get_waiting \<Longrightarrow> notify_one ts (ts[i := Get_notified])"
| health: "i < length ts \<Longrightarrow> ts ! i = Health_waiting \<Longrightarrow> notify_one ts (ts[i := Health_notified])"

inductive pool_step :: "bool \<Rightarrow> 'c list \<times> 'c pool_thread list \<Rightarrow> 'c list \<times> 'c pool_thread list \<Rightarrow> bool"
  for health :: bool where
  take_front: "i < length ts \<Longrightarrow> ts ! i \<in> {Outside, Get_notified} \<Longrightarrow>
     pool_step health (c # cs, ts) (cs, ts[i := Checking c])"
| get_wait: "i < length ts \<Longrightarrow> ts ! i \<in> {Outside, Get_notified} \<Longrightarrow>
     pool_step health ([], ts) ([], ts[i := Get_waiting])"
| check_passed: "i < length ts \<Longrightarrow> ts ! i = Checking c \<Longrightarrow> pool_step health (cs, ts) (cs, ts[i := Holding c])"
| check_failed: "i < length ts \<Longrightarrow> ts ! i = Checking c \<Longrightarrow> notify_one (ts[i := Outside]) ts' \<Longrightarrow>
     pool_step health (cs, ts) (cs @ [c], ts')"
| release: "i < length ts \<Longrightarrow> ts ! i = Holding c \<Longrightarrow> notify_one (ts[i := Outside]) ts' \<Longrightarrow>
     pool_step health (cs, ts) (cs @ [c], ts')"
| get_spurious: "i < length ts \<Longrightarrow> ts ! i = Get_waiting \<Longrightarrow> pool_step health (cs, ts) (cs, ts[i := Get_notified])"
| health_return: "health \<Longrightarrow> i < length ts \<Longrightarrow> ts ! i \<in> {Outside, Health_notified} \<Longrightarrow> cs \<noteq> [] \<Longrightarrow>
     pool_step health (cs, ts) (cs, ts[i := Outside])"
| health_wait: "health \<Longrightarrow> i < length ts \<Longrightarrow> ts ! i \<in> {Outside, Health_notified} \<Longrightarrow>
     pool_step health ([], ts) ([], ts[i := Health_waiting])"
| health_timeout: "health \<Longrightarrow> i < length ts \<Longrightarrow> ts ! i \<in> {Health_waiting, Health_notified} \<Longrightarrow>
     pool_step health (cs, ts) (cs, ts[i := Outside])"
| health_spurious: "health \<Longrightarrow> i < length ts \<Longrightarrow> ts ! i = Health_waiting \<Longrightarrow>
     pool_step health (cs, ts) (cs, ts[i := Health_notified])"

abbreviation pool_run :: "bool \<Rightarrow> 'c list \<times> 'c pool_thread list \<Rightarrow> 'c list \<times> 'c pool_thread list \<Rightarrow> bool" where
  "pool_run health \<equiv> (pool_step health)\<^sup>*\<^sup>*"

inductive_cases notify_oneE: "notify_one ts ts'"

section \<open>Sums over threads\<close>

lemma sum_list_update_at:
  fixes f :: "'a \<Rightarrow> 'b::cancel_comm_monoid_add"
  shows "i < length ts \<Longrightarrow> sum_list (map f (ts[i := v])) + f (ts ! i) = sum_list (map f ts) + f v"
proof (induction ts arbitrary: i)
  case (Cons t ts)
  then show ?case by (cases i) (simp add: ac_simps, simp add: add.assoc)
qed simp

text \<open>The connections the threads have, and the number of threads woken from \<open>getConnection\<close>.\<close>

fun held_by :: "'c pool_thread \<Rightarrow> 'c multiset" where
  "held_by (Checking c) = {#c#}"
| "held_by (Holding c) = {#c#}"
| "held_by t = {#}"

definition held :: "'c pool_thread list \<Rightarrow> 'c multiset" where
  "held ts = sum_list (map held_by ts)"

definition woken :: "'c pool_thread list \<Rightarrow> nat" where
  "woken ts = sum_list (map (\<lambda>t. if t = Get_notified then 1 else 0) ts)"

lemma held_update: "i < length ts \<Longrightarrow> held (ts[i := v]) + held_by (ts ! i) = held ts + held_by v"
  unfolding held_def by (rule sum_list_update_at)

lemma woken_update:
  "i < length ts \<Longrightarrow> woken (ts[i := v]) + (if ts ! i = Get_notified then 1 else 0) = woken ts + (if v = Get_notified then 1 else 0)"
  unfolding woken_def by (rule sum_list_update_at)

lemma notify_held: "notify_one ts ts' \<Longrightarrow> held ts' = held ts"
  by (induction rule: notify_one.induct) (use held_update in \<open>force+\<close>)

section \<open>Connections are conserved\<close>

lemma step_conserves: "pool_step health s s' \<Longrightarrow> mset (fst s') + held (snd s') = mset (fst s) + held (snd s)"
proof (induction rule: pool_step.induct)
  case (take_front i ts c cs)
  then show ?case using held_update [of i ts "Checking c"] by auto
next
  case (get_wait i ts)
  then show ?case using held_update [of i ts Get_waiting] by auto
next
  case (check_passed i ts c cs)
  then show ?case using held_update [of i ts "Holding c"] by simp
next
  case (check_failed i ts c ts' cs)
  then show ?case using held_update [of i ts Outside] notify_held by fastforce
next
  case (release i ts c ts' cs)
  then show ?case using held_update [of i ts Outside] notify_held by fastforce
next
  case (get_spurious i ts cs)
  then show ?case using held_update [of i ts Get_notified] by simp
next
  case (health_return i ts cs)
  then show ?case using held_update [of i ts Outside] by auto
next
  case (health_wait i ts)
  then show ?case using held_update [of i ts Health_waiting] by auto
next
  case (health_timeout i ts cs)
  then show ?case using held_update [of i ts Outside] by auto
next
  case (health_spurious i ts cs)
  then show ?case using held_update [of i ts Health_notified] by simp
qed

lemma run_conserves: "pool_run health s s' \<Longrightarrow> mset (fst s') + held (snd s') = mset (fst s) + held (snd s)"
  by (induction rule: rtranclp_induct) (use step_conserves in \<open>fastforce+\<close>)

lemma held_outside [simp]: "held (replicate n Outside) = {#}"
  by (induction n) (simp_all add: held_def)

lemma held_nth: "i < length ts \<Longrightarrow> held_by (ts ! i) \<subseteq># held ts"
  by (metis held_update list_update_id mset_subset_eq_add_right held_by.simps(3) add.right_neutral subset_mset.le_iff_add add.commute)

lemma held_two: "i < length ts \<Longrightarrow> j < length ts \<Longrightarrow> i \<noteq> j \<Longrightarrow> held_by (ts ! i) + held_by (ts ! j) \<subseteq># held ts"
proof -
  assume a: "i < length ts" "j < length ts" "i \<noteq> j"
  have rest: "held ts = held_by (ts ! i) + held (ts[i := Outside])"
    using held_update [OF a(1), of Outside] by (simp add: add.commute)
  have "held_by (ts[i := Outside] ! j) \<subseteq># held (ts[i := Outside])" using a by (intro held_nth) simp
  then have "held_by (ts ! j) \<subseteq># held (ts[i := Outside])" using a by simp
  then show ?thesis unfolding rest by (rule subset_mset.add_left_mono)
qed

section \<open>Wake-ups\<close>

text \<open>Without \<open>isHealthy\<close>: while a thread waits, every free connection has a woken thread that will take it.\<close>

definition wakeups_cover :: "'c list \<times> 'c pool_thread list \<Rightarrow> bool" where
  "wakeups_cover s \<longleftrightarrow> Health_waiting \<notin> set (snd s) \<and> Health_notified \<notin> set (snd s) \<and>
     (Get_waiting \<in> set (snd s) \<longrightarrow> length (fst s) \<le> woken (snd s))"

lemma set_update_other: "x \<in> set (ts[i := v]) \<Longrightarrow> x \<noteq> v \<Longrightarrow> x \<in> set ts"
  using set_update_subset_insert [of ts i v] by auto

lemma notify_covers:
  assumes "notify_one ts ts'" and "Health_waiting \<notin> set ts" and "Health_notified \<notin> set ts"
    and "Get_waiting \<in> set ts \<longrightarrow> n \<le> woken ts" and "length cs = Suc n"
  shows "wakeups_cover (cs, ts')"
  using assms(1)
proof (cases rule: notify_one.cases)
  case nobody
  then show ?thesis using assms by (simp add: wakeups_cover_def)
next
  case (getter i)
  then have "woken ts' = woken ts + 1" using woken_update [of i ts Get_notified] by simp
  moreover have "Get_waiting \<in> set ts" using getter nth_mem by metis
  ultimately show ?thesis
    using assms(2-5) getter by (auto simp: wakeups_cover_def dest: set_update_other)
next
  case (health i)
  then show ?thesis using assms(2) nth_mem by metis
qed

lemma step_covers: "pool_step False s s' \<Longrightarrow> wakeups_cover s \<Longrightarrow> wakeups_cover s'"
proof (induction rule: pool_step.induct)
  case (take_front i ts c cs)
  then have "woken (ts[i := Checking c]) + (if ts ! i = Get_notified then 1 else 0) = woken ts"
    using woken_update [of i ts "Checking c"] by simp
  then have "woken ts \<le> woken (ts[i := Checking c]) + 1" by (auto split: if_splits)
  then show ?case using take_front by (auto simp: wakeups_cover_def dest!: set_update_other)
next
  case (get_wait i ts)
  then show ?case by (auto simp: wakeups_cover_def dest!: set_update_other)
next
  case (check_passed i ts c cs)
  then show ?case using woken_update [of i ts "Holding c"] by (auto simp: wakeups_cover_def dest!: set_update_other)
next
  case (check_failed i ts c ts' cs)
  have "woken (ts[i := Outside]) = woken ts" using woken_update [of i ts Outside] check_failed by simp
  then show ?case using check_failed by (intro notify_covers [of "ts[i := Outside]" _ "length cs"]) (auto simp: wakeups_cover_def dest!: set_update_other)
next
  case (release i ts c ts' cs)
  have "woken (ts[i := Outside]) = woken ts" using woken_update [of i ts Outside] release by simp
  then show ?case using release by (intro notify_covers [of "ts[i := Outside]" _ "length cs"]) (auto simp: wakeups_cover_def dest!: set_update_other)
next
  case (get_spurious i ts cs)
  have w: "Get_waiting \<in> set ts" using get_spurious nth_mem by metis
  then show ?case using get_spurious woken_update [of i ts Get_notified] by (auto simp: wakeups_cover_def dest!: set_update_other)
qed simp_all

lemma run_covers: "pool_run False s s' \<Longrightarrow> wakeups_cover s \<Longrightarrow> wakeups_cover s'"
  by (induction rule: rtranclp_induct) (use step_covers in \<open>blast+\<close>)

section \<open>Properties\<close>

definition has_connection :: "'c \<Rightarrow> 'c pool_thread \<Rightarrow> bool" where
  "has_connection c t \<longleftrightarrow> t = Checking c \<or> t = Holding c"

lemma has_connection_held: "has_connection c t \<longleftrightarrow> c \<in># held_by t"
  by (cases t) (auto simp: has_connection_def)



text \<open>C30: as long as no thread calls \<open>isHealthy\<close>, no thread sleeps beside a free connection: while one
  waits in \<open>getConnection\<close>, there are at least as many woken threads on their way to the queue as free
  connections in it.\<close>

theorem waiters_are_woken:
  assumes "pool_run False (conns, replicate n Outside) (cs, ts)" and "Get_waiting \<in> set ts"
  shows "length cs \<le> woken ts \<and> (cs \<noteq> [] \<longrightarrow> Get_notified \<in> set ts)"
proof -
  have "wakeups_cover (conns, replicate n Outside)" by (auto simp: wakeups_cover_def)
  then have "length cs \<le> woken ts" using run_covers [OF assms(1)] assms(2) by (simp add: wakeups_cover_def)
  moreover have "Get_notified \<notin> set ts \<Longrightarrow> woken ts = 0" by (induction ts) (auto simp: woken_def)
  ultimately show ?thesis by fastforce
qed

lemma waiters_are_woken_witness:
  "length [1::nat] \<le> woken [Outside, Get_notified, Get_waiting :: nat pool_thread]"
proof -
  have s1: "pool_step False ([1::nat], [Outside, Outside, Outside]) ([], [Checking 1, Outside, Outside])"
    using take_front [of 0 "[Outside, Outside, Outside]" False "1::nat" "[]"] by simp
  have s2: "pool_step False ([], [Checking (1::nat), Outside, Outside]) ([], [Checking 1, Get_waiting, Outside])"
    using get_wait [of 1 "[Checking (1::nat), Outside, Outside]" False] by simp
  have s3: "pool_step False ([], [Checking (1::nat), Get_waiting, Outside]) ([], [Checking 1, Get_waiting, Get_waiting])"
    using get_wait [of 2 "[Checking (1::nat), Get_waiting, Outside]" False] by simp
  have n: "notify_one [Outside, Get_waiting, Get_waiting :: nat pool_thread] [Outside, Get_notified, Get_waiting]"
    using getter [of 1 "[Outside, Get_waiting, Get_waiting :: nat pool_thread]"] by simp
  have s4: "pool_step False ([], [Checking (1::nat), Get_waiting, Get_waiting]) ([1], [Outside, Get_notified, Get_waiting])"
    using check_failed [of 0 "[Checking (1::nat), Get_waiting, Get_waiting]" 1 "[Outside, Get_notified, Get_waiting]" False "[]"] n
    by simp
  have "pool_run False ([1::nat], replicate 3 Outside) ([1], [Outside, Get_notified, Get_waiting])"
    using s1 s2 s3 s4 by (simp add: numeral_3_eq_3 converse_rtranclp_into_rtranclp)
  then show ?thesis using waiters_are_woken [of "[1::nat]" 3 "[1]" "[Outside, Get_notified, Get_waiting]"] by simp
qed

text \<open>C35: a health check can swallow a wake-up. \<open>isHealthy\<close> waits on the same condition variable, and a
  returned connection wakes one waiter only: woken for it, the health check returns without taking the
  connection and without waking anyone, and the thread in \<open>getConnection\<close> sleeps on beside a free one.\<close>

theorem health_check_swallows_wakeup:
  "pool_run True ([c], [Outside, Outside, Outside]) ([c], [Outside, Get_waiting, Outside]) \<and>
   woken [Outside, Get_waiting, Outside] = 0"
proof -
  have s1: "pool_step True ([c], [Outside, Outside, Outside]) ([], [Checking c, Outside, Outside])"
    using take_front [of 0 "[Outside, Outside, Outside]" True c "[]"] by simp
  have s2: "pool_step True ([], [Checking c, Outside, Outside]) ([], [Holding c, Outside, Outside])"
    using check_passed [of 0 "[Checking c, Outside, Outside]" c True "[]"] by simp
  have s3: "pool_step True ([], [Holding c, Outside, Outside]) ([], [Holding c, Get_waiting, Outside])"
    using get_wait [of 1 "[Holding c, Outside, Outside]" True] by simp
  have s4: "pool_step True ([], [Holding c, Get_waiting, Outside]) ([], [Holding c, Get_waiting, Health_waiting])"
    using health_wait [of True 2 "[Holding c, Get_waiting, Outside]"] by simp
  have n: "notify_one [Outside, Get_waiting, Health_waiting :: 'a pool_thread] [Outside, Get_waiting, Health_notified]"
    using notify_one.health [of 2 "[Outside, Get_waiting, Health_waiting :: 'a pool_thread]"] by simp
  have s5: "pool_step True ([], [Holding c, Get_waiting, Health_waiting]) ([c], [Outside, Get_waiting, Health_notified])"
    using release [of 0 "[Holding c, Get_waiting, Health_waiting]" c "[Outside, Get_waiting, Health_notified]" True "[]"] n by simp
  have s6: "pool_step True ([c], [Outside, Get_waiting, Health_notified]) ([c], [Outside, Get_waiting, Outside])"
    using health_return [of True 2 "[Outside, Get_waiting, Health_notified]" "[c]"] by simp
  have "pool_run True ([c], [Outside, Outside, Outside]) ([c], [Outside, Get_waiting, Outside])"
    using s1 s2 s3 s4 s5 s6 by (meson converse_rtranclp_into_rtranclp rtranclp.rtrancl_refl)
  then show ?thesis by (simp add: woken_def)
qed

end
