(* ===== verification/StatisticsReader.thy ===== *)
theory StatisticsReader
  imports EventConsumer
begin

text \<open>
  \<open>MySqlAccessStatisticsRepository.h/.cpp\<close>: the statistics the API reports, read from the tables the
  consumer writes. The server is again a parameter; its laws say which rows the three queries return.
\<close>

section \<open>Queries\<close>

datatype stats_read =
    Find_link string
  | Read_totals u64
  | Read_trend stats_interval u64 int int

type_synonym ('c, 'u, 'd) report_driver = "('c, 'u, stats_read, 'd) sql_driver"

section \<open>The repository\<close>

definition result_index :: "string \<Rightarrow> exn + nat" where
  "result_index v =
     (case parse_access_result v of
        None \<Rightarrow> Inl (Runtime_error ''unknown access statistics result'')
      | Some r \<Rightarrow> (case stats_result_index r of
                    None \<Rightarrow> Inl (Runtime_error ''non-aggregated access statistics result'')
                  | Some i \<Rightarrow> Inr i))"

definition no_summary :: stats_summary where
  "no_summary = \<lparr>summary_counts = replicate 4 0, last_access_ms = None, last_attempt_ms = None\<rparr>"

definition add_total :: "nat \<Rightarrow> u64 \<Rightarrow> int \<Rightarrow> stats_summary \<Rightarrow> stats_summary" where
  "add_total i n ms s =
     (let s1 = s\<lparr>summary_counts := (summary_counts s)[i := n]\<rparr>;
          s2 = (if i = 0 then s1\<lparr>last_access_ms := Some ms\<rparr> else s1)
      in if last_attempt_ms s2 = None \<or> the (last_attempt_ms s2) < ms then s2\<lparr>last_attempt_ms := Some ms\<rparr> else s2)"

fun add_totals :: "sql_row list \<Rightarrow> stats_summary \<Rightarrow> ('d, stats_summary) db_op" where
  "add_totals [] s = db_return s"
| "add_totals (row # rows) s =
     db_bind (db_lift (get_string row ''result'')) (\<lambda>v.
     db_bind (db_lift (result_index v)) (\<lambda>i.
     db_bind (db_lift (get_uint64 row ''access_count'')) (\<lambda>n.
     db_bind (db_lift (get_int64 row ''last_occurred_at_ms'')) (\<lambda>ms.
     add_totals rows (add_total i n ms s)))))"

text \<open>\<open>trend[bucketStart][index] = count\<close> on a \<open>std::map\<close> of zeroed arrays.\<close>

definition add_point :: "int \<Rightarrow> nat \<Rightarrow> u64 \<Rightarrow> (int \<times> result_counts) list \<Rightarrow> (int \<times> result_counts) list" where
  "add_point b i n m = omap_put b ((case map_of m b of None \<Rightarrow> replicate 4 0 | Some counts \<Rightarrow> counts)[i := n]) m"

fun add_trend :: "sql_row list \<Rightarrow> (int \<times> result_counts) list \<Rightarrow> ('d, (int \<times> result_counts) list) db_op" where
  "add_trend [] m = db_return m"
| "add_trend (row # rows) m =
     db_bind (db_lift (get_int64 row ''bucket_start'')) (\<lambda>b.
     db_bind (db_lift (get_string row ''result'')) (\<lambda>v.
     db_bind (db_lift (result_index v)) (\<lambda>i.
     db_bind (db_lift (get_uint64 row ''result_count'')) (\<lambda>n.
     add_trend rows (add_point b i n m)))))"

definition read_statistics :: "('c, 'u, 'd) report_driver \<Rightarrow> string \<Rightarrow> stats_query \<Rightarrow> 'c \<Rightarrow> ('d, stats_snapshot option) db_op" where
  "read_statistics D code q c =
     db_bind (execute_query D c (Find_link code)) (\<lambda>found.
     case found of
       [] \<Rightarrow> db_return None
     | row # _ \<Rightarrow>
         db_bind (db_lift (get_uint64 row ''id'')) (\<lambda>l.
         db_bind (execute_query D c (Read_totals l)) (\<lambda>totals_of.
         db_bind (add_totals totals_of no_summary) (\<lambda>summary.
         db_bind (execute_query D c (Read_trend (query_interval q) l (from_epoch q) (to_epoch q))) (\<lambda>trend_of.
         db_bind (add_trend trend_of []) (\<lambda>trend.
         db_return (Some \<lparr>snapshot_code = code, snapshot_summary = summary,
           snapshot_trend = map (\<lambda>(b, counts). \<lparr>bucket_start = b, bucket_counts = counts\<rparr>) trend\<rparr>)))))))"

definition mysql_statistics ::
  "('c, 'u, 'd) report_driver \<Rightarrow> ('c, 'd) pool_wait \<Rightarrow> string \<Rightarrow> stats_query \<Rightarrow>
   ('c pool \<times> 'd) \<times> sl_metrics \<Rightarrow> (exn + stats_snapshot option) \<times> ('c pool \<times> 'd) \<times> sl_metrics" where
  "mysql_statistics D wait code q sm =
     (if \<not> is_valid_stats_query q then (Inl (Invalid_argument ''invalid access statistics query''), sm)
      else (case with_connection D wait (read_statistics D code q) (fst sm) of
              (Inr r, s) \<Rightarrow> (Inr r, s, snd sm)
            | (Inl e, s) \<Rightarrow> (Inl e, s, record_backend_error Backend_mysql Op_statistics (snd sm))))"

section \<open>What the tables say\<close>

definition stats_labels :: "string list" where
  "stats_labels = [''success'', ''disabled'', ''expired'', ''error'']"

definition bucket_of :: "stats_interval \<Rightarrow> int \<Rightarrow> int" where
  "bucket_of i h = (if i = Interval_hour then h else h - h mod 86400)"

definition bucket_sum :: "stats_tables \<Rightarrow> u64 \<Rightarrow> stats_query \<Rightarrow> int \<Rightarrow> string \<Rightarrow> nat" where
  "bucket_sum t l q b r = (\<Sum>h | h \<in> {from_epoch q..<to_epoch q} \<and> bucket_of (query_interval q) h = b. hour_of t l h r)"

definition counted_hours :: "stats_tables \<Rightarrow> u64 \<Rightarrow> stats_query \<Rightarrow> (int \<times> string) set" where
  "counted_hours t l q = {(h, r). from_epoch q \<le> h \<and> h < to_epoch q \<and> hourly t (l, h, r) \<noteq> None}"

definition groups :: "stats_tables \<Rightarrow> u64 \<Rightarrow> stats_query \<Rightarrow> (int \<times> string) set" where
  "groups t l q = (\<lambda>(h, r). (bucket_of (query_interval q) h, r)) ` counted_hours t l q"

text \<open>Only the four aggregated results are counted.\<close>

definition results_ok :: "stats_tables \<Rightarrow> bool" where
  "results_ok t \<longleftrightarrow> (\<forall>l r. totals t (l, r) \<noteq> None \<longrightarrow> r \<in> set stats_labels) \<and>
     (\<forall>l h r. hourly t (l, h, r) \<noteq> None \<longrightarrow> r \<in> set stats_labels)"

definition expected_summary :: "stats_tables \<Rightarrow> u64 \<Rightarrow> stats_summary" where
  "expected_summary t l =
     \<lparr>summary_counts = map (\<lambda>r. of_nat (total_of t l r)) stats_labels,
      last_access_ms = map_option last_occurred (totals t (l, ''success'')),
      last_attempt_ms = (if \<forall>r. totals t (l, r) = None then None
                         else Some (Max {last_occurred x |x r. totals t (l, r) = Some x}))\<rparr>"

definition expected_trend :: "stats_tables \<Rightarrow> u64 \<Rightarrow> stats_query \<Rightarrow> trend_point list" where
  "expected_trend t l q =
     map (\<lambda>b. \<lparr>bucket_start = b, bucket_counts = map (\<lambda>r. of_nat (bucket_sum t l q b r)) stats_labels\<rparr>)
       (sorted_list_of_set (fst ` groups t l q))"

section \<open>The server\<close>

text \<open>What the getters return for a row of the totals and of the trend.\<close>

definition total_shows :: "stats_tables \<Rightarrow> u64 \<Rightarrow> string \<Rightarrow> sql_row \<Rightarrow> bool" where
  "total_shows t l r row \<longleftrightarrow> get_string row ''result'' = Inr r \<and>
     get_uint64 row ''access_count'' = Inr (of_nat (total_of t l r)) \<and>
     get_int64 row ''last_occurred_at_ms'' = Inr (last_occurred (the (totals t (l, r))))"

definition trend_shows :: "stats_tables \<Rightarrow> u64 \<Rightarrow> stats_query \<Rightarrow> int \<times> string \<Rightarrow> sql_row \<Rightarrow> bool" where
  "trend_shows t l q br row \<longleftrightarrow> get_int64 row ''bucket_start'' = Inr (fst br) \<and> get_string row ''result'' = Inr (snd br) \<and>
     get_uint64 row ''result_count'' = Inr (of_nat (bucket_sum t l q (fst br) (snd br)))"

locale statistics_source =
  fixes D :: "('c, 'u, 'd) report_driver"
    and tables :: "'d \<Rightarrow> stats_tables"
  assumes find_law: "driver_query D c (Find_link code) d = (found, d') \<Longrightarrow> tables d' = tables d \<and>
          (case found of
             Inr rows \<Rightarrow> (case link_ids (tables d) code of None \<Rightarrow> rows = [] | Some l \<Rightarrow> \<exists>row. rows = [row] \<and> get_uint64 row ''id'' = Inr l)
           | Inl m \<Rightarrow> True)"
    and totals_law: "driver_query D c (Read_totals l) d = (found, d') \<Longrightarrow> tables d' = tables d \<and>
          (case found of
             Inr rows \<Rightarrow> \<exists>rs. distinct rs \<and> set rs = {r. totals (tables d) (l, r) \<noteq> None} \<and>
               list_all2 (total_shows (tables d) l) rs rows
           | Inl m \<Rightarrow> True)"
    and trend_law: "driver_query D c (Read_trend (query_interval q) l (from_epoch q) (to_epoch q)) d = (found, d') \<Longrightarrow> tables d' = tables d \<and>
          (case found of
             Inr rows \<Rightarrow> \<exists>ps. distinct ps \<and> set ps = groups (tables d) l q \<and>
               list_all2 (trend_shows (tables d) l q) ps rows
           | Inl m \<Rightarrow> True)"
    and ping_law: "driver_select_one D c d = (alive, d') \<Longrightarrow> tables d' = tables d"
    and reconnect_law: "driver_reconnect D c d = (again, d') \<Longrightarrow> tables d' = tables d"

section \<open>Lemmas: the loops\<close>

lemma label_index: "r \<in> set stats_labels \<Longrightarrow> \<exists>i<4. result_index r = Inr i \<and> stats_labels ! i = r"
  by (auto simp: stats_labels_def result_index_def parse_access_result_def)

lemma result_index_zero: "r \<in> set stats_labels \<Longrightarrow> result_index r = Inr i \<Longrightarrow> i = 0 \<longleftrightarrow> r = ''success''"
  by (auto simp: stats_labels_def result_index_def parse_access_result_def)

lemma distinct_labels: "distinct stats_labels" "length stats_labels = 4"
  by (simp_all add: stats_labels_def)

lemma set_label:
  assumes "i < 4" and "stats_labels ! i = r"
  shows "(map f stats_labels)[i := x] = map (f(r := x)) stats_labels"
proof (rule nth_equalityI)
  fix k
  assume "k < length ((map f stats_labels)[i := x])"
  then have k: "k < 4" by (simp add: distinct_labels)
  have "stats_labels ! k = r \<longleftrightarrow> k = i"
    using assms k distinct_labels nth_eq_iff_index_eq by metis
  then show "(map f stats_labels)[i := x] ! k = map (f(r := x)) stats_labels ! k"
    using assms(1) k by (auto simp: distinct_labels nth_list_update)
qed simp

text \<open>The summary after the rows of the results \<open>rs\<close>.\<close>

definition partial_summary :: "stats_tables \<Rightarrow> u64 \<Rightarrow> string set \<Rightarrow> stats_summary" where
  "partial_summary t l rs =
     \<lparr>summary_counts = map (\<lambda>r. if r \<in> rs then of_nat (total_of t l r) else 0) stats_labels,
      last_access_ms = (if ''success'' \<in> rs then Some (last_occurred (the (totals t (l, ''success'')))) else None),
      last_attempt_ms = (if rs = {} then None else Some (Max ((\<lambda>r. last_occurred (the (totals t (l, r)))) ` rs)))\<rparr>"

lemma add_total_fields:
  "add_total i n ms s =
     \<lparr>summary_counts = (summary_counts s)[i := n], last_access_ms = (if i = 0 then Some ms else last_access_ms s),
      last_attempt_ms = Some (case last_attempt_ms s of None \<Rightarrow> ms | Some m \<Rightarrow> max ms m)\<rparr>"
  by (auto simp: add_total_def Let_def max_def split: option.split)

lemma add_total_partial:
  assumes "finite rs" and "r \<notin> rs" and "i < 4" and "stats_labels ! i = r" and "i = 0 \<longleftrightarrow> r = ''success''"
  shows "add_total i (of_nat (total_of t l r)) (last_occurred (the (totals t (l, r)))) (partial_summary t l rs) =
     partial_summary t l (insert r rs)"
proof -
  let ?f = "\<lambda>r. last_occurred (the (totals t (l, r)))"
  have counts: "(summary_counts (partial_summary t l rs))[i := of_nat (total_of t l r)] = summary_counts (partial_summary t l (insert r rs))"
    unfolding partial_summary_def stats_summary.select_convs set_label [OF assms(3,4)] by (intro map_cong) auto
  have "last_attempt_ms (partial_summary t l (insert r rs)) =
      Some (case last_attempt_ms (partial_summary t l rs) of None \<Rightarrow> ?f r | Some m \<Rightarrow> max (?f r) m)"
    using assms(1) by (simp add: partial_summary_def)
  moreover have "last_access_ms (partial_summary t l (insert r rs)) =
      (if i = 0 then Some (?f r) else last_access_ms (partial_summary t l rs))"
    using assms(5) by (auto simp: partial_summary_def)
  ultimately show ?thesis unfolding add_total_fields counts by simp
qed

lemma add_totals_partial:
  assumes "list_all2 (total_shows t l) rs rows"
    and "distinct rs" and "set rs \<subseteq> set stats_labels" and "finite done" and "done \<inter> set rs = {}"
  shows "add_totals rows (partial_summary t l done) d = (Inr (partial_summary t l (done \<union> set rs)), d)"
  using assms
proof (induction rs rows arbitrary: "done" rule: list_all2_induct)
  case (Cons r rs row rows)
  have "r \<in> set stats_labels" using Cons.prems by simp
  then obtain i where i: "i < 4" "result_index r = Inr i" "stats_labels ! i = r" "i = 0 \<longleftrightarrow> r = ''success''"
    using label_index result_index_zero by meson
  have "add_totals rows (partial_summary t l (insert r done)) d = (Inr (partial_summary t l (insert r done \<union> set rs)), d)"
    using Cons.IH [of "insert r done"] Cons.prems by auto
  moreover have "r \<notin> done" using Cons.prems by auto
  ultimately show ?case
    using Cons.hyps(1) [unfolded total_shows_def] i add_total_partial [OF Cons.prems(3) _ i(1,3,4), of t l] by (simp add: db_bind_def)
qed simp

text \<open>The trend after the groups \<open>ps\<close>.\<close>

definition partial_trend :: "stats_tables \<Rightarrow> u64 \<Rightarrow> stats_query \<Rightarrow> (int \<times> string) set \<Rightarrow> (int \<times> result_counts) list \<Rightarrow> bool" where
  "partial_trend t l q ps m \<longleftrightarrow> omap_ok m \<and>
     (\<forall>b. map_of m b = (if b \<in> fst ` ps
        then Some (map (\<lambda>r. if (b, r) \<in> ps then of_nat (bucket_sum t l q b r) else 0) stats_labels) else None))"

lemma add_point_partial:
  assumes m: "partial_trend t l q ps m" and i: "i < 4" "stats_labels ! i = r"
  shows "partial_trend t l q (insert (b, r) ps) (add_point b i (of_nat (bucket_sum t l q b r)) m)"
proof -
  let ?old = "\<lambda>x. if (b, x) \<in> ps then of_nat (bucket_sum t l q b x) else (0 :: u64)"
  have zeros: "replicate 4 0 = map ?old stats_labels" if "b \<notin> fst ` ps"
    using that by (force simp: stats_labels_def numeral_eq_Suc)
  have "(case map_of m b of None \<Rightarrow> replicate 4 0 | Some counts \<Rightarrow> counts) = map ?old stats_labels"
    using m zeros by (auto simp: partial_trend_def)
  then have new: "(case map_of m b of None \<Rightarrow> replicate 4 0 | Some counts \<Rightarrow> counts)[i := of_nat (bucket_sum t l q b r)] =
      map (\<lambda>x. if (b, x) \<in> insert (b, r) ps then of_nat (bucket_sum t l q b x) else 0) stats_labels"
    by (simp only: set_label [OF i]) (intro map_cong, auto)
  show ?thesis
    using m unfolding add_point_def new partial_trend_def by (auto simp: omap_ok_put)
qed

lemma add_trend_partial:
  assumes "list_all2 (trend_shows t l q) ps rows"
    and "snd ` set ps \<subseteq> set stats_labels" and "partial_trend t l q done m"
  shows "\<exists>m'. add_trend rows m d = (Inr m', d) \<and> partial_trend t l q (done \<union> set ps) m'"
  using assms
proof (induction ps rows arbitrary: "done" m rule: list_all2_induct)
  case (Cons p ps row rows)
  obtain b r where p: "p = (b, r)" by fastforce
  have "r \<in> set stats_labels" using Cons.prems p by simp
  then obtain i where i: "i < 4" "result_index r = Inr i" "stats_labels ! i = r" using label_index by blast
  have "partial_trend t l q (insert (b, r) done) (add_point b i (of_nat (bucket_sum t l q b r)) m)"
    by (rule add_point_partial [OF Cons.prems(2) i(1,3)])
  from Cons.IH [OF _ this] obtain m' where "add_trend rows (add_point b i (of_nat (bucket_sum t l q b r)) m) d = (Inr m', d)"
    "partial_trend t l q (insert (b, r) done \<union> set ps) m'"
    using Cons.prems(1) by auto
  then show ?case using Cons.hyps(1) [unfolded trend_shows_def] i p by (auto simp: db_bind_def)
qed auto

text \<open>What holds of a connection from the pool when checking it keeps a property of the database.\<close>

lemma with_connection_keeps:
  assumes body: "\<And>c. db_hoare P (body c) Q E"
    and ping: "\<And>c d. P d \<Longrightarrow> P (snd (driver_select_one D c d))" and again: "\<And>c d. P d \<Longrightarrow> P (snd (driver_reconnect D c d))"
    and d: "P d" and p: "free_connections p \<noteq> []" and run: "with_connection D wait body (p, d) = (x, p', d')"
  shows "free_connections p' \<noteq> [] \<and> (case x of Inr y \<Rightarrow> Q y d' | Inl e \<Rightarrow> E e d' \<or> P d')"
proof -
  obtain c cs where cs: "free_connections p = c # cs" using p by (cases "free_connections p") auto
  define p1 where "p1 = p\<lparr>free_connections := cs\<rparr>"
  have get: "take_connection D wait p d = check_out D c p1 d"
    by (simp add: take_connection_def get_connection_def cs p1_def)
  obtain y d1 where y: "ping D c d = (y, d1)" by fastforce
  have d1: "P d1"
    using ping [OF d, of c] y by (auto simp: ping_def split: prod.splits sum.splits)
  obtain z d2 where z: "reconnect D c d1 = (z, d2)" by fastforce
  have d2: "P d2"
    using again [OF d1, of c] z by (auto simp: reconnect_def as_db_exception_def split: prod.splits sum.splits)
  have used: "free_connections p' \<noteq> [] \<and> (case x of Inr y \<Rightarrow> Q y d' | Inl e \<Rightarrow> E e d' \<or> P d')"
    if d3: "P d3" and out: "check_out D c p1 d = (Inr c, p1, d3)" for d3
  proof -
    obtain v d4 where v: "body c d3 = (v, d4)" by fastforce
    then have "x = v" "p' = release_connection c p1" "d' = d4" using run get out by (simp_all add: with_connection_def)
    then show ?thesis using db_hoareD [OF body d3 v] by (cases v) (auto simp: release_connection_def)
  qed
  show ?thesis
  proof (cases y)
    case True
    then show ?thesis using used [OF d1] y by (simp add: check_out_def)
  next
    case False
    show ?thesis
    proof (cases z)
      case (Inr u)
      then show ?thesis using used [OF d2] y z False by (simp add: check_out_def)
    next
      case (Inl e)
      then show ?thesis
        using run get y z False d2 by (auto simp: check_out_def with_connection_def release_connection_def)
    qed
  qed
qed

lemma finite_groups [simp]: "finite (fst ` groups t l q)"
proof -
  have "fst ` groups t l q \<subseteq> bucket_of (query_interval q) ` {from_epoch q..<to_epoch q}"
    by (auto simp: groups_def counted_hours_def)
  then show ?thesis by (rule finite_subset) simp
qed

lemma group_labels:
  assumes "results_ok t" and "(b, r) \<in> groups t l q"
  shows "r \<in> set stats_labels"
proof -
  obtain h where "hourly t (l, h, r) \<noteq> None" using assms(2) by (auto simp: groups_def counted_hours_def)
  then show ?thesis using assms(1) unfolding results_ok_def by blast
qed

lemma bucket_sum_none: "b \<in> fst ` groups t l q \<Longrightarrow> (b, r) \<notin> groups t l q \<Longrightarrow> bucket_sum t l q b r = 0"
  unfolding bucket_sum_def
  by (intro sum.neutral ballI) (force simp: groups_def counted_hours_def hour_of_def split: option.splits)

lemma trend_complete:
  assumes "partial_trend t l q (groups t l q) m"
  shows "map (\<lambda>(b, counts). \<lparr>bucket_start = b, bucket_counts = counts\<rparr>) m = expected_trend t l q"
proof -
  let ?f = "\<lambda>b. map (\<lambda>r. of_nat (bucket_sum t l q b r)) stats_labels :: u64 list"
  have ok: "sorted_wrt (<) (map fst m)" using assms by (simp add: partial_trend_def omap_ok_def)
  have dist: "distinct (map fst m)" using ok by (metis strict_sorted_iff)
  have keys: "set (map fst m) = fst ` groups t l q"
  proof -
    have "b \<in> set (map fst m) \<longleftrightarrow> map_of m b \<noteq> None" for b by (simp add: map_of_eq_None_iff)
    moreover have "map_of m b \<noteq> None \<longleftrightarrow> b \<in> fst ` groups t l q" for b using assms by (simp add: partial_trend_def)
    ultimately show ?thesis by blast
  qed
  have sorted: "map fst m = sorted_list_of_set (fst ` groups t l q)"
    using ok keys by (metis List.finite_set sorted_list_of_set.idem_if_sorted_distinct strict_sorted_iff)
  have vals: "snd x = ?f (fst x)" if "x \<in> set m" for x
  proof -
    have "map_of m (fst x) = Some (snd x)" using that dist by simp
    then have "fst x \<in> fst ` groups t l q"
      and "snd x = map (\<lambda>r. if (fst x, r) \<in> groups t l q then of_nat (bucket_sum t l q (fst x) r) else 0) stats_labels"
      using assms by (auto simp: partial_trend_def split: if_splits)
    then show ?thesis using bucket_sum_none by (auto intro!: map_cong)
  qed
  have "map (\<lambda>(b, counts). \<lparr>bucket_start = b, bucket_counts = counts\<rparr>) m =
      map (\<lambda>b. \<lparr>bucket_start = b, bucket_counts = ?f b\<rparr>) (map fst m)"
    using vals by (auto simp: case_prod_beta)
  then show ?thesis unfolding sorted by (simp add: expected_trend_def)
qed

lemma summary_complete:
  assumes "results_ok t" and "set rs = {r. totals t (l, r) \<noteq> None}"
  shows "partial_summary t l (set rs) = expected_summary t l"
proof -
  have "(\<lambda>r. last_occurred (the (totals t (l, r)))) ` set rs = {last_occurred x |x r. totals t (l, r) = Some x}"
    unfolding assms(2) by (force simp: image_iff)
  moreover have "set rs = {} \<longleftrightarrow> (\<forall>r. totals t (l, r) = None)" unfolding assms(2) by auto
  moreover have "r \<notin> set rs \<Longrightarrow> total_of t l r = 0" for r unfolding assms(2) by (simp add: total_of_def)
  ultimately show ?thesis
    using assms(2) by (auto simp: partial_summary_def expected_summary_def split: option.split)
qed

context statistics_source
begin

lemma query_step:
  assumes "\<And>d found d'. tables d = t \<Longrightarrow> driver_query D c q d = (found, d') \<Longrightarrow>
      tables d' = t \<and> (case found of Inr rows \<Rightarrow> R rows | Inl m \<Rightarrow> True)"
  shows "db_hoare (\<lambda>d. tables d = t) (execute_query D c q) (\<lambda>rows d. tables d = t \<and> R rows) (\<lambda>e d. tables d = t)"
proof (rule db_hoareI)
  fix d r d'
  assume d: "tables d = t" and run: "execute_query D c q d = (r, d')"
  obtain found where found: "driver_query D c q d = (found, d')"
    and r: "r = (case found of Inl m \<Rightarrow> Inl (Db_exception m) | Inr x \<Rightarrow> Inr x)"
    using run by (auto simp: execute_query_def as_db_exception_def split: prod.splits sum.splits)
  show "case r of Inr rows \<Rightarrow> tables d' = t \<and> R rows | Inl e \<Rightarrow> tables d' = t"
    using assms [OF d found] r by (cases found) simp_all
qed

lemma read_spec:
  assumes ok: "results_ok t"
  shows "db_hoare (\<lambda>d. tables d = t) (read_statistics D code q c)
     (\<lambda>x d. tables d = t \<and> x = map_option (\<lambda>l. \<lparr>snapshot_code = code, snapshot_summary = expected_summary t l,
        snapshot_trend = expected_trend t l q\<rparr>) (link_ids t code))
     (\<lambda>e d. tables d = t)"
  unfolding read_statistics_def
proof (rule db_hoare_bind [OF query_step [where t = t and R = "\<lambda>rows. case link_ids t code of None \<Rightarrow> rows = [] | Some l \<Rightarrow> \<exists>row. rows = [row] \<and> get_uint64 row ''id'' = Inr l"]],
    use find_law in blast, rule db_hoare_pure)
  fix rows
  let ?post = "\<lambda>x d. tables d = t \<and> x = map_option (\<lambda>l. \<lparr>snapshot_code = code, snapshot_summary = expected_summary t l,
        snapshot_trend = expected_trend t l q\<rparr>) (link_ids t code)"
  let ?rest = "\<lambda>l. db_bind (execute_query D c (Read_totals l)) (\<lambda>totals_of.
         db_bind (add_totals totals_of no_summary) (\<lambda>summary.
         db_bind (execute_query D c (Read_trend (query_interval q) l (from_epoch q) (to_epoch q))) (\<lambda>trend_of.
         db_bind (add_trend trend_of []) (\<lambda>trend.
         db_return (Some \<lparr>snapshot_code = code, snapshot_summary = summary,
           snapshot_trend = map (\<lambda>(b, counts). \<lparr>bucket_start = b, bucket_counts = counts\<rparr>) trend\<rparr>)))))"
  assume rows: "case link_ids t code of None \<Rightarrow> rows = [] | Some l \<Rightarrow> \<exists>row. rows = [row] \<and> get_uint64 row ''id'' = Inr l"
  have rest: "db_hoare (\<lambda>d. tables d = t) (?rest l) ?post (\<lambda>e d. tables d = t)" if l: "link_ids t code = Some l" for l
  proof (rule db_hoare_bind [OF query_step [where t = t and R = "\<lambda>rows. \<exists>rs. distinct rs \<and> set rs = {r. totals t (l, r) \<noteq> None} \<and>
       list_all2 (total_shows t l) rs rows"]],
      use totals_law in blast, rule db_hoare_pure, elim exE conjE)
    fix totals_of rs
    assume rs: "distinct rs" "set rs = {r. totals t (l, r) \<noteq> None}"
      "list_all2 (total_shows t l) rs totals_of"
    have labels: "set rs \<subseteq> set stats_labels" using ok rs(2) by (auto simp: results_ok_def)
    have start: "no_summary = partial_summary t l {}" by (simp add: no_summary_def partial_summary_def stats_labels_def numeral_eq_Suc)
    have sums: "add_totals totals_of no_summary d = (Inr (expected_summary t l), d)" for d :: 'd
      using add_totals_partial [OF rs(3,1) labels, of "{}" d] summary_complete [OF ok rs(2)] start by simp
    have "db_hoare (\<lambda>d. tables d = t)
       (db_bind (execute_query D c (Read_trend (query_interval q) l (from_epoch q) (to_epoch q))) (\<lambda>trend_of.
         db_bind (add_trend trend_of []) (\<lambda>trend.
         db_return (Some \<lparr>snapshot_code = code, snapshot_summary = expected_summary t l,
           snapshot_trend = map (\<lambda>(b, counts). \<lparr>bucket_start = b, bucket_counts = counts\<rparr>) trend\<rparr>))))
       ?post (\<lambda>e d. tables d = t)"
    proof (rule db_hoare_bind [OF query_step [where t = t and R = "\<lambda>rows. \<exists>ps. distinct ps \<and> set ps = groups t l q \<and>
         list_all2 (trend_shows t l q) ps rows"]],
        use trend_law in blast, rule db_hoare_pure, elim exE conjE)
      fix trend_of ps
      assume ps: "set ps = groups t l q"
        "list_all2 (trend_shows t l q) ps trend_of"
      have labels: "snd ` set ps \<subseteq> set stats_labels" using group_labels [OF ok] ps(1) by force
      have none: "partial_trend t l q {} []" by (simp add: partial_trend_def)
      have trend: "\<exists>m. add_trend trend_of [] d = (Inr m, d) \<and>
          map (\<lambda>(b, counts). \<lparr>bucket_start = b, bucket_counts = counts\<rparr>) m = expected_trend t l q" for d :: 'd
        using add_trend_partial [OF ps(2) labels none, of d] ps(1) trend_complete by auto
      show "db_hoare (\<lambda>d. tables d = t)
         (db_bind (add_trend trend_of []) (\<lambda>trend.
           db_return (Some \<lparr>snapshot_code = code, snapshot_summary = expected_summary t l,
             snapshot_trend = map (\<lambda>(b, counts). \<lparr>bucket_start = b, bucket_counts = counts\<rparr>) trend\<rparr>)))
         ?post (\<lambda>e d. tables d = t)"
      proof (rule db_hoareI)
        fix d x d'
        assume d: "tables d = t" and run: "db_bind (add_trend trend_of []) (\<lambda>trend.
           db_return (Some \<lparr>snapshot_code = code, snapshot_summary = expected_summary t l,
             snapshot_trend = map (\<lambda>(b, counts). \<lparr>bucket_start = b, bucket_counts = counts\<rparr>) trend\<rparr>)) d = (x, d')"
        then show "case x of Inr y \<Rightarrow> ?post y d' | Inl e \<Rightarrow> tables d' = t"
          using trend [of d] l by (auto simp: db_bind_def)
      qed
    qed
    then show "db_hoare (\<lambda>d. tables d = t)
       (db_bind (add_totals totals_of no_summary) (\<lambda>summary.
         db_bind (execute_query D c (Read_trend (query_interval q) l (from_epoch q) (to_epoch q))) (\<lambda>trend_of.
         db_bind (add_trend trend_of []) (\<lambda>trend.
         db_return (Some \<lparr>snapshot_code = code, snapshot_summary = summary,
           snapshot_trend = map (\<lambda>(b, counts). \<lparr>bucket_start = b, bucket_counts = counts\<rparr>) trend\<rparr>)))))
       ?post (\<lambda>e d. tables d = t)"
      by (simp add: db_hoare_def db_bind_def [of "add_totals totals_of no_summary"] sums)
  qed
  show "db_hoare (\<lambda>d. tables d = t)
     (case rows of [] \<Rightarrow> db_return None | row # _ \<Rightarrow> db_bind (db_lift (get_uint64 row ''id'')) ?rest) ?post (\<lambda>e d. tables d = t)"
  proof (cases "link_ids t code")
    case None
    then show ?thesis using rows by (auto intro!: db_hoareI)
  next
    case (Some l)
    then obtain row where "rows = [row]" "get_uint64 row ''id'' = Inr l" using rows by auto
    then show ?thesis using rest [OF Some] by (simp add: db_hoare_def db_bind_def [of "db_lift _"])
  qed
qed

lemma statistics_spec:
  assumes ok: "results_ok (tables d)" and p: "free_connections p \<noteq> []" and q: "is_valid_stats_query q"
    and run: "mysql_statistics D wait code q ((p, d), m) = (res, (p', d'), m')"
  shows "free_connections p' \<noteq> [] \<and> tables d' = tables d \<and>
     (case res of
        Inr x \<Rightarrow> m' = m \<and> x = map_option (\<lambda>l. \<lparr>snapshot_code = code, snapshot_summary = expected_summary (tables d) l,
            snapshot_trend = expected_trend (tables d) l q\<rparr>) (link_ids (tables d) code)
      | Inl e \<Rightarrow> m' = record_backend_error Backend_mysql Op_statistics m)"
proof -
  obtain x p1 d1 where x: "with_connection D wait (read_statistics D code q) (p, d) = (x, p1, d1)" by (metis prod_cases3)
  have keep: "tables d0 = tables d \<Longrightarrow> tables (snd (driver_select_one D c d0)) = tables d"
    "tables d0 = tables d \<Longrightarrow> tables (snd (driver_reconnect D c d0)) = tables d" for c d0
    using ping_law [of c d0] reconnect_law [of c d0] by (metis prod.collapse)+
  have "free_connections p1 \<noteq> [] \<and> (case x of
        Inr y \<Rightarrow> tables d1 = tables d \<and> y = map_option (\<lambda>l. \<lparr>snapshot_code = code, snapshot_summary = expected_summary (tables d) l,
            snapshot_trend = expected_trend (tables d) l q\<rparr>) (link_ids (tables d) code)
      | Inl e \<Rightarrow> tables d1 = tables d \<or> tables d1 = tables d)"
    by (rule with_connection_keeps [OF read_spec [OF ok] keep refl p x])
  then show ?thesis using run x q by (cases x) (auto simp: mysql_statistics_def)
qed

end

section \<open>Tables the consumer wrote\<close>

lemma settle_results_ok: "results_ok t \<Longrightarrow> results_ok (settle e src t)"
proof -
  assume t: "results_ok t"
  have "access_result_to_string (event_result e) \<in> set stats_labels" if "event_result e \<noteq> Access_not_found"
    using that by (cases "event_result e") (simp_all add: stats_labels_def)
  then show ?thesis
    using t by (auto simp: settle_def count_event_def results_ok_def Let_def split: option.splits)
qed

lemma settle_all_results_ok: "results_ok t \<Longrightarrow> results_ok (settle_all ds t)"
  by (induction ds arbitrary: t) (auto simp: settle_all_def settle_results_ok)

lemma no_statistics_results_ok: "no_statistics_yet t \<Longrightarrow> results_ok t"
  by (simp add: no_statistics_yet_def results_ok_def)

section \<open>A server for evaluation\<close>

record table_lists =
  total_rows :: "((u64 \<times> string) \<times> total_row) list"
  hour_rows :: "((u64 \<times> int \<times> string) \<times> nat) list"
  code_rows :: "(string \<times> u64) list"

definition tables_of :: "table_lists \<Rightarrow> stats_tables" where
  "tables_of d = \<lparr>processed = (\<lambda>k. None), totals = map_of (total_rows d), hourly = map_of (hour_rows d),
     link_ids = map_of (code_rows d)\<rparr>"

definition report_row :: "string \<Rightarrow> int \<Rightarrow> u64 \<Rightarrow> sql_row" where
  "report_row r i n = \<lparr>get_string = (\<lambda>k. Inr r), get_uint64 = (\<lambda>k. Inr n), get_int64 = (\<lambda>k. Inr i), is_null = (\<lambda>k. False)\<rparr>"

fun report_query :: "stats_read \<Rightarrow> table_lists \<Rightarrow> sql_row list" where
  "report_query (Find_link code) d = (case map_of (code_rows d) code of None \<Rightarrow> [] | Some l \<Rightarrow> [report_row [] 0 l])"
| "report_query (Read_totals l) d =
     map (\<lambda>r. report_row r (last_occurred (the (totals (tables_of d) (l, r)))) (of_nat (total_of (tables_of d) l r)))
       (remdups (map (\<lambda>k. snd (fst k)) (filter (\<lambda>k. fst (fst k) = l) (total_rows d))))"
| "report_query (Read_trend i l from_s to_s) d =
     (let q = \<lparr>from_epoch = from_s, to_epoch = to_s, query_interval = i\<rparr>
      in map (\<lambda>(b, r). report_row r b (of_nat (bucket_sum (tables_of d) l q b r)))
           (remdups (map (\<lambda>((l', h, r), n). (bucket_of i h, r))
             (filter (\<lambda>((l', h, r), n). l' = l \<and> from_s \<le> h \<and> h < to_s) (hour_rows d)))))"

definition plain_reports :: "(nat, unit, table_lists) report_driver" where
  "plain_reports =
     \<lparr>driver_connect = (\<lambda>opts d. (Inr 0, d)), driver_raw = (\<lambda>c s d. (Inr 0, d)), driver_update = (\<lambda>c u d. (Inr 0, d)),
      driver_query = (\<lambda>c q d. (Inr (report_query q d), d)), driver_select_one = (\<lambda>c d. (Inr True, d)),
      driver_reconnect = (\<lambda>c d. (Inr (), d))\<rparr>"

lemma dom_list: "map_of xs k \<noteq> None \<longleftrightarrow> k \<in> fst ` set xs"
  by (simp add: map_of_eq_None_iff)

interpretation reports: statistics_source plain_reports tables_of
proof (unfold_locales, goal_cases)
  case (1 c code d found d')
  then show ?case by (auto simp: plain_reports_def tables_of_def report_row_def split: option.splits)
next
  case (2 c l d found d')
  let ?rs = "remdups (map (\<lambda>k. snd (fst k)) (filter (\<lambda>k. fst (fst k) = l) (total_rows d)))"
  have "set ?rs = {r. totals (tables_of d) (l, r) \<noteq> None}"
    unfolding tables_of_def stats_tables.select_convs dom_list by (force simp: image_iff)
  moreover have "list_all2 (total_shows (tables_of d) l) ?rs (report_query (Read_totals l) d)"
    by (simp add: list_all2_map2 list_all2_same total_shows_def report_row_def)
  ultimately show ?case
    using 2 by (auto simp: plain_reports_def simp del: report_query.simps intro!: exI [of _ ?rs])
next
  case (3 c q l d found d')
  let ?ps = "remdups (map (\<lambda>((l', h, r), n). (bucket_of (query_interval q) h, r))
      (filter (\<lambda>((l', h, r), n). l' = l \<and> from_epoch q \<le> h \<and> h < to_epoch q) (hour_rows d)))"
  have q: "\<lparr>from_epoch = from_epoch q, to_epoch = to_epoch q, query_interval = query_interval q\<rparr> = q" by simp
  have "set ?ps = groups (tables_of d) l q"
    unfolding groups_def counted_hours_def tables_of_def stats_tables.select_convs dom_list by (force simp: image_iff)
  moreover have "list_all2 (trend_shows (tables_of d) l q) ?ps (report_query (Read_trend (query_interval q) l (from_epoch q) (to_epoch q)) d)"
    by (simp add: list_all2_map2 list_all2_same trend_shows_def report_row_def Let_def q case_prod_beta del: set_remdups)
  ultimately show ?case
    using 3 by (auto simp: plain_reports_def simp del: report_query.simps intro!: exI [of _ ?ps])
next
  case (4 c d alive d')
  then show ?case by (simp add: plain_reports_def)
next
  case (5 c d again d')
  then show ?case by (simp add: plain_reports_def)
qed

section \<open>Properties\<close>

text \<open>C19: the statistics API reports the accesses the consumer counted. Read from tables that settling any
  deliveries produced, a snapshot has, for each of the four results, the number of distinct events of the
  link, and its trend has exactly the buckets of the range with accesses, in ascending order, each with the
  sums of its hours; an unknown code has none, and a failure of the server is counted and rethrown.\<close>

theorem reported_counts_are_events:
  assumes "statistics_source D tables" and "tables d = settle_all ds t0" and "no_statistics_yet t0" and "ids_name_events ds"
    and "is_valid_stats_query q" and "free_connections p \<noteq> []"
    and "mysql_statistics D wait code q ((p, d), m) = (res, (p', d'), m')"
  shows "case res of
       Inl e \<Rightarrow> m' = record_backend_error Backend_mysql Op_statistics m
     | Inr None \<Rightarrow> link_ids t0 code = None
     | Inr (Some s) \<Rightarrow> snapshot_code s = code \<and> (\<exists>l. link_ids t0 code = Some l \<and>
         summary_counts (snapshot_summary s) = map (\<lambda>r. of_nat (card (counted_ids (link_ids t0) ds l r (\<lambda>e. True)))) stats_labels \<and>
         sorted_wrt (<) (map bucket_start (snapshot_trend s)) \<and>
         (\<forall>pt\<in>set (snapshot_trend s). bucket_counts pt = map (\<lambda>r. of_nat (\<Sum>h | h \<in> {from_epoch q..<to_epoch q} \<and>
             bucket_of (query_interval q) h = bucket_start pt.
             card (counted_ids (link_ids t0) ds l r (\<lambda>e. event_hour e = h)))) stats_labels) \<and>
         bucket_start ` set (snapshot_trend s) = fst ` groups (tables d) l q)"
proof -
  note counts = settle_all_counts [OF assms(3,4)]
  have ok: "results_ok (tables d)"
    unfolding assms(2) by (intro settle_all_results_ok no_statistics_results_ok assms(3))
  have links: "link_ids (tables d) = link_ids t0" using counts by (simp add: assms(2))
  have sums: "map (\<lambda>r. of_nat (total_of (tables d) l r)) stats_labels =
      (map (\<lambda>r. of_nat (card (counted_ids (link_ids t0) ds l r (\<lambda>e. True)))) stats_labels :: u64 list)" for l
    using counts by (simp add: assms(2))
  have hours: "bucket_sum (tables d) l q b r = (\<Sum>h | h \<in> {from_epoch q..<to_epoch q} \<and> bucket_of (query_interval q) h = b.
      card (counted_ids (link_ids t0) ds l r (\<lambda>e. event_hour e = h)))" for l b r
    unfolding bucket_sum_def assms(2) using counts by simp
  have ascending: "sorted_wrt (<) (map bucket_start (expected_trend t l q)) \<and> bucket_start ` set (expected_trend t l q) = fst ` groups t l q" for t l
    by (simp add: expected_trend_def comp_def image_image)
  note spec = statistics_source.statistics_spec [OF assms(1) ok assms(6,5,7)]
  show ?thesis
  proof (cases res)
    case (Inl e)
    then show ?thesis using spec by simp
  next
    case (Inr x)
    show ?thesis
    proof (cases "link_ids t0 code")
      case None
      then show ?thesis using spec Inr links by simp
    next
      case (Some l)
      let ?s = "\<lparr>snapshot_code = code, snapshot_summary = expected_summary (tables d) l, snapshot_trend = expected_trend (tables d) l q\<rparr>"
      have x: "x = Some ?s" using spec Inr links Some by simp
      have "summary_counts (expected_summary (tables d) l) =
          map (\<lambda>r. of_nat (card (counted_ids (link_ids t0) ds l r (\<lambda>e. True)))) stats_labels"
        using sums [of l] by (simp add: expected_summary_def)
      moreover have "bucket_counts pt = map (\<lambda>r. of_nat (\<Sum>h | h \<in> {from_epoch q..<to_epoch q} \<and>
             bucket_of (query_interval q) h = bucket_start pt.
             card (counted_ids (link_ids t0) ds l r (\<lambda>e. event_hour e = h)))) stats_labels"
        if "pt \<in> set (expected_trend (tables d) l q)" for pt
        using that unfolding hours [symmetric] by (auto simp: expected_trend_def)
      ultimately show ?thesis using Some Inr x ascending [of "tables d" l] by simp
    qed
  qed
qed

lemma reported_counts_are_events_witness:
  "case fst (mysql_statistics plain_reports (\<lambda>p d. (0, p, d)) ''abcd''
       \<lparr>from_epoch = 0, to_epoch = 86400, query_interval = Interval_day\<rparr>
       ((empty_pool\<lparr>free_connections := [0], pool_initialized := True\<rparr>,
         \<lparr>total_rows = [], hour_rows = [], code_rows = [(''abcd'', 5)]\<rparr>), init_metrics)) of
     Inr (Some s) \<Rightarrow> summary_counts (snapshot_summary s) = [0, 0, 0, 0] | x \<Rightarrow> True"
proof -
  let ?d = "\<lparr>total_rows = [], hour_rows = [], code_rows = [(''abcd'', 5)]\<rparr>"
  let ?q = "\<lparr>from_epoch = 0, to_epoch = 86400, query_interval = Interval_day\<rparr>"
  let ?p = "empty_pool\<lparr>free_connections := [0], pool_initialized := True\<rparr> :: nat pool"
  obtain res p' d' m' where run: "mysql_statistics plain_reports (\<lambda>p d. (0, p, d)) ''abcd'' ?q ((?p, ?d), init_metrics) = (res, (p', d'), m')"
    by (metis prod_cases3 prod.collapse)
  have t: "tables_of ?d = settle_all [] (tables_of ?d)" by (simp add: settle_all_def)
  have none: "no_statistics_yet (tables_of ?d)" by (simp add: no_statistics_yet_def tables_of_def)
  have "case res of
       Inl e \<Rightarrow> m' = record_backend_error Backend_mysql Op_statistics init_metrics
     | Inr None \<Rightarrow> link_ids (tables_of ?d) ''abcd'' = None
     | Inr (Some s) \<Rightarrow> snapshot_code s = ''abcd'' \<and> (\<exists>l. link_ids (tables_of ?d) ''abcd'' = Some l \<and>
         summary_counts (snapshot_summary s) = map (\<lambda>r. of_nat (card (counted_ids (link_ids (tables_of ?d)) [] l r (\<lambda>e. True)))) stats_labels \<and>
         sorted_wrt (<) (map bucket_start (snapshot_trend s)) \<and>
         (\<forall>pt\<in>set (snapshot_trend s). bucket_counts pt = map (\<lambda>r. of_nat (\<Sum>h | h \<in> {from_epoch ?q..<to_epoch ?q} \<and>
             bucket_of (query_interval ?q) h = bucket_start pt.
             card (counted_ids (link_ids (tables_of ?d)) [] l r (\<lambda>e. event_hour e = h)))) stats_labels) \<and>
         bucket_start ` set (snapshot_trend s) = fst ` groups (tables_of ?d) l ?q)"
    by (rule reported_counts_are_events [OF reports.statistics_source_axioms t none _ _ _ run])
      (simp_all add: ids_name_events_def is_valid_stats_query_def bucket_seconds_def)
  then show ?thesis
    unfolding run fst_conv by (cases res) (auto simp: counted_ids_def stats_labels_def split: option.splits)
qed

end
