(* ===== verification/ServerMain.thy ===== *)
theory ServerMain
  imports ShortLinkApi RateLimiter EventPublisher Configuration MySqlLinks
begin

text \<open>
  \<open>main.cpp\<close> of the server: how it puts the components together, and what the whole server does with the
  messages of its connections when it stores links in memory. With MySQL the link repository is
  \<open>mysql_backed\<close>; the pool that the repositories share is a part of its state only.
\<close>

section \<open>Settings of the components\<close>

definition metrics_storage_of :: "server_config \<Rightarrow> storage" where
  "metrics_storage_of cfg = (if storage_type cfg = ''mysql'' then Storage_mysql else Storage_memory)"

definition cache_settings :: "server_config \<Rightarrow> cache_config" where
  "cache_settings cfg =
     default_cache_config\<lparr>cache_host := redis_host cfg, cache_port := redis_port cfg, cache_database := redis_database cfg,
       cache_ttl := redis_ttl cfg, cache_prefix := redis_key_prefix cfg\<rparr>"

definition limiter_settings :: "server_config \<Rightarrow> limiter_config" where
  "limiter_settings cfg =
     \<lparr>limiter_host = redis_host cfg, limiter_port = redis_port cfg, limiter_database = redis_database cfg,
      limiter_requests = rate_limit_requests cfg, limiter_window = rate_limit_window cfg, limiter_prefix = rate_limit_prefix cfg\<rparr>"

definition event_settings :: "server_config \<Rightarrow> publisher_config" where
  "event_settings cfg =
     default_publisher_config\<lparr>publisher_servers := kafka_servers cfg, publisher_topic := kafka_topic cfg,
       publisher_client := kafka_client cfg, queue_max_messages := kafka_queue_max cfg,
       publish_timeout_ms := kafka_message_timeout cfg, linger_ms := kafka_linger cfg,
       shutdown_timeout_ms := kafka_shutdown_timeout cfg\<rparr>"

definition api_settings_of :: "server_config \<Rightarrow> api_config" where
  "api_settings_of cfg =
     \<lparr>requires_mysql = (storage_type cfg = ''mysql''), metrics_enabled = metrics_on cfg,
      metrics_storage = metrics_storage_of cfg,
      api_auth = default_auth_http_config\<lparr>registration_enabled := registration_on cfg, cookie_secure := secure_cookie cfg\<rparr>\<rparr>"

section \<open>The components\<close>

text \<open>No publisher, or one that could not be started, is the publisher that does nothing.\<close>

definition start_publisher :: "'k kafka_producer \<Rightarrow> server_config \<Rightarrow> sl_metrics \<Rightarrow> 'k event_publisher option" where
  "start_publisher K cfg m =
     (if \<not> kafka_on cfg then None
      else case make_event_publisher K (event_settings cfg) m of Inl e \<Rightarrow> None | Inr p \<Rightarrow> Some p)"

definition server_publisher :: "json_lib \<Rightarrow> 'k kafka_producer \<Rightarrow> server_config \<Rightarrow> 'k event_publisher option publisher" where
  "server_publisher L K cfg e = map_option (publish_event L K (event_settings cfg) e)"

text \<open>The repository with and without the cache, on the states of both.\<close>

definition uncached_repo :: "'s link_repo \<Rightarrow> ('r \<times> 's) link_repo" where
  "uncached_repo src =
     \<lparr>repo_create = (\<lambda>now url ex own cu. on_source (repo_create src now url ex own cu)),
      repo_find = (\<lambda>now c. on_source (repo_find src now c)),
      repo_find_for_owner = (\<lambda>c own. on_source (repo_find_for_owner src c own)),
      repo_default_source = repo_default_source src,
      repo_list = (\<lambda>q. on_source (repo_list src q)),
      repo_update = (\<lambda>now c u. on_source (repo_update src now c u))\<rparr>"

definition mysql_backed ::
  "server_config \<Rightarrow> 'r redis_server \<Rightarrow> ('c, 'd) link_driver \<Rightarrow> ('c, 'd) pool_wait \<Rightarrow> ('r \<times> 'c pool \<times> 'd) link_repo" where
  "mysql_backed cfg R D wait =
     (if redis_on cfg
      then cached_repo \<lparr>cache_config_of = cache_init (cache_settings cfg), cache_server = R, cache_metrics = True\<rparr>
             (mysql_repo D wait)
      else uncached_repo (mysql_repo D wait))"

definition server_limiter :: "'q timed_redis \<Rightarrow> server_config \<Rightarrow> 'q rate_limiter option" where
  "server_limiter R cfg = (if rate_limit_on cfg then Some (rate_check R (limiter_settings cfg)) else None)"

text \<open>What \<open>main\<close> passes to \<open>registerShortLinkHttpApi\<close>; statistics are read from MySQL only.\<close>

definition server_api ::
  "server_config \<Rightarrow> json_lib \<Rightarrow> 's link_repo \<Rightarrow> ('a, 'c) auth_service \<Rightarrow> 'd timed_redis \<Rightarrow> 'p publisher \<Rightarrow> 'q stats_repo \<Rightarrow>
   ('s, 'p, 'a, 'c, 'd, 'q) api" where
  "server_api cfg L rp accts R pub stats =
     \<lparr>api_links = \<lparr>repository = rp, service_metrics = True\<rparr>, api_accounts = accts,
      api_limiter = server_limiter R cfg, api_publisher = pub,
      api_statistics = (if storage_type cfg = ''mysql'' \<and> statistics_on cfg then Some stats else None),
      api_json = L, api_settings = api_settings_of cfg\<rparr>"

section \<open>The running server\<close>

text \<open>The server as the callbacks of one message see it: \<open>s\<close> is what they read from outside.\<close>

definition server_for :: "('s, 'p, 'a, 'c, 'd, 'q) api \<Rightarrow> surroundings \<Rightarrow> ('s, 'p, 'a, 'c, 'd, 'q) api_state http_server" where
  "server_for api s = fst (register_api api s (init_server, []))"

text \<open>A message: the connection it arrives on, the surroundings, the clock readings and the bytes.\<close>

type_synonym message = "nat \<times> surroundings \<times> int \<times> (nat \<times> u64) \<times> string"

fun serve ::
  "crlf_search \<Rightarrow> ('s, 'p, 'a, 'c, 'd, 'q) api \<Rightarrow> message list \<Rightarrow>
   (nat \<Rightarrow> connection) \<times> ('s, 'p, 'a, 'c, 'd, 'q) api_state server_world \<Rightarrow>
   ((nat \<Rightarrow> connection) \<times> ('s, 'p, 'a, 'c, 'd, 'q) api_state server_world) option" where
  "serve fc api [] cw = Some cw"
| "serve fc api ((i, s, now, took, data) # ms) (conns, w) =
     (case on_message fc (server_for api s) now took data (conns i) w of
        None \<Rightarrow> None
      | Some (acts, conn, w1) \<Rightarrow> serve fc api ms (conns(i := conn), w1))"

definition memory_state ::
  "request_ids \<Rightarrow> event_ids \<Rightarrow> 'p \<Rightarrow> ('a, 'c) auth_world \<Rightarrow> 'd \<Rightarrow> 'q \<Rightarrow> http_metrics \<Rightarrow>
   (mem_repo, 'p, 'a, 'c, 'd, 'q) api_state server_world" where
  "memory_state rids eids p accts d q h =
     \<lparr>http_counters = h, request_id_source = rids,
      app = \<lparr>link_world = \<lparr>store = init_mem_repo, metrics = init_metrics\<rparr>, event_id_source = eids, publisher_state = p,
             account_world = accts, limiter_state = d, stats_state = q\<rparr>\<rparr>"

section \<open>What a handler does to the links\<close>

text \<open>
  One handler does at most one operation on the store: a creation by a \<open>POST\<close> and an update by a \<open>PUT\<close>, both
  for the user \<open>owns\<close> says the request belongs to.
\<close>

inductive store_effect :: "http_method \<Rightarrow> (u64 \<Rightarrow> bool) \<Rightarrow> mem_repo \<Rightarrow> mem_repo \<Rightarrow> bool"
  for m :: http_method and owns :: "u64 \<Rightarrow> bool" and s :: mem_repo where
  unchanged: "store_effect m owns s s"
| created: "m = M_post \<Longrightarrow> owns own \<Longrightarrow> store_effect m owns s (snd (mem_create now url ex own cu s))"
| updated: "m = M_put \<Longrightarrow> owns own \<Longrightarrow> upd_owner u = Some own \<Longrightarrow> store_effect m owns s (snd (mem_update now c u s))"

lemma effect_by_nobody [simp]: "store_effect m (\<lambda>_. False) s s' \<longleftrightarrow> s' = s"
  by (auto intro: unchanged elim: store_effect.cases)

named_theorems store_kept \<open>operations that leave the store of the links alone\<close>

lemma note_links_store [store_kept]: "store (note_links f w) = store w"
  by (simp add: note_links_def)

lemma count_create_store [store_kept]: "store (count_create r st w) = store w"
  by (simp add: count_create_def store_kept)

lemma rate_gate_store: "rate_gate lim resp wd = (ok, r, w, d) \<Longrightarrow> store w = store (fst wd)"
  by (auto simp: rate_gate_def store_kept split: option.splits prod.splits rate_status.splits)

lemma find_store: "repo_find memory_repo now c w = (res, w') \<Longrightarrow> store w' = store w"
  and owner_store: "repo_find_for_owner memory_repo c own w = (res', w') \<Longrightarrow> store w' = store w"
  and list_store: "repo_list memory_repo q w = (res'', w') \<Longrightarrow> store w' = store w"
  by (auto simp: memory_repo_def on_store_def)

lemma create_store: "repo_create memory_repo now url ex own cu w = (res, w') \<Longrightarrow> store w' = snd (mem_create now url ex own cu (store w))"
  and update_store: "repo_update memory_repo now c u w = (res', w') \<Longrightarrow> store w' = snd (mem_update now c u (store w))"
  by (auto simp: memory_repo_def on_store_def split: prod.splits)

definition one_creation :: "u64 \<Rightarrow> mem_repo \<Rightarrow> mem_repo \<Rightarrow> bool" where
  "one_creation own s s' \<longleftrightarrow> s' = s \<or> (\<exists>now url ex cu. s' = snd (mem_create now url ex own cu s))"

lemma service_create_store:
  "create_short_link sv clk url ex own cu w = (res, w') \<Longrightarrow> repository sv = memory_repo \<Longrightarrow>
   one_creation own (store w) (store w')"
  by (auto simp: create_short_link_def one_creation_def dest!: create_store split: if_splits prod.splits sum.splits option.splits)

lemma create_link_store:
  "create_link L sv st clk own ps resp w = (e, r, w') \<Longrightarrow> repository sv = memory_repo \<Longrightarrow> one_creation own (store w) (store w')"
  by (auto simp: create_link_def create_failed_def store_kept dest!: service_create_store
      split: if_splits prod.splits sum.splits option.splits)

lemma create_from_body_store:
  "create_from_body L sv st clk own req resp w = (e, r, w') \<Longrightarrow> repository sv = memory_repo \<Longrightarrow>
   one_creation own (store w) (store w')"
  by (auto simp: create_from_body_def store_kept one_creation_def [of _ _ "store w"] dest!: create_link_store
      split: prod.splits sum.splits option.splits)

lemma handle_create_store:
  assumes "handle_create L sv st lim clk own req resp wd = (e, r, w', d')" and "repository sv = memory_repo"
  shows "one_creation own (store (fst wd)) (store w')"
proof -
  obtain ok r1 w1 d1 where g: "rate_gate lim resp wd = (ok, r1, w1, d1)" by (metis prod_cases4)
  obtain e2 r2 w2 where b: "create_from_body L sv st clk own req r1 w1 = (e2, r2, w2)" by (metis prod_cases3)
  show ?thesis
    using assms(1) g b rate_gate_store [OF g] create_from_body_store [OF b assms(2)]
    by (cases ok) (auto simp: handle_create_def one_creation_def)
qed

definition one_update :: "u64 \<Rightarrow> mem_repo \<Rightarrow> mem_repo \<Rightarrow> bool" where
  "one_update own s s' \<longleftrightarrow> s' = s \<or> (\<exists>now c u. upd_owner u = Some own \<and> s' = snd (mem_update now c u s))"

lemma handle_update_store:
  assumes "handle_update L sv clk own req resp w = (e, r, w')" and "repository sv = memory_repo"
  shows "one_update own (store w) (store w')"
proof -
  have "one_update own v (snd (mem_update now c u v))" if "update_items js (new_update own) = Inr u" for js u now c v
    using update_items_owner [OF that] by (auto simp: new_update_def one_update_def)
  moreover have "one_update own v v" for v by (simp add: one_update_def)
  ultimately show ?thesis
    using assms by (auto simp: handle_update_def service_update_def dest!: update_store split: if_splits prod.splits sum.splits option.splits)
qed

lemma publish_store [store_kept]: "link_world (publish_access_event pub ms req c ev st w) = link_world w"
  by (simp add: publish_access_event_def split: prod.split)

lemma resolve_store: "resolve sv clk c w = (res, w') \<Longrightarrow> repository sv = memory_repo \<Longrightarrow> store w' = store w"
  by (auto simp: resolve_def note_redirect_def Let_def dest!: find_store split: if_splits prod.splits sum.splits option.splits)

lemma handle_redirect_store:
  assumes "handle_redirect pub sv clk ms req resp w = (e, r, w')" and "repository sv = memory_repo"
  shows "store (link_world w') = store (link_world w)"
  using assms by (auto simp: handle_redirect_def store_kept Let_def dest!: resolve_store split: if_splits prod.splits sum.splits)

section \<open>What a message does to the links\<close>

text \<open>The user the session cookie of the request belongs to.\<close>

definition session_user_is :: "('s, 'p, 'a, 'c, 'd, 'q) api \<Rightarrow> surroundings \<Rightarrow> http_request \<Rightarrow> ('a, 'c) auth_world \<Rightarrow> u64 \<Rightarrow> bool" where
  "session_user_is api s req accts own \<longleftrightarrow>
     (\<exists>u a. authenticate_request (api_accounts api) (api_auth (api_settings api)) (clock s 0) req accts = (Inr (Some u), a) \<and>
        user_id u = own)"

definition links_effect ::
  "(mem_repo, 'p, 'a, 'c, 'd, 'q) api \<Rightarrow> surroundings \<Rightarrow> http_method \<Rightarrow> (mem_repo, 'p, 'a, 'c, 'd, 'q) api_handler \<Rightarrow> bool" where
  "links_effect api s m h \<longleftrightarrow> (\<forall>req resp w e r w'. h req resp w = (e, r, w') \<longrightarrow>
     store_effect m (session_user_is api s req (account_world w)) (store (link_world w)) (store (link_world w')))"

lemma links_effectD:
  "links_effect api s m h \<Longrightarrow> h req resp w = (e, r, w') \<Longrightarrow>
   store_effect m (session_user_is api s req (account_world w)) (store (link_world w)) (store (link_world w'))"
  by (auto simp: links_effect_def)

lemma kept_effect: "(\<And>req resp w e r w'. h req resp w = (e, r, w') \<Longrightarrow> store (link_world w') = store (link_world w)) \<Longrightarrow> links_effect api s m h"
  by (auto simp: links_effect_def intro: unchanged)

lemma with_user_effect:
  assumes "\<And>own clk req resp w e r w'. h own clk req resp w = (e, r, w') \<Longrightarrow>
     store_effect m ((=) own) (store (link_world w)) (store (link_world w'))"
  shows "links_effect api s m (with_user api (clock s) h)"
proof -
  have mono: "store_effect m ((=) own) v v' \<Longrightarrow> P own \<Longrightarrow> store_effect m P v v'" for own P v v'
    by (auto elim!: store_effect.cases intro: store_effect.intros)
  show ?thesis
    unfolding links_effect_def
  proof (intro allI impI)
    fix req resp w e r w'
    assume run: "with_user api (clock s) h req resp w = (e, r, w')"
    obtain res a where a: "authenticate_request (api_accounts api) (api_auth (api_settings api)) (clock s 0) req (account_world w) = (res, a)"
      by fastforce
    show "store_effect m (session_user_is api s req (account_world w)) (store (link_world w)) (store (link_world w'))"
    proof (cases "\<exists>u. res = Inr (Some u)")
      case True
      then obtain u where u: "res = Inr (Some u)" by blast
      then have "h (user_id u) (\<lambda>i. clock s (Suc i)) req (no_store resp) (w\<lparr>account_world := a\<rparr>) = (e, r, w')"
        using run a by (simp add: with_user_def require_authenticated_user_def)
      from assms [OF this] have "store_effect m ((=) (user_id u)) (store (link_world w)) (store (link_world w'))" by simp
      then show ?thesis by (rule mono) (use a u in \<open>simp add: session_user_is_def\<close>)
    next
      case False
      then have "link_world w' = link_world w"
        using run a by (auto simp: with_user_def require_authenticated_user_def split: sum.splits option.splits)
      then show ?thesis by (simp add: unchanged)
    qed
  qed
qed

lemma same_origin_effect:
  assumes "links_effect api s m h"
  shows "links_effect api s m (same_origin_only h)"
  using assms by (auto simp: links_effect_def same_origin_only_def intro: unchanged split: prod.splits bool.splits)

lemma on_links_effect:
  "on_links h req resp w = (e, r, w') \<Longrightarrow> \<exists>l. h req resp (link_world w) = (e, r, l) \<and> link_world w' = l"
  by (auto simp: on_links_def split: prod.splits)

lemma creation_effect: "one_creation own v v' \<Longrightarrow> store_effect M_post ((=) own) v v'"
  by (auto simp: one_creation_def intro: unchanged created [OF refl refl])

lemma update_effect: "one_update own v v' \<Longrightarrow> store_effect M_put ((=) own) v v'"
  by (auto simp: one_update_def intro: unchanged updated [OF refl refl])

lemma create_route_effect:
  assumes "repository (api_links api) = memory_repo"
  shows "links_effect api s M_post (create_route api s)"
  unfolding create_route_def
  by (intro same_origin_effect with_user_effect)
    (auto simp: on_limited_links_def assms intro!: creation_effect dest!: handle_create_store split: prod.splits)

lemma list_route_effect:
  assumes "repository (api_links api) = memory_repo"
  shows "links_effect api s m (list_route api s)"
  unfolding list_route_def
  by (intro with_user_effect)
    (auto simp: on_links_def handle_list_def service_list_def assms intro!: unchanged dest!: list_store
      split: prod.splits sum.splits)

lemma detail_route_effect:
  assumes "repository (api_links api) = memory_repo"
  shows "links_effect api s m (detail_route api s)"
  unfolding detail_route_def
  by (intro with_user_effect)
    (auto simp: on_links_def handle_detail_def service_get_for_owner_def assms intro!: unchanged dest!: owner_store
      split: prod.splits sum.splits option.splits)

lemma update_route_effect:
  assumes "repository (api_links api) = memory_repo"
  shows "links_effect api s M_put (update_route api s)"
  unfolding update_route_def
  by (intro same_origin_effect with_user_effect)
    (auto simp: on_links_def assms intro!: update_effect dest!: handle_update_store split: prod.splits)

lemma statistics_route_effect:
  assumes "repository (api_links api) = memory_repo"
  shows "links_effect api s m (statistics_route api stats s)"
  unfolding statistics_route_def
  by (intro with_user_effect)
    (auto simp: on_counted_links_def handle_statistics_def service_get_for_owner_def assms Let_def intro!: unchanged dest!: owner_store
      split: prod.splits sum.splits option.splits)

lemma redirect_route_effect:
  assumes "repository (api_links api) = memory_repo"
  shows "links_effect api s m (redirect_route api s)"
  unfolding redirect_route_def by (rule kept_effect) (simp add: handle_redirect_store assms)

text \<open>The same of the handlers as they are registered, and of every route of a router.\<close>

definition app_effect ::
  "(mem_repo, 'p, 'a, 'c, 'd, 'q) api \<Rightarrow> surroundings \<Rightarrow> http_method \<Rightarrow>
   (mem_repo, 'p, 'a, 'c, 'd, 'q) api_state server_world handler \<Rightarrow> bool" where
  "app_effect api s m h \<longleftrightarrow> (\<forall>req resp w e r w'. h req resp w = (e, r, w') \<longrightarrow>
     store_effect m (session_user_is api s req (account_world (app w))) (store (link_world (app w))) (store (link_world (app w'))))"

definition every_route :: "(http_method \<Rightarrow> 'w handler \<Rightarrow> bool) \<Rightarrow> 'w router \<Rightarrow> bool" where
  "every_route Q rt \<longleftrightarrow>
     (\<forall>((m, p), h)\<in>set (exact_handlers rt) \<union> set (exact_callbacks rt). Q m h) \<and>
     (\<forall>(m, p, rx, h)\<in>set (regex_handlers rt) \<union> set (regex_callbacks rt). Q m h)"

lemma set_update_subset: "set (AList.update k v xs) \<subseteq> insert (k, v) (set xs)"
  by (induction xs) auto

lemma every_route_init: "every_route Q init_router"
  by (simp add: every_route_def init_router_def)

lemma every_route_callback: "every_route Q rt \<Longrightarrow> Q m h \<Longrightarrow> every_route Q (register_callback m p h rt)"
  using set_update_subset [of "(m, p)" h "exact_callbacks rt"]
  by (fastforce simp: every_route_def register_callback_def)

lemma every_route_regex: "every_route Q rt \<Longrightarrow> Q m h \<Longrightarrow> every_route Q (add_regex_callback m p h rt)"
  by (auto simp: every_route_def add_regex_callback_def)

lemma every_route_server:
  "every_route Q (router_of (fst srv)) \<Longrightarrow> Q M_get h \<Longrightarrow> every_route Q (router_of (fst (server_get p h srv)))"
  "every_route Q (router_of (fst srv)) \<Longrightarrow> Q M_post h \<Longrightarrow> every_route Q (router_of (fst (server_post p h srv)))"
  "every_route Q (router_of (fst srv)) \<Longrightarrow> Q m h \<Longrightarrow> every_route Q (router_of (fst (server_add_route m p h srv)))"
  by (cases srv; simp add: server_get_def server_post_def server_exact_def server_add_route_def every_route_callback every_route_regex)+

lemma extract_keeps_headers: "req_headers (extract_path_parameters i vs req) = req_headers req"
  by (induction vs arbitrary: i req) (simp_all add: set_path_parameter_def)

lemma find_regex_route:
  "find_regex rs req = Some (pat, h, req1) \<Longrightarrow> (\<exists>rx. (req_method req, pat, rx, h) \<in> set rs) \<and> req_headers req1 = req_headers req"
  by (induction rs req rule: find_regex.induct)
    (auto simp: extract_keeps_headers simp del: extract_path_parameters.simps split: if_splits option.splits)

lemma find_route_every:
  assumes "every_route Q rt" and "find_route rt req = Some (pat, h, req1)"
  shows "Q (req_method req) h \<and> req_headers req1 = req_headers req"
proof -
  let ?key = "(req_method req, req_path req)"
  note found = assms(2) [unfolded find_route_def Let_def] and every = assms(1) [unfolded every_route_def]
  show ?thesis
  proof (cases "map_of (exact_handlers rt) ?key")
    case (Some x)
    then have "x = h" "req1 = req" using found by simp_all
    then show ?thesis using every map_of_SomeD [OF Some] by fastforce
  next
    case no_handler: None
    show ?thesis
    proof (cases "map_of (exact_callbacks rt) ?key")
      case (Some x)
      then have "x = h" "req1 = req" using found no_handler by simp_all
      then show ?thesis using every map_of_SomeD [OF Some] by fastforce
    next
      case None
      then have "find_regex (regex_handlers rt) req = Some (pat, h, req1) \<or> find_regex (regex_callbacks rt) req = Some (pat, h, req1)"
        using found no_handler by (cases "find_regex (regex_handlers rt) req") simp_all
      then show ?thesis using every by (blast dest: find_regex_route)
    qed
  qed
qed

lemma on_app_effect: "links_effect api s m h \<Longrightarrow> app_effect api s m (on_app h)"
  by (auto simp: links_effect_def app_effect_def on_app_def split: prod.splits)

lemma untouched_effect:
  "(\<And>req resp w e r w'. h req resp w = (e, r, w') \<Longrightarrow> link_world w' = link_world w) \<Longrightarrow> links_effect api s m h"
  by (metis kept_effect)

lemma on_accounts_effect: "links_effect api s m (on_accounts h)"
  by (rule untouched_effect) (auto simp: on_accounts_def split: prod.splits)

lemma health_effect: "links_effect api s m (handle_health L)" "links_effect api s m (handle_readiness L need healthy)"
  by (rule untouched_effect, simp add: handle_health_def split: prod.splits)
    (rule untouched_effect, simp add: handle_readiness_def Let_def split: prod.splits)

lemma metrics_effect: "app_effect api s m (metrics_route t)"
  by (auto simp: app_effect_def metrics_route_def intro: unchanged)

lemma auth_routes_effect:
  assumes "every_route (app_effect api s) (router_of (fst srv))"
  shows "every_route (app_effect api s) (router_of (fst (register_auth_routes api t srv)))"
  unfolding register_auth_routes_def Let_def
  by (intro every_route_server on_app_effect on_accounts_effect assms)

lemma api_routes_effect:
  assumes "repository (api_links api) = memory_repo"
  shows "every_route (app_effect api s) (router_of (server_for api s))"
proof -
  note routes = health_effect auth_routes_effect create_route_effect [OF assms] list_route_effect [OF assms]
    detail_route_effect [OF assms] update_route_effect [OF assms] statistics_route_effect [OF assms]
    redirect_route_effect [OF assms] metrics_effect
  have start: "every_route (app_effect api s) (router_of (fst (init_server, [])))"
    by (simp add: init_server_def every_route_init)
  show ?thesis
    unfolding server_for_def register_api_def Let_def
    by (cases "metrics_enabled (api_settings api)"; cases "api_statistics api"; simp only: if_True if_False option.simps)
      (intro every_route_server on_app_effect routes start)+
qed

lemma session_user_headers:
  "req_headers req1 = req_headers req \<Longrightarrow> session_user_is api s req1 accts = session_user_is api s req accts"
  by (simp add: session_user_is_def authenticate_request_def session_token_from_request_def get_header_def fun_eq_iff)

text \<open>The server of \<open>main\<close> has no middleware and no callback of its own.\<close>

definition plain_http :: "'w http_server \<times> http_metrics \<Rightarrow> bool" where
  "plain_http srv \<longleftrightarrow> middlewares_of (fst srv) = [] \<and> custom_callback (fst srv) = None"

lemma plain_http_server:
  "plain_http (server_get p h srv) = plain_http srv" "plain_http (server_post p h srv) = plain_http srv"
  "plain_http (server_add_route m p h srv) = plain_http srv"
  by (cases srv; simp add: plain_http_def server_get_def server_post_def server_exact_def server_add_route_def)+

lemma plain_http_init: "plain_http (init_server, [])"
  by (simp add: plain_http_def init_server_def)

lemma server_for_plain: "middlewares_of (server_for api s) = []" "custom_callback (server_for api s) = None"
proof -
  have "plain_http (register_api api s (init_server, []))"
    by (simp add: register_api_def register_auth_routes_def plain_http_server plain_http_init Let_def split: option.split)
  then show "middlewares_of (server_for api s) = []" "custom_callback (server_for api s) = None"
    by (simp_all add: plain_http_def server_for_def)
qed

lemma request_id_for_app: "request_id_for req w = (rid, w1) \<Longrightarrow> app w1 = app w"
  using request_id_for_valid by blast

lemma handle_request_effect:
  assumes "repository (api_links api) = memory_repo" and run: "handle_request (server_for api s) req resp w = (r, w')"
  shows "store_effect (req_method req) (session_user_is api s req (account_world (app w)))
     (store (link_world (app w))) (store (link_world (app w')))"
proof (cases "find_route (router_of (server_for api s)) req")
  case None
  then show ?thesis using run by (auto simp: handle_request_def route_def server_for_plain intro: unchanged)
next
  case (Some x)
  obtain pat h req1 where x: "x = (pat, h, req1)" by (cases x) auto
  note h = find_route_every [OF api_routes_effect [OF assms(1), of s] Some [unfolded x]]
  obtain e r1 w2 where step: "h req1 resp w = (e, r1, w2)" by (cases "h req1 resp w") auto
  have "app w' = app w2"
    using run Some x step by (cases e) (auto simp: handle_request_def route_def server_for_plain)
  have "store_effect (req_method req) (session_user_is api s req1 (account_world (app w)))
     (store (link_world (app w))) (store (link_world (app w2)))"
    using h step by (auto simp: app_effect_def)
  then show ?thesis
    using \<open>app w' = app w2\<close> h session_user_headers [of req1 req api s] by simp
qed

lemma on_request_effect:
  assumes "repository (api_links api) = memory_repo" and run: "on_request (server_for api s) took req w = (e, acts, w')"
  shows "store_effect (req_method req) (session_user_is api s req (account_world (app w)))
     (store (link_world (app w))) (store (link_world (app w')))"
proof -
  obtain rid w1 where rid: "request_id_for req w = (rid, w1)" by fastforce
  obtain r w2 where r: "handle_request (server_for api s) (req\<lparr>request_id := rid\<rparr>) (init_response (closes req)) w1 = (r, w2)"
    by fastforce
  have "app w' = app w2" using run rid r by (auto simp: on_request_def run_callback_def server_for_plain Let_def)
  then show ?thesis
    using handle_request_effect [OF assms(1) r] request_id_for_app [OF rid]
      session_user_headers [of "req\<lparr>request_id := rid\<rparr>" req api s] by simp
qed

lemma bad_request_app: "bad_request w = (acts, w') \<Longrightarrow> app w' = app w"
  by (auto simp: bad_request_def send_error_response_def split: prod.splits)

lemma on_message_effect:
  assumes "repository (api_links api) = memory_repo"
    and run: "on_message fc (server_for api s) now took data conn w = Some (acts, conn', w')"
  shows "store (link_world (app w')) = store (link_world (app w)) \<or>
     (\<exists>ok c rest. parse_request fc now (conn_context conn) (conn_unread conn @ data) = Some (Inr ok, c, rest) \<and> got_all c \<and>
        store_effect (req_method (ctx_request c)) (session_user_is api s (ctx_request c) (account_world (app w)))
          (store (link_world (app w))) (store (link_world (app w'))))"
proof -
  obtain p c rest where p: "parse_request fc now (conn_context conn) (conn_unread conn @ data) = Some (p, c, rest)"
    using run by (cases "parse_request fc now (conn_context conn) (conn_unread conn @ data)") (auto simp: on_message_def)
  obtain acts0 w0 where b: "bad_request w = (acts0, w0)" by fastforce
  show ?thesis
  proof (cases p)
    case (Inl e)
    then show ?thesis using run p b bad_request_app [OF b] by (auto simp: on_message_def)
  next
    case (Inr ok)
    define w1 where "w1 = (if ok then w else w0)"
    have w1: "app w1 = app w" using bad_request_app [OF b] by (simp add: w1_def)
    show ?thesis
    proof (cases "got_all c")
      case False
      then have "w' = w1" using run p Inr b by (auto simp: on_message_def w1_def)
      then show ?thesis using w1 by simp
    next
      case True
      obtain e acts2 w2 where r: "on_request (server_for api s) took (ctx_request c) w1 = (e, acts2, w2)" by (metis prod_cases3)
      have "app w' = app w2"
        using run p Inr b True r bad_request_app
        by (cases e) (auto simp: on_message_def w1_def split: prod.splits if_splits)
      then show ?thesis using on_request_effect [OF assms(1) r] w1 p Inr True by auto
    qed
  qed
qed

section \<open>Runs of the server\<close>

definition links_within :: "nat \<Rightarrow> mem_repo \<Rightarrow> bool" where
  "links_within n s \<longleftrightarrow> mem_ok s \<and> 0 < unat (next_id s) \<and> unat (next_id s) \<le> n"

lemma effect_within:
  assumes "store_effect m owns s s'" and "links_within n s" and "n < 2 ^ 64 - 1"
  shows "links_within (Suc n) s'"
proof -
  have room: "next_id s \<noteq> - 1" using assms(2,3) by (auto simp: links_within_def)
  have nz: "next_id s \<noteq> 0" using assms(2) by (auto simp: links_within_def)
  show ?thesis
    using assms(1)
  proof cases
    case unchanged
    then show ?thesis using assms(2) by (simp add: links_within_def)
  next
    case (created own now url ex cu)
    then show ?thesis
      using assms(2) mem_ok_create [OF _ room nz] by (simp add: links_within_def unat_add_one_u64 [OF room])
  next
    case (updated own u now c)
    then show ?thesis using assms(2) mem_ok_update by (simp add: links_within_def)
  qed
qed

lemma message_within:
  assumes "repository (api_links api) = memory_repo"
    and "on_message fc (server_for api s) now took data conn w = Some (acts, conn', w')"
    and "links_within n (store (link_world (app w)))" and "n < 2 ^ 64 - 1"
  shows "links_within (Suc n) (store (link_world (app w')))"
  using on_message_effect [OF assms(1,2)] effect_within [OF _ assms(3,4)] effect_within [OF unchanged assms(3,4)] by metis

lemma serve_within:
  assumes "repository (api_links api) = memory_repo" and "serve fc api ms (conns, w) = Some (conns', w')"
    and "links_within n (store (link_world (app w)))" and "n + length ms < 2 ^ 64"
  shows "links_within (n + length ms) (store (link_world (app w')))"
  using assms(2-4)
proof (induction ms arbitrary: conns w n)
  case (Cons msg ms)
  obtain i s now took data where msg: "msg = (i, s, now, took, data)" by (metis prod_cases5)
  obtain acts conn w1 where m: "on_message fc (server_for api s) now took data (conns i) w = Some (acts, conn, w1)"
    using Cons.prems(1) msg by (auto split: option.splits)
  have "links_within (Suc n) (store (link_world (app w1)))"
    using message_within [OF assms(1) m Cons.prems(2)] Cons.prems(3) by simp
  then show ?case
    using Cons.IH [of "conns(i := conn)" w1 "Suc n"] Cons.prems(1,3) msg m by (simp del: fun_upd_apply)
qed simp

lemma memory_state_within: "links_within 1 (store (link_world (app (memory_state rids eids p accts d q h))))"
  by (simp add: links_within_def memory_state_def init_mem_repo_def mem_ok_def)

lemma within_inv: "links_within n (store l) \<Longrightarrow> mem_inv l"
  by (auto simp: links_within_def mem_inv_def)

section \<open>Links under the effects\<close>

lemma effect_view:
  assumes "store_effect m owns s s'" and ok: "mem_ok s" "next_id s \<noteq> 0" "next_id s \<noteq> - 1" and r: "view (mem_all s) c = Some r"
  shows "\<exists>r'. view (mem_all s') c = Some r' \<and> link_id r' = link_id r \<and> owner_id r' = owner_id r \<and>
     original_url r' = original_url r \<and> created_at r' = created_at r \<and> (r' = r \<or> m = M_put \<and> owns (owner_id r))"
proof -
  have found: "map_of (links s) c = Some r" using r by (simp add: view_mem_all [OF ok(1)])
  show ?thesis
    using assms(1)
  proof cases
    case unchanged
    then show ?thesis using r by simp
  next
    case (created own now url ex cu)
    have "mem_ok s'" using mem_ok_create [OF ok(1,3,2)] created(1) by simp
    moreover have "map_of (links s') c = Some r"
      using found created(1)
      by (cases "map_of (links s) (create_code s cu)") (auto simp: mem_create_fresh mem_create_conflict update_conv')
    ultimately show ?thesis by (simp add: view_mem_all)
  next
    case (updated own u now c')
    have ok': "mem_ok s'" using mem_ok_update [OF ok(1)] updated(1) by simp
    show ?thesis
    proof (cases "update_target u (view (mem_all s) c')")
      case None
      then show ?thesis using r updated(1) by (simp add: mem_update_target [OF ok(1)])
    next
      case (Some t)
      have t: "view (mem_all s) c' = Some t" "owner_id t = own"
        using Some updated(4) by (auto simp: update_target_def owned_by_def split: option.splits if_splits)
      have s': "links s' = AList.update c' (apply_update now u t) (links s)"
        using updated(1) Some by (simp add: mem_update_target [OF ok(1)])
      have kept: "link_id (apply_update now u t) = link_id t" "owner_id (apply_update now u t) = owner_id t"
        "original_url (apply_update now u t) = original_url t" "created_at (apply_update now u t) = created_at t"
        by (simp_all add: apply_update_def Let_def split: option.split)
      show ?thesis
      proof (cases "c' = c")
        case True
        then have "t = r" using t(1) r by simp
        then show ?thesis using s' True kept t(2) updated(2,3) by (simp add: view_mem_all [OF ok'] update_conv')
      next
        case False
        then show ?thesis using s' found by (simp add: view_mem_all [OF ok'] update_conv')
      qed
    qed
  qed
qed

section \<open>The route of short links\<close>

lemma api_patterns:
  "convert_to_regex ''/s/:code'' = map Literal ''/s'' @ [Literal CHR ''/'', Segment]"
  "convert_to_regex ''/api/short-links/:code'' = map Literal ''/api/short-links'' @ [Literal CHR ''/'', Segment]"
  "convert_to_regex ''/api/short-links/:code/statistics'' =
     map Literal ''/api/short-links'' @ Literal CHR ''/'' # Segment # map Literal ''/statistics''"
proof -
  have name: "''code'' \<noteq> []" "\<forall>c\<in>set ''code''. not_slash c" by (simp_all add: not_slash_def)
  show "convert_to_regex ''/s/:code'' = map Literal ''/s'' @ [Literal CHR ''/'', Segment]"
    using convert_parameter [OF _ name, of "''/s''" "[]"] convert_plain [of "[]"] by simp
  show "convert_to_regex ''/api/short-links/:code'' = map Literal ''/api/short-links'' @ [Literal CHR ''/'', Segment]"
    using convert_parameter [OF _ name, of "''/api/short-links''" "[]"] convert_plain [of "[]"] by simp
  show "convert_to_regex ''/api/short-links/:code/statistics'' =
     map Literal ''/api/short-links'' @ Literal CHR ''/'' # Segment # map Literal ''/statistics''"
    using convert_parameter [OF _ name, of "''/api/short-links''" "''/statistics''"] convert_plain [of "''/statistics''"] by simp
qed

text \<open>What a registration adds to the tables of the router.\<close>

lemma router_tables:
  "exact_handlers (router_of (fst (server_get p h srv))) = exact_handlers (router_of (fst srv))"
  "exact_handlers (router_of (fst (server_post p h srv))) = exact_handlers (router_of (fst srv))"
  "exact_handlers (router_of (fst (server_add_route m p h srv))) = exact_handlers (router_of (fst srv))"
  "regex_handlers (router_of (fst (server_get p h srv))) = regex_handlers (router_of (fst srv))"
  "regex_handlers (router_of (fst (server_post p h srv))) = regex_handlers (router_of (fst srv))"
  "regex_handlers (router_of (fst (server_add_route m p h srv))) = regex_handlers (router_of (fst srv))"
  "regex_callbacks (router_of (fst (server_get p h srv))) = regex_callbacks (router_of (fst srv))"
  "regex_callbacks (router_of (fst (server_post p h srv))) = regex_callbacks (router_of (fst srv))"
  "regex_callbacks (router_of (fst (server_add_route m p h srv))) =
     regex_callbacks (router_of (fst srv)) @ [(m, p, convert_to_regex p, h)]"
  "exact_callbacks (router_of (fst (server_add_route m p h srv))) = exact_callbacks (router_of (fst srv))"
  by (cases srv; simp add: server_get_def server_post_def server_exact_def server_add_route_def register_callback_def
      add_regex_callback_def)+

lemma exact_lookup:
  "map_of (exact_callbacks (router_of (fst (server_get p h srv)))) (m, q) =
     (if m = M_get \<and> q = p then Some h else map_of (exact_callbacks (router_of (fst srv))) (m, q))"
  "map_of (exact_callbacks (router_of (fst (server_post p h srv)))) (m, q) =
     (if m = M_post \<and> q = p then Some h else map_of (exact_callbacks (router_of (fst srv))) (m, q))"
  by (cases srv; simp add: server_get_def server_post_def server_exact_def register_callback_def update_conv')+

lemma empty_tables:
  "exact_handlers (router_of (fst (init_server, ms))) = []" "exact_callbacks (router_of (fst (init_server, ms))) = []"
  "regex_handlers (router_of (fst (init_server, ms))) = []" "regex_callbacks (router_of (fst (init_server, ms))) = []"
  by (simp_all add: init_server_def init_router_def)

lemmas api_tables = server_for_def register_api_def register_auth_routes_def Let_def router_tables exact_lookup empty_tables

lemma no_exact_short_link:
  "exact_handlers (router_of (server_for api s)) = []" "regex_handlers (router_of (server_for api s)) = []"
  "map_of (exact_callbacks (router_of (server_for api s))) (m, ''/s/'' @ c) = None"
  by (cases "api_statistics api"; simp add: api_tables del: fst_conv)+

lemma short_link_regex:
  assumes "req_method req = M_get" and "req_path req = ''/s/'' @ c" and "c \<noteq> []" and "\<forall>x\<in>set c. not_slash x"
  shows "find_regex (regex_callbacks (router_of (server_for api s))) req =
     Some (''/s/:code'', on_app (redirect_route api s), set_path_parameter ''param1'' c req)"
proof -
  have own: "takeWhile not_slash c = c" "dropWhile not_slash c = []" using assms(4) by auto
  define path where "path = ''/s/'' @ c"
  have "match_pieces (map Literal ''/s'' @ [Literal CHR ''/'', Segment]) path = Some [c]"
    by (simp add: path_def own assms(3))
  moreover have "match_pieces (map Literal ''/api/short-links'' @ ps) path = None" for ps by (simp add: path_def)
  moreover have "dec_string (Suc 0) = ''1''" by code_simp
  moreover have "req_path req = path" using assms(2) by (simp add: path_def)
  ultimately show ?thesis
    using assms(1)
    by (cases "api_statistics api") (simp_all add: api_tables api_patterns del: fst_conv match_pieces.simps list.map)
qed

lemma short_link_route:
  assumes "req_method req = M_get" and "req_path req = ''/s/'' @ c" and "c \<noteq> []" and "\<forall>x\<in>set c. not_slash x"
  shows "find_route (router_of (server_for api s)) req =
     Some (''/s/:code'', on_app (redirect_route api s), set_path_parameter ''param1'' c req)"
  unfolding find_route_def Let_def short_link_regex [OF assms] no_exact_short_link assms(1,2) by simp

text \<open>The answer the server gives to the redirect handler's result.\<close>

lemma redirect_request_answered:
  assumes memory: "repository (api_links api) = memory_repo" and inv: "mem_inv (link_world (app w))"
    and "req_method req = M_get" and "req_path req = ''/s/'' @ c" and "c \<noteq> []" and "\<forall>x\<in>set c. not_slash x"

  shows "\<exists>resp w'. on_request (server_for api s) took req w =
       (None, Send (append_response resp) # (if close_connection resp then [Shutdown] else []), w') \<and>
     mem_records (link_world (app w')) = mem_records (link_world (app w)) \<and> mem_inv (link_world (app w')) \<and>
     (case view (mem_records (link_world (app w))) c of
        Some l \<Rightarrow>
          if link_status l = Active \<and> (\<forall>t. expires_at l = Some t \<longrightarrow> clock s 1 < t)
          then status_code resp = 302 \<and> map_of (resp_headers resp) ''Location'' = Some (original_url l) \<and> resp_body resp = []
          else status_code resp = 404
      | None \<Rightarrow> status_code resp = 404)"
proof -
  obtain rid w1 where rid: "request_id_for req w = (rid, w1)" by fastforce
  have w1: "app w1 = app w" using request_id_for_app [OF rid] .
  define req1 where "req1 = set_path_parameter ''param1'' c (req\<lparr>request_id := rid\<rparr>)"
  define res where "res = resolution (clock s 1) (view (mem_records (link_world (app w))) c)"
  let ?blank = "init_response (closes req)"
  have param: "get_path_parameter ''param1'' req1 = c"
    by (simp add: req1_def get_path_parameter_def param_value_def set_path_parameter_def update_conv')
  obtain l where l: "resolve (api_links api) (clock s) c (link_world (app w)) = (Inr res, l)" "mem_inv l"
    "mem_records l = mem_records (link_world (app w))"
    using mem.resolve_view [OF memory inv, of "clock s" c] unfolding res_def by blast
  obtain a where a: "handle_redirect (api_publisher api) (api_links api) (clock s) (clock_ms s) req1 ?blank (app w1) =
     (None, (case outcome_url res of Some u \<Rightarrow> set_redirect u ?blank | None \<Rightarrow> link_not_found ?blank), a)" "link_world a = l"
    using handle_redirect_found [of "api_links api" "clock s" req1 "app w1" res l "api_publisher api" "clock_ms s" ?blank] l(1) param w1
    by auto
  let ?r = "case outcome_url res of Some u \<Rightarrow> set_redirect u ?blank | None \<Rightarrow> link_not_found ?blank"
  let ?resp = "add_header ''X-Request-ID'' rid (with_pattern ''/s/:code'' ?r)"
  have route: "find_route (router_of (server_for api s)) (req\<lparr>request_id := rid\<rparr>) = Some (''/s/:code'', on_app (redirect_route api s), req1)"
    unfolding req1_def by (rule short_link_route) (simp_all add: assms)
  have "handle_request (server_for api s) (req\<lparr>request_id := rid\<rparr>) ?blank w1 = (with_pattern ''/s/:code'' ?r, w1\<lparr>app := a\<rparr>)"
    using a(1) by (simp add: handle_request_def route_def route server_for_plain process_after_def on_app_def redirect_route_def)
  then have "\<exists>w'. on_request (server_for api s) took req w =
       (None, Send (append_response ?resp) # (if close_connection ?resp then [Shutdown] else []), w') \<and> app w' = a"
    using rid by (auto simp: on_request_def run_callback_def server_for_plain Let_def)
  moreover have active: "st \<noteq> Disabled \<longleftrightarrow> st = Active" for st by (cases st) simp_all
  have "case view (mem_records (link_world (app w))) c of
        Some l \<Rightarrow>
          if link_status l = Active \<and> (\<forall>t. expires_at l = Some t \<longrightarrow> clock s 1 < t)
          then status_code ?resp = 302 \<and> map_of (resp_headers ?resp) ''Location'' = Some (original_url l) \<and> resp_body ?resp = []
          else status_code ?resp = 404
      | None \<Rightarrow> status_code ?resp = 404"
    using active by (auto simp: res_def resolution_def is_expired_def not_le add_header_def split: option.split)
  ultimately show ?thesis using a(2) l by blast
qed

lemma redirect_message_answered:
  assumes memory: "repository (api_links api) = memory_repo" and inv: "mem_inv (link_world (app w))"
    and fc: "finds_crlf fc" and c: "c \<noteq> []" "\<forall>x\<in>set c. not_slash x" "clean_target (''/s/'' @ c) None"
    and head: "version \<in> {''HTTP/1.0'', ''HTTP/1.1''}" "list_all clean_header hs"
  shows "\<exists>resp w'. on_message fc (server_for api s) now took
       (request_text ''GET'' (''/s/'' @ c) None version hs [] @ rest) new_connection w =
       Some (Send (append_response resp) # (if close_connection resp then [Shutdown] else []),
             \<lparr>conn_context = init_context, conn_unread = rest\<rparr>, w') \<and>
     mem_records (link_world (app w')) = mem_records (link_world (app w)) \<and> mem_inv (link_world (app w')) \<and>
     (case view (mem_records (link_world (app w))) c of
        Some l \<Rightarrow>
          if link_status l = Active \<and> (\<forall>t. expires_at l = Some t \<longrightarrow> clock s 1 < t)
          then status_code resp = 302 \<and> map_of (resp_headers resp) ''Location'' = Some (original_url l) \<and> resp_body resp = []
          else status_code resp = 404
      | None \<Rightarrow> status_code resp = 404)"
proof -
  have get: "parse_method ''GET'' = M_get" by (simp add: parse_method_def)
  obtain req where req: "parse_loop fc now init_context (request_text ''GET'' (''/s/'' @ c) None version hs [] @ rest) =
       Some (Inr True, \<lparr>ctx_state = Got_all, ctx_request = req\<rparr>, rest)" "req_method req = M_get" "req_path req = ''/s/'' @ c"
    using request_parsed [OF fc _ c(3) head, of "''GET''" "[]" now rest] by (auto simp: get announces_def has_body_def)
  obtain resp w' where r: "on_request (server_for api s) took req w =
       (None, Send (append_response resp) # (if close_connection resp then [Shutdown] else []), w')"
    "mem_records (link_world (app w')) = mem_records (link_world (app w))" "mem_inv (link_world (app w'))"
    "case view (mem_records (link_world (app w))) c of
        Some l \<Rightarrow>
          if link_status l = Active \<and> (\<forall>t. expires_at l = Some t \<longrightarrow> clock s 1 < t)
          then status_code resp = 302 \<and> map_of (resp_headers resp) ''Location'' = Some (original_url l) \<and> resp_body resp = []
          else status_code resp = 404
      | None \<Rightarrow> status_code resp = 404"
    using redirect_request_answered [OF memory inv req(2,3) c(1,2)] by blast
  have "on_message fc (server_for api s) now took
       (request_text ''GET'' (''/s/'' @ c) None version hs [] @ rest) new_connection w =
       Some (Send (append_response resp) # (if close_connection resp then [Shutdown] else []),
             \<lparr>conn_context = init_context, conn_unread = rest\<rparr>, w')"
    using req(1) r(1) by (simp add: on_message_def new_connection_def parse_request_def got_all_def reset_context_def init_context_def)
  then show ?thesis using r(2-4) by blast
qed

section \<open>Who changes a link\<close>

text \<open>A message that completes a \<open>PUT\<close> request with a session of the user, and a run with such a message.\<close>

definition owner_request ::
  "crlf_search \<Rightarrow> ('s, 'p, 'a, 'c, 'd, 'q) api \<Rightarrow> surroundings \<Rightarrow> int \<Rightarrow> string \<Rightarrow> connection \<Rightarrow>
   ('s, 'p, 'a, 'c, 'd, 'q) api_state server_world \<Rightarrow> u64 \<Rightarrow> bool" where
  "owner_request fc api s now data conn w own \<longleftrightarrow>
     (case parse_request fc now (conn_context conn) (conn_unread conn @ data) of
        Some (Inr ok, c, rest) \<Rightarrow>
          got_all c \<and> req_method (ctx_request c) = M_put \<and> session_user_is api s (ctx_request c) (account_world (app w)) own
      | _ \<Rightarrow> False)"

fun owner_acts ::
  "crlf_search \<Rightarrow> ('s, 'p, 'a, 'c, 'd, 'q) api \<Rightarrow> u64 \<Rightarrow> message list \<Rightarrow>
   (nat \<Rightarrow> connection) \<times> ('s, 'p, 'a, 'c, 'd, 'q) api_state server_world \<Rightarrow> bool" where
  "owner_acts fc api own [] cw = False"
| "owner_acts fc api own ((i, s, now, took, data) # ms) (conns, w) =
     (owner_request fc api s now data (conns i) w own \<or>
      (case on_message fc (server_for api s) now took data (conns i) w of
         None \<Rightarrow> False
       | Some (acts, conn, w1) \<Rightarrow> owner_acts fc api own ms (conns(i := conn), w1)))"

text \<open>What no request changes of a link.\<close>

definition same_link :: "link_record \<Rightarrow> link_record \<Rightarrow> bool" where
  "same_link r r' \<longleftrightarrow> link_id r' = link_id r \<and> owner_id r' = owner_id r \<and> original_url r' = original_url r \<and> created_at r' = created_at r"

lemma message_view:
  assumes "repository (api_links api) = memory_repo"
    and run: "on_message fc (server_for api s) now took data conn w = Some (acts, conn', w')"
    and within: "links_within n (store (link_world (app w)))" and "n < 2 ^ 64 - 1"
    and r: "view (mem_records (link_world (app w))) c = Some r"
  shows "\<exists>r'. view (mem_records (link_world (app w'))) c = Some r' \<and> same_link r r' \<and>
     (owner_request fc api s now data conn w (owner_id r) \<or> r' = r)"
proof -
  have ok: "mem_ok (store (link_world (app w)))" "next_id (store (link_world (app w))) \<noteq> 0"
    "next_id (store (link_world (app w))) \<noteq> - 1"
    using within assms(4) by (auto simp: links_within_def)
  from on_message_effect [OF assms(1) run] show ?thesis
  proof (elim disjE exE conjE)
    assume "store (link_world (app w')) = store (link_world (app w))"
    then show ?thesis using r by (simp add: mem_records_def same_link_def)
  next
    fix ok' ctx rest
    assume p: "parse_request fc now (conn_context conn) (conn_unread conn @ data) = Some (Inr ok', ctx, rest)" "got_all ctx"
      and e: "store_effect (req_method (ctx_request ctx)) (session_user_is api s (ctx_request ctx) (account_world (app w)))
        (store (link_world (app w))) (store (link_world (app w')))"
    show ?thesis
      using effect_view [OF e ok r [unfolded mem_records_def]] p by (auto simp: mem_records_def same_link_def owner_request_def)
  qed
qed

lemma serve_view:
  assumes "repository (api_links api) = memory_repo" and "serve fc api ms (conns, w) = Some (conns', w')"
    and "links_within n (store (link_world (app w)))" and "n + length ms < 2 ^ 64"
    and "view (mem_records (link_world (app w))) c = Some r"
  shows "\<exists>r'. view (mem_records (link_world (app w'))) c = Some r' \<and> same_link r r' \<and>
     (owner_acts fc api (owner_id r) ms (conns, w) \<or> r' = r)"
  using assms(2-5)
proof (induction ms arbitrary: conns w n r)
  case Nil
  then show ?case by (simp add: same_link_def)
next
  case (Cons msg ms)
  obtain i s now took data where msg: "msg = (i, s, now, took, data)" by (metis prod_cases5)
  obtain acts conn w1 where m: "on_message fc (server_for api s) now took data (conns i) w = Some (acts, conn, w1)"
    using Cons.prems(1) msg by (auto split: option.splits)
  have n: "n < 2 ^ 64 - 1" using Cons.prems(3) by simp
  obtain r1 where r1: "view (mem_records (link_world (app w1))) c = Some r1" "same_link r r1"
    "owner_request fc api s now data (conns i) w (owner_id r) \<or> r1 = r"
    using message_view [OF assms(1) m Cons.prems(2) n Cons.prems(4)] by blast
  have rest: "serve fc api ms (conns(i := conn), w1) = Some (conns', w')" using Cons.prems(1) msg m by simp
  obtain r' where r': "view (mem_records (link_world (app w'))) c = Some r'" "same_link r1 r'"
    "owner_acts fc api (owner_id r1) ms (conns(i := conn), w1) \<or> r' = r1"
    using Cons.IH [OF rest message_within [OF assms(1) m Cons.prems(2) n] _ r1(1)] Cons.prems(3) by (auto simp del: fun_upd_apply)
  have "same_link r r'" "owner_id r1 = owner_id r" using r1(2) r'(2) by (simp_all add: same_link_def)
  then show ?case using r1(3) r'(1,3) msg m by (auto simp del: fun_upd_apply)
qed

section \<open>The server takes every message\<close>

lemma parse_error_unfinished:
  "parse_loop fc now c b = Some (Inl e, c1, rest) \<Longrightarrow> ctx_state c1 \<noteq> Got_all"
proof (induction fc now c b rule: parse_loop.induct)
  case (1 fc now c b)
  note step = "1.prems" [unfolded parse_loop.simps [of fc now c b]]
  show ?case
  proof (cases "ctx_state c")
    case Expect_request_line
    then show ?thesis using step 1(1) by (auto split: option.splits prod.splits bool.splits)
  next
    case Expect_headers
    then show ?thesis using step 1(2) by (auto split: option.splits prod.splits sum.splits if_splits)
  next
    case Expect_body
    then show ?thesis using step by (auto simp: body_step_def Let_def split: if_splits)
  next
    case Got_all
    then show ?thesis using step by simp
  qed
qed

lemma on_message_returns:
  assumes "ctx_state (conn_context conn) \<noteq> Got_all"
  shows "\<exists>acts conn' w'. on_message fc (server_for api s) now took data conn w = Some (acts, conn', w') \<and>
     ctx_state (conn_context conn') \<noteq> Got_all"
proof -
  obtain p c rest where p: "parse_request fc now (conn_context conn) (conn_unread conn @ data) = Some (p, c, rest)"
    using parse_loop_returns [OF assms, of fc now "conn_unread conn @ data"] by (auto simp: parse_request_def)
  obtain acts0 w0 where b: "bad_request w = (acts0, w0)" by fastforce
  show ?thesis
  proof (cases p)
    case (Inl e)
    then show ?thesis using p b parse_error_unfinished by (auto simp: on_message_def parse_request_def)
  next
    case (Inr ok)
    obtain acts2 w2 where "on_request (server_for api s) took (ctx_request c) (if ok then w else w0) = (None, acts2, w2)"
      using on_request_answers [OF server_for_plain] by blast
    then show ?thesis using p b Inr by (cases ok) (auto simp: on_message_def got_all_def reset_context_def)
  qed
qed

lemma serve_returns:
  "(\<And>i. ctx_state (conn_context (conns i)) \<noteq> Got_all) \<Longrightarrow> serve fc api ms (conns, w) \<noteq> None"
proof (induction ms arbitrary: conns w)
  case (Cons msg ms)
  obtain i s now took data where msg: "msg = (i, s, now, took, data)" by (metis prod_cases5)
  obtain acts conn w1 where m: "on_message fc (server_for api s) now took data (conns i) w = Some (acts, conn, w1)"
    "ctx_state (conn_context conn) \<noteq> Got_all"
    using on_message_returns [OF Cons.prems [of i]] by blast
  have "serve fc api ms (conns(i := conn), w1) \<noteq> None" using Cons.prems m(2) by (intro Cons.IH) simp
  then show ?case using msg m(1) by (simp del: fun_upd_apply)
qed simp

end
