(* ===== verification/TlsConnection.thy ===== *)
theory TlsConnection
  imports HttpServer
begin

text \<open>
  \<open>SslConfig.h/.cpp\<close>, \<open>SslContext.h/.cpp\<close>, \<open>SslConnection.h/.cpp\<close> and the TLS branches of
  \<open>HttpServer.cpp\<close>. OpenSSL is the parameter: \<open>tls_library\<close> for the connection object with its two memory
  buffers, \<open>context_library\<close> for the context. Sockets are the \<open>conn_action\<close>s of \<open>HttpServer\<close>.
\<close>

section \<open>Configuration and context\<close>

datatype tls_version = TLS_1_0 | TLS_1_1 | TLS_1_2 | TLS_1_3

record tls_config =
  cert_file :: string
  key_file :: string
  chain_file :: string
  tls_protocol :: tls_version
  cipher_list :: string
  verify_client :: bool
  verify_depth :: int
  tls_session_timeout :: int
  session_cache_size :: int

definition default_tls_config :: tls_config where
  "default_tls_config =
     \<lparr>cert_file = [], key_file = [], chain_file = [], tls_protocol = TLS_1_2, cipher_list = ''HIGH:!aNULL:!MDS'',
      verify_client = False, verify_depth = 4, tls_session_timeout = 300, session_cache_size = 20480\<rparr>"

text \<open>
  The options the sources set on the context. \<open>No_version v\<close> stands for \<open>SSL_OP_NO_TLSv1\<close> and the
  like; \<open>SSL_CTX_set_options\<close> adds options and removes none.
\<close>

datatype tls_option = No_SSLv2 | No_SSLv3 | No_compression | Server_preference | No_version tls_version

record tls_context =
  tls_options :: "tls_option set"
  loaded_files :: "string list"
  ciphers_set :: "string option"
  server_cache :: bool
  cache_entries :: int
  cache_timeout :: int

definition new_context :: tls_context where
  "new_context = \<lparr>tls_options = {}, loaded_files = [], ciphers_set = None, server_cache = False, cache_entries = 0, cache_timeout = 0\<rparr>"

record context_library =
  context_made :: bool
  use_certificate :: "string \<Rightarrow> bool"
  use_private_key :: "string \<Rightarrow> bool"
  check_private_key :: bool
  use_chain :: "string \<Rightarrow> bool"
  set_ciphers :: "string \<Rightarrow> bool"

definition set_options :: "tls_option set \<Rightarrow> tls_context \<Rightarrow> tls_context" where
  "set_options opts c = c\<lparr>tls_options := tls_options c \<union> opts\<rparr>"

definition note_file :: "string \<Rightarrow> tls_context \<Rightarrow> tls_context" where
  "note_file f c = c\<lparr>loaded_files := loaded_files c @ [f]\<rparr>"

definition load_certificates :: "context_library \<Rightarrow> tls_config \<Rightarrow> tls_context \<Rightarrow> bool \<times> tls_context" where
  "load_certificates X cfg c =
     (if \<not> use_certificate X (cert_file cfg) then (False, c)
      else (let c1 = note_file (cert_file cfg) c
            in if \<not> use_private_key X (key_file cfg) then (False, c1)
               else (let c2 = note_file (key_file cfg) c1
                     in if \<not> check_private_key X then (False, c2)
                        else if chain_file cfg = [] then (True, c2)
                        else if \<not> use_chain X (chain_file cfg) then (False, c2)
                        else (True, note_file (chain_file cfg) c2))))"

definition setup_protocol :: "context_library \<Rightarrow> tls_config \<Rightarrow> tls_context \<Rightarrow> bool \<times> tls_context" where
  "setup_protocol X cfg c =
     (let c1 = set_options ({No_SSLv2, No_SSLv3} \<union> {No_version (tls_protocol cfg)}) c
      in if cipher_list cfg = [] then (True, c1)
         else if \<not> set_ciphers X (cipher_list cfg) then (False, c1)
         else (True, c1\<lparr>ciphers_set := Some (cipher_list cfg)\<rparr>))"

definition setup_session_cache :: "tls_config \<Rightarrow> tls_context \<Rightarrow> tls_context" where
  "setup_session_cache cfg c =
     c\<lparr>server_cache := True, cache_entries := session_cache_size cfg, cache_timeout := tls_session_timeout cfg\<rparr>"

definition initialize_context :: "context_library \<Rightarrow> tls_config \<Rightarrow> bool \<times> tls_context option" where
  "initialize_context X cfg =
     (if \<not> context_made X then (False, None)
      else (case load_certificates X cfg (set_options {No_SSLv2, No_SSLv3, No_compression, Server_preference} new_context) of
              (False, c) \<Rightarrow> (False, Some c)
            | (True, c) \<Rightarrow>
                (case setup_protocol X cfg c of
                   (False, c1) \<Rightarrow> (False, Some c1)
                 | (True, c1) \<Rightarrow> (True, Some (setup_session_cache cfg c1)))))"

text \<open>\<open>setSslConfig\<close>: \<open>None\<close> when the program aborts; without TLS there is no context.\<close>

definition set_ssl_config :: "bool \<Rightarrow> context_library \<Rightarrow> tls_config \<Rightarrow> tls_context option option" where
  "set_ssl_config use_tls X cfg =
     (if \<not> use_tls then Some None
      else (case initialize_context X cfg of (True, c) \<Rightarrow> Some c | (False, _) \<Rightarrow> None))"

section \<open>The connection\<close>

datatype tls_phase = Tls_handshake | Tls_established | Tls_shutdown | Tls_error

text \<open>The results of \<open>SSL_get_error\<close> the sources name.\<close>

datatype tls_code = Code_none | Code_want_read | Code_want_write | Code_syscall | Code_ssl | Code_other int

datatype tls_failure = Failure_none | Failure_want_read | Failure_want_write | Failure_syscall | Failure_ssl | Failure_unknown

text \<open>
  The connection object of the library with its two memory buffers: \<open>bio_feed\<close> is \<open>BIO_write\<close> to the
  incoming one, \<open>out_pending\<close> and \<open>out_read\<close> are \<open>BIO_pending\<close> and \<open>BIO_read\<close> of the outgoing one. A
  reading call returns nothing when its result is not positive.
\<close>

record 's tls_library =
  ssl_new :: "'s option"
  bios_made :: bool
  do_handshake :: "'s \<Rightarrow> int \<times> 's"
  get_error :: "'s \<Rightarrow> int \<Rightarrow> tls_code"
  ssl_read :: "nat \<Rightarrow> 's \<Rightarrow> string option \<times> 's"
  ssl_write :: "string \<Rightarrow> 's \<Rightarrow> int \<times> 's"
  bio_feed :: "string \<Rightarrow> 's \<Rightarrow> 's"
  out_pending :: "'s \<Rightarrow> nat"
  out_read :: "nat \<Rightarrow> 's \<Rightarrow> string option \<times> 's"

record 's tls_connection =
  ssl_of :: 's
  tls_phase_of :: tls_phase
  tls_read_buffer :: string
  tls_write_buffer :: string
  decrypted_buffer :: string
  has_callback :: bool

text \<open>The constructor: nothing when the object or its buffers cannot be made, and \<open>ssl_\<close> stays null.\<close>

definition make_tls_connection :: "'s tls_library \<Rightarrow> 's tls_connection option" where
  "make_tls_connection L =
     (case ssl_new L of
        None \<Rightarrow> None
      | Some s \<Rightarrow>
          if \<not> bios_made L then None
          else Some \<lparr>ssl_of = s, tls_phase_of = Tls_handshake, tls_read_buffer = [], tls_write_buffer = [],
                     decrypted_buffer = [], has_callback = False\<rparr>)"

definition handle_handshake :: "'s tls_library \<Rightarrow> 's tls_connection \<Rightarrow> conn_action list \<times> 's tls_connection" where
  "handle_handshake L c =
     (case do_handshake L (ssl_of c) of
        (ret, s) \<Rightarrow>
          (let c1 = c\<lparr>ssl_of := s\<rparr>
           in if ret = 1 then ([], c1\<lparr>tls_phase_of := Tls_established\<rparr>)
              else if get_error L s ret \<in> {Code_want_read, Code_want_write} then ([], c1)
              else ([Shutdown], c1)))"

definition start_handshake :: "'s tls_library \<Rightarrow> 's tls_connection \<Rightarrow> conn_action list \<times> 's tls_connection" where
  "start_handshake L c = handle_handshake L c"

text \<open>The loop of \<open>send\<close>; it does not return when the buffer says it has bytes and gives none.\<close>

partial_function (option) drain_out :: "'s tls_library \<Rightarrow> 's \<Rightarrow> (conn_action list \<times> 's) option" where
  "drain_out L s =
     (if out_pending L s > 0
      then (case out_read L (min (out_pending L s) 4096) s of
              (None, s1) \<Rightarrow> drain_out L s1
            | (Some bytes, s1) \<Rightarrow> Option.bind (drain_out L s1) (\<lambda>(acts, s2). Some (Send bytes # acts, s2)))
      else Some ([], s))"

definition tls_send :: "'s tls_library \<Rightarrow> string \<Rightarrow> 's tls_connection \<Rightarrow> (conn_action list \<times> 's tls_connection) option" where
  "tls_send L data c =
     (if tls_phase_of c \<noteq> Tls_established then Some ([], c)
      else (case ssl_write L data (ssl_of c) of
              (written, s) \<Rightarrow>
                if written \<le> 0 then Some ([], c\<lparr>ssl_of := s\<rparr>)
                else map_option (\<lambda>(acts, s1). (acts, c\<lparr>ssl_of := s1\<rparr>)) (drain_out L s)))"

text \<open>The members no other code calls, and the callbacks of a buffer kind that is never installed.\<close>

definition on_encrypted :: "string \<Rightarrow> 's tls_connection \<Rightarrow> conn_action list \<times> 's tls_connection" where
  "on_encrypted data c = ([Send (tls_write_buffer c @ data)], c\<lparr>tls_write_buffer := []\<rparr>)"

definition on_decrypted :: "string \<Rightarrow> 's tls_connection \<Rightarrow> 's tls_connection" where
  "on_decrypted data c = c\<lparr>decrypted_buffer := decrypted_buffer c @ data\<rparr>"

fun failure_of :: "tls_code \<Rightarrow> tls_failure" where
  "failure_of Code_none = Failure_none"
| "failure_of Code_want_read = Failure_want_read"
| "failure_of Code_want_write = Failure_want_write"
| "failure_of Code_syscall = Failure_syscall"
| "failure_of Code_ssl = Failure_ssl"
| "failure_of (Code_other n) = Failure_unknown"

definition get_last_error :: "'s tls_library \<Rightarrow> int \<Rightarrow> 's tls_connection \<Rightarrow> tls_failure" where
  "get_last_error L ret c = failure_of (get_error L (ssl_of c) ret)"

definition handle_error :: "tls_failure \<Rightarrow> 's tls_connection \<Rightarrow> conn_action list \<times> 's tls_connection" where
  "handle_error e c =
     (if e \<in> {Failure_ssl, Failure_syscall, Failure_unknown} then ([Shutdown], c\<lparr>tls_phase_of := Tls_error\<rparr>) else ([], c))"

definition bio_write :: "string \<Rightarrow> 's tls_connection option \<Rightarrow> int \<times> conn_action list" where
  "bio_write data c = (case c of None \<Rightarrow> (- 1, []) | Some _ \<Rightarrow> (int (length data), [Send data]))"

definition bio_read :: "nat \<Rightarrow> 's tls_connection \<Rightarrow> string option \<times> 's tls_connection" where
  "bio_read n c =
     (if tls_read_buffer c = [] then (None, c)
      else (Some (take n (tls_read_buffer c)), c\<lparr>tls_read_buffer := drop n (tls_read_buffer c)\<rparr>))"

section \<open>Messages on a TLS connection\<close>

text \<open>
  The plain part of \<open>onMessage\<close> on a buffer, as \<open>HttpServer\<close> models it: what is parsed is the buffer
  it is given, here the decrypted one.
\<close>

type_synonym 'w plain_message = "string \<Rightarrow> http_context \<Rightarrow> 'w \<Rightarrow> (conn_action list \<times> string \<times> http_context \<times> 'w) option"

definition plain_part ::
  "crlf_search \<Rightarrow> 'w http_server \<Rightarrow> int \<Rightarrow> nat \<times> u64 \<Rightarrow> 'w server_world plain_message" where
  "plain_part fc srv now took buf ctx w =
     map_option (\<lambda>(acts, conn, w1). (acts, conn_unread conn, conn_context conn, w1))
       (on_message fc srv now took buf \<lparr>conn_context = ctx, conn_unread = []\<rparr> w)"

text \<open>
  \<open>onRead\<close>, which is the message callback of the connection, with the \<open>onMessage\<close> it calls for
  decrypted bytes: that one finds the TLS connection of the connection and calls \<open>onRead\<close> again. The
  argument \<open>buf\<close> is the buffer of the call; the result has what is left in it.
\<close>

partial_function (option) on_read ::
  "'s tls_library \<Rightarrow> 'w plain_message \<Rightarrow> string \<Rightarrow> 's tls_connection \<Rightarrow> http_context \<Rightarrow> 'w \<Rightarrow>
   (conn_action list \<times> string \<times> 's tls_connection \<times> http_context \<times> 'w) option" where
  "on_read L plain buf c ctx w =
     (if tls_phase_of c = Tls_handshake
      then (case handle_handshake L (c\<lparr>ssl_of := bio_feed L buf (ssl_of c)\<rparr>) of (acts, c1) \<Rightarrow> Some (acts, [], c1, ctx, w))
      else if tls_phase_of c = Tls_established
      then (case ssl_read L 4096 (ssl_of c) of
              (None, s) \<Rightarrow> Some ([], buf, c\<lparr>ssl_of := s\<rparr>, ctx, w)
            | (Some bytes, s) \<Rightarrow>
                if \<not> has_callback c then Some ([], buf, c\<lparr>ssl_of := s\<rparr>, ctx, w)
                else Option.bind (on_read L plain bytes (c\<lparr>ssl_of := s\<rparr>) ctx w) (\<lambda>(acts, rest, c1, ctx1, w1).
                  if tls_phase_of c1 \<noteq> Tls_established \<or> decrypted_buffer c1 = [] then Some (acts, buf, c1, ctx1, w1)
                  else Option.bind (plain (decrypted_buffer c1) ctx1 w1) (\<lambda>(acts1, rest1, ctx2, w2).
                    Some (acts @ acts1, buf, c1\<lparr>decrypted_buffer := rest1\<rparr>, ctx2, w2))))
      else Some ([], buf, c, ctx, w))"

text \<open>\<open>onConnection\<close> of a new connection with TLS; a null object is dereferenced, which is undefined.\<close>

definition on_tls_connection :: "'s tls_library \<Rightarrow> (conn_action list \<times> 's tls_connection \<times> http_context) option" where
  "on_tls_connection L =
     (case make_tls_connection L of
        None \<Rightarrow> None
      | Some c \<Rightarrow> (case start_handshake L (c\<lparr>has_callback := True\<rparr>) of (acts, c1) \<Rightarrow> Some (acts, c1, init_context)))"

text \<open>The messages of one connection: their bytes are appended to what its buffer still has.\<close>

fun tls_messages ::
  "'s tls_library \<Rightarrow> 'w plain_message \<Rightarrow> string list \<Rightarrow> string \<Rightarrow> 's tls_connection \<Rightarrow> http_context \<Rightarrow> 'w \<Rightarrow>
   (conn_action list \<times> string \<times> 's tls_connection \<times> http_context \<times> 'w) option" where
  "tls_messages L plain [] buf c ctx w = Some ([], buf, c, ctx, w)"
| "tls_messages L plain (data # ds) buf c ctx w =
     Option.bind (on_read L plain (buf @ data) c ctx w) (\<lambda>(acts, buf1, c1, ctx1, w1).
       map_option (\<lambda>(acts2, r). (acts @ acts2, r)) (tls_messages L plain ds buf1 c1 ctx1 w1))"

section \<open>The library\<close>

text \<open>
  \<open>plaintext s\<close> bytes of the peer are left to read, of which a successful read takes some; \<open>out s\<close> is
  what the outgoing memory buffer holds, which a read takes from its front.
\<close>

locale tls_object =
  fixes L :: "'s tls_library"
    and plaintext :: "'s \<Rightarrow> nat"
    and out :: "'s \<Rightarrow> string"
  assumes read_law: "ssl_read L n s = (Some bytes, s') \<Longrightarrow> plaintext s' < plaintext s"
    and pending_law: "out_pending L s = length (out s)"
    and drain_law: "out s \<noteq> [] \<Longrightarrow> 0 < n \<Longrightarrow> \<exists>s'. out_read L n s = (Some (take n (out s)), s') \<and> out s' = drop n (out s)"

lemma handshake_actions:
  "handle_handshake L c = (acts, c1) \<Longrightarrow> set acts \<subseteq> {Shutdown} \<and> decrypted_buffer c1 = decrypted_buffer c \<and>
     has_callback c1 = has_callback c"
  by (auto simp: handle_handshake_def Let_def split: prod.splits if_splits)

text \<open>Whatever the library does: bytes that arrive send nothing and reach no handler.\<close>

lemma on_read_silent:
  assumes "on_read L plain buf c ctx w = Some r" and "decrypted_buffer c = []"
  shows "set (fst r) \<subseteq> {Shutdown} \<and> decrypted_buffer (fst (snd (snd r))) = [] \<and> snd (snd (snd r)) = (ctx, w) \<and>
     (tls_phase_of c = Tls_established \<longrightarrow> tls_phase_of (fst (snd (snd r))) = Tls_established \<and> fst (snd r) = buf)"
  using assms
proof (induction L plain buf c ctx w r rule: on_read.raw_induct [rotated, consumes 1, case_names step])
  case (step on_read' L plain buf c ctx w r)
  consider "tls_phase_of c = Tls_handshake" | "tls_phase_of c = Tls_established"
    | "tls_phase_of c \<noteq> Tls_handshake" "tls_phase_of c \<noteq> Tls_established" by blast
  then show ?case
  proof cases
    case 1
    then show ?thesis
      using step.prems handshake_actions [of L "c\<lparr>ssl_of := bio_feed L buf (ssl_of c)\<rparr>"] step.hyps by (auto split: prod.splits)
  next
    case 2
    obtain got s where got: "ssl_read L 4096 (ssl_of c) = (got, s)" by fastforce
    show ?thesis
    proof (cases "got = None \<or> \<not> has_callback c")
      case True
      then show ?thesis using 2 got step.hyps step.prems by (auto split: option.splits)
    next
      case False
      then obtain bytes where bytes: "got = Some bytes" "has_callback c" by auto
      then obtain r1 where r1: "on_read' L plain bytes (c\<lparr>ssl_of := s\<rparr>) ctx w = Some r1"
        using 2 got step.hyps by (cases "on_read' L plain bytes (c\<lparr>ssl_of := s\<rparr>) ctx w") auto
      obtain acts rest c1 ctx1 w1 where parts: "r1 = (acts, rest, c1, ctx1, w1)" by (metis prod_cases5)
      have inner: "set acts \<subseteq> {Shutdown}" "decrypted_buffer c1 = []" "ctx1 = ctx" "w1 = w" "tls_phase_of c1 = Tls_established"
        using step.IH [OF r1] step.prems 2 parts by simp_all
      then have "r = (acts, buf, c1, ctx, w)" using 2 got bytes r1 parts step.hyps by simp
      then show ?thesis using inner 2 by simp
    qed
  next
    case 3
    then show ?thesis using step.hyps step.prems by auto
  qed
qed

context tls_object
begin

text \<open>With the law of the reads, the recursion ends.\<close>

lemma on_read_returns: "decrypted_buffer c = [] \<Longrightarrow> on_read L plain buf c ctx w \<noteq> None"
proof (induction "plaintext (ssl_of c)" arbitrary: buf c rule: less_induct)
  case less
  show ?case
  proof (cases "tls_phase_of c = Tls_established")
    case False
    then show ?thesis by (subst on_read.simps) (simp split: prod.split)
  next
    case established: True
    obtain got s where got: "ssl_read L 4096 (ssl_of c) = (got, s)" by fastforce
    show ?thesis
    proof (cases "got = None \<or> \<not> has_callback c")
      case True
      then show ?thesis using established got by (subst on_read.simps) (auto split: option.split)
    next
      case False
      then obtain bytes where bytes: "got = Some bytes" "has_callback c" by auto
      have "plaintext s < plaintext (ssl_of c)" using read_law got bytes(1) by blast
      then have "on_read L plain bytes (c\<lparr>ssl_of := s\<rparr>) ctx w \<noteq> None" using less by simp
      then obtain r1 where r1: "on_read L plain bytes (c\<lparr>ssl_of := s\<rparr>) ctx w = Some r1" by blast
      obtain acts rest c1 ctx1 w1 where parts: "r1 = (acts, rest, c1, ctx1, w1)" by (metis prod_cases5)
      have "decrypted_buffer c1 = []" using on_read_silent [OF r1] less.prems parts by simp
      then show ?thesis using established got bytes r1 parts by (subst on_read.simps) simp
    qed
  qed
qed

lemma messages_silent:
  assumes "decrypted_buffer c = []"
  shows "\<exists>acts rest c'. tls_messages L plain ds buf c ctx w = Some (acts, rest, c', ctx, w) \<and> set acts \<subseteq> {Shutdown} \<and>
     (tls_phase_of c = Tls_established \<longrightarrow> rest = buf @ concat ds)"
  using assms
proof (induction ds arbitrary: buf c)
  case (Cons data ds)
  obtain r where r: "on_read L plain (buf @ data) c ctx w = Some r" using on_read_returns [OF Cons.prems] by (metis option.exhaust)
  obtain acts rest c1 ctx1 w1 where parts: "r = (acts, rest, c1, ctx1, w1)" by (metis prod_cases5)
  note one = on_read_silent [OF r Cons.prems, unfolded parts, simplified]
  obtain acts2 rest2 c2 where more: "tls_messages L plain ds rest c1 ctx w = Some (acts2, rest2, c2, ctx, w)" "set acts2 \<subseteq> {Shutdown}"
    "tls_phase_of c1 = Tls_established \<longrightarrow> rest2 = rest @ concat ds"
    using Cons.IH [of c1 rest] one by blast
  then show ?case using r parts one by auto
qed simp

lemma ball_ConsI: "P x \<Longrightarrow> \<forall>y\<in>set xs. P y \<Longrightarrow> \<forall>y\<in>set (x # xs). P y"
  by simp

text \<open>The loop of \<open>send\<close> empties the outgoing buffer in order.\<close>

lemma drain_all: "\<exists>acts s'. drain_out L s = Some (acts, s') \<and> out s' = [] \<and>
   (\<exists>chunks. acts = map Send chunks \<and> concat chunks = out s \<and> (\<forall>c\<in>set chunks. c \<noteq> [] \<and> length c \<le> 4096))"
proof (induction "length (out s)" arbitrary: s rule: less_induct)
  case less
  show ?case
  proof (cases "out s = []")
    case True
    then show ?thesis by (subst drain_out.simps) (simp add: pending_law)
  next
    case False
    define n where "n = min (out_pending L s) 4096"
    have n: "0 < n" "n \<le> 4096" "out_pending L s > 0" using False by (simp_all add: n_def pending_law)
    obtain s1 where s1: "out_read L n s = (Some (take n (out s)), s1)" "out s1 = drop n (out s)"
      using drain_law [OF False n(1)] by blast
    have "length (out s1) < length (out s)" using s1(2) n(1) False by simp
    from less [OF this] obtain acts s' chunks where rest: "drain_out L s1 = Some (acts, s')" "out s' = []"
      "acts = map Send chunks" "concat chunks = out s1" "\<forall>c\<in>set chunks. c \<noteq> [] \<and> length c \<le> 4096"
      by blast
    have step: "drain_out L s = Some (Send (take n (out s)) # acts, s')"
      unfolding drain_out.simps [of L s] n_def [symmetric] s1(1) using n(3) rest(1) by simp
    have acts: "Send (take n (out s)) # acts = map Send (take n (out s) # chunks)" using rest(3) by simp
    have bytes: "concat (take n (out s) # chunks) = out s" using rest(4) s1(2) by simp
    have piece: "take n (out s) \<noteq> [] \<and> length (take n (out s)) \<le> 4096"
    proof
      show "take n (out s) \<noteq> []" using False n(1) by (metis take_eq_Nil not_less_zero)
      show "length (take n (out s)) \<le> 4096" unfolding length_take by (rule le_trans [OF min.cobounded2 n(2)])
    qed
    show ?thesis
      by (intro exI conjI) (rule step, rule rest(2), rule acts, rule bytes, rule ball_ConsI [OF piece rest(5)])
  qed
qed

end

section \<open>A library for evaluation\<close>

text \<open>
  A connection is established by its first bytes; bytes are their own cipher text. The state is what has
  arrived and what is to be sent.
\<close>

definition plain_tls :: "(bool \<times> string \<times> string) tls_library" where
  "plain_tls =
     \<lparr>ssl_new = Some (False, [], []), bios_made = True,
      do_handshake = (\<lambda>(hello, inn, outb). if inn = [] then (- 1, hello, inn, outb) else (1, True, [], ''hello'')),
      get_error = (\<lambda>s r. Code_want_read),
      ssl_read = (\<lambda>n (hello, inn, outb). if inn = [] \<or> n = 0 then (None, hello, inn, outb) else (Some (take n inn), hello, drop n inn, outb)),
      ssl_write = (\<lambda>bytes (hello, inn, outb). (int (length bytes), hello, inn, outb @ bytes)),
      bio_feed = (\<lambda>bytes (hello, inn, outb). (hello, inn @ bytes, outb)),
      out_pending = (\<lambda>(hello, inn, outb). length outb),
      out_read = (\<lambda>n (hello, inn, outb). if outb = [] then (None, hello, inn, outb) else (Some (take n outb), hello, inn, drop n outb))\<rparr>"

interpretation plain_tls: tls_object plain_tls "\<lambda>(hello, inn, outb). length inn" "\<lambda>(hello, inn, outb). outb"
  by unfold_locales (auto simp: plain_tls_def split: if_splits)

section \<open>Properties\<close>

text \<open>C23: a server with TLS never answers. Whatever bytes a client sends on a connection, whatever the TLS
  library makes of them, and whatever the routes would do: every message is taken, nothing is ever sent,
  no handler runs and no HTTP state changes. The handshake leaves its answers in the outgoing buffer, and
  the message callback for decrypted bytes hands them to the TLS object again instead of the parser; once
  established, what arrives stays in the buffer of the connection unread.\<close>

theorem tls_server_never_answers:
  assumes "tls_object L plaintext out" and "on_tls_connection L = Some (acts0, c0, ctx0)"
  shows "\<exists>acts rest c. tls_messages L plain ds [] c0 ctx0 w = Some (acts, rest, c, ctx0, w) \<and>
     set (acts0 @ acts) \<subseteq> {Shutdown} \<and> (tls_phase_of c0 = Tls_established \<longrightarrow> rest = concat ds)"
proof -
  obtain c where c: "make_tls_connection L = Some c" "start_handshake L (c\<lparr>has_callback := True\<rparr>) = (acts0, c0)"
    using assms(2) by (auto simp: on_tls_connection_def split: option.splits prod.splits)
  then have "decrypted_buffer c = []" by (auto simp: make_tls_connection_def split: option.splits if_splits)
  then have "set acts0 \<subseteq> {Shutdown}" "decrypted_buffer c0 = []"
    using handshake_actions [of L "c\<lparr>has_callback := True\<rparr>" acts0 c0] c(2) by (simp_all add: start_handshake_def)
  then show ?thesis
    using tls_object.messages_silent [OF assms(1), of c0 plain ds "[]" ctx0 w] by auto
qed

lemma tls_server_never_answers_witness:
  "\<exists>c0. on_tls_connection plain_tls = Some ([], c0, init_context) \<and>
     (\<exists>acts rest c. tls_messages plain_tls (plain_part scan_crlf echo_server 7 (0, 100000)) [''hello'', ''GET /s/abcd'']
        [] c0 init_context echo_world = Some (acts, rest, c, init_context, echo_world) \<and> set acts \<subseteq> {Shutdown})"
proof -
  obtain c0 where c0: "on_tls_connection plain_tls = Some ([], c0, init_context)"
    by (simp add: on_tls_connection_def make_tls_connection_def start_handshake_def handle_handshake_def plain_tls_def)
  show ?thesis using tls_server_never_answers [OF plain_tls.tls_object_axioms c0] c0 by fastforce
qed

text \<open>What \<open>send\<close> does on an established connection: the bytes the library has to send go out completely and
  in order, in pieces of at most 4096 bytes, and the loop ends; before, nothing is sent.\<close>

theorem tls_send_flushes:
  assumes "tls_object L plaintext out" and "ssl_write L data (ssl_of c) = (written, s)"
  shows "\<exists>chunks c'. tls_send L data c = Some (map Send chunks, c') \<and> tls_phase_of c' = tls_phase_of c \<and>
     (if tls_phase_of c = Tls_established \<and> 0 < written
      then concat chunks = out s \<and> out (ssl_of c') = [] \<and> (\<forall>b\<in>set chunks. b \<noteq> [] \<and> length b \<le> 4096)
      else chunks = [])"
proof (cases "tls_phase_of c = Tls_established \<and> 0 < written")
  case True
  obtain acts s' chunks where d: "drain_out L s = Some (acts, s')" "out s' = []" "acts = map Send chunks" "concat chunks = out s"
    "\<forall>b\<in>set chunks. b \<noteq> [] \<and> length b \<le> 4096"
    using tls_object.drain_all [OF assms(1), of s] by blast
  have "tls_send L data c = Some (map Send chunks, c\<lparr>ssl_of := s'\<rparr>)"
    using True assms(2) d(1,3) by (simp add: tls_send_def)
  then show ?thesis using True d by auto
next
  case False
  then show ?thesis using assms(2) by (auto simp: tls_send_def)
qed

lemma tls_send_flushes_witness:
  "\<exists>chunks c'. tls_send plain_tls ''abc'' \<lparr>ssl_of = (True, [], ''hello''), tls_phase_of = Tls_established, tls_read_buffer = [],
       tls_write_buffer = [], decrypted_buffer = [], has_callback = True\<rparr> = Some (map Send chunks, c') \<and> concat chunks = ''helloabc''"
  using tls_send_flushes [OF plain_tls.tls_object_axioms, of "''abc''"
      "\<lparr>ssl_of = (True, [], ''hello''), tls_phase_of = Tls_established, tls_read_buffer = [],
       tls_write_buffer = [], decrypted_buffer = [], has_callback = True\<rparr>" 3 "(True, [], ''helloabc'')"]
  by (auto simp: plain_tls_def)

text \<open>The configured protocol version is the one version that is switched off. A context that
  \<open>initialize\<close> has set up allows every version of TLS except the configured one, and no SSL.\<close>

theorem configured_version_disabled:
  assumes "initialize_context X cfg = (True, Some c)"
  shows "{v. No_version v \<notin> tls_options c} = UNIV - {tls_protocol cfg} \<and> {No_SSLv2, No_SSLv3} \<subseteq> tls_options c"
  using assms
  by (auto simp: initialize_context_def load_certificates_def setup_protocol_def setup_session_cache_def set_options_def note_file_def
      new_context_def Let_def split: prod.splits bool.splits if_splits)

definition lenient_context :: context_library where
  "lenient_context = \<lparr>context_made = True, use_certificate = (\<lambda>f. True), use_private_key = (\<lambda>f. True), check_private_key = True,
     use_chain = (\<lambda>f. True), set_ciphers = (\<lambda>s. True)\<rparr>"

lemma configured_version_disabled_witness:
  "\<exists>c. initialize_context lenient_context default_tls_config = (True, Some c) \<and> {v. No_version v \<notin> tls_options c} = UNIV - {TLS_1_2}"
proof -
  obtain c where c: "initialize_context lenient_context default_tls_config = (True, Some c)"
    by (simp add: initialize_context_def load_certificates_def setup_protocol_def lenient_context_def default_tls_config_def Let_def)
  have "tls_protocol default_tls_config = TLS_1_2" by (simp add: default_tls_config_def)
  then show ?thesis using configured_version_disabled [OF c] c by auto
qed

end
