(* ===== verification/MySqlAuth.thy ===== *)
theory MySqlAuth
  imports Database AuthService
begin

text \<open>
  \<open>MySqlAuthRepository.h/.cpp\<close>: accounts and sessions in MySQL. The statements it sends are the
  constructors of \<open>account_update\<close> and \<open>account_query\<close>; what they do to the tables \<open>users\<close> and
  \<open>user_sessions\<close> is written after their text and the schema. The server is the parameter \<open>sql_driver\<close>
  under the laws of the locale \<open>accounts_server\<close>, in which the repository fulfils the contract
  \<open>auth_repository\<close> of \<open>AuthService\<close>.
\<close>

section \<open>Statements and tables\<close>

datatype account_update =
    Insert_user string string string
  | Insert_session string u64 int
  | Revoke_session int string

datatype account_query = Created_user | User_by_name string | User_of_session string int

record user_row =
  account_id :: u64
  account_name :: string
  account_normalized :: string
  account_hash :: string
  account_status :: string
  account_created :: int
  account_updated :: int

record session_row =
  session_digest :: string
  session_account :: u64
  session_until :: int
  session_revoked_at :: "int option"

record account_tables =
  user_table :: "user_row list"
  session_table :: "session_row list"

definition new_user_row :: "int \<Rightarrow> u64 \<Rightarrow> string \<Rightarrow> string \<Rightarrow> string \<Rightarrow> user_row" where
  "new_user_row now i name normalized hash =
     \<lparr>account_id = i, account_name = name, account_normalized = normalized, account_hash = hash,
      account_status = ''active'', account_created = now, account_updated = now\<rparr>"

text \<open>\<open>None\<close> is the violation of a unique, primary or foreign key.\<close>

fun apply_account_update :: "int \<Rightarrow> u64 \<Rightarrow> account_update \<Rightarrow> account_tables \<Rightarrow> account_tables option" where
  "apply_account_update now auto (Insert_user name normalized hash) t =
     (if normalized \<in> account_normalized ` set (user_table t) then None
      else Some (t\<lparr>user_table := user_table t @ [new_user_row now auto name normalized hash]\<rparr>))"
| "apply_account_update now auto (Insert_session th uid ex) t =
     (if th \<in> session_digest ` set (session_table t) \<or> uid \<notin> account_id ` set (user_table t) then None
      else Some (t\<lparr>session_table := session_table t @
             [\<lparr>session_digest = th, session_account = uid, session_until = ex, session_revoked_at = None\<rparr>]\<rparr>))"
| "apply_account_update now auto (Revoke_session at th) t =
     Some (t\<lparr>session_table := map (\<lambda>s. if session_digest s = th \<and> session_revoked_at s = None
                                        then s\<lparr>session_revoked_at := Some at\<rparr> else s) (session_table t)\<rparr>)"

definition joined_users :: "account_tables \<Rightarrow> (session_row \<times> user_row) list" where
  "joined_users t =
     concat (map (\<lambda>s. map (Pair s) (filter (\<lambda>u. account_id u = session_account s) (user_table t))) (session_table t))"

fun account_rows :: "u64 \<Rightarrow> account_query \<Rightarrow> account_tables \<Rightarrow> user_row list" where
  "account_rows inserted Created_user t = take 1 (filter (\<lambda>u. account_id u = inserted) (user_table t))"
| "account_rows inserted (User_by_name n) t = take 1 (filter (\<lambda>u. account_normalized u = n) (user_table t))"
| "account_rows inserted (User_of_session th now) t =
     take 1 (map snd (filter (\<lambda>(s, u). session_digest s = th \<and> session_revoked_at s = None \<and> session_until s > now \<and>
       account_status u = ''active'') (joined_users t)))"

section \<open>The repository\<close>

type_synonym ('c, 'd) account_driver = "('c, account_update, account_query, 'd) sql_driver"

definition is_duplicate_error :: "exn \<Rightarrow> bool" where
  "is_duplicate_error e \<longleftrightarrow> contains_sub ''Duplicate entry'' (exn_what e) \<or> contains_sub ''1062'' (exn_what e)"

definition read_user :: "sql_row \<Rightarrow> ('d, user) db_op" where
  "read_user row =
     db_bind (db_lift (get_uint64 row ''id'')) (\<lambda>i.
     db_bind (db_lift (get_string row ''username'')) (\<lambda>name.
     db_bind (db_lift (get_string row ''status'')) (\<lambda>text_of.
     db_bind (if text_of = ''active'' then db_return User_active
              else if text_of = ''disabled'' then db_return User_disabled
              else db_throw (Runtime_error ''Unknown user status'')) (\<lambda>status.
     db_bind (db_lift (get_int64 row ''created_at_epoch'')) (\<lambda>created.
     db_bind (db_lift (get_int64 row ''updated_at_epoch'')) (\<lambda>updated.
     db_return \<lparr>user_id = i, user_name = name, user_state = status, user_created = created, user_updated = updated\<rparr>))))))"

definition create_user_row :: "('c, 'd) account_driver \<Rightarrow> string \<Rightarrow> string \<Rightarrow> string \<Rightarrow> 'c \<Rightarrow> ('d, user) db_op" where
  "create_user_row D name normalized hash c =
     db_bind (execute_update D c (Insert_user name normalized hash)) (\<lambda>_.
     db_bind (execute_query D c Created_user) (\<lambda>rows.
     case rows of
       [] \<Rightarrow> db_throw (Runtime_error ''Failed to read created user'')
     | row # _ \<Rightarrow> read_user row))"

definition mysql_create_user ::
  "('c, 'd) account_driver \<Rightarrow> ('c, 'd) pool_wait \<Rightarrow> string \<Rightarrow> string \<Rightarrow> string \<Rightarrow> ('c pool \<times> 'd, create_user_result) db_op" where
  "mysql_create_user D wait name normalized hash a =
     (case with_connection D wait (create_user_row D name normalized hash) a of
        (Inr u, a1) \<Rightarrow> (Inr \<lparr>create_status = User_created, created_user = Some u\<rparr>, a1)
      | (Inl e, a1) \<Rightarrow>
          if is_duplicate_error e then (Inr \<lparr>create_status = User_conflict, created_user = None\<rparr>, a1) else (Inl e, a1))"

definition find_credentials_row :: "('c, 'd) account_driver \<Rightarrow> string \<Rightarrow> 'c \<Rightarrow> ('d, credentials option) db_op" where
  "find_credentials_row D normalized c =
     db_bind (execute_query D c (User_by_name normalized)) (\<lambda>rows.
     case rows of
       [] \<Rightarrow> db_return None
     | row # _ \<Rightarrow>
         db_bind (read_user row) (\<lambda>u.
         db_bind (db_lift (get_string row ''password_hash'')) (\<lambda>h.
         db_return (Some \<lparr>cred_user = u, cred_hash = h\<rparr>))))"

definition insert_session_row :: "('c, 'd) account_driver \<Rightarrow> u64 \<Rightarrow> string \<Rightarrow> int \<Rightarrow> 'c \<Rightarrow> ('d, unit) db_op" where
  "insert_session_row D uid th ex c = db_bind (execute_update D c (Insert_session th uid ex)) (\<lambda>_. db_return ())"

definition find_session_row :: "('c, 'd) account_driver \<Rightarrow> string \<Rightarrow> int \<Rightarrow> 'c \<Rightarrow> ('d, user option) db_op" where
  "find_session_row D th now c =
     db_bind (execute_query D c (User_of_session th now)) (\<lambda>rows.
     case rows of
       [] \<Rightarrow> db_return None
     | row # _ \<Rightarrow> db_bind (read_user row) (\<lambda>u. db_return (Some u)))"

definition revoke_session_row :: "('c, 'd) account_driver \<Rightarrow> string \<Rightarrow> int \<Rightarrow> 'c \<Rightarrow> ('d, unit) db_op" where
  "revoke_session_row D th at c = db_bind (execute_update D c (Revoke_session at th)) (\<lambda>_. db_return ())"

definition mysql_auth :: "('c, 'd) account_driver \<Rightarrow> ('c, 'd) pool_wait \<Rightarrow> ('c pool \<times> 'd) auth_repo" where
  "mysql_auth D wait =
     \<lparr>auth_create_user = (\<lambda>now. mysql_create_user D wait),
      auth_find_credentials = (\<lambda>n. with_connection D wait (find_credentials_row D n)),
      auth_create_session = (\<lambda>uid th ex. with_connection D wait (insert_session_row D uid th ex)),
      auth_find_session = (\<lambda>th now. with_connection D wait (find_session_row D th now)),
      auth_revoke_session = (\<lambda>th at. with_connection D wait (revoke_session_row D th at))\<rparr>"

section \<open>The server\<close>

text \<open>
  What the columns hold: ASCII (\<open>ascii_bin\<close>), in which strings that differ in trailing spaces only
  compare equal; the laws are stated for texts without them. \<open>storable_time\<close> is the range of
  \<open>DATETIME\<close> from 1970 on.
\<close>

definition plain_text :: "string \<Rightarrow> bool" where
  "plain_text s \<longleftrightarrow> list_all (\<lambda>c. of_char c < (128 :: nat)) s \<and> (s = [] \<or> last s \<noteq> CHR '' '')"

definition storable_time :: "int \<Rightarrow> bool" where
  "storable_time t \<longleftrightarrow> 0 \<le> t \<and> t < 253402300800"

definition storable_user :: "string \<Rightarrow> string \<Rightarrow> string \<Rightarrow> bool" where
  "storable_user name normalized hash \<longleftrightarrow>
     length name \<le> 32 \<and> length normalized \<le> 32 \<and> length hash \<le> 255 \<and> plain_text name \<and> plain_text normalized \<and> plain_text hash"

fun storable_update :: "account_update \<Rightarrow> bool" where
  "storable_update (Insert_user name normalized hash) = storable_user name normalized hash"
| "storable_update (Insert_session th uid ex) = (plain_text th \<and> length th \<le> 64 \<and> storable_time ex)"
| "storable_update (Revoke_session at th) = (plain_text th \<and> storable_time at)"

fun plain_account_query :: "account_query \<Rightarrow> bool" where
  "plain_account_query Created_user = True"
| "plain_account_query (User_by_name n) = plain_text n"
| "plain_account_query (User_of_session th now) = (plain_text th \<and> storable_time now)"

fun is_new_user :: "account_update \<Rightarrow> bool" where
  "is_new_user (Insert_user name normalized hash) = True"
| "is_new_user u = False"

text \<open>The rows that the service has written: nothing else is in the tables.\<close>

definition accounts_ok :: "account_tables \<Rightarrow> u64 \<Rightarrow> bool" where
  "accounts_ok t n \<longleftrightarrow>
     distinct (map account_id (user_table t)) \<and> distinct (map account_normalized (user_table t)) \<and>
     distinct (map session_digest (session_table t)) \<and>
     (\<forall>u\<in>set (user_table t). account_id u < n \<and> account_status u \<in> {''active'', ''disabled''} \<and> plain_text (account_normalized u)) \<and>
     (\<forall>s\<in>set (session_table t). plain_text (session_digest s))"

definition user_shown :: "account_query \<Rightarrow> user_row \<Rightarrow> sql_row \<Rightarrow> bool" where
  "user_shown q u s \<longleftrightarrow>
     get_uint64 s ''id'' = Inr (account_id u) \<and> get_string s ''username'' = Inr (account_name u) \<and>
     get_string s ''status'' = Inr (account_status u) \<and> get_int64 s ''created_at_epoch'' = Inr (account_created u) \<and>
     get_int64 s ''updated_at_epoch'' = Inr (account_updated u) \<and>
     (\<forall>n. q = User_by_name n \<longrightarrow> get_string s ''password_hash'' = Inr (account_hash u))"

text \<open>
  The documented behaviour of a server in autocommit mode while one operation at a time holds a
  connection: \<open>counter\<close> is the next value of \<open>AUTO_INCREMENT\<close>, \<open>inserted\<close> the value of
  \<open>LAST_INSERT_ID()\<close>, and \<open>up\<close> says that the server and the connection to it do not fail. Of a statement
  that fails the answer may be all that is lost.
\<close>

locale accounts_server =
  fixes D :: "('c, 'd) account_driver"
    and tables :: "'d \<Rightarrow> account_tables"
    and counter :: "'d \<Rightarrow> u64"
    and inserted :: "'d \<Rightarrow> u64"
    and server_time :: "'d \<Rightarrow> int"
    and up :: "'d \<Rightarrow> bool"
  assumes ping_law: "driver_select_one D c d = (alive, d') \<Longrightarrow>
          tables d' = tables d \<and> counter d' = counter d \<and> (up d \<longrightarrow> up d' \<and> alive = Inr True)"
    and reconnect_law: "driver_reconnect D c d = (again, d') \<Longrightarrow>
          tables d' = tables d \<and> counter d' = counter d \<and> (up d \<longrightarrow> up d')"
    and update_law: "storable_update u \<Longrightarrow> accounts_ok (tables d) n \<Longrightarrow> driver_update D c u d = (r, d') \<Longrightarrow>
          (up d \<longrightarrow> up d') \<and>
          (case r of
             Inr k \<Rightarrow> apply_account_update (server_time d) (counter d) u (tables d) = Some (tables d') \<and>
               (if is_new_user u then counter d' = counter d + 1 \<and> inserted d' = counter d else counter d' = counter d)
           | Inl m \<Rightarrow>
               (tables d' = tables d \<and> counter d' \<in> (if is_new_user u then {counter d, counter d + 1} else {counter d}) \<or>
                apply_account_update (server_time d) (counter d) u (tables d) = Some (tables d') \<and>
                counter d' = (if is_new_user u then counter d + 1 else counter d)) \<and>
               (up d \<longrightarrow> apply_account_update (server_time d) (counter d) u (tables d) = None \<and>
                  (is_new_user u \<longrightarrow> contains_sub ''Duplicate entry'' m)))"
    and query_law: "plain_account_query q \<Longrightarrow> accounts_ok (tables d) n \<Longrightarrow> driver_query D c q d = (found, d') \<Longrightarrow>
          tables d' = tables d \<and> counter d' = counter d \<and> (up d \<longrightarrow> up d') \<and>
          (case found of
             Inr rows \<Rightarrow> list_all2 (user_shown q) (account_rows (inserted d) q (tables d)) rows
           | Inl m \<Rightarrow> \<not> up d)"

section \<open>What rows stand for\<close>

definition status_of_user :: "user_row \<Rightarrow> user_status" where
  "status_of_user u = (if account_status u = ''active'' then User_active else User_disabled)"

definition user_of_row :: "user_row \<Rightarrow> user" where
  "user_of_row u =
     \<lparr>user_id = account_id u, user_name = account_name u, user_state = status_of_user u,
      user_created = account_created u, user_updated = account_updated u\<rparr>"

definition stored_user_of :: "user_row \<Rightarrow> stored_user" where
  "stored_user_of u = \<lparr>stored_account = user_of_row u, stored_name = account_normalized u, stored_hash = account_hash u\<rparr>"

definition stored_session_of :: "session_row \<Rightarrow> stored_session" where
  "stored_session_of s =
     \<lparr>session_user = session_account s, session_expires = session_until s, session_revoked = session_revoked_at s\<rparr>"

definition table_accounts :: "account_tables \<Rightarrow> u64 \<Rightarrow> stored_user option" where
  "table_accounts t i = map_option stored_user_of (find (\<lambda>u. account_id u = i) (user_table t))"

definition table_names :: "account_tables \<Rightarrow> string \<Rightarrow> u64 option" where
  "table_names t n = map_option account_id (find (\<lambda>u. account_normalized u = n) (user_table t))"

definition table_sessions :: "account_tables \<Rightarrow> string \<Rightarrow> stored_session option" where
  "table_sessions t th = map_option stored_session_of (find (\<lambda>s. session_digest s = th) (session_table t))"

lemma take_filter_find: "take 1 (filter P xs) = (case find P xs of None \<Rightarrow> [] | Some x \<Rightarrow> [x])"
  by (induction xs) auto

lemma distinct_filter_find:
  "distinct (map f xs) \<Longrightarrow> filter (\<lambda>x. f x = k) xs = (case find (\<lambda>x. f x = k) xs of None \<Rightarrow> [] | Some x \<Rightarrow> [x])"
proof (induction xs)
  case (Cons x xs)
  have "filter (\<lambda>x. f x = k) xs = []" if "f x = k"
    using Cons.prems that by (auto simp: filter_empty_conv image_iff)
  then show ?case using Cons by simp
qed simp

lemma find_distinct: "distinct (map f xs) \<Longrightarrow> x \<in> set xs \<Longrightarrow> find (\<lambda>y. f y = f x) xs = Some x"
proof (induction xs)
  case (Cons y ys)
  then show ?case by (cases "f y = f x") (auto simp: image_iff)
qed simp

lemma find_append: "find P (xs @ ys) = (case find P xs of None \<Rightarrow> find P ys | Some x \<Rightarrow> Some x)"
  by (induction xs) auto

lemma find_SomeD: "find P xs = Some x \<Longrightarrow> x \<in> set xs \<and> P x"
  by (auto simp: find_Some_iff)

lemma find_map_same: "(\<And>x. P (f x) = P x) \<Longrightarrow> find P (map f xs) = map_option f (find P xs)"
  by (induction xs) auto

lemma plain_hex [simp]: "plain_text (to_hex bs)" "plain_text []"
proof -
  have hex: "of_char c < (128 :: nat) \<and> c \<noteq> CHR '' ''" if "is_lower_hex c" for c
  proof -
    have "(48 :: nat) \<le> of_char c" "of_char c \<le> (102 :: nat)"
      using that by (auto simp: is_lower_hex_def is_digit_def less_eq_char_iff)
    then show ?thesis by auto
  qed
  have "list_all (\<lambda>c. of_char c < (128 :: nat)) (to_hex bs)"
    using to_hex_lower hex by (simp add: list_all_iff)
  moreover have "last (to_hex bs) \<noteq> CHR '' ''" if "to_hex bs \<noteq> []"
    using to_hex_lower [of bs] hex last_in_set [OF that] by (simp add: list_all_iff)
  ultimately show "plain_text (to_hex bs)" unfolding plain_text_def by blast
  show "plain_text []" by (simp add: plain_text_def)
qed

lemma table_names_None: "table_names t k = None \<longleftrightarrow> k \<notin> account_normalized ` set (user_table t)"
  by (auto simp: table_names_def find_None_iff)

lemma read_user_shown:
  "user_shown q u s \<Longrightarrow> account_status u \<in> {''active'', ''disabled''} \<Longrightarrow> read_user s d = (Inr (user_of_row u), d)"
  by (auto simp: read_user_def user_shown_def user_of_row_def status_of_user_def db_bind_def)

lemma accounts_okD:
  assumes "accounts_ok t n" and "u \<in> set (user_table t)"
  shows "account_id u < n" and "account_status u \<in> {''active'', ''disabled''}"
  using assms by (auto simp: accounts_ok_def)

text \<open>The effect of each statement on what the tables stand for.\<close>

lemma insert_user_effect:
  assumes ok: "accounts_ok t n" and n: "n \<noteq> - 1" and st: "storable_user name norm h"
    and run: "apply_account_update now n (Insert_user name norm h) t = Some t'"
  defines "u \<equiv> new_user_row now n name norm h"
  shows "accounts_ok t' (n + 1) \<and> account_rows n Created_user t' = [u] \<and> table_accounts t n = None \<and> table_names t norm = None \<and>
     table_accounts t' = (table_accounts t)(n \<mapsto> stored_user_of u) \<and> table_names t' = (table_names t)(norm \<mapsto> n) \<and>
     table_sessions t' = table_sessions t"
proof -
  have t': "t' = t\<lparr>user_table := user_table t @ [u]\<rparr>" and new: "norm \<notin> account_normalized ` set (user_table t)"
    using run by (auto simp: u_def split: if_splits)
  have u: "account_id u = n" "account_normalized u = norm" "account_status u = ''active''"
    by (simp_all add: u_def new_user_row_def)
  have ids: "account_id x < n" if "x \<in> set (user_table t)" for x using accounts_okD(1) [OF ok that] .
  have fresh: "find (\<lambda>x. account_id x = n) (user_table t) = None"
    using ids by (auto simp: find_None_iff)
  have nonorm: "find (\<lambda>x. account_normalized x = norm) (user_table t) = None"
    using new by (auto simp: find_None_iff)
  have n1: "n < n + 1" using n by (simp add: word_less_nat_alt unat_add_one_u64)
  have "account_id x < n + 1" if "x \<in> set (user_table t)" for x using ids [OF that] n1 by (rule less_trans)
  moreover have "n \<notin> account_id ` set (user_table t)" using ids by auto
  ultimately have "accounts_ok t' (n + 1)"
    using ok new n1 u st by (auto simp: accounts_ok_def t' storable_user_def)
  moreover have "account_rows n Created_user t' = [u]"
    unfolding account_rows.simps take_filter_find using fresh u(1) by (simp add: t' find_append)
  moreover have "table_accounts t' = (table_accounts t)(n \<mapsto> stored_user_of u)"
    using fresh u(1) by (auto simp: table_accounts_def t' find_append fun_eq_iff split: option.split)
  moreover have "table_names t' = (table_names t)(norm \<mapsto> n)"
    using nonorm u(1,2) by (auto simp: table_names_def t' find_append fun_eq_iff split: option.split)
  ultimately show ?thesis using fresh nonorm
    by (simp add: table_accounts_def table_names_def table_sessions_def t' fun_eq_iff)
qed

lemma insert_session_effect:
  assumes ok: "accounts_ok t n" and st: "plain_text th"
    and run: "apply_account_update now n (Insert_session th uid ex) t = Some t'"
  shows "accounts_ok t' n \<and> table_accounts t' = table_accounts t \<and> table_names t' = table_names t \<and>
     table_sessions t' = (table_sessions t)(th \<mapsto> \<lparr>session_user = uid, session_expires = ex, session_revoked = None\<rparr>)"
proof -
  define s where "s = \<lparr>session_digest = th, session_account = uid, session_until = ex, session_revoked_at = None\<rparr>"
  have t': "t' = t\<lparr>session_table := session_table t @ [s]\<rparr>" and new: "th \<notin> session_digest ` set (session_table t)"
    using run by (auto simp: s_def split: if_splits)
  have s: "session_digest s = th" "stored_session_of s = \<lparr>session_user = uid, session_expires = ex, session_revoked = None\<rparr>"
    by (simp_all add: s_def stored_session_of_def)
  have none: "find (\<lambda>x. session_digest x = th) (session_table t) = None"
    using new by (auto simp: find_None_iff)
  have "accounts_ok t' n" using ok new s(1) st by (auto simp: accounts_ok_def t')
  moreover have "table_sessions t' = (table_sessions t)(th \<mapsto> stored_session_of s)"
    using none s(1) by (auto simp: table_sessions_def t' find_append fun_eq_iff split: option.split)
  ultimately show ?thesis using s(2) by (simp add: table_accounts_def table_names_def t' fun_eq_iff)
qed

lemma revoke_effect:
  assumes ok: "accounts_ok t n" and run: "apply_account_update now n (Revoke_session at th) t = Some t'"
  shows "accounts_ok t' n \<and> table_accounts t' = table_accounts t \<and> table_names t' = table_names t \<and>
     (\<exists>since. table_sessions t' =
        (table_sessions t)(th := map_option (\<lambda>s. s\<lparr>session_revoked := Some since\<rparr>) (table_sessions t th)))"
proof -
  define f :: "session_row \<Rightarrow> session_row" where "f = (\<lambda>s. if session_digest s = th \<and> session_revoked_at s = None then s\<lparr>session_revoked_at := Some at\<rparr> else s)"
  have t': "t' = t\<lparr>session_table := map f (session_table t)\<rparr>" using run by (auto simp: f_def)
  have f: "session_digest (f s) = session_digest s" "session_account (f s) = session_account s" "session_until (f s) = session_until s" for s
    by (simp_all add: f_def)
  have "map session_digest (map f ss) = map session_digest ss" for ss using f(1) by simp
  then have "accounts_ok t' n" using ok f(1) by (auto simp: accounts_ok_def t' simp del: map_map)
  moreover have other: "table_sessions t' k = table_sessions t k" if "k \<noteq> th" for k
  proof -
    have "find (\<lambda>s. session_digest s = k) (map f (session_table t)) = map_option f (find (\<lambda>s. session_digest s = k) (session_table t))"
      by (rule find_map_same) (simp add: f(1))
    then show ?thesis
      using that by (auto simp: table_sessions_def t' f_def option.map_comp intro!: option.map_cong0 dest!: find_SomeD split: option.split)
  qed
  moreover obtain since where "table_sessions t' th = map_option (\<lambda>s. s\<lparr>session_revoked := Some since\<rparr>) (table_sessions t th)"
  proof (cases "find (\<lambda>s. session_digest s = th) (session_table t)")
    case None
    then have "find (\<lambda>s. session_digest s = th) (map f (session_table t)) = None"
      by (subst find_map_same) (simp_all add: f(1))
    then show ?thesis using that None by (simp add: table_sessions_def t')
  next
    case (Some s)
    then have "find (\<lambda>s. session_digest s = th) (map f (session_table t)) = Some (f s)"
      by (subst find_map_same) (simp_all add: f(1))
    moreover have "\<exists>since. stored_session_of (f s) = (stored_session_of s)\<lparr>session_revoked := Some since\<rparr>"
      using find_SomeD [OF Some] by (cases "session_revoked_at s") (auto simp: f_def stored_session_of_def)
    ultimately show ?thesis using that Some by (auto simp: table_sessions_def t')
  qed
  then have "table_sessions t' = (table_sessions t)(th := map_option (\<lambda>s. s\<lparr>session_revoked := Some since\<rparr>) (table_sessions t th))"
    using other by (auto simp: fun_eq_iff)
  ultimately show ?thesis by (auto simp: table_accounts_def table_names_def t')
qed

text \<open>What the queries find.\<close>

lemma named_account:
  assumes ok: "accounts_ok t n" and found: "find (\<lambda>u. account_normalized u = k) (user_table t) = Some u"
  shows "table_accounts t (account_id u) = Some (stored_user_of u)" and "table_names t k = Some (account_id u)"
proof -
  have "u \<in> set (user_table t)" using find_SomeD [OF found] by simp
  then show "table_accounts t (account_id u) = Some (stored_user_of u)"
    using ok find_distinct [of account_id "user_table t" u] by (simp add: table_accounts_def accounts_ok_def)
  show "table_names t k = Some (account_id u)" using found by (simp add: table_names_def)
qed

lemma joined_session:
  assumes "distinct (map session_digest ss)" and "distinct (map account_id us)"
  shows "map snd (filter (\<lambda>(s, u). session_digest s = th \<and> session_revoked_at s = None \<and> session_until s > now \<and> account_status u = ''active'')
      (concat (map (\<lambda>s. map (Pair s) (filter (\<lambda>u. account_id u = session_account s) us)) ss))) =
    (case find (\<lambda>s. session_digest s = th) ss of
       None \<Rightarrow> []
     | Some s \<Rightarrow> if session_revoked_at s = None \<and> session_until s > now
                 then filter (\<lambda>u. account_status u = ''active'') (filter (\<lambda>u. account_id u = session_account s) us) else [])"
  using assms(1)
proof (induction ss)
  case (Cons s ss)
  have one: "map snd (filter (\<lambda>(s, u). session_digest s = th \<and> session_revoked_at s = None \<and> session_until s > now \<and> account_status u = ''active'')
      (map (Pair s) vs)) =
    (if session_digest s = th \<and> session_revoked_at s = None \<and> session_until s > now
     then filter (\<lambda>u. account_status u = ''active'') vs else [])" for vs
    by (induction vs) auto
  have "find (\<lambda>x. session_digest x = th) ss = None" if "session_digest s = th"
    using Cons.prems that by (auto simp: find_None_iff image_iff)
  then show ?case using Cons one by (auto split: option.splits simp del: filter_filter)
qed simp

lemma session_query:
  assumes ok: "accounts_ok t n"
  shows "map user_of_row (account_rows i (User_of_session th now) t) =
    (case session_lookup (table_accounts t) (table_sessions t) th now of None \<Rightarrow> [] | Some u \<Rightarrow> [u])"
proof -
  have d: "distinct (map session_digest (session_table t))" "distinct (map account_id (user_table t))"
    using ok by (simp_all add: accounts_ok_def)
  show ?thesis
    unfolding account_rows.simps joined_users_def joined_session [OF d]
    by (auto simp: session_lookup_def table_sessions_def table_accounts_def stored_session_of_def stored_user_of_def
        user_of_row_def status_of_user_def distinct_filter_find [OF d(2)] split: option.splits)
qed

section \<open>The operations\<close>

lemma db_hoare_unit: "db_hoare P m (\<lambda>_. Q) E \<Longrightarrow> db_hoare P (db_bind m (\<lambda>_. db_return ())) (\<lambda>_. Q) E"
  by (rule db_hoare_bind) (auto intro: db_hoare_basic(1))

context accounts_server
begin

text \<open>\<open>alive\<close> says that the server was up at the start.\<close>

definition idle :: "bool \<Rightarrow> account_tables \<Rightarrow> u64 \<Rightarrow> 'd \<Rightarrow> bool" where
  "idle alive t n d \<longleftrightarrow> tables d = t \<and> counter d = n \<and> (alive \<longrightarrow> up d)"

lemma query_step:
  assumes ok: "accounts_ok t n" and q: "plain_account_query q"
  shows "db_hoare (\<lambda>d. idle alive t n d \<and> inserted d = i) (execute_query D c q)
     (\<lambda>ss d. idle alive t n d \<and> list_all2 (user_shown q) (account_rows i q t) ss) (\<lambda>e d. idle alive t n d \<and> \<not> alive)"
proof (rule db_hoareI)
  fix d r d'
  assume pre: "idle alive t n d \<and> inserted d = i" and run: "execute_query D c q d = (r, d')"
  obtain r0 where r0: "driver_query D c q d = (r0, d')" and r: "r = (case r0 of Inl m \<Rightarrow> Inl (Db_exception m) | Inr x \<Rightarrow> Inr x)"
    using run by (auto simp: execute_query_def as_db_exception_def split: prod.splits sum.splits)
  show "case r of
      Inr ss \<Rightarrow> idle alive t n d' \<and> list_all2 (user_shown q) (account_rows i q t) ss
    | Inl e \<Rightarrow> idle alive t n d' \<and> \<not> alive"
    using query_law [OF q _ r0, of n] pre ok r by (auto simp: idle_def split: sum.splits)
qed

lemma update_step:
  assumes ok: "accounts_ok t n" and u: "storable_update u"
  defines "n' \<equiv> (if is_new_user u then n + 1 else n)"
  shows "db_hoare (idle alive t n) (execute_update D c u)
     (\<lambda>_ d. \<exists>now t'. apply_account_update now n u t = Some t' \<and> idle alive t' n' d \<and> (is_new_user u \<longrightarrow> inserted d = n))
     (\<lambda>e d. (idle alive t n d \<or> idle alive t n' d \<or> (\<exists>now t'. apply_account_update now n u t = Some t' \<and> idle alive t' n' d)) \<and>
        (alive \<longrightarrow> tables d = t \<and> (\<exists>now. apply_account_update now n u t = None) \<and>
           (is_new_user u \<longrightarrow> contains_sub ''Duplicate entry'' (exn_what e))))"
proof (rule db_hoareI)
  fix d r d'
  assume pre: "idle alive t n d" and run: "execute_update D c u d = (r, d')"
  obtain r0 where r0: "driver_update D c u d = (r0, d')" and r: "r = (case r0 of Inl m \<Rightarrow> Inl (Db_exception m) | Inr x \<Rightarrow> Inr x)"
    using run by (auto simp: execute_update_def as_db_exception_def split: prod.splits sum.splits)
  have ok': "accounts_ok (tables d) n" using pre ok by (simp add: idle_def)
  note law = update_law [OF u ok' r0]
  show "case r of
      Inr x \<Rightarrow> \<exists>now t'. apply_account_update now n u t = Some t' \<and> idle alive t' n' d' \<and> (is_new_user u \<longrightarrow> inserted d' = n)
    | Inl e \<Rightarrow> (idle alive t n d' \<or> idle alive t n' d' \<or> (\<exists>now t'. apply_account_update now n u t = Some t' \<and> idle alive t' n' d')) \<and>
        (alive \<longrightarrow> tables d' = t \<and> (\<exists>now. apply_account_update now n u t = None) \<and>
           (is_new_user u \<longrightarrow> contains_sub ''Duplicate entry'' (exn_what e)))"
  proof (cases r0)
    case (Inl m)
    have eq: "counter d = n" "tables d = t" "alive \<longrightarrow> up d" using pre by (simp_all add: idle_def)
    have now: "(\<exists>now. apply_account_update now n u t = None) \<or> \<not> alive"
      using law Inl eq by auto
    have "tables d' = t" if alive using law Inl eq that by (auto dest: sym [of None])
    then show ?thesis
      using law now unfolding Inl r idle_def n'_def by (cases "is_new_user u") (auto simp: eq simp del: apply_account_update.simps)
  next
    case (Inr k)
    then show ?thesis
      using law pre unfolding Inr r idle_def n'_def by (cases "is_new_user u") (auto simp del: apply_account_update.simps)
  qed
qed

lemma create_step:
  assumes ok: "accounts_ok t n" and n: "n \<noteq> - 1" and st: "storable_user name norm h"
  defines "row now \<equiv> new_user_row now n name norm h"
  defines "stored d \<equiv> (\<exists>now t'. apply_account_update now n (Insert_user name norm h) t = Some t' \<and> tables d = t' \<and> counter d = n + 1)"
  shows "db_hoare (idle alive t n) (create_user_row D name norm h c)
     (\<lambda>u d. \<exists>now t'. apply_account_update now n (Insert_user name norm h) t = Some t' \<and> u = user_of_row (row now) \<and> idle alive t' (n + 1) d)
     (\<lambda>e d. (tables d = t \<and> counter d \<in> {n, n + 1} \<or> stored d) \<and>
        (alive \<longrightarrow> up d \<and> tables d = t \<and> norm \<in> account_normalized ` set (user_table t) \<and>
           contains_sub ''Duplicate entry'' (exn_what e)))"
  unfolding create_user_row_def
proof (rule db_hoare_bind [where R = "\<lambda>_ d. \<exists>now t'. apply_account_update now n (Insert_user name norm h) t = Some t' \<and>
      idle alive t' (n + 1) d \<and> inserted d = n"])
  show "db_hoare (idle alive t n) (execute_update D c (Insert_user name norm h))
     (\<lambda>_ d. \<exists>now t'. apply_account_update now n (Insert_user name norm h) t = Some t' \<and> idle alive t' (n + 1) d \<and> inserted d = n)
     (\<lambda>e d. (tables d = t \<and> counter d \<in> {n, n + 1} \<or> stored d) \<and>
        (alive \<longrightarrow> up d \<and> tables d = t \<and> norm \<in> account_normalized ` set (user_table t) \<and>
           contains_sub ''Duplicate entry'' (exn_what e)))"
    by (rule db_hoare_cons [OF update_step [OF ok, of "Insert_user name norm h" alive]])
      (auto simp: st idle_def stored_def split: if_splits)
next
  fix k
  show "db_hoare
     (\<lambda>d. \<exists>now t'. apply_account_update now n (Insert_user name norm h) t = Some t' \<and> idle alive t' (n + 1) d \<and> inserted d = n)
     (db_bind (execute_query D c Created_user) (\<lambda>rows. case rows of [] \<Rightarrow> db_throw (Runtime_error ''Failed to read created user'') | row # _ \<Rightarrow> read_user row))
     (\<lambda>u d. \<exists>now t'. apply_account_update now n (Insert_user name norm h) t = Some t' \<and> u = user_of_row (row now) \<and> idle alive t' (n + 1) d)
     (\<lambda>e d. (tables d = t \<and> counter d \<in> {n, n + 1} \<or> stored d) \<and>
        (alive \<longrightarrow> up d \<and> tables d = t \<and> norm \<in> account_normalized ` set (user_table t) \<and>
           contains_sub ''Duplicate entry'' (exn_what e)))"
  proof (rule db_hoareI)
    fix d r d'
    assume "\<exists>now t'. apply_account_update now n (Insert_user name norm h) t = Some t' \<and> idle alive t' (n + 1) d \<and> inserted d = n"
      and run: "db_bind (execute_query D c Created_user) (\<lambda>rows. case rows of [] \<Rightarrow> db_throw (Runtime_error ''Failed to read created user'') | row # _ \<Rightarrow> read_user row) d = (r, d')"
    then obtain now t' where t': "apply_account_update now n (Insert_user name norm h) t = Some t'" and d: "idle alive t' (n + 1) d" "inserted d = n"
      by blast
    note eff = insert_user_effect [OF ok n st t']
    obtain z d1 where z: "execute_query D c Created_user d = (z, d1)" by fastforce
    have got: "case z of Inr ss \<Rightarrow> idle alive t' (n + 1) d1 \<and> list_all2 (user_shown Created_user) (account_rows n Created_user t') ss
        | Inl e \<Rightarrow> idle alive t' (n + 1) d1 \<and> \<not> alive"
      by (rule db_hoareD [OF query_step [OF conjunct1 [OF eff]] _ z]) (simp_all add: d)
    have read: "read_user s d1 = (Inr (user_of_row (row now)), d1)" if "user_shown Created_user (row now) s" for s
      using read_user_shown [OF that] by (simp add: row_def new_user_row_def)
    show "case r of
        Inr u \<Rightarrow> \<exists>now t'. apply_account_update now n (Insert_user name norm h) t = Some t' \<and> u = user_of_row (row now) \<and> idle alive t' (n + 1) d'
      | Inl e \<Rightarrow> (tables d' = t \<and> counter d' \<in> {n, n + 1} \<or> stored d') \<and>
          (alive \<longrightarrow> up d' \<and> tables d' = t \<and> norm \<in> account_normalized ` set (user_table t) \<and>
             contains_sub ''Duplicate entry'' (exn_what e))"
    proof (cases z)
      case (Inl e)
      then show ?thesis using got run z t'
        by (auto simp: stored_def idle_def simp del: apply_account_update.simps)
    next
      case (Inr ss)
      then obtain s where "ss = [s]" "user_shown Created_user (row now) s" "idle alive t' (n + 1) d1"
        using got eff by (auto simp: list_all2_Cons1 row_def simp del: account_rows.simps)
      then have "r = Inr (user_of_row (row now))" "idle alive t' (n + 1) d'" using run z Inr read by simp_all
      then show ?thesis using t' by auto
    qed
  qed
qed

lemma credentials_step:
  assumes ok: "accounts_ok t n" and k: "plain_text k"
  shows "db_hoare (idle alive t n) (find_credentials_row D k c)
     (\<lambda>x d. idle alive t n d \<and> x = map_option (\<lambda>u. \<lparr>cred_user = user_of_row u, cred_hash = account_hash u\<rparr>)
        (find (\<lambda>u. account_normalized u = k) (user_table t)))
     (\<lambda>e d. idle alive t n d \<and> \<not> alive)"
proof (rule db_hoareI)
  fix d r d'
  assume d: "idle alive t n d" and run: "find_credentials_row D k c d = (r, d')"
  obtain z d1 where z: "execute_query D c (User_by_name k) d = (z, d1)" by fastforce
  have got: "case z of Inr ss \<Rightarrow> idle alive t n d1 \<and> list_all2 (user_shown (User_by_name k)) (account_rows (inserted d) (User_by_name k) t) ss
      | Inl e \<Rightarrow> idle alive t n d1 \<and> \<not> alive"
    by (rule db_hoareD [OF query_step [OF ok] _ z]) (simp_all add: d k)
  have row: "read_user s d1 = (Inr (user_of_row u), d1)" "get_string s ''password_hash'' = Inr (account_hash u)"
    if "user_shown (User_by_name k) u s" "find (\<lambda>u. account_normalized u = k) (user_table t) = Some u" for u s
    using read_user_shown [OF that(1)] accounts_okD(2) [OF ok] find_SomeD [OF that(2)] that(1) by (auto simp: user_shown_def)
  show "case r of Inr x \<Rightarrow> idle alive t n d' \<and> x = map_option (\<lambda>u. \<lparr>cred_user = user_of_row u, cred_hash = account_hash u\<rparr>)
        (find (\<lambda>u. account_normalized u = k) (user_table t)) | Inl e \<Rightarrow> idle alive t n d' \<and> \<not> alive"
    using run z got unfolding account_rows.simps take_filter_find
    by (cases z) (auto simp: find_credentials_row_def list_all2_Cons1 row db_bind_def split: option.splits)
qed

lemma session_step:
  assumes ok: "accounts_ok t n" and k: "plain_text th" "storable_time now"
  shows "db_hoare (idle alive t n) (find_session_row D th now c)
     (\<lambda>x d. idle alive t n d \<and> x = session_lookup (table_accounts t) (table_sessions t) th now) (\<lambda>e d. idle alive t n d \<and> \<not> alive)"
proof (rule db_hoareI)
  fix d r d'
  assume d: "idle alive t n d" and run: "find_session_row D th now c d = (r, d')"
  let ?q = "User_of_session th now"
  obtain z d1 where z: "execute_query D c ?q d = (z, d1)" by fastforce
  have got: "case z of Inr ss \<Rightarrow> idle alive t n d1 \<and> list_all2 (user_shown ?q) (account_rows (inserted d) ?q t) ss
      | Inl e \<Rightarrow> idle alive t n d1 \<and> \<not> alive"
    by (rule db_hoareD [OF query_step [OF ok] _ z]) (simp_all add: d k)
  note rows = session_query [OF ok, of "inserted d" th now]
  have status: "account_status u \<in> {''active'', ''disabled''}" if "u \<in> set (account_rows (inserted d) ?q t)" for u
    using that accounts_okD(2) [OF ok] by (auto simp: joined_users_def dest!: in_set_takeD)
  show "case r of Inr x \<Rightarrow> idle alive t n d' \<and> x = session_lookup (table_accounts t) (table_sessions t) th now
      | Inl e \<Rightarrow> idle alive t n d' \<and> \<not> alive"
  proof (cases z)
    case (Inl e)
    then show ?thesis using run z got by (auto simp: find_session_row_def db_bind_def)
  next
    case (Inr ss)
    show ?thesis
    proof (cases "account_rows (inserted d) ?q t")
      case Nil
      then show ?thesis using run z got rows Inr
        by (auto simp: find_session_row_def db_bind_def simp del: account_rows.simps split: option.splits)
    next
      case (Cons u us)
      then obtain s ss' where ss: "ss = s # ss'" "user_shown ?q u s"
        using got Inr by (auto simp: list_all2_Cons1 simp del: account_rows.simps)
      have "read_user s d1 = (Inr (user_of_row u), d1)" using read_user_shown [OF ss(2) status] Cons by simp
      moreover have "session_lookup (table_accounts t) (table_sessions t) th now = Some (user_of_row u)"
        using rows Cons by (auto simp del: account_rows.simps split: option.splits)
      ultimately show ?thesis using run z got Inr ss(1)
        by (auto simp: find_session_row_def db_bind_def simp del: account_rows.simps)
    qed
  qed
qed

lemma insert_session_step:
  assumes ok: "accounts_ok t n" and st: "plain_text th" "length th \<le> 64" "storable_time ex"
  shows "db_hoare (idle True t n) (insert_session_row D uid th ex c)
     (\<lambda>_ d. \<exists>now t'. apply_account_update now n (Insert_session th uid ex) t = Some t' \<and> idle True t' n d)
     (\<lambda>e d. idle True t n d)"
  unfolding insert_session_row_def
  by (rule db_hoare_unit, rule db_hoare_cons [OF update_step [OF ok]])
    (auto simp: st idle_def simp del: apply_account_update.simps)

lemma revoke_session_step:
  assumes ok: "accounts_ok t n" and st: "plain_text th" "storable_time at"
  shows "db_hoare (idle True t n) (revoke_session_row D th at c)
     (\<lambda>_ d. \<exists>now t'. apply_account_update now n (Revoke_session at th) t = Some t' \<and> idle True t' n d)
     (\<lambda>e d. False)"
  unfolding revoke_session_row_def
  by (rule db_hoare_unit, rule db_hoare_cons [OF update_step [OF ok]])
    (auto simp: st idle_def)

lemma kept_by_check:
  "idle alive t n d \<Longrightarrow> driver_select_one D c d = (r, d') \<Longrightarrow> idle alive t n d' \<and> (alive \<longrightarrow> r = Inr True)"
  "idle alive t n d \<Longrightarrow> driver_reconnect D c d = (r', d') \<Longrightarrow> idle alive t n d'"
  by (auto simp: idle_def dest: ping_law reconnect_law)

definition store_ok :: "'c pool \<times> 'd \<Rightarrow> bool" where
  "store_ok a \<longleftrightarrow> free_connections (fst a) \<noteq> [] \<and> up (snd a) \<and> accounts_ok (tables (snd a)) (counter (snd a))"

lemma op_up:
  assumes body: "\<And>c. db_hoare (idle True (tables (snd a)) (counter (snd a))) (body c) Q E"
    and a: "store_ok a" and run: "with_connection D wait body a = (x, a')"
  shows "free_connections (fst a') \<noteq> [] \<and> (case x of Inr y \<Rightarrow> Q y (snd a') | Inl e \<Rightarrow> E e (snd a'))"
proof -
  let ?P = "idle True (tables (snd a)) (counter (snd a))"
  have "with_connection D wait body (fst a, snd a) = (x, fst a', snd a')" using run by simp
  moreover have "?P (snd a)" "free_connections (fst a) \<noteq> []" using a by (simp_all add: store_ok_def idle_def)
  ultimately have "free_connections (fst a') \<noteq> [] \<and> (case x of Inr y \<Rightarrow> Q y (snd a') | Inl e \<Rightarrow> E e (snd a') \<or> \<not> True \<and> ?P (snd a'))"
    by (intro with_connection_rule [where P = ?P, OF _ _ body]) (auto dest: kept_by_check)
  then show ?thesis by (cases x) simp_all
qed

lemma create_user_call:
  assumes a: "store_ok a" "counter (snd a) \<noteq> - 1" and st: "storable_user name norm h"
  shows "\<exists>r a'. mysql_create_user D wait name norm h a = (Inr r, a') \<and> store_ok a' \<and>
     table_sessions (tables (snd a')) = table_sessions (tables (snd a)) \<and>
     (if table_names (tables (snd a)) norm \<noteq> None
      then r = \<lparr>create_status = User_conflict, created_user = None\<rparr> \<and> tables (snd a') = tables (snd a)
      else \<exists>u. r = \<lparr>create_status = User_created, created_user = Some u\<rparr> \<and> user_name u = name \<and> user_state u = User_active \<and>
        table_accounts (tables (snd a)) (user_id u) = None \<and>
        table_accounts (tables (snd a')) = (table_accounts (tables (snd a)))(user_id u \<mapsto>
          \<lparr>stored_account = u, stored_name = norm, stored_hash = h\<rparr>) \<and>
        table_names (tables (snd a')) = (table_names (tables (snd a)))(norm \<mapsto> user_id u))"
proof -
  let ?t = "tables (snd a)" and ?n = "counter (snd a)"
  have ok: "accounts_ok ?t ?n" using a(1) by (simp add: store_ok_def)
  have taken: "table_names ?t norm \<noteq> None \<longleftrightarrow> norm \<in> account_normalized ` set (user_table ?t)"
    by (simp add: table_names_None)
  obtain x a' where x: "with_connection D wait (create_user_row D name norm h) a = (x, a')" by (rule prod.exhaust)
  note out = op_up [OF create_step [OF ok a(2) st] a(1) x]
  show ?thesis
  proof (cases x)
    case (Inl e)
    then have "mysql_create_user D wait name norm h a = (Inr \<lparr>create_status = User_conflict, created_user = None\<rparr>, a')"
      using x out by (simp add: mysql_create_user_def is_duplicate_error_def)
    moreover have "accounts_ok ?t (?n + 1)"
      using ok a(2) by (auto simp: accounts_ok_def intro: less_trans simp: word_less_nat_alt unat_add_one_u64)
    then have "store_ok a'" using out Inl ok by (auto simp: store_ok_def)
    ultimately show ?thesis using out Inl taken by auto
  next
    case (Inr u)
    then obtain now t' where t': "apply_account_update now ?n (Insert_user name norm h) ?t = Some t'"
      "u = user_of_row (new_user_row now ?n name norm h)" "idle True t' (?n + 1) (snd a')" "free_connections (fst a') \<noteq> []"
      using out by auto
    note eff = insert_user_effect [OF ok a(2) st t'(1)]
    have u: "user_id u = ?n" "user_name u = name" "user_state u = User_active"
      "stored_user_of (new_user_row now ?n name norm h) = \<lparr>stored_account = u, stored_name = norm, stored_hash = h\<rparr>"
      by (simp_all add: t'(2) user_of_row_def new_user_row_def status_of_user_def stored_user_of_def)
    have "mysql_create_user D wait name norm h a = (Inr \<lparr>create_status = User_created, created_user = Some u\<rparr>, a')"
      using x Inr by (simp add: mysql_create_user_def)
    moreover have "store_ok a'" using eff t'(3,4) by (simp add: store_ok_def idle_def)
    ultimately show ?thesis using eff u t'(3) by (auto simp: idle_def simp del: apply_account_update.simps)
  qed
qed

end

lemma table_names_iff:
  assumes "accounts_ok t n"
  shows "table_names t k = Some i \<longleftrightarrow> (\<exists>u. table_accounts t i = Some u \<and> stored_name u = k)"
proof
  assume "table_names t k = Some i"
  then obtain u where u: "find (\<lambda>u. account_normalized u = k) (user_table t) = Some u" "i = account_id u"
    by (auto simp: table_names_def)
  then show "\<exists>u. table_accounts t i = Some u \<and> stored_name u = k"
    using named_account [OF assms u(1)] find_SomeD [OF u(1)] by (simp add: stored_user_of_def)
next
  assume "\<exists>u. table_accounts t i = Some u \<and> stored_name u = k"
  then obtain u where u: "find (\<lambda>u. account_id u = i) (user_table t) = Some u" "account_normalized u = k"
    by (auto simp: table_accounts_def stored_user_of_def)
  then have "find (\<lambda>x. account_normalized x = account_normalized u) (user_table t) = Some u"
    using find_SomeD [OF u(1)] assms by (intro find_distinct) (auto simp: accounts_ok_def)
  then show "table_names t k = Some i" using u find_SomeD [OF u(1)] by (simp add: table_names_def)
qed

text \<open>The repository over such a server fulfils the contract of accounts and sessions.\<close>

sublocale accounts_server \<subseteq> mysql: auth_repository "mysql_auth D wait" store_ok "\<lambda>a. counter (snd a) \<noteq> - 1"
  "\<lambda>a. table_accounts (tables (snd a))" "\<lambda>a. table_names (tables (snd a))" "\<lambda>a. table_sessions (tables (snd a))"
  storable_user "\<lambda>s. plain_text s \<and> length s \<le> 64" storable_time for wait
proof (unfold_locales, goal_cases)
  case (1 bs)
  then show ?case by simp
next
  case (2 a n i)
  then show ?case using table_names_iff by (auto simp: store_ok_def)
next
  case (3 a i u)
  then show ?case by (auto simp: table_accounts_def stored_user_of_def user_of_row_def dest!: find_SomeD)
next
  case (4 a name norm h now)
  then show ?case
    using create_user_call [OF 4, of wait] by (fastforce simp: mysql_auth_def split: if_splits)
next
  case (5 a n)
  then have ok: "accounts_ok (tables (snd a)) (counter (snd a))" by (simp add: store_ok_def)
  obtain x a' where x: "with_connection D wait (find_credentials_row D n) a = (x, a')" by (rule prod.exhaust)
  note out = op_up [OF credentials_step [OF ok conjunct1 [OF 5(2)]] 5(1) x]
  then have "tables (snd a') = tables (snd a)" "store_ok a'" using ok by (auto simp: idle_def store_ok_def split: sum.splits)
  moreover have "x = Inr (case table_names (tables (snd a)) n of None \<Rightarrow> None
       | Some i \<Rightarrow> map_option (\<lambda>u. \<lparr>cred_user = stored_account u, cred_hash = stored_hash u\<rparr>) (table_accounts (tables (snd a)) i))"
    using out named_account [OF ok, of n]
    by (cases x; cases "find (\<lambda>u. account_normalized u = n) (user_table (tables (snd a)))")
      (auto simp: table_names_def stored_user_of_def)
  ultimately show ?case using x by (simp add: mysql_auth_def)
next
  case (6 a th ex uid)
  then have ok: "accounts_ok (tables (snd a)) (counter (snd a))" by (simp add: store_ok_def)
  obtain x a' where x: "with_connection D wait (insert_session_row D uid th ex) a = (x, a')" by (rule prod.exhaust)
  have th: "plain_text th" "length th \<le> 64" using 6(2) by simp_all
  note out = op_up [OF insert_session_step [OF ok th 6(3)] 6(1) x]
  show ?case
  proof (cases x)
    case (Inl e)
    then show ?thesis using out ok x by (intro exI [of _ x] exI [of _ a']) (auto simp: mysql_auth_def idle_def store_ok_def)
  next
    case (Inr y)
    then obtain now t' where t': "apply_account_update now (counter (snd a)) (Insert_session th uid ex) (tables (snd a)) = Some t'"
      "idle True t' (counter (snd a)) (snd a')" "free_connections (fst a') \<noteq> []"
      using out by auto
    show ?thesis using insert_session_effect [OF ok th(1) t'(1)] t'(2,3) x Inr
      by (intro exI [of _ x] exI [of _ a']) (auto simp: mysql_auth_def idle_def store_ok_def)
  qed
next
  case (7 a th now)
  then have ok: "accounts_ok (tables (snd a)) (counter (snd a))" by (simp add: store_ok_def)
  obtain x a' where x: "with_connection D wait (find_session_row D th now) a = (x, a')" by (rule prod.exhaust)
  note out = op_up [OF session_step [OF ok conjunct1 [OF 7(2)] 7(3)] 7(1) x]
  then show ?case using x ok by (cases x) (auto simp: mysql_auth_def idle_def store_ok_def)
next
  case (8 a th at)
  then have ok: "accounts_ok (tables (snd a)) (counter (snd a))" by (simp add: store_ok_def)
  obtain x a' where x: "with_connection D wait (revoke_session_row D th at) a = (x, a')" by (rule prod.exhaust)
  note out = op_up [OF revoke_session_step [OF ok conjunct1 [OF 8(2)] 8(3)] 8(1) x]
  then obtain y now t' where t': "x = Inr y" "apply_account_update now (counter (snd a)) (Revoke_session at th) (tables (snd a)) = Some t'"
    "idle True t' (counter (snd a)) (snd a')" "free_connections (fst a') \<noteq> []"
    by (cases x) auto
  show ?case using revoke_effect [OF ok t'(2)] t'(1,3,4) x
    by (intro exI [of _ a']) (auto simp: mysql_auth_def idle_def store_ok_def simp del: apply_account_update.simps)
qed

context accounts_server
begin

lemma mysql_contract:
  "auth_repository (mysql_auth D wait) store_ok (\<lambda>a. counter (snd a) \<noteq> - 1) (\<lambda>a. table_accounts (tables (snd a)))
     (\<lambda>a. table_names (tables (snd a))) (\<lambda>a. table_sessions (tables (snd a))) storable_user
     (\<lambda>s. plain_text s \<and> length s \<le> 64) storable_time"
  by (rule mysql.auth_repository_axioms)

text \<open>A registration while the server may fail at any call.\<close>

lemma create_user_outcome:
  assumes d: "idle False t n d" "free_connections p \<noteq> []" and ok: "accounts_ok t n" "n \<noteq> - 1" and st: "storable_user name norm h"
    and run: "mysql_create_user D wait name norm h (p, d) = (r, p', d')"
  shows "free_connections p' \<noteq> [] \<and>
    (tables d' = t \<or> norm \<notin> account_normalized ` set (user_table t) \<and>
       (\<exists>now. tables d' = t\<lparr>user_table := user_table t @ [new_user_row now n name norm h]\<rparr>)) \<and>
    (\<forall>u. r = Inr \<lparr>create_status = User_created, created_user = Some u\<rparr> \<longrightarrow>
       (\<exists>now. u = user_of_row (new_user_row now n name norm h) \<and>
          tables d' = t\<lparr>user_table := user_table t @ [new_user_row now n name norm h]\<rparr>))"
proof -
  obtain x p1 d1 where x: "with_connection D wait (create_user_row D name norm h) (p, d) = (x, p1, d1)" by (rule prod_cases3)
  have out: "free_connections p1 \<noteq> [] \<and> (case x of
      Inr u \<Rightarrow> \<exists>now t'. apply_account_update now n (Insert_user name norm h) t = Some t' \<and> u = user_of_row (new_user_row now n name norm h) \<and>
        idle False t' (n + 1) d1
    | Inl e \<Rightarrow> ((tables d1 = t \<and> counter d1 \<in> {n, n + 1} \<or>
         (\<exists>now t'. apply_account_update now n (Insert_user name norm h) t = Some t' \<and> tables d1 = t' \<and> counter d1 = n + 1)) \<and>
        (False \<longrightarrow> up d1 \<and> tables d1 = t \<and> norm \<in> account_normalized ` set (user_table t) \<and>
           contains_sub ''Duplicate entry'' (exn_what e))) \<or> \<not> False \<and> idle False t n d1)"
    by (rule with_connection_rule [where P = "idle False t n", OF _ _ create_step [OF ok st] d x]) (auto dest: kept_by_check)
  have same: "p' = p1" "d' = d1" using run x by (auto simp: mysql_create_user_def split: sum.splits if_splits)
  show ?thesis
  proof (cases x)
    case (Inl e)
    then show ?thesis using out run x unfolding same
      by (auto simp: mysql_create_user_def idle_def split: if_splits; metis)
  next
    case (Inr u)
    then show ?thesis using out run x unfolding same
      by (auto simp: mysql_create_user_def idle_def split: if_splits; metis)
  qed
qed

end

section \<open>A server for evaluation\<close>

text \<open>A list says which of the next calls lose the connection.\<close>

record account_db =
  acc_tables :: account_tables
  acc_counter :: u64
  acc_inserted :: u64
  acc_faults :: "bool list"

definition account_fault :: "account_db \<Rightarrow> bool \<times> account_db" where
  "account_fault d = (case acc_faults d of [] \<Rightarrow> (False, d) | b # bs \<Rightarrow> (b, d\<lparr>acc_faults := bs\<rparr>))"

definition faulty :: "(account_db \<Rightarrow> (string + 'a) \<times> account_db) \<Rightarrow> account_db \<Rightarrow> (string + 'a) \<times> account_db" where
  "faulty f d = (case account_fault d of (True, d1) \<Rightarrow> (Inl ''Lost connection'', d1) | (False, d1) \<Rightarrow> f d1)"

definition account_store :: "account_update \<Rightarrow> account_db \<Rightarrow> (string + int) \<times> account_db" where
  "account_store u d =
     (let d1 = (if is_new_user u then d\<lparr>acc_counter := acc_counter d + 1\<rparr> else d)
      in case apply_account_update 0 (acc_counter d) u (acc_tables d) of
           None \<Rightarrow> (Inl ''Duplicate entry'', d1)
         | Some t \<Rightarrow> (Inr 1, d1\<lparr>acc_tables := t, acc_inserted := (if is_new_user u then acc_counter d else acc_inserted d)\<rparr>))"

definition account_sql_row :: "user_row \<Rightarrow> sql_row" where
  "account_sql_row u =
     \<lparr>get_string = (\<lambda>k. Inr (if k = ''username'' then account_name u else if k = ''status'' then account_status u else account_hash u)),
      get_uint64 = (\<lambda>k. Inr (account_id u)),
      get_int64 = (\<lambda>k. Inr (if k = ''created_at_epoch'' then account_created u else account_updated u)),
      is_null = (\<lambda>k. False)\<rparr>"

definition plain_accounts :: "(nat, account_db) account_driver" where
  "plain_accounts =
     \<lparr>driver_connect = (\<lambda>opts. faulty (\<lambda>d. (Inr 0, d))),
      driver_raw = (\<lambda>c s. faulty (\<lambda>d. (Inr 0, d))),
      driver_update = (\<lambda>c u. faulty (account_store u)),
      driver_query = (\<lambda>c q. faulty (\<lambda>d. (Inr (map account_sql_row (account_rows (acc_inserted d) q (acc_tables d))), d))),
      driver_select_one = (\<lambda>c. faulty (\<lambda>d. (Inr True, d))),
      driver_reconnect = (\<lambda>c. faulty (\<lambda>d. (Inr (), d)))\<rparr>"

lemma faulty_cases:
  assumes "faulty f d = (r, d')"
  obtains d1 where "acc_tables d1 = acc_tables d" "acc_counter d1 = acc_counter d" "acc_inserted d1 = acc_inserted d"
    "acc_faults d = [] \<longrightarrow> acc_faults d1 = [] \<and> (r, d') = f d1" "(r, d') = f d1 \<or> (r, d') = (Inl ''Lost connection'', d1)"
proof -
  obtain b d1 where f: "account_fault d = (b, d1)" by (rule prod.exhaust)
  then have "acc_tables d1 = acc_tables d \<and> acc_counter d1 = acc_counter d \<and> acc_inserted d1 = acc_inserted d \<and>
      (acc_faults d = [] \<longrightarrow> \<not> b \<and> acc_faults d1 = [])"
    by (auto simp: account_fault_def split: list.splits)
  then show ?thesis using that [of d1] assms f by (cases b) (auto simp: faulty_def)
qed

interpretation plain_accounts_server: accounts_server plain_accounts acc_tables acc_counter acc_inserted "\<lambda>d. 0" "\<lambda>d. acc_faults d = []"
proof (unfold_locales, goal_cases)
  case (1 c d alive d')
  then show ?case by (auto simp: plain_accounts_def elim!: faulty_cases)
next
  case (2 c d again d')
  then show ?case by (auto simp: plain_accounts_def elim!: faulty_cases)
next
  case (3 u d n c r d')
  from 3(3) have "faulty (account_store u) d = (r, d')" by (simp add: plain_accounts_def)
  then obtain d1 where d1: "acc_tables d1 = acc_tables d" "acc_counter d1 = acc_counter d" "acc_inserted d1 = acc_inserted d"
    "acc_faults d = [] \<longrightarrow> acc_faults d1 = [] \<and> (r, d') = account_store u d1"
    "(r, d') = account_store u d1 \<or> (r, d') = (Inl ''Lost connection'', d1)"
    by (rule faulty_cases)
  then show ?case
    by (cases "apply_account_update 0 (acc_counter d) u (acc_tables d)"; cases "is_new_user u")
      (auto simp: account_store_def Let_def contains_sub.simps starts_with.simps simp del: apply_account_update.simps)
next
  case (4 q d n c found d')
  have shown: "list_all2 (user_shown q) us (map account_sql_row us)" for us
    by (simp add: list_all2_map2 list.rel_refl user_shown_def account_sql_row_def)
  from 4(3) show ?case by (auto simp: plain_accounts_def shown simp del: account_rows.simps elim!: faulty_cases)
qed

section \<open>Properties\<close>

text \<open>C26: sessions in MySQL. While the server is up, a login that succeeds proves the same as with the
  in-memory repository: the name is that of an active account whose hash verifies the password, and the
  token it returns authenticates exactly this user until it expires; after a logout it authenticates
  nobody, and other tokens are unaffected.\<close>

theorem mysql_session_lifetime:
  assumes server: "accounts_server D tables counter inserted server_time up"
    and "auth_repository_of sv = mysql_auth D wait" and "crypto_laws (auth_crypto sv)"
    and "auth_store w = (p, d)" and "free_connections p \<noteq> []" and "up d" and "accounts_ok (tables d) (counter d)"
    and "plain_text (normalize_username name)" and "length name \<le> 64" and "storable_time (now + session_ttl sv)"
    and "login sv now name pw w = (Inr res, w')" and "auth_status_of res = Auth_success"
  shows "\<exists>s su i. auth_session_of res = Some s \<and> auth_expires s = now + session_ttl sv \<and>
     table_names (tables d) (normalize_username name) = Some i \<and> table_accounts (tables d) i = Some su \<and>
     auth_user s = stored_account su \<and> user_state (stored_account su) = User_active \<and>
     verify_password (auth_crypto sv) pw (stored_hash su) \<and>
     (\<forall>t. storable_time t \<longrightarrow> fst (authenticate sv t (auth_token s) w') = Inr (if t < auth_expires s then Some (auth_user s) else None)) \<and>
     (storable_time later \<longrightarrow> (\<exists>v. logout sv later (auth_token s) w' = (Inr (), v) \<and>
        (\<forall>t. storable_time t \<longrightarrow> fst (authenticate sv t (auth_token s) v) = Inr None) \<and>
        (\<forall>t tok. storable_time t \<and> token_hash (auth_crypto sv) tok \<noteq> token_hash (auth_crypto sv) (auth_token s) \<longrightarrow>
           fst (authenticate sv t tok v) = fst (authenticate sv t tok w'))))"
proof -
  have "accounts_server.store_ok tables counter up (auth_store w)"
    using assms(4-7) by (simp add: accounts_server.store_ok_def [OF server])
  moreover have "plain_text (normalize_username name) \<and> length (normalize_username name) \<le> 64"
    using assms(8,9) by (simp add: normalize_username_def)
  ultimately show ?thesis
    using auth_repository.login_session_life [OF accounts_server.mysql_contract [OF server] assms(2,3) _ _ assms(10-12), of later] assms(4) by auto
qed

text \<open>An account whose password is known, and a login of its user.\<close>

definition sample_hash :: string where
  "sample_hash = encode_hash (replicate 16 0) (plain_digest 32 ''correct horse'')"

definition sample_accounts :: "bool list \<Rightarrow> account_db" where
  "sample_accounts faults =
     \<lparr>acc_tables = \<lparr>user_table = [new_user_row 3 1 ''Alice'' ''alice'' sample_hash], session_table = []\<rparr>,
      acc_counter = 2, acc_inserted = 0, acc_faults = faults\<rparr>"

definition sample_pool :: "nat pool" where
  "sample_pool = empty_pool\<lparr>free_connections := [0], pool_initialized := True\<rparr>"

definition sample_mysql_service :: "(nat pool \<times> account_db, nat) auth_service" where
  "sample_mysql_service =
     \<lparr>auth_repository_of = mysql_auth plain_accounts (\<lambda>p d. (0, p, d)), auth_crypto = plain_crypto, session_ttl = 600, dummy_hash = ''!''\<rparr>"

lemma sample_accounts_ok: "accounts_ok (acc_tables (sample_accounts faults)) (acc_counter (sample_accounts faults))"
  by (simp add: accounts_ok_def sample_accounts_def new_user_row_def plain_text_def)

lemma sample_hash_verifies: "verify_password plain_crypto ''correct horse'' sample_hash"
  using hash_verifies [OF plain_crypto_laws plain_hash [of "''correct horse''" 0]] by (simp add: sample_hash_def)

lemma sample_mysql_login:
  "\<exists>res w'. login sample_mysql_service 6 ''aLICE'' ''correct horse'' \<lparr>auth_store = (sample_pool, sample_accounts []), auth_rng = 1\<rparr> = (Inr res, w') \<and>
     auth_status_of res = Auth_success"
proof -
  have name: "normalize_username ''aLICE'' = ''alice''" by code_simp
  show ?thesis
    using plain_token [of 1] plain_token_hash sample_hash_verifies
    by (simp add: login_def sample_mysql_service_def mysql_auth_def name find_credentials_row_def insert_session_row_def
        with_connection_def take_connection_def get_connection_def check_out_def ping_def sample_pool_def empty_pool_def
        plain_accounts_def faulty_def account_fault_def execute_query_def execute_update_def as_db_exception_def
        sample_accounts_def account_sql_row_def new_user_row_def read_user_def account_store_def release_connection_def
        service_create_session_def session_result_def Let_def)
qed

lemma mysql_session_lifetime_witness:
  "\<exists>res w' s. login sample_mysql_service 6 ''aLICE'' ''correct horse'' \<lparr>auth_store = (sample_pool, sample_accounts []), auth_rng = 1\<rparr> = (Inr res, w') \<and>
     auth_session_of res = Some s \<and> auth_expires s = 606 \<and>
     fst (authenticate sample_mysql_service 605 (auth_token s) w') = Inr (Some (auth_user s)) \<and>
     fst (authenticate sample_mysql_service 606 (auth_token s) w') = Inr None"
proof -
  let ?w = "\<lparr>auth_store = (sample_pool, sample_accounts []), auth_rng = 1\<rparr>"
  obtain res w' where run: "login sample_mysql_service 6 ''aLICE'' ''correct horse'' ?w = (Inr res, w')" "auth_status_of res = Auth_success"
    using sample_mysql_login by blast
  have parts: "auth_repository_of sample_mysql_service = mysql_auth plain_accounts (\<lambda>p d. (0, p, d))"
    "crypto_laws (auth_crypto sample_mysql_service)" "auth_store ?w = (sample_pool, sample_accounts [])"
    "free_connections sample_pool \<noteq> []" "acc_faults (sample_accounts []) = []"
    by (simp_all add: sample_mysql_service_def plain_crypto_laws sample_pool_def sample_accounts_def)
  have name: "normalize_username ''aLICE'' = ''alice''" by code_simp
  have fits: "plain_text (normalize_username ''aLICE'')" "length ''aLICE'' \<le> 64" "storable_time (6 + session_ttl sample_mysql_service)"
    by (simp_all add: name plain_text_def storable_time_def sample_mysql_service_def)
  obtain s where s: "auth_session_of res = Some s" "auth_expires s = 6 + session_ttl sample_mysql_service"
    "\<forall>t. storable_time t \<longrightarrow> fst (authenticate sample_mysql_service t (auth_token s) w') =
       Inr (if t < auth_expires s then Some (auth_user s) else None)"
    using mysql_session_lifetime [where later = 7, OF plain_accounts_server.accounts_server_axioms parts sample_accounts_ok fits run] by blast
  have e: "auth_expires s = 606" using s(2) by (simp add: sample_mysql_service_def)
  have "storable_time 605" "storable_time 606" by (simp_all add: storable_time_def)
  then have "fst (authenticate sample_mysql_service 605 (auth_token s) w') = Inr (Some (auth_user s))"
    "fst (authenticate sample_mysql_service 606 (auth_token s) w') = Inr None"
    using s(3) e by simp_all
  then show ?thesis using run(1) s(1) e by blast
qed



end
