(* ===== verification/Sessions.thy ===== *)
theory Sessions
  imports HttpMessages
begin

text \<open>
  \<open>Session.h/.cpp\<close>, \<open>SessionStorage.h/.cpp\<close> and \<open>SessionManager.h/.cpp\<close>: HTTP sessions in memory. The
  \<open>shared_ptr\<close>s of the sources are addresses in a heap of session objects, because the storage and
  the handlers share them: a value set through one is read through the other. Readings of
  \<open>system_clock\<close> are in nanoseconds; the generator of the ids is a parameter.
\<close>

section \<open>Sessions and their storage\<close>

record http_session =
  hs_id :: string
  hs_data :: "(string \<times> string) list"
  hs_expiry :: int
  hs_max_age :: int
  hs_managed :: bool

record 'r session_world =
  session_heap :: "http_session list"
  stored_sessions :: "(string \<times> nat) list"
  session_rng :: 'r

definition second_ns :: int where
  "second_ns = 1000000000"

definition session_is_expired :: "int \<Rightarrow> http_session \<Rightarrow> bool" where
  "session_is_expired now s \<longleftrightarrow> now > hs_expiry s"

definition refresh_session :: "int \<Rightarrow> http_session \<Rightarrow> http_session" where
  "refresh_session now s = s\<lparr>hs_expiry := now + hs_max_age s * second_ns\<rparr>"

text \<open>The constructor with the manager and the default age.\<close>

definition new_session :: "string \<Rightarrow> int \<Rightarrow> http_session" where
  "new_session i now = refresh_session now \<lparr>hs_id = i, hs_data = [], hs_expiry = 0, hs_max_age = 3600, hs_managed = True\<rparr>"

definition change_session :: "nat \<Rightarrow> (http_session \<Rightarrow> http_session) \<Rightarrow> 'r session_world \<Rightarrow> 'r session_world" where
  "change_session a f w = w\<lparr>session_heap := (session_heap w)[a := f (session_heap w ! a)]\<rparr>"

definition save_session :: "nat \<Rightarrow> 'r session_world \<Rightarrow> 'r session_world" where
  "save_session a w = w\<lparr>stored_sessions := AList.update (hs_id (session_heap w ! a)) a (stored_sessions w)\<rparr>"

definition load_session :: "int \<Rightarrow> string \<Rightarrow> 'r session_world \<Rightarrow> nat option \<times> 'r session_world" where
  "load_session now i w =
     (case map_of (stored_sessions w) i of
        None \<Rightarrow> (None, w)
      | Some a \<Rightarrow>
          if \<not> session_is_expired now (session_heap w ! a) then (Some a, w)
          else (None, w\<lparr>stored_sessions := AList.delete i (stored_sessions w)\<rparr>))"

definition remove_session :: "string \<Rightarrow> 'r session_world \<Rightarrow> 'r session_world" where
  "remove_session i w = w\<lparr>stored_sessions := AList.delete i (stored_sessions w)\<rparr>"

text \<open>The data of a session; \<open>setValue\<close> saves the session when it has a manager.\<close>

definition set_session_value :: "nat \<Rightarrow> string \<Rightarrow> string \<Rightarrow> 'r session_world \<Rightarrow> 'r session_world" where
  "set_session_value a k v w =
     (let w1 = change_session a (\<lambda>s. s\<lparr>hs_data := AList.update k v (hs_data s)\<rparr>) w
      in if hs_managed (session_heap w1 ! a) then save_session a w1 else w1)"

definition get_session_value :: "nat \<Rightarrow> string \<Rightarrow> 'r session_world \<Rightarrow> string" where
  "get_session_value a k w = (case map_of (hs_data (session_heap w ! a)) k of Some v \<Rightarrow> v | None \<Rightarrow> [])"

definition remove_session_value :: "nat \<Rightarrow> string \<Rightarrow> 'r session_world \<Rightarrow> 'r session_world" where
  "remove_session_value a k = change_session a (\<lambda>s. s\<lparr>hs_data := AList.delete k (hs_data s)\<rparr>)"

definition clear_session :: "nat \<Rightarrow> 'r session_world \<Rightarrow> 'r session_world" where
  "clear_session a = change_session a (\<lambda>s. s\<lparr>hs_data := []\<rparr>)"

section \<open>The manager\<close>

text \<open>\<open>cookie.find(\<dots>)\<close>: what follows the first occurrence.\<close>

fun after_sub :: "string \<Rightarrow> string \<Rightarrow> string option" where
  "after_sub p [] = (if p = [] then Some [] else None)"
| "after_sub p (c # s) = (if starts_with p (c # s) then Some (drop (length p) (c # s)) else after_sub p s)"

definition session_id_from_cookie :: "http_request \<Rightarrow> string" where
  "session_id_from_cookie req =
     (let cookie = get_header ''Cookie'' req
      in if cookie = [] then []
         else (case after_sub ''sessionId='' cookie of None \<Rightarrow> [] | Some s \<Rightarrow> fst (cut_at CHR '';'' s)))"

definition set_id_cookie :: "string \<Rightarrow> http_response \<Rightarrow> http_response" where
  "set_id_cookie i = add_header ''Set-Cookie'' (''sessionId='' @ i @ ''; Path=/; HttpOnly'')"

text \<open>One draw of the distribution on 0 to 15 per digit.\<close>

fun random_digits :: "('r \<Rightarrow> nat \<times> 'r) \<Rightarrow> nat \<Rightarrow> 'r \<Rightarrow> string \<times> 'r" where
  "random_digits draw 0 r = ([], r)"
| "random_digits draw (Suc n) r =
     (case draw r of (d, r1) \<Rightarrow> (case random_digits draw n r1 of (ds, r2) \<Rightarrow> (hex_char d # ds, r2)))"

definition generate_session_id :: "('r \<Rightarrow> nat \<times> 'r) \<Rightarrow> 'r session_world \<Rightarrow> string \<times> 'r session_world" where
  "generate_session_id draw w = (case random_digits draw 32 (session_rng w) of (i, r) \<Rightarrow> (i, w\<lparr>session_rng := r\<rparr>))"

definition fresh_session ::
  "('r \<Rightarrow> nat \<times> 'r) \<Rightarrow> int \<Rightarrow> http_response \<Rightarrow> 'r session_world \<Rightarrow> nat \<times> http_response \<times> 'r session_world" where
  "fresh_session draw now resp w =
     (case generate_session_id draw w of
        (i, w1) \<Rightarrow>
          (length (session_heap w1), set_id_cookie i resp, w1\<lparr>session_heap := session_heap w1 @ [new_session i now]\<rparr>))"

definition get_session ::
  "('r \<Rightarrow> nat \<times> 'r) \<Rightarrow> (nat \<Rightarrow> int) \<Rightarrow> http_request \<Rightarrow> http_response \<Rightarrow> 'r session_world \<Rightarrow>
   nat \<times> http_response \<times> 'r session_world" where
  "get_session draw clk req resp w =
     (let i = session_id_from_cookie req;
          (found, w1) = (if i \<noteq> [] then load_session (clk 0) i w else (None, w));
          (a, resp1, w2) =
            (case found of
               None \<Rightarrow> fresh_session draw (clk 2) resp w1
             | Some b \<Rightarrow>
                 if session_is_expired (clk 1) (session_heap w1 ! b) then fresh_session draw (clk 2) resp w1
                 else (b, resp, change_session b (\<lambda>s. s\<lparr>hs_managed := True\<rparr>) w1));
          w3 = change_session a (refresh_session (clk 3)) w2
      in (a, resp1, save_session a w3))"

definition destroy_session :: "string \<Rightarrow> 'r session_world \<Rightarrow> 'r session_world" where
  "destroy_session = remove_session"

text \<open>\<open>cleanExpiredSessions\<close> has an empty body.\<close>

definition clean_expired_sessions :: "'r session_world \<Rightarrow> 'r session_world" where
  "clean_expired_sessions w = w"

section \<open>Calls\<close>

datatype session_call =
    Get_session "nat \<Rightarrow> int" http_request http_response
  | Set_value nat string string
  | Remove_value nat string
  | Clear_values nat
  | Destroy_session string
  | Clean_expired

fun session_step :: "('r \<Rightarrow> nat \<times> 'r) \<Rightarrow> session_call \<Rightarrow> 'r session_world \<Rightarrow> 'r session_world" where
  "session_step draw (Get_session clk req resp) w = snd (snd (get_session draw clk req resp w))"
| "session_step draw (Set_value a k v) w = set_session_value a k v w"
| "session_step draw (Remove_value a k) w = remove_session_value a k w"
| "session_step draw (Clear_values a) w = clear_session a w"
| "session_step draw (Destroy_session i) w = destroy_session i w"
| "session_step draw Clean_expired w = clean_expired_sessions w"

text \<open>A handler calls the methods of sessions that exist.\<close>

fun on_heap :: "session_call \<Rightarrow> 'r session_world \<Rightarrow> bool" where
  "on_heap (Set_value a k v) w = (a < length (session_heap w))"
| "on_heap (Remove_value a k) w = (a < length (session_heap w))"
| "on_heap (Clear_values a) w = (a < length (session_heap w))"
| "on_heap call w = True"

fun session_run :: "('r \<Rightarrow> nat \<times> 'r) \<Rightarrow> session_call list \<Rightarrow> 'r session_world \<Rightarrow> 'r session_world" where
  "session_run draw [] w = w"
| "session_run draw (call # calls) w = session_run draw calls (session_step draw call w)"

fun calls_on_heap :: "('r \<Rightarrow> nat \<times> 'r) \<Rightarrow> session_call list \<Rightarrow> 'r session_world \<Rightarrow> bool" where
  "calls_on_heap draw [] w = True"
| "calls_on_heap draw (call # calls) w = (on_heap call w \<and> calls_on_heap draw calls (session_step draw call w))"

definition init_sessions :: "'r \<Rightarrow> 'r session_world" where
  "init_sessions r = \<lparr>session_heap = [], stored_sessions = [], session_rng = r\<rparr>"

section \<open>Lemmas\<close>

definition sessions_ok :: "'r session_world \<Rightarrow> bool" where
  "sessions_ok w \<longleftrightarrow>
     distinct (map fst (stored_sessions w)) \<and>
     (\<forall>i a. map_of (stored_sessions w) i = Some a \<longrightarrow> a < length (session_heap w) \<and> hs_id (session_heap w ! a) = i) \<and>
     (\<forall>s\<in>set (session_heap w). hs_max_age s = 3600 \<and> distinct (map fst (hs_data s)))"

named_theorems session_defs \<open>definitions of the session operations\<close>

lemmas [session_defs] = change_session_def save_session_def remove_session_def set_session_value_def remove_session_value_def
  clear_session_def destroy_session_def clean_expired_sessions_def

lemma same_session [simp]:
  "hs_id (refresh_session t s) = hs_id s" "hs_data (refresh_session t s) = hs_data s"
  "hs_max_age (refresh_session t s) = hs_max_age s" "hs_managed (refresh_session t s) = hs_managed s"
  "hs_expiry (refresh_session t s) = t + hs_max_age s * second_ns"
  "hs_id (new_session i t) = i" "hs_data (new_session i t) = []" "hs_max_age (new_session i t) = 3600"
  "hs_managed (new_session i t)"
  by (simp_all add: refresh_session_def new_session_def)

lemma ok_change:
  assumes "sessions_ok w" and "a < length (session_heap w)"
    and "\<And>s. hs_id (f s) = hs_id s \<and> hs_max_age (f s) = hs_max_age s \<and> (distinct (map fst (hs_data s)) \<longrightarrow> distinct (map fst (hs_data (f s))))"
  shows "sessions_ok (change_session a f w)"
  using assms by (auto simp: sessions_ok_def change_session_def nth_list_update set_update_distinct dest!: set_update_subset_insert [THEN subsetD])

lemma ok_save: "sessions_ok w \<Longrightarrow> a < length (session_heap w) \<Longrightarrow> sessions_ok (save_session a w)"
  by (auto simp: sessions_ok_def save_session_def update_conv' distinct_update split: if_splits)

lemma ok_remove: "sessions_ok w \<Longrightarrow> sessions_ok (remove_session i w)"
  by (auto simp: sessions_ok_def remove_session_def delete_conv' distinct_delete split: if_splits)

lemma load_cases:
  obtains (missing) "load_session now i w = (None, w)" "map_of (stored_sessions w) i = None"
  | (live) a where "load_session now i w = (Some a, w)" "map_of (stored_sessions w) i = Some a" "now \<le> hs_expiry (session_heap w ! a)"
  | (expired) a where "load_session now i w = (None, remove_session i w)" "map_of (stored_sessions w) i = Some a"
      "hs_expiry (session_heap w ! a) < now"
proof (cases "map_of (stored_sessions w) i")
  case None
  then show ?thesis using missing by (simp add: load_session_def)
next
  case (Some a)
  then show ?thesis using live [of a] expired [of a]
    by (cases "now \<le> hs_expiry (session_heap w ! a)") (simp_all add: load_session_def session_is_expired_def remove_session_def)
qed

text \<open>Either the stored session of the cookie, or a new one; \<open>st\<close> is the storage without an expired session.\<close>

lemma get_session_cases:
  assumes ok: "sessions_ok w" and run: "get_session draw clk req resp w = (a, resp', w')"
  obtains (known) "session_id_from_cookie req \<noteq> []" "map_of (stored_sessions w) (session_id_from_cookie req) = Some a"
      "clk 0 \<le> hs_expiry (session_heap w ! a)" "clk 1 \<le> hs_expiry (session_heap w ! a)" "resp' = resp"
      "w' = save_session a (change_session a (\<lambda>s. refresh_session (clk 3) (s\<lparr>hs_managed := True\<rparr>)) w)"
  | (fresh) i r st where "random_digits draw 32 (session_rng w) = (i, r)" "a = length (session_heap w)" "resp' = set_id_cookie i resp"
      "st \<in> {stored_sessions w, AList.delete (session_id_from_cookie req) (stored_sessions w)}"
      "\<And>b. session_id_from_cookie req \<noteq> [] \<Longrightarrow> map_of (stored_sessions w) (session_id_from_cookie req) = Some b \<Longrightarrow>
         hs_expiry (session_heap w ! b) < clk 0 \<or> hs_expiry (session_heap w ! b) < clk 1"
      "w' = w\<lparr>session_heap := session_heap w @ [refresh_session (clk 3) (new_session i (clk 2))],
              stored_sessions := AList.update i a st, session_rng := r\<rparr>"
proof -
  define i where "i = session_id_from_cookie req"
  obtain new r where new: "random_digits draw 32 (session_rng w) = (new, r)" by (rule prod.exhaust)
  have made: "fresh_session draw t resp v = (length (session_heap w), set_id_cookie new resp,
      v\<lparr>session_rng := r, session_heap := session_heap w @ [new_session new t]\<rparr>)"
    if "session_heap v = session_heap w" "session_rng v = session_rng w" for t v
    using that new by (simp add: fresh_session_def generate_session_id_def)
  note run = run [unfolded get_session_def i_def [symmetric] Let_def]
  show ?thesis
  proof (cases "i = []")
    case True
    then show ?thesis
      using run made [of w] fresh [of new r "stored_sessions w"] new
      by (auto simp: change_session_def save_session_def i_def)
  next
    case False
    show ?thesis
    proof (cases rule: load_cases [of "clk 0" i w])
      case missing
      then show ?thesis
        using run made [of w] missing False fresh [of new r "stored_sessions w"] new
        by (auto simp: change_session_def save_session_def i_def)
    next
      case (live b)
      show ?thesis
      proof (cases "session_is_expired (clk 1) (session_heap w ! b)")
        case True
        then show ?thesis
          using run made [of w] live False fresh [of new r "stored_sessions w"] new
          by (auto simp: change_session_def save_session_def session_is_expired_def i_def)
      next
        case fine: False
        have "b < length (session_heap w)" using ok live(2) by (auto simp: sessions_ok_def)
        then show ?thesis
          using run live False fine known unfolding i_def
          by (auto simp: change_session_def save_session_def session_is_expired_def)
      qed
    next
      case (expired b)
      then show ?thesis
        using run made [of "remove_session i w"] False fresh [of new r "AList.delete i (stored_sessions w)"] new
        by (auto simp: change_session_def save_session_def remove_session_def i_def)
    qed
  qed
qed

lemma ok_get_session:
  assumes ok: "sessions_ok w" and run: "get_session draw clk req resp w = (a, resp', w')"
  shows "sessions_ok w' \<and> a < length (session_heap w') \<and> map_of (stored_sessions w') (hs_id (session_heap w' ! a)) = Some a \<and>
    hs_expiry (session_heap w' ! a) = clk 3 + 3600 * second_ns"
  using ok run
proof (cases rule: get_session_cases)
  case known
  have a: "a < length (session_heap w)" "hs_max_age (session_heap w ! a) = 3600"
    using ok known(2) by (auto simp: sessions_ok_def)
  have "sessions_ok (change_session a (\<lambda>s. refresh_session (clk 3) (s\<lparr>hs_managed := True\<rparr>)) w)"
    by (rule ok_change [OF ok a(1)]) simp
  from ok_save [OF this, of a] have "sessions_ok w'" using a(1) by (simp add: known(6) change_session_def)
  then show ?thesis using a by (simp add: known(6) change_session_def save_session_def update_conv')
next
  case (fresh i r st)
  have st: "distinct (map fst st)" "\<And>k b. map_of st k = Some b \<Longrightarrow> map_of (stored_sessions w) k = Some b"
    using fresh(4) ok by (auto simp: sessions_ok_def distinct_delete delete_conv' split: if_splits)
  have "sessions_ok w'"
    unfolding sessions_ok_def
  proof (intro conjI allI impI ballI)
    show "distinct (map fst (stored_sessions w'))" using st(1) by (simp add: fresh(6) distinct_update)
    fix k b
    assume "map_of (stored_sessions w') k = Some b"
    then have "k = i \<and> b = a \<or> map_of (stored_sessions w) k = Some b"
      using st(2) by (auto simp: fresh(6) update_conv' split: if_splits)
    then show "b < length (session_heap w')" "hs_id (session_heap w' ! b) = k"
      using ok by (auto simp: fresh(2,6) nth_append sessions_ok_def less_SucI)
  next
    fix s
    assume "s \<in> set (session_heap w')"
    then show "hs_max_age s = 3600" "distinct (map fst (hs_data s))" using ok by (auto simp: fresh(6) sessions_ok_def)
  qed
  then show ?thesis by (simp add: fresh(2,6) update_conv' nth_append)
qed

lemma ok_step:
  assumes ok: "sessions_ok w" and "on_heap call w"
  shows "sessions_ok (session_step draw call w)"
proof (cases call)
  case (Get_session clk req resp)
  then show ?thesis using ok_get_session [OF ok, of draw clk req resp] by (cases "get_session draw clk req resp w") auto
next
  case (Set_value a k v)
  then have a: "a < length (session_heap w)" using assms(2) by simp
  have changed: "sessions_ok (change_session a (\<lambda>s. s\<lparr>hs_data := AList.update k v (hs_data s)\<rparr>) w)"
    by (rule ok_change [OF ok a]) (simp add: distinct_update)
  then show ?thesis using Set_value a ok_save [OF changed, of a] by (simp add: set_session_value_def Let_def change_session_def)
next
  case (Remove_value a k)
  then show ?thesis using assms ok_change [OF ok, of a] by (simp add: remove_session_value_def distinct_delete)
next
  case (Clear_values a)
  then show ?thesis using assms ok_change [OF ok, of a] by (simp add: clear_session_def)
qed (use ok in \<open>simp_all add: destroy_session_def clean_expired_sessions_def ok_remove\<close>)

lemma ok_run: "sessions_ok w \<Longrightarrow> calls_on_heap draw calls w \<Longrightarrow> sessions_ok (session_run draw calls w)"
  by (induction calls arbitrary: w) (simp_all add: ok_step)

text \<open>
  What other calls may do so that a value stays: no other session gets the same id, the value is not
  overwritten or removed, the session is not destroyed, and the clock stays within the age of the
  session after time \<open>t\<close>.
\<close>

definition in_age :: "int \<Rightarrow> (nat \<Rightarrow> int) \<Rightarrow> bool" where
  "in_age t clk \<longleftrightarrow> (\<forall>i\<in>{0, 1, 2, 3}. t \<le> clk i \<and> clk i \<le> t + 3600 * second_ns)"

fun calm :: "('r \<Rightarrow> nat \<times> 'r) \<Rightarrow> nat \<Rightarrow> string \<Rightarrow> int \<Rightarrow> session_call \<Rightarrow> 'r session_world \<Rightarrow> bool" where
  "calm draw a k t (Get_session clk req resp) w =
     (in_age t clk \<and> fst (random_digits draw 32 (session_rng w)) \<notin> hs_id ` set (session_heap w))"
| "calm draw a k t (Set_value b k' v) w = (b < length (session_heap w) \<and> (b \<noteq> a \<or> k' \<noteq> k))"
| "calm draw a k t (Remove_value b k') w = (b < length (session_heap w) \<and> (b \<noteq> a \<or> k' \<noteq> k))"
| "calm draw a k t (Clear_values b) w = (b < length (session_heap w) \<and> b \<noteq> a)"
| "calm draw a k t (Destroy_session i) w = (i \<noteq> hs_id (session_heap w ! a))"
| "calm draw a k t Clean_expired w = True"

fun all_calm :: "('r \<Rightarrow> nat \<times> 'r) \<Rightarrow> nat \<Rightarrow> string \<Rightarrow> int \<Rightarrow> session_call list \<Rightarrow> 'r session_world \<Rightarrow> bool" where
  "all_calm draw a k t [] w = True"
| "all_calm draw a k t (call # calls) w = (calm draw a k t call w \<and> all_calm draw a k t calls (session_step draw call w))"

definition distinct_ids :: "'r session_world \<Rightarrow> bool" where
  "distinct_ids w \<longleftrightarrow> distinct (map hs_id (session_heap w))"

definition keeps_value :: "nat \<Rightarrow> string \<Rightarrow> string \<Rightarrow> string \<Rightarrow> int \<Rightarrow> 'r session_world \<Rightarrow> bool" where
  "keeps_value a i k v t w \<longleftrightarrow>
     sessions_ok w \<and> distinct_ids w \<and> a < length (session_heap w) \<and> hs_id (session_heap w ! a) = i \<and> i \<noteq> [] \<and>
     map_of (stored_sessions w) i = Some a \<and> map_of (hs_data (session_heap w ! a)) k = Some v \<and>
     t + 3600 * second_ns \<le> hs_expiry (session_heap w ! a)"

lemma ids_change:
  "distinct_ids w \<Longrightarrow> (\<And>s. hs_id (f s) = hs_id s) \<Longrightarrow> distinct_ids (change_session a f w)"
  by (cases "a < length (session_heap w)")
    (simp_all add: distinct_ids_def change_session_def map_update list_update_same_conv [THEN iffD2] list_update_beyond)

lemma other_id:
  assumes "distinct_ids w" and "a < length (session_heap w)" "b < length (session_heap w)" and "a \<noteq> b"
  shows "hs_id (session_heap w ! b) \<noteq> hs_id (session_heap w ! a)"
  using assms by (simp add: distinct_ids_def distinct_conv_nth)

lemma keeps_value_change:
  assumes k: "keeps_value a i k v t w"
    and f: "\<And>s. hs_id (f s) = hs_id s \<and> hs_max_age (f s) = hs_max_age s \<and> (distinct (map fst (hs_data s)) \<longrightarrow> distinct (map fst (hs_data (f s))))"
    and b: "b < length (session_heap w)"
    and same: "b = a \<Longrightarrow> map_of (hs_data (f (session_heap w ! a))) k = Some v \<and>
       t + 3600 * second_ns \<le> hs_expiry (f (session_heap w ! a))"
  shows "keeps_value a i k v t (change_session b f w)"
proof -
  have "sessions_ok (change_session b f w)" using k f b by (intro ok_change) (auto simp: keeps_value_def)
  moreover have "distinct_ids (change_session b f w)" using k f by (intro ids_change) (auto simp: keeps_value_def)
  ultimately show ?thesis
    using k f same by (cases "b = a") (auto simp: keeps_value_def change_session_def)
qed

lemma keeps_value_save:
  assumes k: "keeps_value a i k v t w" and b: "b < length (session_heap w)"
  shows "keeps_value a i k v t (save_session b w)"
proof -
  have "sessions_ok (save_session b w)" using k b by (intro ok_save) (auto simp: keeps_value_def)
  moreover have "hs_id (session_heap w ! b) \<noteq> i" if "b \<noteq> a"
    using k b that other_id [of w a b] by (auto simp: keeps_value_def)
  ultimately show ?thesis
    using k by (cases "b = a") (auto simp: keeps_value_def save_session_def distinct_ids_def update_conv')
qed

lemma keeps_value_get:
  assumes k: "keeps_value a i k v t w" and c: "calm draw a k t (Get_session clk req resp) w"
    and run: "get_session draw clk req resp w = (b, resp', w')"
  shows "keeps_value a i k v t w' \<and> (session_id_from_cookie req = i \<longrightarrow> b = a \<and> resp' = resp)"
proof -
  have ok: "sessions_ok w" using k by (simp add: keeps_value_def)
  have clk: "t \<le> clk 3" "clk 0 \<le> t + 3600 * second_ns" "clk 1 \<le> t + 3600 * second_ns" using c by (auto simp: in_age_def)
  have live: "clk 0 \<le> hs_expiry (session_heap w ! a)" "clk 1 \<le> hs_expiry (session_heap w ! a)"
    using clk k by (auto simp: keeps_value_def)
  from ok run show ?thesis
  proof (cases rule: get_session_cases)
    case known
    have b: "b < length (session_heap w)" using ok known(2) by (auto simp: sessions_ok_def)
    define f where "f = (\<lambda>s. refresh_session (clk 3) (s\<lparr>hs_managed := True\<rparr>))"
    have "hs_max_age (session_heap w ! a) = 3600" "a < length (session_heap w)" using k by (auto simp: keeps_value_def sessions_ok_def)
    then have "keeps_value a i k v t (change_session b f w)"
      by (intro keeps_value_change [OF k _ b]) (use k clk in \<open>auto simp: f_def keeps_value_def\<close>)
    then have "keeps_value a i k v t w'"
      unfolding known(6) f_def [symmetric] by (rule keeps_value_save) (simp add: change_session_def b)
    then show ?thesis using known(2,5) k by (auto simp: keeps_value_def)
  next
    case (fresh n r st)
    have n: "n \<notin> hs_id ` set (session_heap w)" using c fresh(1) by simp
    have a: "a < length (session_heap w)" "hs_id (session_heap w ! a) = i" using k by (simp_all add: keeps_value_def)
    have "n \<noteq> i" using n a nth_mem [OF a(1)] by (metis image_eqI)
    have cookie: "session_id_from_cookie req \<noteq> i"
      using fresh(5) [of a] k live by (auto simp: keeps_value_def)
    then have st: "map_of st i = Some a" using fresh(4) k by (auto simp: keeps_value_def delete_conv')
    have "sessions_ok w'" using ok_get_session [OF ok run] by simp
    moreover have "distinct_ids w'" using k n by (auto simp: fresh(6) keeps_value_def distinct_ids_def)
    ultimately show ?thesis
      using k a \<open>n \<noteq> i\<close> st cookie by (auto simp: fresh(2,6) keeps_value_def nth_append update_conv')
  qed
qed

lemma keeps_value_step:
  assumes k: "keeps_value a i k v t w" and c: "calm draw a k t call w"
  shows "keeps_value a i k v t (session_step draw call w)"
proof (cases call)
  case (Get_session clk req resp)
  obtain b resp' w' where "get_session draw clk req resp w = (b, resp', w')" by (rule prod_cases3)
  then show ?thesis using keeps_value_get [OF k, of draw clk req resp] c Get_session by simp
next
  case (Set_value b k' v')
  then have b: "b < length (session_heap w)" using c by simp
  define f :: "http_session \<Rightarrow> http_session" where "f = (\<lambda>s. s\<lparr>hs_data := AList.update k' v' (hs_data s)\<rparr>)"
  have changed: "keeps_value a i k v t (change_session b f w)"
    by (rule keeps_value_change [OF k _ b])
      (use k c Set_value in \<open>auto simp: f_def keeps_value_def distinct_update update_conv'\<close>)
  have "keeps_value a i k v t (save_session b (change_session b f w))"
    by (rule keeps_value_save [OF changed]) (simp add: change_session_def b)
  then show ?thesis using changed Set_value by (simp add: set_session_value_def f_def [symmetric] Let_def)
next
  case (Remove_value b k')
  then have b: "b < length (session_heap w)" using c by simp
  have "keeps_value a i k v t (change_session b (\<lambda>s. s\<lparr>hs_data := AList.delete k' (hs_data s)\<rparr>) w)"
    by (rule keeps_value_change [OF k _ b])
      (use k c Remove_value in \<open>auto simp: keeps_value_def distinct_delete delete_conv'\<close>)
  then show ?thesis using Remove_value by (simp add: remove_session_value_def)
next
  case (Clear_values b)
  then have b: "b < length (session_heap w)" using c by simp
  have "keeps_value a i k v t (change_session b (\<lambda>s. s\<lparr>hs_data := []\<rparr>) w)"
    by (rule keeps_value_change [OF k _ b]) (use c Clear_values in auto)
  then show ?thesis using Clear_values by (simp add: clear_session_def)
next
  case (Destroy_session j)
  then show ?thesis using k c ok_remove [of w j]
    by (auto simp: keeps_value_def destroy_session_def remove_session_def distinct_ids_def delete_conv')
qed (use k in \<open>simp_all add: clean_expired_sessions_def\<close>)

lemma keeps_value_run:
  "keeps_value a i k v t w \<Longrightarrow> all_calm draw a k t calls w \<Longrightarrow> keeps_value a i k v t (session_run draw calls w)"
  by (induction calls arbitrary: w) (simp_all add: keeps_value_step)

lemma length_random_digits: "length (fst (random_digits draw n r)) = n"
  by (induction n arbitrary: r) (simp_all add: case_prod_beta)

section \<open>The cookie\<close>

lemma starts_with_append_iff: "starts_with p (p @ s)"
  by (induction p) (simp_all add: starts_with.simps)

lemma cookie_read_back:
  assumes "get_header ''Cookie'' req = ''sessionId='' @ i @ rest" and "rest = [] \<or> hd rest = CHR '';''" and "CHR '';'' \<notin> set i"
  shows "session_id_from_cookie req = i"
proof -
  have "after_sub ''sessionId='' (''sessionId='' @ s) = Some s" for s
    by (simp add: starts_with.simps)
  moreover have "fst (cut_at CHR '';'' (i @ rest)) = i"
    using assms(2,3) by (cases rest) (simp_all add: cut_at_append cut_at_none)
  ultimately show ?thesis using assms(1) by (simp add: session_id_from_cookie_def)
qed

lemma cookie_of_another_name:
  "get_header ''Cookie'' req = ''lastsessionId=old; sessionId=new'' \<Longrightarrow> session_id_from_cookie req = ''old''"
  by (simp add: session_id_from_cookie_def starts_with.simps cut_at.simps)

section \<open>Properties\<close>


definition count_draw :: "nat \<Rightarrow> nat \<times> nat" where
  "count_draw r = ((r div 32 + r) mod 16, Suc r)"

definition session_request :: "string \<Rightarrow> http_request" where
  "session_request cookie = init_request\<lparr>req_headers := [(''Cookie'', cookie)]\<rparr>"


text \<open>A session keeps its data. When a handler has set a value in the session of its request, a
  later request with the cookie of this session gets the same session with this value and no new
  cookie, whatever other requests and handlers do in between with other sessions and other keys, as
  long as nobody destroys the session, the generated ids are new, and the clock stays within the hour.\<close>

theorem session_data_kept:
  assumes "sessions_ok w" and "distinct_ids w" and "fst (random_digits draw 32 (session_rng w)) \<notin> hs_id ` set (session_heap w)"
    and "get_session draw clk req resp w = (a, resp1, w1)"
    and "all_calm draw a k (clk 3) (calls @ [Get_session clk2 req2 resp2]) (set_session_value a k v w1)"
    and "session_id_from_cookie req2 = hs_id (session_heap w1 ! a)"
    and "get_session draw clk2 req2 resp2 (session_run draw calls (set_session_value a k v w1)) = (b, resp3, w2)"
  shows "b = a \<and> resp3 = resp2 \<and> get_session_value a k w2 = v"
proof -
  let ?i = "hs_id (session_heap w1 ! a)"
  note got = ok_get_session [OF assms(1,4)]
  from assms(1,4) have parts: "distinct_ids w1 \<and> ?i \<noteq> []"
  proof (cases rule: get_session_cases)
    case known
    have "a < length (session_heap w)" "hs_id (session_heap w ! a) = session_id_from_cookie req"
      using assms(1) known(2) by (auto simp: sessions_ok_def)
    moreover have "distinct_ids (change_session a (\<lambda>s. refresh_session (clk 3) (s\<lparr>hs_managed := True\<rparr>)) w)"
      by (rule ids_change [OF assms(2)]) simp
    ultimately show ?thesis using known(1) by (simp add: known(6) save_session_def change_session_def distinct_ids_def)
  next
    case (fresh i r st)
    have "length i = 32" using length_random_digits [of draw 32 "session_rng w"] fresh(1) by simp
    then have "i \<noteq> []" by auto
    then show ?thesis using assms(2,3) fresh(1) by (simp add: fresh(2,6) distinct_ids_def nth_append)
  qed
  define f :: "http_session \<Rightarrow> http_session" where "f = (\<lambda>s. s\<lparr>hs_data := AList.update k v (hs_data s)\<rparr>)"
  have "sessions_ok (change_session a f w1)" using got by (intro ok_change) (auto simp: f_def distinct_update)
  moreover have "distinct_ids (change_session a f w1)" using parts by (intro ids_change) (auto simp: f_def)
  ultimately have changed: "keeps_value a ?i k v (clk 3) (change_session a f w1)"
    using got parts by (simp add: keeps_value_def change_session_def f_def update_conv')
  have "keeps_value a ?i k v (clk 3) (save_session a (change_session a f w1))"
    by (rule keeps_value_save [OF changed]) (simp add: change_session_def got)
  then have "keeps_value a ?i k v (clk 3) (set_session_value a k v w1)"
    using changed by (simp add: set_session_value_def f_def [symmetric] Let_def)
  moreover have "all_calm draw a k (clk 3) (xs @ ys) u \<longleftrightarrow>
      all_calm draw a k (clk 3) xs u \<and> all_calm draw a k (clk 3) ys (session_run draw xs u)" for xs ys u
    by (induction xs arbitrary: u) simp_all
  ultimately have k: "keeps_value a ?i k v (clk 3) (session_run draw calls (set_session_value a k v w1))"
    and c: "calm draw a k (clk 3) (Get_session clk2 req2 resp2) (session_run draw calls (set_session_value a k v w1))"
    using assms(5) keeps_value_run by auto
  from keeps_value_get [OF k c assms(7)] show ?thesis using assms(6) by (simp add: keeps_value_def get_session_value_def)
qed

lemma session_data_kept_witness:
  "\<exists>a resp1 w1 b w2.
     get_session count_draw (\<lambda>i. 5) (session_request []) (init_response False) (init_sessions 0) = (a, resp1, w1) \<and>
     map_of (resp_headers resp1) ''Set-Cookie'' = Some ''sessionId=0123456789abcdef0123456789abcdef; Path=/; HttpOnly'' \<and>
     get_session count_draw (\<lambda>i. 9) (session_request ''sessionId=0123456789abcdef0123456789abcdef; theme=dark'') (init_response False)
       (set_session_value a ''user'' ''7'' w1) = (b, init_response False, w2) \<and>
     b = a \<and> get_session_value a ''user'' w2 = ''7''"
proof -
  let ?req = "session_request ''sessionId=0123456789abcdef0123456789abcdef; theme=dark''"
  obtain a resp1 w1 where one: "get_session count_draw (\<lambda>i. 5) (session_request []) (init_response False) (init_sessions 0) = (a, resp1, w1)"
    by (rule prod_cases3)
  obtain b resp3 w2 where two: "get_session count_draw (\<lambda>i. 9) ?req (init_response False) (set_session_value a ''user'' ''7'' w1) = (b, resp3, w2)"
    by (rule prod_cases3)
  have w0: "sessions_ok (init_sessions 0)" "distinct_ids (init_sessions 0)"
    "fst (random_digits count_draw 32 (session_rng (init_sessions 0))) \<notin> hs_id ` set (session_heap (init_sessions 0))"
    by (simp_all add: sessions_ok_def distinct_ids_def init_sessions_def)
  have made: "(case get_session count_draw (\<lambda>i. 5) (session_request []) (init_response False) (init_sessions 0) of (x, r, v) \<Rightarrow>
      map_of (resp_headers r) ''Set-Cookie'' = Some ''sessionId=0123456789abcdef0123456789abcdef; Path=/; HttpOnly'' \<and>
      hs_id (session_heap v ! x) = ''0123456789abcdef0123456789abcdef'' \<and>
      fst (random_digits count_draw 32 (session_rng (set_session_value x ''user'' ''7'' v))) \<notin> hs_id ` set (session_heap (set_session_value x ''user'' ''7'' v)))"
    by code_simp
  have cookie: "session_id_from_cookie ?req = ''0123456789abcdef0123456789abcdef''" by code_simp
  have calm: "all_calm count_draw a ''user'' 5 ([] @ [Get_session (\<lambda>i. 9) ?req (init_response False)]) (set_session_value a ''user'' ''7'' w1)"
    using made by (simp add: one in_age_def second_ns_def)
  have id: "session_id_from_cookie ?req = hs_id (session_heap w1 ! a)" using made cookie by (simp add: one)
  have kept: "b = a \<and> resp3 = init_response False \<and> get_session_value a ''user'' w2 = ''7''"
    by (rule session_data_kept [OF w0 one calm id]) (simp add: two)
  have sent: "map_of (resp_headers resp1) ''Set-Cookie'' = Some ''sessionId=0123456789abcdef0123456789abcdef; Path=/; HttpOnly''"
    using made by (simp add: one)
  note again = two [unfolded conjunct1 [OF conjunct2 [OF kept]]]
  show ?thesis
    by (intro exI conjI, rule one, rule sent, rule again, rule conjunct1 [OF kept], rule conjunct2 [OF conjunct2 [OF kept]])
qed

end
