(* ===== verification/ConsumerObservability.thy ===== *)
theory ConsumerObservability
  imports Configuration
begin

text \<open>
  \<open>ConsumerObservabilityServer.h/.cpp\<close>: the socket and the thread that serve the consumer's metrics
  and health. What the system calls return is the environment: \<open>socket_calls\<close> for the constructor, and
  one \<open>serve_round\<close> per round of the loop. The value of an operation is the list of the calls it makes.
  The answers themselves are \<open>handle_connection\<close> and \<open>send_loop\<close> of \<open>ConsumerMetrics\<close>. \<open>consumer_program\<close> is
  the whole of the consumer's \<open>main\<close>.
\<close>

section \<open>Start and stop\<close>

record observability_config =
  obs_enabled :: bool
  obs_address :: string
  obs_port :: int

definition default_observability :: observability_config where
  "default_observability = \<lparr>obs_enabled = True, obs_address = ''127.0.0.1'', obs_port = 9091\<rparr>"

datatype socket_action =
    Open_socket
  | Reuse_address int
  | Bind_socket int string "16 word"
  | Listen_socket int nat
  | Start_thread
  | Shutdown_socket int
  | Join_thread
  | Close_socket int
  | Set_timeouts int nat
  | Send_bytes int string

record socket_calls =
  opened :: int
  is_ipv4 :: "string \<Rightarrow> bool"
  bind_result :: int
  listen_result :: int
  error_text :: string

record observability_server =
  listen_socket :: int
  serving :: bool

text \<open>The constructor: the server, or the exception, and the calls made.\<close>

definition start_observability ::
  "observability_config \<Rightarrow> socket_calls \<Rightarrow> (exn + observability_server) \<times> socket_action list" where
  "start_observability cfg os =
     (if \<not> obs_enabled cfg then (Inr \<lparr>listen_socket = - 1, serving = False\<rparr>, [])
      else if opened os < 0 then (Inl (Runtime_error ''failed to create consumer observability socket''), [Open_socket])
      else (let fd = opened os; begun = [Open_socket, Reuse_address fd]
            in if \<not> is_ipv4 os (obs_address cfg)
               then (Inl (Invalid_argument ''consumer observability address must be IPv4''), begun @ [Close_socket fd])
               else (let bound = begun @ [Bind_socket fd (obs_address cfg) (word_of_int (obs_port cfg))]
                     in if bind_result os \<noteq> 0
                        then (Inl (Runtime_error (''failed to bind consumer observability socket: '' @ error_text os)),
                              bound @ [Close_socket fd])
                        else if listen_result os \<noteq> 0
                        then (Inl (Runtime_error (''failed to bind consumer observability socket: '' @ error_text os)),
                              bound @ [Listen_socket fd 16, Close_socket fd])
                        else (Inr \<lparr>listen_socket = fd, serving = True\<rparr>, bound @ [Listen_socket fd 16, Start_thread]))))"

definition stop_observability :: "observability_server \<Rightarrow> observability_server \<times> socket_action list" where
  "stop_observability s =
     (s\<lparr>listen_socket := (if listen_socket s \<ge> 0 then - 1 else listen_socket s), serving := False\<rparr>,
      (if listen_socket s \<ge> 0 then [Shutdown_socket (listen_socket s)] else []) @
      (if serving s then [Join_thread] else []) @
      (if listen_socket s \<ge> 0 then [Close_socket (listen_socket s)] else []))"

section \<open>The loop of the thread\<close>

text \<open>
  \<open>arrived\<close> are the bytes that are there for \<open>recv\<close>, empty when it fails or times out; \<open>metrics_now\<close>
  are the metrics when the answer is made.
\<close>

record serve_round =
  stop_seen :: bool
  poll_result :: int
  poll_in :: bool
  accepted :: int
  arrived :: string
  send_accepts :: "nat \<Rightarrow> nat \<Rightarrow> int"
  metrics_now :: consumer_metrics

definition answer_connection :: "serve_round \<Rightarrow> socket_action list" where
  "answer_connection r =
     (case handle_connection (take 4095 (arrived r)) (metrics_now r) of
        None \<Rightarrow> []
      | Some response \<Rightarrow> [Send_bytes (accepted r) (send_loop (send_accepts r) 0 response)])"

fun serve_loop :: "serve_round list \<Rightarrow> socket_action list" where
  "serve_loop [] = []"
| "serve_loop (r # rs) =
     (if stop_seen r then []
      else if poll_result r \<le> 0 \<or> \<not> poll_in r then serve_loop rs
      else if accepted r < 0 then serve_loop rs
      else Set_timeouts (accepted r) 1 # answer_connection r @ Close_socket (accepted r) # serve_loop rs)"

section \<open>Lemmas\<close>

text \<open>The socket of a server that did not start is closed; a started one is closed once when it stops.\<close>

lemma start_closes_on_failure:
  assumes "start_observability cfg os = (Inl e, acts)" and "0 \<le> opened os"
  shows "filter (\<lambda>a. a = Close_socket (opened os)) acts = [Close_socket (opened os)] \<and> last acts = Close_socket (opened os) \<and>
     Start_thread \<notin> set acts"
  using assms by (auto simp: start_observability_def Let_def split: if_splits)

lemma start_then_stop:
  assumes "start_observability cfg os = (Inr s, acts)" and "obs_enabled cfg"
  shows "serving s \<and> Start_thread \<in> set acts \<and> Close_socket (listen_socket s) \<notin> set acts \<and>
     snd (stop_observability s) = [Shutdown_socket (listen_socket s), Join_thread, Close_socket (listen_socket s)]"
  using assms by (auto simp: start_observability_def stop_observability_def Let_def split: if_splits)

lemma stop_twice: "snd (stop_observability (fst (stop_observability s))) = []"
  by (simp add: stop_observability_def)

text \<open>The rounds that take a connection, up to the first that sees the request to stop.\<close>

definition taken :: "serve_round \<Rightarrow> bool" where
  "taken r \<longleftrightarrow> 0 < poll_result r \<and> poll_in r \<and> 0 \<le> accepted r"

lemma serve_loop_rounds:
  "serve_loop rs = concat (map (\<lambda>r. Set_timeouts (accepted r) 1 # answer_connection r @ [Close_socket (accepted r)])
     (filter taken (takeWhile (\<lambda>r. \<not> stop_seen r) rs)))"
  by (induction rs) (auto simp: taken_def)

lemma answer_connection_prefix:
  "answer_connection r = [] \<or>
   (\<exists>response k. handle_connection (take 4095 (arrived r)) (metrics_now r) = Some response \<and>
      answer_connection r = [Send_bytes (accepted r) (take k response)])"
proof (cases "handle_connection (take 4095 (arrived r)) (metrics_now r)")
  case (Some response)
  then show ?thesis using send_loop_prefix [of "send_accepts r" 0 response] by (auto simp: answer_connection_def)
qed (simp add: answer_connection_def)

text \<open>Every connection that is taken is answered with a prefix of its page at most, and closed.\<close>

lemma every_connection_closed:
  "length (filter (\<lambda>a. \<exists>c. a = Close_socket c) (serve_loop rs)) = length (filter taken (takeWhile (\<lambda>r. \<not> stop_seen r) rs))"
proof -
  have one: "filter (\<lambda>a. \<exists>c. a = Close_socket c) (answer_connection r) = []" for r
    using answer_connection_prefix [of r] by auto
  show ?thesis unfolding serve_loop_rounds
    by (induction "filter taken (takeWhile (\<lambda>r. \<not> stop_seen r) rs)" arbitrary: rs)
      (simp_all add: filter_concat comp_def one length_concat)
qed

lemma health_answer:
  assumes "starts_with ''GET /health '' (take 4095 (arrived r))" and "\<And>j n. 0 < n \<Longrightarrow> 0 < send_accepts r j n"
  shows "\<exists>rest. answer_connection r = [Send_bytes (accepted r)
     (''HTTP/1.1 '' @ (if consumer_healthy (metrics_now r) then ''200 OK'' else ''503 Service Unavailable'') @ crlf @ rest)]"
proof -
  obtain t where t: "take 4095 (arrived r) = ''GET /health '' @ t" using assms(1) by (auto simp: starts_with_iff)
  have "handle_connection (take 4095 (arrived r)) (metrics_now r) = handle_connection (''GET /health '' @ t) (metrics_now r)"
    unfolding t ..
  moreover have "to_string_int 200 = ''200''" "to_string_int 503 = ''503''" by code_simp+
  ultimately show ?thesis
    using assms(2)
    by (simp add: answer_connection_def handle_connection_def Let_def send_loop_all observability_response_def starts_with.simps)
qed

section \<open>The program\<close>

definition observability_of :: "consumer_config \<Rightarrow> observability_config" where
  "observability_of cfg =
     \<lparr>obs_enabled = observability_enabled cfg, obs_address = observability_address cfg, obs_port = observability_port cfg\<rparr>"

text \<open>
  \<open>main\<close> from its arguments to its exit code: what the sockets did and, when the consumer started, its
  last state. The destructors run before the exit code is returned, also on an exception.
\<close>

definition consumer_program ::
  "(string \<Rightarrow> string option) \<Rightarrow> string list \<Rightarrow> socket_calls \<Rightarrow> ('c, 'd) stats_driver \<Rightarrow> 'p kafka_producer \<Rightarrow>
   (consumer_config \<Rightarrow> exn + 'k) \<Rightarrow> (consumer_config \<Rightarrow> 'c \<Rightarrow> ('k, 'p, 'c, 'd) consumer_env) \<Rightarrow> kafka_message option list \<Rightarrow> 'd \<Rightarrow>
   int \<times> socket_action list \<times> ('k, 'p, 'd) consumer_state option" where
  "consumer_program files args os D K start env_of polls d =
     (case load_consumer_config files
             (case args of [] \<Rightarrow> ''apps/shortlink_event_consumer/config/consumer.conf.example'' | path # _ \<Rightarrow> path) of
        Inl e \<Rightarrow> (1, [], None)
      | Inr cfg \<Rightarrow>
          (case start_observability (observability_of cfg) os of
             (Inl e, acts) \<Rightarrow> (1, acts, None)
           | (Inr s, acts) \<Rightarrow>
               (case start_consumer D K start cfg init_consumer_metrics d of
                  (Inl e, d1) \<Rightarrow> (1, acts @ snd (stop_observability s), None)
                | (Inr (c, w), d1) \<Rightarrow>
                    (case consumer_main (env_of cfg c) polls w of
                       (code, w1) \<Rightarrow> (code, acts @ snd (stop_observability s), Some w1)))))"

text \<open>The socket that was opened is closed once, and the thread is joined if it was started.\<close>

lemma start_and_stop_balanced:
  assumes "start_observability cfg os = (r, acts)" and "0 \<le> opened os"
  defines "all \<equiv> acts @ (case r of Inl e \<Rightarrow> [] | Inr s \<Rightarrow> snd (stop_observability s))"
  shows "length (filter (\<lambda>a. a = Close_socket (opened os)) all) = length (filter (\<lambda>a. a = Open_socket) all) \<and>
     length (filter (\<lambda>a. a = Join_thread) all) = length (filter (\<lambda>a. a = Start_thread) all)"
  using assms by (auto simp: all_def start_observability_def stop_observability_def Let_def split: if_splits)

lemma program_releases_socket:
  assumes "consumer_program files args os D K start env_of polls d = (code, acts, w)" and "0 \<le> opened os"
  shows "length (filter (\<lambda>a. a = Close_socket (opened os)) acts) = length (filter (\<lambda>a. a = Open_socket) acts) \<and>
     length (filter (\<lambda>a. a = Join_thread) acts) = length (filter (\<lambda>a. a = Start_thread) acts)"
proof (cases "load_consumer_config files
    (case args of [] \<Rightarrow> ''apps/shortlink_event_consumer/config/consumer.conf.example'' | path # _ \<Rightarrow> path)")
  case (Inl e)
  then show ?thesis using assms(1) by (simp add: consumer_program_def)
next
  case (Inr cfg)
  obtain r begun where s: "start_observability (observability_of cfg) os = (r, begun)" by (rule prod.exhaust)
  have "acts = begun @ (case r of Inl e \<Rightarrow> [] | Inr s \<Rightarrow> snd (stop_observability s))"
    using assms(1) Inr s by (auto simp: consumer_program_def split: sum.splits prod.splits)
  then show ?thesis using start_and_stop_balanced [OF s assms(2)] by simp
qed

text \<open>The exit code is 0 only when the consumer started and its loop ended without an exception.\<close>

lemma program_exit_code:
  assumes "consumer_program files args os D K start env_of polls d = (0, acts, w)"
  shows "\<exists>cfg c w0 d1 w1. start_consumer D K start cfg init_consumer_metrics d = (Inr (c, w0), d1) \<and> w = Some w1 \<and>
     consumer_main (env_of cfg c) polls w0 = (0, w1)"
  using assms by (auto simp: consumer_program_def split: sum.splits prod.splits)

end
