(* ===== verification/AccessPipeline.thy ===== *)
theory AccessPipeline
  imports ServerMain EventConsumer "HOL-Library.Sublist"
begin

text \<open>
  The path of an access from the redirect handler of the server to the counters of the consumer. The
  server's threads redirect and publish while the poll thread runs; the topic keeps what the client
  library accepted (the locale \<open>topic_log\<close>); the consumer is handed the records of the topic in any
  order and any number of times. No code of its own is modelled here.
\<close>

section \<open>The topic\<close>

text \<open>
  \<open>records\<close> are the key and the payload of the messages the client accepted for the topic. A message it
  refuses is not among them, and serving callbacks takes none away.
\<close>

locale topic_log =
  fixes K :: "'k kafka_producer"
    and records :: "'k \<Rightarrow> (string \<times> string) list"
  assumes accepted_kept: "produce K topic key payload ms k = (err, k') \<Longrightarrow>
          records k' = records k @ (if err = kafka_ok then [(key, payload)] else [])"
    and served_kept: "poll_producer K timeout k = (calls, k') \<Longrightarrow> records k' = records k"

section \<open>A run of the server's redirects\<close>

text \<open>A request to a short URL with the clock readings of its handling, and the steps of both threads.\<close>

record visit =
  visit_clock :: "nat \<Rightarrow> int"
  visit_ms :: int
  visit_request :: http_request

datatype site_step = Visited visit | Polled

type_synonym ('s, 'k) site = "('s, 'k event_publisher option) redirect_state"

type_synonym answer = "exn option \<times> http_response"

definition visit_code :: "visit \<Rightarrow> string" where
  "visit_code v = get_path_parameter ''param1'' (visit_request v)"

fun site_run ::
  "json_lib \<Rightarrow> 'k kafka_producer \<Rightarrow> server_config \<Rightarrow> 's link_service \<Rightarrow> site_step list \<Rightarrow> ('s, 'k) site \<Rightarrow>
   (visit \<times> answer) list \<times> ('s, 'k) site" where
  "site_run L K cfg sv [] w = ([], w)"
| "site_run L K cfg sv (Polled # steps) w =
     site_run L K cfg sv steps (w\<lparr>publisher_state := map_option (poll_round K) (publisher_state w)\<rparr>)"
| "site_run L K cfg sv (Visited v # steps) w =
     (case handle_redirect (server_publisher L K cfg) sv (visit_clock v) (visit_ms v) (visit_request v) (init_response False) w of
        (e, r, w1) \<Rightarrow> (case site_run L K cfg sv steps w1 of (vs, w2) \<Rightarrow> ((v, e, r) # vs, w2)))"

text \<open>The visit was redirected: the handler threw nothing and answered 302.\<close>

definition redirected :: "answer \<Rightarrow> bool" where
  "redirected a \<longleftrightarrow> fst a = None \<and> status_code (snd a) = 302"

section \<open>Lemmas: the events of a run\<close>

text \<open>The event tells of the visit and its answer.\<close>

definition tells :: "access_event \<Rightarrow> visit \<times> answer \<Rightarrow> bool" where
  "tells e va \<longleftrightarrow> event_code e = visit_code (fst va) \<and> occurred_at_ms e = visit_ms (fst va) \<and>
     (event_result e = Access_success \<longleftrightarrow> redirected (snd va)) \<and> (event_result e = Access_error \<longleftrightarrow> fst (snd va) \<noteq> None)"

lemma redirect_publishes:
  assumes "handle_redirect pub sv (visit_clock v) (visit_ms v) (visit_request v) resp w = (ex, r, w')"
  shows "\<exists>e. publisher_state w' = pub e (publisher_state w) \<and> tells e (v, ex, r) \<and>
     (event_id e, event_id_source w') = generate_event_id (event_id_source w)"
proof -
  obtain i g where id: "generate_event_id (event_id_source w) = (i, g)" by fastforce
  obtain res l where res: "resolve sv (visit_clock v) (visit_code v) (link_world w) = (res, l)" by fastforce
  show ?thesis
  proof (cases res)
    case (Inl e)
    then show ?thesis
      using assms res id by (auto simp: handle_redirect_def publish_access_event_def tells_def visit_code_def redirected_def Let_def)
  next
    case (Inr out)
    then show ?thesis
      using assms res id
      by (cases "outcome_status out")
         (auto simp: handle_redirect_def publish_access_event_def tells_def visit_code_def redirected_def Let_def)
  qed
qed

text \<open>The steps of the publisher in a run: each visit publishes its event.\<close>

lemma published_by_run:
  assumes "site_run L K cfg sv steps w = (vs, w')" and "publisher_state w = Some p"
  shows "\<exists>psteps. publisher_state w' = Some (fold (publisher_exec L K (event_settings cfg)) psteps p) \<and>
     (let es = [e. Publish e \<leftarrow> psteps] in list_all2 tells es vs \<and> map event_id es = generate_ids (length es) (event_id_source w))"
  using assms
proof (induction steps arbitrary: w p vs)
  case Nil
  then show ?case by (intro exI [of _ "[]"]) simp
next
  case (Cons s steps)
  show ?case
  proof (cases s)
    case Polled
    let ?w = "w\<lparr>publisher_state := map_option (poll_round K) (publisher_state w)\<rparr>"
    obtain ps where "publisher_state w' = Some (fold (publisher_exec L K (event_settings cfg)) ps (poll_round K p))"
      "let es = [e. Publish e \<leftarrow> ps] in list_all2 tells es vs \<and> map event_id es = generate_ids (length es) (event_id_source ?w)"
      using Cons.IH [of ?w vs "poll_round K p"] Cons.prems Polled by auto
    then show ?thesis by (intro exI [of _ "Poll # ps"]) (simp add: Let_def)
  next
    case (Visited v)
    obtain ex r w1 where h: "handle_redirect (server_publisher L K cfg) sv (visit_clock v) (visit_ms v) (visit_request v) (init_response False) w
        = (ex, r, w1)" by (metis prod_cases3)
    obtain vs1 where rest: "site_run L K cfg sv steps w1 = (vs1, w')" and vs: "vs = (v, ex, r) # vs1"
      using Cons.prems(1) Visited h by (auto split: prod.splits)
    obtain e where e: "publisher_state w1 = Some (publish_event L K (event_settings cfg) e p)" "tells e (v, ex, r)"
      "(event_id e, event_id_source w1) = generate_event_id (event_id_source w)"
      using redirect_publishes [OF h] Cons.prems(2) by (auto simp: server_publisher_def)
    obtain ps where "publisher_state w' = Some (fold (publisher_exec L K (event_settings cfg)) ps (publish_event L K (event_settings cfg) e p))"
      "let es = [e. Publish e \<leftarrow> ps] in list_all2 tells es vs1 \<and> map event_id es = generate_ids (length es) (event_id_source w1)"
      using Cons.IH [OF rest e(1)] by blast
    then show ?thesis
      using e vs by (intro exI [of _ "Publish e # ps"]) (auto simp: Let_def split: prod.split)
  qed
qed

section \<open>Lemmas: from the publisher to the topic\<close>

text \<open>The record of an event.\<close>

definition record_of :: "json_lib \<Rightarrow> access_event \<Rightarrow> string \<times> string \<Rightarrow> bool" where
  "record_of L e kp \<longleftrightarrow> fst kp = event_code e \<and> serialize_event L e = Inr (snd kp)"

context topic_log
begin

lemma publish_kept:
  assumes "publisher_ok p"
  shows "publisher_ok (publish_event L K cfg e p) \<and>
     ((\<exists>kp. record_of L e kp \<and> records (publisher_producer (publish_event L K cfg e p)) = records (publisher_producer p) @ [kp] \<and>
         refused (publish_event L K cfg e p) = refused p) \<or>
      records (publisher_producer (publish_event L K cfg e p)) = records (publisher_producer p) \<and>
         refused (publish_event L K cfg e p) = refused p + 1)"
proof (cases "serialize_event L e")
  case (Inl err)
  then show ?thesis using assms by (simp add: publish_event_def publisher_defs)
next
  case (Inr payload)
  obtain err k where k: "produce K (publisher_topic cfg) (event_code e) payload (Some (occurred_at_ms e)) (publisher_producer p) = (err, k)"
    by fastforce
  note kept = accepted_kept [OF k]
  consider "err = kafka_ok" | "err \<noteq> kafka_ok" "err = kafka_queue_full" | "err \<noteq> kafka_ok" "err \<noteq> kafka_queue_full" by blast
  then show ?thesis
    using assms Inr k kept
    by cases (simp_all add: publish_event_def Let_def record_of_def, simp_all add: publisher_defs)
qed

lemma poll_kept:
  assumes "publisher_ok p"
  shows "publisher_ok (poll_round K p) \<and> records (publisher_producer (poll_round K p)) = records (publisher_producer p) \<and>
     refused (poll_round K p) = refused p"
proof -
  obtain calls k where k: "poll_producer K 100 (publisher_producer p) = (calls, k)" by fastforce
  then show ?thesis
    using callbacks_effect [OF assms, of K calls k] served_kept [OF k] by (simp add: poll_round_def)
qed

lemma run_kept:
  "publisher_ok p \<Longrightarrow> \<exists>ks rs. subseq ks [e. Publish e \<leftarrow> psteps] \<and> list_all2 (record_of L) ks rs \<and>
     records (publisher_producer (fold (publisher_exec L K cfg) psteps p)) = records (publisher_producer p) @ rs \<and>
     refused (fold (publisher_exec L K cfg) psteps p) = refused p + of_nat (length [e. Publish e \<leftarrow> psteps] - length ks)"
proof (induction psteps arbitrary: p)
  case Nil
  then show ?case by (intro exI [of _ "[]"]) simp
next
  case (Cons s psteps)
  show ?case
  proof (cases s)
    case Poll
    then show ?thesis using Cons.IH [of "poll_round K p"] poll_kept [OF Cons.prems] by simp
  next
    case (Publish e)
    let ?p = "publish_event L K cfg e p"
    obtain ks rs where r: "subseq ks [e. Publish e \<leftarrow> psteps]" "list_all2 (record_of L) ks rs"
      "records (publisher_producer (fold (publisher_exec L K cfg) psteps ?p)) = records (publisher_producer ?p) @ rs"
      "refused (fold (publisher_exec L K cfg) psteps ?p) = refused ?p + of_nat (length [e. Publish e \<leftarrow> psteps] - length ks)"
      using Cons.IH [of ?p] publish_kept [OF Cons.prems, of L cfg e] by blast
    have len: "length ks \<le> length [e. Publish e \<leftarrow> psteps]" by (rule list_emb_length [OF r(1)])
    from publish_kept [OF Cons.prems, of L cfg e] show ?thesis
    proof (elim conjE disjE exE)
      fix kp
      assume "record_of L e kp" "records (publisher_producer ?p) = records (publisher_producer p) @ [kp]" "refused ?p = refused p"
      then show ?thesis using r Publish by (intro exI [of _ "e # ks"] exI [of _ "kp # rs"]) simp
    next
      assume "records (publisher_producer ?p) = records (publisher_producer p)" "refused ?p = refused p + 1"
      then show ?thesis
        using r Publish len by (intro exI [of _ ks] exI [of _ rs]) (simp add: Suc_diff_le list_emb_Cons)
    qed
  qed
qed

end

section \<open>Lemmas: from the topic to the counters\<close>

text \<open>The records the consumer is handed are records of the topic, and the topic is handed over completely.\<close>

definition from_topic :: "(string \<times> string) list \<Rightarrow> kafka_message option list \<Rightarrow> bool" where
  "from_topic rs polls \<longleftrightarrow> (\<forall>m. Some m \<in> set polls \<and> message_error m = kafka_ok \<longrightarrow> (message_key m, message_payload m) \<in> set rs)"

definition all_handed_over :: "(string \<times> string) list \<Rightarrow> kafka_message option list \<Rightarrow> bool" where
  "all_handed_over rs polls \<longleftrightarrow>
     (\<forall>r\<in>set rs. \<exists>m. Some m \<in> set polls \<and> message_error m = kafka_ok \<and> (message_key m, message_payload m) = r)"

lemma record_delivered:
  assumes "json_laws (env_json env)" and "record_of (env_json env) e (message_key m, message_payload m)"
    and "occurred_at_ms e < 2 ^ 63" and "message_error m = kafka_ok"
  shows "delivery env m = [(e, message_source env m)]"
  using assms event_round_trip [OF assms(1) _ assms(3)] by (auto simp: record_of_def delivery_def)

lemma list_all2_memD:
  "list_all2 P xs ys \<Longrightarrow> y \<in> set ys \<Longrightarrow> \<exists>x\<in>set xs. P x y"
  "list_all2 P xs ys \<Longrightarrow> x \<in> set xs \<Longrightarrow> \<exists>y\<in>set ys. P x y"
  by (metis in_set_conv_nth list_all2_conv_all_nth)+

lemma delivered_events:
  assumes "json_laws (env_json env)" and "list_all2 (record_of (env_json env)) ks rs"
    and "\<forall>e\<in>set ks. occurred_at_ms e < 2 ^ 63" and "from_topic rs polls"
  shows "fst ` set (all_deliveries env polls) \<subseteq> set ks" and "all_handed_over rs polls \<Longrightarrow> set ks \<subseteq> fst ` set (all_deliveries env polls)"
proof -
  have one: "\<exists>e\<in>set ks. delivery env m = [(e, message_source env m)] \<and> record_of (env_json env) e (message_key m, message_payload m)"
    if "Some m \<in> set polls" "message_error m = kafka_ok" for m
  proof -
    have "(message_key m, message_payload m) \<in> set rs" using assms(4) that by (auto simp: from_topic_def)
    then obtain e where "e \<in> set ks" "record_of (env_json env) e (message_key m, message_payload m)"
      using list_all2_memD(1) [OF assms(2)] by blast
    then show ?thesis using record_delivered [OF assms(1)] assms(3) that(2) by blast
  qed
  show "fst ` set (all_deliveries env polls) \<subseteq> set ks"
  proof
    fix e
    assume "e \<in> fst ` set (all_deliveries env polls)"
    then obtain m src where m: "Some m \<in> set polls" "(e, src) \<in> set (delivery env m)"
      by (force simp: all_deliveries_def split: option.splits)
    then have "message_error m = kafka_ok" by (auto simp: delivery_def split: if_splits)
    then show "e \<in> set ks" using one [OF m(1)] m(2) by auto
  qed
  assume all: "all_handed_over rs polls"
  show "set ks \<subseteq> fst ` set (all_deliveries env polls)"
  proof
    fix e
    assume "e \<in> set ks"
    then obtain r where r: "r \<in> set rs" "record_of (env_json env) e r" "occurred_at_ms e < 2 ^ 63"
      using list_all2_memD(2) [OF assms(2)] assms(3) by blast
    then obtain m where m: "Some m \<in> set polls" "message_error m = kafka_ok" "(message_key m, message_payload m) = r"
      using all by (auto simp: all_handed_over_def)
    then have "delivery env m = [(e, message_source env m)]" using record_delivered [OF assms(1)] r by simp
    then show "e \<in> fst ` set (all_deliveries env polls)" using m(1) by (force simp: all_deliveries_def)
  qed
qed

text \<open>Events with different ids are counted one by one.\<close>

definition counts_for :: "(string \<Rightarrow> u64 option) \<Rightarrow> u64 \<Rightarrow> string \<Rightarrow> (access_event \<Rightarrow> bool) \<Rightarrow> access_event \<Rightarrow> bool" where
  "counts_for codes l r P e \<longleftrightarrow> event_result e \<noteq> Access_not_found \<and> codes (event_code e) = Some l \<and>
     access_result_to_string (event_result e) = r \<and> P e"

lemma counted_ids_card:
  assumes "distinct (map event_id es)" and "fst ` set ds \<subseteq> set es"
  shows "card (counted_ids codes ds l r P) \<le> length (filter (counts_for codes l r P) es)"
    and "set es \<subseteq> fst ` set ds \<Longrightarrow> card (counted_ids codes ds l r P) = length (filter (counts_for codes l r P) es)"
proof -
  let ?f = "filter (counts_for codes l r P) es"
  have card: "card (event_id ` set ?f) = length ?f"
    using distinct_card [of "map event_id ?f"] distinct_map_filter [OF assms(1)] by simp
  have "counted_ids codes ds l r P \<subseteq> event_id ` set ?f" using assms(2) by (auto simp: counted_ids_def counts_for_def)
  then show "card (counted_ids codes ds l r P) \<le> length ?f" using card card_mono [of "event_id ` set ?f"] by fastforce
  assume "set es \<subseteq> fst ` set ds"
  then have "counted_ids codes ds l r P = event_id ` set ?f"
    using assms(2) by (auto simp: counted_ids_def counts_for_def subset_iff)
  then show "card (counted_ids codes ds l r P) = length ?f" using card by simp
qed

lemma told_length:
  assumes "list_all2 tells es vs" and "\<And>e va. tells e va \<Longrightarrow> P e = Q va"
  shows "length (filter P es) = length (filter Q vs)"
  using assms(1) by (induction rule: list_all2_induct) (simp_all add: assms(2))

lemma subseq_filter_length: "subseq ks es \<Longrightarrow> length (filter P ks) \<le> length (filter P es)"
  by (intro list_emb_length [of "(=)"] subseq_filter)

lemma subseq_keeps_distinct: "subseq ks es \<Longrightarrow> distinct (map f es) \<Longrightarrow> distinct (map f ks)"
  by (metis distinct_nthsI subseq_conv_nths subseq_map)

text \<open>The visits that count as redirects of a link, and those of one hour.\<close>

definition redirects_of :: "(string \<Rightarrow> u64 option) \<Rightarrow> u64 \<Rightarrow> visit \<times> answer \<Rightarrow> bool" where
  "redirects_of codes l va \<longleftrightarrow> redirected (snd va) \<and> codes (visit_code (fst va)) = Some l"

definition visit_hour :: "visit \<times> answer \<Rightarrow> int" where
  "visit_hour va = visit_ms (fst va) div 1000 - visit_ms (fst va) div 1000 mod 3600"

lemma told_redirects:
  "tells e va \<Longrightarrow> counts_for codes l ''success'' (\<lambda>e. True) e = redirects_of codes l va"
  "tells e va \<Longrightarrow> counts_for codes l ''success'' (\<lambda>e. event_hour e = b) e = (redirects_of codes l va \<and> visit_hour va = b)"
  by (cases "event_result e"; auto simp: tells_def counts_for_def redirects_of_def visit_hour_def event_hour_def)+

section \<open>A client for evaluation\<close>

text \<open>A client that accepts everything and keeps it; it never has a callback to serve.\<close>

definition list_topic :: "(string \<times> string) list kafka_producer" where
  "list_topic = \<lparr>refused_setting = (\<lambda>k v. None), new_producer = (\<lambda>s. Inr []),
     produce = (\<lambda>topic key payload ms k. (kafka_ok, k @ [(key, payload)])),
     poll_producer = (\<lambda>ms k. ([], k)), flush_producer = (\<lambda>ms k. (kafka_ok, [], k)),
     purge_producer = (\<lambda>k. k), outq_len = (\<lambda>k. 0), error_text = (\<lambda>e. ''error'')\<rparr>"

interpretation listed: topic_log list_topic "\<lambda>k. k"
  by unfold_locales (auto simp: list_topic_def)

definition sample_publisher :: "(string \<times> string) list event_publisher" where
  "sample_publisher = \<lparr>publisher_producer = [], publisher_metrics = init_metrics, enqueue_failures = 0, delivery_failures = 0,
     client_errors = 0\<rparr>"

definition sample_site :: "(mem_repo, (string \<times> string) list) site" where
  "sample_site = \<lparr>link_world = sample_world, event_id_source = \<lparr>process_nonce = 0, id_sequence = 4\<rparr>, publisher_state = Some sample_publisher\<rparr>"

definition sample_visit :: visit where
  "sample_visit = \<lparr>visit_clock = (\<lambda>i. 9), visit_ms = 1700000000000, visit_request = redirect_request\<rparr>"

definition sample_run :: "(visit \<times> answer) list \<times> (mem_repo, (string \<times> string) list) site" where
  "sample_run = site_run (env_json sample_env) list_topic default_server_config \<lparr>repository = memory_repo, service_metrics = True\<rparr>
     [Visited sample_visit, Polled] sample_site"


text \<open>One redirect of the link \<open>abcd\<close>, whose record the consumer is handed twice.\<close>

lemma sample_redirected: "map (\<lambda>va. (redirected (snd va), visit_code (fst va), visit_ms (fst va))) (fst sample_run) = [(True, ''abcd'', 1700000000000)]"
  by code_simp

lemma sample_published:
  "map_option (\<lambda>p. (publisher_producer p, refused p)) (publisher_state (snd sample_run)) = Some ([(''abcd'', ''event'')], 0)"
  by code_simp

lemma sample_consumed: "fst (run_consumer sample_env [Some sample_message, None, Some sample_message] (sample_consumer [])) = Inr ()"
  by code_simp

section \<open>The property\<close>

text \<open>C3: redirects are counted once. Whatever the threads of the server do in whatever order, and however
  the records of the topic are handed to the consumer (in any order, again and again) and its database
  fails, no link is credited with more redirects, in total or in an hour, than visits of its code were
  answered 302 by the handler; and when the publisher refused no event, every record was handed over and
  the consumer's loop returned, with exactly as many.\<close>

theorem redirects_counted_once:
  assumes "topic_log K records" and "json_laws (env_json env)"
    and "publisher_state w = Some p" and "publisher_ok p" and "records (publisher_producer p) = []"
    and "site_run (env_json env) K cfg sv steps w = (visits, w')" and "publisher_state w' = Some p'"
    and "length visits < 2 ^ 64" and "\<forall>va\<in>set visits. visit_ms (fst va) < 2 ^ 63"
    and "statistics_tables (env_driver env) (env_connection env) committed working"
    and "working (stats_db s) = None" and "no_statistics_yet (committed (stats_db s))"
    and "from_topic (records (publisher_producer p')) polls" and "run_consumer env polls s = (res, s')"
  shows "let codes = link_ids (committed (stats_db s)); t = committed (stats_db s');
           total = (\<lambda>l. length (filter (redirects_of codes l) visits));
           hour = (\<lambda>l b. length (filter (\<lambda>va. redirects_of codes l va \<and> visit_hour va = b) visits))
     in (\<forall>l. total_of t l ''success'' \<le> total l) \<and> (\<forall>l b. hour_of t l b ''success'' \<le> hour l b) \<and>
        (refused p' = refused p \<and> all_handed_over (records (publisher_producer p')) polls \<and> res = Inr () \<longrightarrow>
           (\<forall>l. total_of t l ''success'' = total l) \<and> (\<forall>l b. hour_of t l b ''success'' = hour l b))"
proof -
  let ?codes = "link_ids (committed (stats_db s))" and ?t = "committed (stats_db s')"
  obtain psteps es where ps: "p' = fold (publisher_exec (env_json env) K (event_settings cfg)) psteps p"
    and es: "es = [e. Publish e \<leftarrow> psteps]" "list_all2 tells es visits" "map event_id es = generate_ids (length es) (event_id_source w)"
    using published_by_run [OF assms(6,3)] assms(7) by (auto simp: Let_def)
  obtain ks rs where ks: "subseq ks es" "list_all2 (record_of (env_json env)) ks rs" "records (publisher_producer p') = rs"
    "refused p' = refused p + of_nat (length es - length ks)"
    using topic_log.run_kept [OF assms(1,4), of psteps "env_json env" "event_settings cfg"] assms(5) unfolding ps es(1) by auto
  have len: "length es = length visits" using es(2) by (rule list_all2_lengthD)
  have "distinct (map event_id es)" using event_ids_unique [of "length es"] assms(8) len es(3) by simp
  then have dist: "distinct (map event_id ks)" by (rule subseq_keeps_distinct [OF ks(1)])
  have sub: "set ks \<subseteq> set es" using ks(1) by (auto simp: subseq_conv_nths dest: in_set_nthsD)
  have ms: "\<forall>e\<in>set ks. occurred_at_ms e < 2 ^ 63"
    using sub list_all2_memD(2) [OF es(2)] assms(9) by (fastforce simp: tells_def)
  note given = delivered_events [OF assms(2) ks(2) ms assms(13) [unfolded ks(3)]]
  obtain k where k: "?t = settle_all (take k (all_deliveries env polls)) (committed (stats_db s))"
    "res = Inr () \<longrightarrow> k = length (all_deliveries env polls)"
    using statistics_tables.run_settles [OF assms(10) refl refl assms(14,11)] by blast
  let ?ds = "take k (all_deliveries env polls)"
  have ds: "fst ` set ?ds \<subseteq> set ks" using given(1) set_take_subset by fastforce
  have "ids_name_events ?ds"
    using dist ds unfolding ids_name_events_def distinct_map by (meson inj_on_subset)
  note counts = settle_all_counts [OF assms(12) this, folded k(1)]
  have le: "card (counted_ids ?codes ?ds l ''success'' P) \<le> length (filter (counts_for ?codes l ''success'' P) es)" for l P
    using counted_ids_card(1) [OF dist ds] subseq_filter_length [OF ks(1)] by (rule le_trans)
  have eq: "card (counted_ids ?codes ?ds l ''success'' P) = length (filter (counts_for ?codes l ''success'' P) es)"
    if "refused p' = refused p" and "all_handed_over (records (publisher_producer p')) polls" and "res = Inr ()" for l P
  proof -
    have "of_nat (length es - length ks) = (0 :: u64)" using that(1) ks(4) by simp
    then have "length es - length ks = 0" using len assms(8) by (auto simp: word_of_nat_eq_0_iff dest: dvd_imp_le)
    then have "ks = es" using ks(1) list_emb_length [OF ks(1)] by (intro subseq_same_length) simp_all
    then show ?thesis using counted_ids_card(2) [OF dist ds] given(2) that(2,3) k(2) ks(3) by simp
  qed
  have total: "length (filter (counts_for ?codes l ''success'' (\<lambda>e. True)) es) = length (filter (redirects_of ?codes l) visits)" for l
    by (rule told_length [OF es(2)], rule told_redirects(1))
  have hour: "length (filter (counts_for ?codes l ''success'' (\<lambda>e. event_hour e = b)) es) =
      length (filter (\<lambda>va. redirects_of ?codes l va \<and> visit_hour va = b) visits)" for l b
    by (rule told_length [OF es(2)], rule told_redirects(2))
  show ?thesis unfolding Let_def total [symmetric] hour [symmetric] using counts le eq by simp
qed

lemma redirects_counted_once_witness:
  "\<exists>s'. run_consumer sample_env [Some sample_message, None, Some sample_message] (sample_consumer []) = (Inr (), s') \<and>
     total_of (plain_tables (stats_db s')) 5 ''success'' = 1"
proof -
  let ?polls = "[Some sample_message, None, Some sample_message]"
  obtain visits w' where run: "sample_run = (visits, w')" by fastforce
  obtain p' where p': "publisher_state w' = Some p'" "publisher_producer p' = [(''abcd'', ''event'')]" "refused p' = 0"
    using sample_published unfolding run by auto
  have visits: "map (\<lambda>va. (redirected (snd va), visit_code (fst va), visit_ms (fst va))) visits = [(True, ''abcd'', 1700000000000)]"
    using sample_redirected unfolding run by simp
  obtain s' where s': "run_consumer sample_env ?polls (sample_consumer []) = (Inr (), s')"
    using sample_consumed by (metis prod.collapse)
  have one: "length (filter (redirects_of (link_ids no_counts) 5) visits) = 1"
    using visits by (auto simp: redirects_of_def no_counts_def)
  have laws: "json_laws (env_json sample_env)"
    unfolding sample_env_def event_payload_def by (simp add: one_document_laws)
  have given: "from_topic (publisher_producer p') ?polls" "all_handed_over (publisher_producer p') ?polls"
    by (auto simp: from_topic_def all_handed_over_def p' sample_message_def)
  have start: "publisher_state sample_site = Some sample_publisher" "publisher_ok sample_publisher"
    "publisher_producer sample_publisher = []" "refused sample_publisher = 0"
    by (simp_all add: sample_site_def sample_publisher_def publisher_defs init_metrics_def)
  have tables: "statistics_tables (env_driver sample_env) (env_connection sample_env) plain_tables plain_view"
    using plain_statistics.statistics_tables_axioms by simp
  have few: "length visits < 2 ^ 64" "\<forall>va\<in>set visits. visit_ms (fst va) < 2 ^ 63"
    using visits by (auto simp: map_eq_Cons_conv)
  have fresh: "plain_view (stats_db (sample_consumer [])) = None" "no_statistics_yet (plain_tables (stats_db (sample_consumer [])))"
    by (simp_all add: no_counts_ok)
  from redirects_counted_once [OF listed.topic_log_axioms laws start(1-3) run [unfolded sample_run_def] p'(1) few tables fresh given(1) s']
  show ?thesis using s' one p'(3) start(4) given(2) by (simp add: Let_def)
qed
end
