(* ===== verification/PoolLifecycle.thy ===== *)
theory PoolLifecycle
  imports Database
begin

text \<open>
  What surrounds the use of the database connections: the end of a connection
  (\<open>DbConnection::isValid\<close>, \<open>cleanup\<close>, the destructor), the end of the pool, the rounds of its check thread
  and the helper \<open>MysqlUtil.h\<close>. The calls of the connector that only these use are the parameter
  \<open>result_driver\<close>. \<open>conn_\<close> is never null, because a constructor that throws leaves no object.
\<close>

section \<open>Connections\<close>

record ('c, 'd) result_driver =
  get_auto_commit :: "'c \<Rightarrow> 'd \<Rightarrow> (string + bool) \<times> 'd"
  set_auto_commit :: "'c \<Rightarrow> bool \<Rightarrow> 'd \<Rightarrow> (string + unit) \<times> 'd"
  more_results :: "'c \<Rightarrow> 'd \<Rightarrow> (string + bool) \<times> 'd"
  read_results :: "'c \<Rightarrow> 'd \<Rightarrow> (string + unit) \<times> 'd"

definition is_valid_connection :: "('c, 'u, 'q, 'd) sql_driver \<Rightarrow> 'c \<Rightarrow> 'd \<Rightarrow> bool \<times> 'd" where
  "is_valid_connection D c d = (case driver_select_one D c d of (Inl m, d1) \<Rightarrow> (False, d1) | (Inr b, d1) \<Rightarrow> (True, d1))"

text \<open>The two parts of \<open>cleanup\<close>: the transaction, and the loop over the results of a statement.\<close>

definition finish_transaction :: "('c, 'u, 'q, 'd) sql_driver \<Rightarrow> ('c, 'd) result_driver \<Rightarrow> 'c \<Rightarrow> ('d, unit) db_op" where
  "finish_transaction D R c =
     db_bind (as_db_exception (get_auto_commit R c)) (\<lambda>auto_commit.
     if auto_commit then db_return ()
     else db_bind (as_db_exception (driver_raw D c Rollback_transaction)) (\<lambda>_. as_db_exception (set_auto_commit R c True)))"

partial_function (option) drain_results :: "('c, 'd) result_driver \<Rightarrow> 'c \<Rightarrow> 'd \<Rightarrow> ((exn + unit) \<times> 'd) option" where
  "drain_results R c d =
     (case as_db_exception (more_results R c) d of
        (Inl e, d1) \<Rightarrow> Some (Inl e, d1)
      | (Inr another, d1) \<Rightarrow>
          if \<not> another then Some (Inr (), d1)
          else (case as_db_exception (read_results R c) d1 of
                  (Inl e, d2) \<Rightarrow> Some (Inl e, d2)
                | (Inr _, d2) \<Rightarrow> drain_results R c d2))"

definition cleanup :: "('c, 'u, 'q, 'd) sql_driver \<Rightarrow> ('c, 'd) result_driver \<Rightarrow> 'c \<Rightarrow> 'd \<Rightarrow> 'd option" where
  "cleanup D R c d =
     (case finish_transaction D R c d of
        (Inl e, d1) \<Rightarrow> Some (snd (reconnect D c d1))
      | (Inr _, d1) \<Rightarrow>
          (case drain_results R c d1 of
             None \<Rightarrow> None
           | Some (Inl e, d2) \<Rightarrow> Some (snd (reconnect D c d2))
           | Some (Inr _, d2) \<Rightarrow> Some d2))"

section \<open>The pool\<close>

text \<open>The destructor of the pool: each connection in the queue is destroyed, which cleans it up.\<close>

fun destroy_connections :: "('c, 'u, 'q, 'd) sql_driver \<Rightarrow> ('c, 'd) result_driver \<Rightarrow> 'c list \<Rightarrow> 'd \<Rightarrow> 'd option" where
  "destroy_connections D R [] d = Some d"
| "destroy_connections D R (c # cs) d =
     (case cleanup D R c d of None \<Rightarrow> None | Some d1 \<Rightarrow> destroy_connections D R cs d1)"

definition destroy_pool :: "('c, 'u, 'q, 'd) sql_driver \<Rightarrow> ('c, 'd) result_driver \<Rightarrow> 'c pool \<Rightarrow> 'd \<Rightarrow> ('c pool \<times> 'd) option" where
  "destroy_pool D R p d = map_option (Pair (p\<lparr>free_connections := []\<rparr>)) (destroy_connections D R (free_connections p) d)"

text \<open>A round of the check thread: what it does to the database and the seconds it sleeps then.\<close>

definition check_round :: "('c, 'u, 'q, 'd) sql_driver \<Rightarrow> 'c pool \<Rightarrow> 'd \<Rightarrow> int \<times> 'd" where
  "check_round D p d =
     (if free_connections p = [] then (1, d) else (60, check_connections D (free_connections p) d))"

section \<open>\<open>MysqlUtil\<close>\<close>

text \<open>The connection is back in the pool when the caller gets the result.\<close>

definition util_query :: "('c, 'u, 'q, 'd) sql_driver \<Rightarrow> ('c, 'd) pool_wait \<Rightarrow> 'q \<Rightarrow> ('c pool \<times> 'd, sql_row list) db_op" where
  "util_query D wait q = with_connection D wait (\<lambda>c. execute_query D c q)"

definition util_update :: "('c, 'u, 'q, 'd) sql_driver \<Rightarrow> ('c, 'd) pool_wait \<Rightarrow> 'u \<Rightarrow> ('c pool \<times> 'd, int) db_op" where
  "util_update D wait u = with_connection D wait (\<lambda>c. execute_update D c u)"

section \<open>Lemmas\<close>

text \<open>The results of a statement are finitely many: each one that is asked for leaves fewer.\<close>

locale finite_results =
  fixes R :: "('c, 'd) result_driver"
    and pending :: "'c \<Rightarrow> 'd \<Rightarrow> nat"
  assumes more_law: "more_results R c d = (Inr True, d1) \<Longrightarrow> pending c d1 < pending c d"
    and read_law: "read_results R c d = (Inr (), d1) \<Longrightarrow> pending c d1 \<le> pending c d"
begin

lemma drain_returns: "drain_results R c d \<noteq> None"
proof (induction "pending c d" arbitrary: d rule: less_induct)
  case less
  obtain r d1 where more: "more_results R c d = (r, d1)" by fastforce
  show ?case
  proof (cases "r = Inr True")
    case True
    obtain s d2 where read: "read_results R c d1 = (s, d2)" by fastforce
    show ?thesis
    proof (cases s)
      case (Inr u)
      then have "pending c d2 < pending c d"
        using more_law [of c d d1] read_law [of c d1 d2] more read True by simp
      then show ?thesis using less more read True Inr by (simp add: drain_results.simps [of R c d] as_db_exception_def)
    qed (use more read True in \<open>simp add: drain_results.simps [of R c d] as_db_exception_def\<close>)
  next
    case False
    then show ?thesis
      using more by (cases r) (auto simp: drain_results.simps [of R c d] as_db_exception_def)
  qed
qed

lemma cleanup_returns: "cleanup D R c d \<noteq> None"
  by (simp add: cleanup_def drain_returns split: prod.split sum.split option.split)

lemma destroy_pool_returns: "\<exists>d'. destroy_pool D R p d = Some (p\<lparr>free_connections := []\<rparr>, d')"
proof -
  have "destroy_connections D R cs d \<noteq> None" for cs d
    using cleanup_returns by (induction cs arbitrary: d) (auto split: option.split)
  then show ?thesis by (auto simp: destroy_pool_def)
qed

end

text \<open>
  While the session commits automatically, \<open>cleanup\<close> rolls nothing back: a transaction begun by the
  statement \<open>START TRANSACTION\<close>, which leaves that setting on, is not ended by it.
\<close>

lemma finish_keeps_transaction:
  "get_auto_commit R c d = (Inr True, d1) \<Longrightarrow> finish_transaction D R c d = (Inr (), d1)"
  by (simp add: finish_transaction_def as_db_exception_def db_bind_def)

text \<open>What checks and reconnections keep, a round keeps.\<close>

lemma check_connections_keeps:
  assumes "\<And>c d r d'. P d \<Longrightarrow> driver_select_one D c d = (r, d') \<Longrightarrow> P d'"
    and "\<And>c d r d'. P d \<Longrightarrow> driver_reconnect D c d = (r, d') \<Longrightarrow> P d'"
  shows "P d \<Longrightarrow> P (check_connections D cs d)"
proof (induction cs arbitrary: d)
  case (Cons c cs)
  obtain r d1 where one: "driver_select_one D c d = (r, d1)" by fastforce
  obtain s d2 where again: "driver_reconnect D c d1 = (s, d2)" by fastforce
  have "P d1" "P d2" using assms(1) [OF Cons.prems one] assms(2) [OF _ again] by auto
  then show ?case
    using one again Cons.IH
    by (cases r; cases s) (auto simp: ping_def reconnect_def as_db_exception_def split: bool.split)
qed simp

lemma check_round_keeps:
  assumes "\<And>c d r d'. P d \<Longrightarrow> driver_select_one D c d = (r, d') \<Longrightarrow> P d'"
    and "\<And>c d r d'. P d \<Longrightarrow> driver_reconnect D c d = (r, d') \<Longrightarrow> P d'" and "P d"
  shows "P (snd (check_round D p d))"
proof -
  have "P (check_connections D (free_connections p) d)" by (rule check_connections_keeps [where P = P]) (fact assms)+
  then show ?thesis using assms(3) by (simp add: check_round_def)
qed

text \<open>The pool \<open>init\<close> leaves: as many connections as asked for, or an exception and none of the rest.\<close>

lemma create_connections_count:
  "create_connections n D p d = (e, p', d') \<Longrightarrow>
   pool_initialized p' = pool_initialized p \<and> length (free_connections p') \<le> length (free_connections p) + n \<and>
   (e = None \<longrightarrow> length (free_connections p') = length (free_connections p) + n)"
proof (induction n arbitrary: p d)
  case (Suc n)
  then show ?case by (fastforce split: prod.splits sum.splits)
qed simp

lemma init_pool_full:
  fixes p :: "'c pool"
  assumes "init_pool D host user password database n empty_pool d = (e, p, d')"
  shows "(e = None \<longrightarrow> pool_initialized p \<and> length (free_connections p) = n) \<and> (e \<noteq> None \<longrightarrow> \<not> pool_initialized p)"
proof -
  define p0 :: "'c pool" where "p0 = empty_pool\<lparr>pool_host := host, pool_user := user, pool_password := password, pool_database := database\<rparr>"
  have p0: "pool_initialized p0 = False" "free_connections p0 = []" by (simp_all add: p0_def empty_pool_def)
  obtain e1 p1 d1 where c: "create_connections n D p0 d = (e1, p1, d1)" by (metis prod_cases3)
  show ?thesis
    using assms c create_connections_count [OF c] p0 by (cases e1) (auto simp: init_pool_def p0_def empty_pool_def)
qed

section \<open>A connector for evaluation\<close>

text \<open>The state counts the results that are left; a session commits automatically.\<close>

definition counted_results :: "(unit, nat) result_driver" where
  "counted_results = \<lparr>get_auto_commit = (\<lambda>c n. (Inr True, n)), set_auto_commit = (\<lambda>c b n. (Inr (), n)),
     more_results = (\<lambda>c n. case n of 0 \<Rightarrow> (Inr False, 0) | Suc k \<Rightarrow> (Inr True, k)), read_results = (\<lambda>c n. (Inr (), n))\<rparr>"

interpretation counted: finite_results counted_results "\<lambda>c n. n"
  by unfold_locales (auto simp: counted_results_def split: nat.splits)

end
