(* ===== verification/ServerProcess.thy ===== *)
theory ServerProcess
  imports ServerMain PoolLifecycle
begin

text \<open>
  \<open>main.cpp\<close> of the server as a process: from the arguments to the point where it serves, and what the
  end of \<open>main\<close> does. What \<open>main\<close> does not catch ends the process with \<open>std::terminate\<close>.
\<close>

section \<open>The start\<close>

datatype stopped = Exit_code int | Terminated exn

record ('k, 'c, 'd) running =
  run_config :: server_config
  run_pool :: "'c pool"
  run_database :: 'd
  run_publisher :: "'k event_publisher option"

definition config_path :: "string list \<Rightarrow> string" where
  "config_path args = (case args of [] \<Rightarrow> ''apps/shortlink_server/config/server.conf.example'' | path # _ \<Rightarrow> path)"

text \<open>\<open>static_cast<std::size_t>\<close> of the pool size, which is positive.\<close>

definition start_pool :: "('c, 'u, 'q, 'd) sql_driver \<Rightarrow> server_config \<Rightarrow> 'd \<Rightarrow> exn option \<times> 'c pool \<times> 'd" where
  "start_pool D cfg d =
     (if storage_type cfg = ''mysql''
      then init_pool D (db_host cfg) (db_user cfg) (db_password cfg) (db_name cfg) (nat (db_pool_size cfg)) empty_pool d
      else (None, empty_pool, d))"

text \<open>\<open>args\<close> are the arguments after the program's name; \<open>masked\<close> is the result of \<open>pthread_sigmask\<close>.\<close>

definition start_server ::
  "int \<Rightarrow> (string \<Rightarrow> string option) \<Rightarrow> string list \<Rightarrow> ('c, 'u, 'q, 'd) sql_driver \<Rightarrow> 'k kafka_producer \<Rightarrow> 'd \<Rightarrow>
   stopped + ('k, 'c, 'd) running" where
  "start_server masked files args D K d =
     (if masked \<noteq> 0 then Inl (Exit_code 1)
      else (let cfg = load_server_config files (config_path args)
            in case start_pool D cfg d of
                 (Some e, p, d1) \<Rightarrow> Inl (Terminated e)
               | (None, p, d1) \<Rightarrow>
                   Inr \<lparr>run_config = cfg, run_pool = p, run_database = d1, run_publisher = start_publisher K cfg init_metrics\<rparr>))"

section \<open>The end\<close>

text \<open>After \<open>quit\<close> the locals of \<open>main\<close> are destroyed, the publisher among them; the pool is a static object.\<close>

definition stop_server ::
  "('c, 'u, 'q, 'd) sql_driver \<Rightarrow> ('c, 'd) result_driver \<Rightarrow> 'k kafka_producer \<Rightarrow> ('k, 'c, 'd) running \<Rightarrow>
   ('k, 'c, 'd) running option" where
  "stop_server D R K r =
     map_option (\<lambda>(p, d). r\<lparr>run_publisher := map_option (close_publisher K (event_settings (run_config r))) (run_publisher r),
                           run_pool := p, run_database := d\<rparr>)
       (destroy_pool D R (run_pool r) (run_database r))"

section \<open>Lemmas\<close>

lemma loaded_server_ok: "server_config_ok (load_server_config files path)"
  using repaired_ok default_ok by (auto simp: load_server_config_def Let_def split: prod.split bool.split)

text \<open>A server that starts has a valid configuration, and with MySQL a full pool that is not empty.\<close>

lemma started_server:
  assumes "start_server masked files args D K d = Inr r"
  shows "masked = 0 \<and> server_config_ok (run_config r) \<and> run_config r = load_server_config files (config_path args) \<and>
     (storage_type (run_config r) = ''mysql'' \<longrightarrow>
        pool_initialized (run_pool r) \<and> free_connections (run_pool r) \<noteq> [] \<and>
        int (length (free_connections (run_pool r))) = db_pool_size (run_config r))"
proof -
  let ?cfg = "load_server_config files (config_path args)"
  obtain e p d1 where pool: "start_pool D ?cfg d = (e, p, d1)" by (metis prod_cases3)
  have r: "masked = 0" "e = None" "run_config r = ?cfg" "run_pool r = p"
    using assms pool by (auto simp: start_server_def Let_def split: if_splits option.splits)
  have "0 < db_pool_size ?cfg" using loaded_server_ok [of files "config_path args"] by (simp add: server_config_ok_def)
  then show ?thesis
    using r pool loaded_server_ok init_pool_full [of D "db_host ?cfg" "db_user ?cfg" "db_password ?cfg" "db_name ?cfg" "nat (db_pool_size ?cfg)" d e p d1]
    by (auto simp: start_pool_def)
qed

text \<open>With MySQL the server does not start without its connections; without MySQL only the signal mask can fail.\<close>

lemma server_does_not_start:
  assumes "start_server masked files args D K d = Inl s"
  shows "(masked \<noteq> 0 \<and> s = Exit_code 1) \<or>
     (masked = 0 \<and> storage_type (load_server_config files (config_path args)) = ''mysql'' \<and> (\<exists>e. s = Terminated e))"
  using assms by (auto simp: start_server_def start_pool_def Let_def split: if_splits option.splits prod.splits)

text \<open>A publisher that cannot start never keeps the server from starting.\<close>

lemma publisher_never_stops_start:
  "(\<exists>s. start_server masked files args D K d = Inl s) = (\<exists>s. start_server masked files args D K' d = Inl s)"
  by (auto simp: start_server_def Let_def split: prod.splits option.splits)

text \<open>The end returns, with an empty pool, and a publisher whose client flushes has nothing outstanding.\<close>

lemma stop_server_done:
  assumes "finite_results R pending" and "reporting_producer K unreported"
    and "run_publisher r = Some p" and "reporting_producer.balanced unreported p"
    and "\<And>timeout k. fst (flush_producer K timeout k) = kafka_ok"
  shows "\<exists>r' p'. stop_server D R K r = Some r' \<and> free_connections (run_pool r') = [] \<and> run_publisher r' = Some p' \<and>
     unreported (publisher_producer p') = 0 \<and> accepted p' = accepted p"
proof -
  let ?p = "close_publisher K (event_settings (run_config r)) p"
  obtain d where "destroy_pool D R (run_pool r) (run_database r) = Some ((run_pool r)\<lparr>free_connections := []\<rparr>, d)"
    using finite_results.destroy_pool_returns [OF assms(1)] by blast
  moreover have "unreported (publisher_producer ?p) = 0"
    by (rule reporting_producer.close_flushed [OF assms(2,4,5)])
  moreover have "accepted ?p = accepted p" using reporting_producer.close_balanced [OF assms(2,4)] by blast
  ultimately show ?thesis using assms(3) by (simp add: stop_server_def)
qed

end
