(* ===== verification/FileUtility.thy ===== *)
theory FileUtility
  imports HSL_Prelude
begin

text \<open>
  \<open>utils/FileUtil.h\<close>: a file that is opened, measured and read into the caller's buffer. \<open>files p\<close> is
  the content of the file at a path, \<open>None\<close> when it cannot be opened. A read that goes past the end of
  the buffer is undefined in the source and its own outcome here.
\<close>

record file_util =
  file_path :: string
  opened_file :: "string option"

datatype read_outcome = File_read string | Read_failed string | Past_the_end

definition make_file_util :: "(string \<Rightarrow> string option) \<Rightarrow> string \<Rightarrow> file_util" where
  "make_file_util files path = \<lparr>file_path = path, opened_file = files path\<rparr>"

definition is_open_file :: "file_util \<Rightarrow> bool" where
  "is_open_file f \<longleftrightarrow> opened_file f \<noteq> None"

definition reset_default_file :: "(string \<Rightarrow> string option) \<Rightarrow> string \<Rightarrow> file_util \<Rightarrow> file_util" where
  "reset_default_file files path f =
     (if path = [] then f\<lparr>opened_file := None\<rparr> else \<lparr>file_path = path, opened_file = files path\<rparr>)"

text \<open>\<open>tellg\<close> of a stream that is not open is \<open>- 1\<close>, which becomes the largest \<open>std::uint64_t\<close>.\<close>

definition file_size :: "file_util \<Rightarrow> u64" where
  "file_size f = (case opened_file f of None \<Rightarrow> - 1 | Some s \<Rightarrow> word_of_nat (length s))"

text \<open>\<open>buffer\<close> is what the vector holds; its size is not changed.\<close>

definition read_file :: "file_util \<Rightarrow> string \<Rightarrow> read_outcome" where
  "read_file f buffer =
     (case opened_file f of
        None \<Rightarrow> Read_failed buffer
      | Some s \<Rightarrow>
          (let n = unat (file_size f)
           in if length buffer < n then Past_the_end else File_read (take n s @ drop n buffer)))"

section \<open>Lemmas\<close>

lemma file_size_open: "opened_file f = Some s \<Longrightarrow> length s < 2 ^ 64 \<Longrightarrow> unat (file_size f) = length s"
  by (simp add: file_size_def unsigned_of_nat take_bit_nat_eq_self)

text \<open>A buffer of the file's size holds the file afterwards, a longer one keeps its rest.\<close>

lemma read_file_outcome:
  assumes "opened_file f = Some s" and "length s < 2 ^ 64"
  shows "read_file f buffer = (if length buffer < length s then Past_the_end else File_read (s @ drop (length s) buffer))"
  using assms by (simp add: read_file_def file_size_open Let_def)

lemma read_file_fits:
  assumes "opened_file f = Some s" and "length s < 2 ^ 64" and "length buffer = unat (file_size f)"
  shows "read_file f buffer = File_read s"
  using assms by (simp add: read_file_outcome file_size_open)

text \<open>The empty buffer, which callers have before they ask for the size, is overrun by every file that is not empty.\<close>

lemma empty_buffer_overrun:
  assumes "opened_file f = Some s" and "length s < 2 ^ 64"
  shows "read_file f [] = Past_the_end \<longleftrightarrow> s \<noteq> []"
  using assms by (simp add: read_file_outcome)

lemma closed_file:
  "files p = None \<Longrightarrow> \<not> is_open_file (reset_default_file files p f) \<and> read_file (reset_default_file files p f) buffer = Read_failed buffer \<and>
     file_size (reset_default_file files p f) = - 1"
  by (simp add: is_open_file_def reset_default_file_def read_file_def file_size_def)

end
