(* ===== verification/CacheConcurrency.thy ===== *)
theory CacheConcurrency
  imports RedisCache
begin

text \<open>
  \<open>RedisCachedShortLinkRepository\<close> under concurrency. Its methods hold no lock: between the calls of
  Redis and of the source that one thread makes, other threads make theirs. A step of the relation
  \<open>cache_step\<close> is one such call. Redis may fail at any of them, so a lookup may store what is no longer
  true, and an update may leave an old entry behind; what bounds the harm is the time to live.
\<close>

section \<open>Threads and steps\<close>

text \<open>
  What a thread of \<open>findByCode\<close> has found out, and what one of \<open>updateLifecycle\<close> has left to do. The time of
  the reading is there for the statement only.
\<close>

datatype cache_thread = Resting | Missed string | Found link_record int | Changed string

type_synonym ('d, 's) cache_site = "('d \<times> 's) world \<times> cache_thread list"

text \<open>
  \<open>redis_now\<close> is the clock of Redis, \<open>later\<close> relates its states when time passes between the calls, and no fill
  lands more than \<open>delay\<close> after the reading it stores. A step is labelled with the record it answers from
  the cache.
\<close>

inductive cache_step ::
  "'d link_cache \<Rightarrow> 's link_repo \<Rightarrow> ('s world \<Rightarrow> bool) \<Rightarrow> ('d \<Rightarrow> int) \<Rightarrow> ('d \<Rightarrow> 'd \<Rightarrow> bool) \<Rightarrow> int \<Rightarrow>
   ('d, 's) cache_site \<Rightarrow> link_record option \<Rightarrow> ('d, 's) cache_site \<Rightarrow> bool"
  for ca :: "'d link_cache" and src :: "'s link_repo" and room :: "'s world \<Rightarrow> bool" and redis_now :: "'d \<Rightarrow> int"
    and later :: "'d \<Rightarrow> 'd \<Rightarrow> bool" and delay :: int where
  get_hit: "i < length ts \<Longrightarrow> ts ! i = Resting \<Longrightarrow> on_cache (cache_get ca c) w = (Some r, w1) \<Longrightarrow>
     cache_step ca src room redis_now later delay (w, ts) (Some r) (w1, ts)"
| get_miss: "i < length ts \<Longrightarrow> ts ! i = Resting \<Longrightarrow> on_cache (cache_get ca c) w = (None, w1) \<Longrightarrow>
     cache_step ca src room redis_now later delay (w, ts) None (w1, ts[i := Missed c])"
| read_found: "i < length ts \<Longrightarrow> ts ! i = Missed c \<Longrightarrow> on_source (repo_find src now c) w = (Inr res, w1) \<Longrightarrow>
     lookup_record res = Some r \<Longrightarrow>
     cache_step ca src room redis_now later delay (w, ts) None (w1, ts[i := Found r (redis_now (fst (store w)))])"
| read_missing: "i < length ts \<Longrightarrow> ts ! i = Missed c \<Longrightarrow> on_source (repo_find src now c) w = (res, w1) \<Longrightarrow>
     (case res of Inl e \<Rightarrow> True | Inr x \<Rightarrow> lookup_record x = None) \<Longrightarrow>
     cache_step ca src room redis_now later delay (w, ts) None (w1, ts[i := Resting])"
| fill: "i < length ts \<Longrightarrow> ts ! i = Found r t \<Longrightarrow> on_cache (cache_set ca now r) w = (stored, w1) \<Longrightarrow>
     redis_now (fst (store w1)) \<le> t + delay \<Longrightarrow>
     cache_step ca src room redis_now later delay (w, ts) None (w1, ts[i := Resting])"
| update_source: "i < length ts \<Longrightarrow> ts ! i = Resting \<Longrightarrow> on_source (repo_update src now c u) w = (Inr (Some r), w1) \<Longrightarrow>
     cache_step ca src room redis_now later delay (w, ts) None (w1, ts[i := Changed c])"
| update_nothing: "i < length ts \<Longrightarrow> ts ! i = Resting \<Longrightarrow> on_source (repo_update src now c u) w = (res, w1) \<Longrightarrow>
     (\<forall>r. res \<noteq> Inr (Some r)) \<Longrightarrow>
     cache_step ca src room redis_now later delay (w, ts) None (w1, ts)"
| erase: "i < length ts \<Longrightarrow> ts ! i = Changed c \<Longrightarrow> on_cache (cache_erase ca c) w = (erased, w1) \<Longrightarrow>
     cache_step ca src room redis_now later delay (w, ts) None (w1, ts[i := Resting])"
| create: "i < length ts \<Longrightarrow> ts ! i = Resting \<Longrightarrow> room (source_world w) \<Longrightarrow>
     on_source (repo_create src now url ex own cu) w = (made, w1) \<Longrightarrow>
     cache_step ca src room redis_now later delay (w, ts) None (w1, ts)"
| time_passes: "later (fst (store w)) d \<Longrightarrow>
     cache_step ca src room redis_now later delay (w, ts) None (w\<lparr>store := (d, snd (store w))\<rparr>, ts)"

text \<open>The states of a run, in order.\<close>

inductive cache_run ::
  "'d link_cache \<Rightarrow> 's link_repo \<Rightarrow> ('s world \<Rightarrow> bool) \<Rightarrow> ('d \<Rightarrow> int) \<Rightarrow> ('d \<Rightarrow> 'd \<Rightarrow> bool) \<Rightarrow> int \<Rightarrow>
   ('d, 's) cache_site list \<Rightarrow> bool"
  for ca :: "'d link_cache" and src :: "'s link_repo" and room :: "'s world \<Rightarrow> bool" and redis_now :: "'d \<Rightarrow> int"
    and later :: "'d \<Rightarrow> 'd \<Rightarrow> bool" and delay :: int where
  run_start: "\<forall>t\<in>set ts. t = Resting \<Longrightarrow> cache_run ca src room redis_now later delay [(w, ts)]"
| run_step: "cache_run ca src room redis_now later delay ss \<Longrightarrow> cache_step ca src room redis_now later delay (last ss) a s \<Longrightarrow>
     cache_run ca src room redis_now later delay (ss @ [s])"

lemma run_nonempty: "cache_run ca src room redis_now later delay ss \<Longrightarrow> ss \<noteq> []"
  by (induction rule: cache_run.induct) simp_all

text \<open>The steps of one thread, taken without a break, are the methods.\<close>

lemma lookup_steps:
  "cached_find ca src now c w =
     (case on_cache (cache_get ca c) w of
        (Some r, w1) \<Rightarrow> (Inr \<lparr>lookup_record = Some r, lookup_from = Source_redis\<rparr>, w1)
      | (None, w1) \<Rightarrow> (case on_source (repo_find src now c) w1 of
          (res, w2) \<Rightarrow> (res, (case res of Inr x \<Rightarrow> (case lookup_record x of None \<Rightarrow> w2 | Some r \<Rightarrow> snd (on_cache (cache_set ca now r) w2))
             | Inl e \<Rightarrow> w2))))"
  by (auto simp: cached_find_def split: prod.split option.split sum.split)

section \<open>Redis with its clock\<close>

text \<open>
  \<open>entries\<close> are the keys of the configured database with their values and the times they expire at. Keys
  may disappear at any time and no clock runs backwards; a read returns what is stored and has not
  expired; \<open>SETEX\<close> stores its value for the given time or nothing.
\<close>

locale timed_cache =
  fixes ca :: "'d link_cache"
    and entries :: "'d \<Rightarrow> string \<Rightarrow> (string \<times> int) option"
    and redis_now :: "'d \<Rightarrow> int"
    and ready :: "'d \<Rightarrow> bool"
    and later :: "'d \<Rightarrow> 'd \<Rightarrow> bool"
  assumes ttl_configured: "\<exists>cfg. cache_config_of ca = cache_init cfg"
    and later_law: "later d d' \<Longrightarrow> entries d' \<subseteq>\<^sub>m entries d \<and> redis_now d \<le> redis_now d'"
    and open_law: "cache_open ca d = (ok, d') \<Longrightarrow> entries d' \<subseteq>\<^sub>m entries d \<and> redis_now d \<le> redis_now d' \<and> (ok \<longrightarrow> ready d')"
    and get_law: "ready d \<Longrightarrow> redis_command (cache_server ca) [''GET'', k] d = (rep, d') \<Longrightarrow>
          ready d' \<and> entries d' \<subseteq>\<^sub>m entries d \<and> redis_now d \<le> redis_now d' \<and>
          (\<forall>v. rep = Some (Reply_string v) \<longrightarrow> (\<exists>e. entries d k = Some (v, e) \<and> redis_now d \<le> e))"
    and del_law: "ready d \<Longrightarrow> redis_command (cache_server ca) [''DEL'', k] d = (rep, d') \<Longrightarrow>
          entries d' \<subseteq>\<^sub>m entries d \<and> redis_now d \<le> redis_now d'"
    and setex_law: "ready d \<Longrightarrow> redis_command (cache_server ca) [''SETEX'', k, to_string_int ttl, v] d = (rep, d') \<Longrightarrow>
          (entries d' \<subseteq>\<^sub>m entries d \<or> entries d' \<subseteq>\<^sub>m (entries d)(k \<mapsto> (v, redis_now d' + ttl))) \<and> redis_now d \<le> redis_now d'"

text \<open>\<open>allowed c r e\<close>: the record \<open>r\<close> may stand in the cache under the code \<open>c\<close> until \<open>e\<close>.\<close>

definition entries_allowed ::
  "'d link_cache \<Rightarrow> ('d \<Rightarrow> string \<Rightarrow> (string \<times> int) option) \<Rightarrow> (string \<Rightarrow> link_record \<Rightarrow> int \<Rightarrow> bool) \<Rightarrow> 'd \<Rightarrow> bool" where
  "entries_allowed ca entries allowed d \<longleftrightarrow>
     (\<forall>c v e r. entries d (build_cache_key (cache_config_of ca) c) = Some (v, e) \<longrightarrow> deserialize_link c v = Some r \<longrightarrow> allowed c r e)"

lemma allowed_fewer: "entries d' \<subseteq>\<^sub>m entries d \<Longrightarrow> entries_allowed ca entries allowed d \<Longrightarrow> entries_allowed ca entries allowed d'"
  using map_le_SomeD [of "entries d'" "entries d"] unfolding entries_allowed_def by blast

context timed_cache
begin

lemma fewer: "entries d' \<subseteq>\<^sub>m entries d \<Longrightarrow> entries_allowed ca entries allowed d \<Longrightarrow> entries_allowed ca entries allowed d'"
  by (rule allowed_fewer)

lemma get_timed:
  assumes "entries_allowed ca entries allowed (store w)" and "cache_get ca c w = (ro, w')"
  shows "entries_allowed ca entries allowed (store w') \<and> redis_now (store w) \<le> redis_now (store w') \<and>
     (\<forall>r. ro = Some r \<longrightarrow> (\<exists>e. allowed c r e \<and> redis_now (store w) \<le> e))"
proof -
  obtain ok d where o: "cache_open ca (store w) = (ok, d)" by fastforce
  note o' = open_law [OF o]
  have d: "entries_allowed ca entries allowed d" using fewer o' assms(1) by blast
  show ?thesis
  proof (cases ok)
    case False
    then show ?thesis using o o' d assms(2) by (auto simp: cache_get_def)
  next
    case True
    let ?k = "build_cache_key (cache_config_of ca) c"
    obtain rep d1 where g: "redis_command (cache_server ca) [''GET'', ?k] d = (rep, d1)" by fastforce
    note g' = get_law [OF _ g]
    obtain rep2 d2 where x: "redis_command (cache_server ca) [''DEL'', ?k] d1 = (rep2, d2)" by fastforce
    have d1: "entries_allowed ca entries allowed d1" using g' o' True d fewer by blast
    have d2: "entries_allowed ca entries allowed d2" "redis_now d1 \<le> redis_now d2"
      using del_law [OF _ x] g' o' True d1 fewer by blast+
    have s: "redis_now (store w) \<le> redis_now d" "redis_now d \<le> redis_now d1" using o' g' True by auto
    have hit: "\<exists>e. allowed c r e \<and> redis_now (store w) \<le> e" if "rep = Some (Reply_string v)" "deserialize_link c v = Some r" for v r
      using that g' o' True d s unfolding entries_allowed_def by fastforce
    show ?thesis
      using assms(2) o g x True d1 d2 s hit
      by (auto simp: cache_get_def Let_def split: option.splits redis_reply.splits if_splits)
  qed
qed

lemma erase_timed:
  assumes "entries_allowed ca entries allowed (store w)" and "cache_erase ca c w = (b, w')"
  shows "entries_allowed ca entries allowed (store w') \<and> redis_now (store w) \<le> redis_now (store w')"
proof -
  obtain ok d where o: "cache_open ca (store w) = (ok, d)" by fastforce
  note o' = open_law [OF o]
  obtain rep d1 where x: "redis_command (cache_server ca) [''DEL'', build_cache_key (cache_config_of ca) c] d = (rep, d1)" by fastforce
  have "entries_allowed ca entries allowed d" using fewer o' assms(1) by blast
  then show ?thesis
    using assms(2) o x o' del_law [OF _ x] fewer [of d1 d allowed]
    by (cases ok) (auto simp: cache_erase_def Let_def)
qed

text \<open>A fill stores the record for the configured time to live at most.\<close>

lemma entry_ttl_le: "\<not> (case expires_at r of Some t \<Rightarrow> t - now \<le> 0 | None \<Rightarrow> False) \<Longrightarrow>
    1 \<le> entry_ttl (cache_config_of ca) now r \<and> entry_ttl (cache_config_of ca) now r \<le> cache_ttl (cache_config_of ca)"
  using ttl_configured by (auto simp: entry_ttl_def cache_init_def split: option.splits if_splits)

lemma set_timed:
  assumes "entries_allowed ca entries allowed (store w)" and "cache_set ca now r w = (b, w')"
    and may: "\<And>e. e \<le> redis_now (store w') + cache_ttl (cache_config_of ca) \<Longrightarrow> allowed (link_code r) r e"
  shows "entries_allowed ca entries allowed (store w') \<and> redis_now (store w) \<le> redis_now (store w')"
proof (cases "case expires_at r of Some t \<Rightarrow> t - now \<le> 0 | None \<Rightarrow> False")
  case True
  then show ?thesis using erase_timed [OF assms(1)] assms(2) by (simp add: cache_set_def)
next
  case False
  note ttl = entry_ttl_le [OF False]
  let ?ttl = "entry_ttl (cache_config_of ca) now r" and ?k = "build_cache_key (cache_config_of ca) (link_code r)"
  obtain ok d where o: "cache_open ca (store w) = (ok, d)" by fastforce
  note o' = open_law [OF o]
  have d: "entries_allowed ca entries allowed d" using fewer o' assms(1) by blast
  show ?thesis
  proof (cases ok)
    case no: False
    then show ?thesis using assms(2) o o' d False by (auto simp: cache_set_def cache_write_def)
  next
    case True
    obtain rep d1 where x: "redis_command (cache_server ca) [''SETEX'', ?k, to_string_int ?ttl, serialize_link r] d = (rep, d1)"
      by fastforce
    have w': "store w' = d1" using assms(2) o x True False ttl by (auto simp: cache_set_def cache_write_def Let_def)
    have law: "entries d1 \<subseteq>\<^sub>m entries d \<or> entries d1 \<subseteq>\<^sub>m (entries d)(?k \<mapsto> (serialize_link r, redis_now d1 + ?ttl))"
      "redis_now d \<le> redis_now d1"
      using setex_law [OF _ x] o' True by auto
    have "entries_allowed ca entries allowed d1" if new: "entries d1 \<subseteq>\<^sub>m (entries d)(?k \<mapsto> (serialize_link r, redis_now d1 + ?ttl))"
      unfolding entries_allowed_def
    proof (intro allI impI)
      fix c v e r'
      assume k: "entries d1 (build_cache_key (cache_config_of ca) c) = Some (v, e)" and r': "deserialize_link c v = Some r'"
      show "allowed c r' e"
      proof (cases "c = link_code r")
        case True
        then have "v = serialize_link r" "e = redis_now d1 + ?ttl" using map_le_SomeD [OF new k] by simp_all
        then show ?thesis using r' True may [of e] ttl w' by (auto simp: deserialize_serialize split: if_splits)
      next
        case False
        then have "entries d (build_cache_key (cache_config_of ca) c) = Some (v, e)"
          using map_le_SomeD [OF new k] by (simp add: build_cache_key_def)
        then show ?thesis using d r' unfolding entries_allowed_def by blast
      qed
    qed
    then show ?thesis using w' law o' fewer d by auto
  qed
qed

end

section \<open>What is served was true\<close>

text \<open>\<open>true_at ss c r t\<close>: the source had the record \<open>r\<close> under the code \<open>c\<close> in a state of the run not before \<open>t\<close>.\<close>

definition true_at ::
  "('s world \<Rightarrow> link_record list) \<Rightarrow> ('d \<Rightarrow> int) \<Rightarrow> ('d, 's) cache_site list \<Rightarrow> string \<Rightarrow> link_record \<Rightarrow> int \<Rightarrow> bool" where
  "true_at recs redis_now ss c r t \<longleftrightarrow>
     (\<exists>s\<in>set ss. view (recs (source_world (fst s))) c = Some r \<and> t \<le> redis_now (fst (store (fst s))))"

lemma true_at_mono: "true_at recs redis_now ss c r t \<Longrightarrow> t' \<le> t \<Longrightarrow> set ss \<subseteq> set ss' \<Longrightarrow> true_at recs redis_now ss' c r t'"
  unfolding true_at_def by fastforce

locale concurrent_cache = link_repository src inv room recs + timed_cache ca entries redis_now ready later
  for src :: "'s link_repo" and inv :: "'s world \<Rightarrow> bool" and room :: "'s world \<Rightarrow> bool" and recs :: "'s world \<Rightarrow> link_record list"
    and ca :: "'d link_cache" and entries :: "'d \<Rightarrow> string \<Rightarrow> (string \<times> int) option" and redis_now :: "'d \<Rightarrow> int"
    and ready :: "'d \<Rightarrow> bool" and later :: "'d \<Rightarrow> 'd \<Rightarrow> bool"
begin

definition run_ok :: "int \<Rightarrow> ('d, 's) cache_site list \<Rightarrow> bool" where
  "run_ok delay ss \<longleftrightarrow>
     (case last ss of (w, ts) \<Rightarrow>
        inv (source_world w) \<and>
        entries_allowed ca entries (\<lambda>c r e. true_at recs redis_now ss c r (e - delay - cache_ttl (cache_config_of ca))) (fst (store w)) \<and>
        (\<forall>i r t. i < length ts \<longrightarrow> ts ! i = Found r t \<longrightarrow> true_at recs redis_now ss (link_code r) r t))"

lemma run_ok_I:
  assumes "last ss = (w, ts)" and "inv (source_world w)"
    and "entries_allowed ca entries (\<lambda>c r e. true_at recs redis_now ss c r (e - delay - cache_ttl (cache_config_of ca))) (fst (store w))"
    and "\<And>i r t. i < length ts \<Longrightarrow> ts ! i = Found r t \<Longrightarrow> true_at recs redis_now ss (link_code r) r t"
  shows "run_ok delay ss"
  using assms by (simp add: run_ok_def)

text \<open>A step that leaves the entries allowed, and lets a thread find only what is true, keeps a run as it should be.\<close>

lemma step_keeps:
  assumes "run_ok delay ss" and "last ss = (w, ts)" and "inv (source_world w')"
    and ent: "\<And>allowed. entries_allowed ca entries allowed (fst (store w)) \<Longrightarrow>
        (\<And>c r e. true_at recs redis_now ss c r (e - delay - cache_ttl (cache_config_of ca)) \<Longrightarrow> allowed c r e) \<Longrightarrow> entries_allowed ca entries allowed (fst (store w'))"
    and thr: "\<And>j r t. j < length ts' \<Longrightarrow> ts' ! j = Found r t \<Longrightarrow>
        j < length ts \<and> ts ! j = Found r t \<or> true_at recs redis_now (ss @ [(w', ts')]) (link_code r) r t"
  shows "run_ok delay (ss @ [(w', ts')])"
proof -
  let ?ss = "ss @ [(w', ts')]"
  have more: "true_at recs redis_now ss c r t \<Longrightarrow> true_at recs redis_now ?ss c r t" for c r t
    by (rule true_at_mono [OF _ order_refl]) auto
  have old: "entries_allowed ca entries (\<lambda>c r e. true_at recs redis_now ss c r (e - delay - cache_ttl (cache_config_of ca))) (fst (store w))"
    "\<And>i r t. i < length ts \<Longrightarrow> ts ! i = Found r t \<Longrightarrow> true_at recs redis_now ss (link_code r) r t"
    using assms(1,2) by (auto simp: run_ok_def)
  have "entries_allowed ca entries (\<lambda>c r e. true_at recs redis_now ?ss c r (e - delay - cache_ttl (cache_config_of ca))) (fst (store w))"
    using old(1) more unfolding entries_allowed_def by blast
  then have "entries_allowed ca entries (\<lambda>c r e. true_at recs redis_now ?ss c r (e - delay - cache_ttl (cache_config_of ca))) (fst (store w'))"
    by (rule ent) (rule more)
  moreover have "true_at recs redis_now ?ss (link_code r) r t" if "j < length ts'" "ts' ! j = Found r t" for j r t
    using thr [OF that] old(2) more by blast
  ultimately show ?thesis using assms(3) by (intro run_ok_I) simp_all
qed

lemma cache_call:
  assumes "on_cache f w = (a, w1)" and "inv (source_world w)"
  shows "f \<lparr>store = fst (store w), metrics = metrics w\<rparr> = (a, \<lparr>store = fst (store w1), metrics = metrics w1\<rparr>)"
    and "inv (source_world w1)"
  using source_on_cache [OF assms(1)] metrics_law assms(2) by metis+

text \<open>The records a step answers from the cache.\<close>

definition answer_ok :: "int \<Rightarrow> ('d, 's) cache_site list \<Rightarrow> link_record option \<Rightarrow> bool" where
  "answer_ok delay ss a \<longleftrightarrow>
     (\<forall>r. a = Some r \<longrightarrow> true_at recs redis_now ss (link_code r) r (redis_now (fst (store (fst (last ss)))) - delay - cache_ttl (cache_config_of ca)))"

lemma answer_none [simp]: "answer_ok delay ss None"
  by (simp add: answer_ok_def)

lemma get_step:
  assumes "run_ok delay ss" and "last ss = (w, ts)" and "on_cache (cache_get ca c) w = (ro, w1)"
    and "\<And>j r t. j < length ts' \<Longrightarrow> ts' ! j = Found r t \<Longrightarrow> j < length ts \<and> ts ! j = Found r t"
  shows "run_ok delay (ss @ [(w1, ts')]) \<and> answer_ok delay ss ro"
proof -
  have i: "inv (source_world w)"
    and e: "entries_allowed ca entries (\<lambda>c r e. true_at recs redis_now ss c r (e - delay - cache_ttl (cache_config_of ca))) (fst (store w))"
    using assms(1,2) by (auto simp: run_ok_def)
  note c = cache_call [OF assms(3) i]
  have "answer_ok delay ss ro"
    unfolding answer_ok_def
  proof (intro allI impI)
    fix r
    assume "ro = Some r"
    then obtain x where x: "true_at recs redis_now ss c r (x - delay - cache_ttl (cache_config_of ca))" "redis_now (fst (store w)) \<le> x"
      using get_timed [OF _ c(1)] e by fastforce
    then have "link_code r = c" unfolding true_at_def using view_code by blast
    moreover have "true_at recs redis_now ss c r (redis_now (fst (store w)) - delay - cache_ttl (cache_config_of ca))"
      by (rule true_at_mono [OF x(1)]) (use x(2) in simp_all)
    ultimately show "true_at recs redis_now ss (link_code r) r (redis_now (fst (store (fst (last ss)))) - delay - cache_ttl (cache_config_of ca))"
      using assms(2) by simp
  qed
  moreover have "run_ok delay (ss @ [(w1, ts')])"
    using get_timed [OF _ c(1)] assms(4) by (intro step_keeps [OF assms(1,2) c(2)]) auto
  ultimately show ?thesis by blast
qed

lemma source_step:
  assumes "run_ok delay ss" and "last ss = (w, ts)" and "on_source f w = (x, w1)" and "inv (source_world w1)"
    and "\<And>j r t. j < length ts' \<Longrightarrow> ts' ! j = Found r t \<Longrightarrow>
        j < length ts \<and> ts ! j = Found r t \<or> true_at recs redis_now (ss @ [(w1, ts')]) (link_code r) r t"
  shows "run_ok delay (ss @ [(w1, ts')])"
  using source_on_source [OF assms(3)] assms(5) by (intro step_keeps [OF assms(1,2,4)]) auto

lemma found_update:
  "j < length (ts[i := v]) \<Longrightarrow> ts[i := v] ! j = Found r t \<Longrightarrow> i < length ts \<Longrightarrow>
   v = Found r t \<or> j < length ts \<and> ts ! j = Found r t"
  by (cases "i = j") simp_all

lemma run_ok_step:
  assumes "run_ok delay ss" and "ss \<noteq> []" and "last ss = s" and "cache_step ca src room redis_now later delay s a s'"
  shows "run_ok delay (ss @ [s']) \<and> answer_ok delay ss a"
  using assms(4,3)
proof (cases rule: cache_step.cases)
  case (get_hit i ts c w r w1)
  then show ?thesis using get_step [OF assms(1) _ get_hit(6)] assms(3) by simp
next
  case (get_miss i ts c w w1)
  then show ?thesis
    using get_step [OF assms(1) _ get_miss(6), of ts "ts[i := Missed c]"] assms(3) found_update by fastforce
next
  case (read_found i ts c now w res w1 r)
  have i: "inv (source_world w)" using assms(1,3) read_found(1) by (auto simp: run_ok_def)
  note o = source_on_source [OF read_found(6)]
  have f: "inv (source_world w1)" "view (recs (source_world w)) c = Some r"
    using find_law [OF i, of now c] o read_found(7) by auto
  have "true_at recs redis_now (ss @ [s']) (link_code r) r (redis_now (fst (store w)))"
    using f(2) view_code [OF f(2)] assms(2,3) read_found(1) last_in_set [OF assms(2)]
    unfolding true_at_def by (intro bexI [of _ s]) auto
  then show ?thesis
    using source_step [OF assms(1) _ read_found(6) f(1), of ts "ts[i := Found r (redis_now (fst (store w)))]"]
      found_update [of _ ts i "Found r (redis_now (fst (store w)))"] assms(3) read_found(1-4) by fastforce
next
  case (read_missing i ts c now w res w1)
  have i: "inv (source_world w)" using assms(1,3) read_missing(1) by (auto simp: run_ok_def)
  have "inv (source_world w1)" using find_law [OF i, of now c] source_on_source [OF read_missing(6)] by auto
  then show ?thesis
    using source_step [OF assms(1) _ read_missing(6), of ts "ts[i := Resting]"] found_update [of _ ts i Resting]
      assms(3) read_missing(1-4) by fastforce
next
  case (fill i ts r t now w stored w1)
  have i: "inv (source_world w)" and t: "true_at recs redis_now ss (link_code r) r t"
    using assms(1,3) fill(1,4,5) by (auto simp: run_ok_def)
  note c = cache_call [OF fill(6) i]
  have "run_ok delay (ss @ [(w1, ts[i := Resting])])"
  proof (rule step_keeps [OF assms(1) _ c(2)])
    show "last ss = (w, ts)" using assms(3) fill(1) by simp
    fix allowed
    assume e: "entries_allowed ca entries allowed (fst (store w))"
      and a: "\<And>c r e. true_at recs redis_now ss c r (e - delay - cache_ttl (cache_config_of ca)) \<Longrightarrow> allowed c r e"
    have "allowed (link_code r) r x" if "x \<le> redis_now (fst (store w1)) + cache_ttl (cache_config_of ca)" for x
      by (rule a, rule true_at_mono [OF t]) (use that fill(7) in simp_all)
    then show "entries_allowed ca entries allowed (fst (store w1))" using set_timed [OF _ c(1)] e by simp
  qed (use found_update [of _ ts i Resting] fill(4) in fastforce)
  then show ?thesis using fill by simp
next
  case (update_source i ts now c u w r w1)
  have i: "inv (source_world w)" using assms(1,3) update_source(1) by (auto simp: run_ok_def)
  have "inv (source_world w1)" using update_law [OF i, of now c u] source_on_source [OF update_source(6)] by auto
  then show ?thesis
    using source_step [OF assms(1) _ update_source(6), of ts "ts[i := Changed c]"] found_update [of _ ts i "Changed c"]
      assms(3) update_source(1-4) by fastforce
next
  case (update_nothing i ts now c u w res w1)
  have i: "inv (source_world w)" using assms(1,3) update_nothing(1) by (auto simp: run_ok_def)
  have "inv (source_world w1)" using update_law [OF i, of now c u] source_on_source [OF update_nothing(6)] by auto
  then show ?thesis using source_step [OF assms(1) _ update_nothing(6), of ts ts] assms(3) update_nothing by simp
next
  case (erase i ts c w erased w1)
  have i: "inv (source_world w)" using assms(1,3) erase(1) by (auto simp: run_ok_def)
  note c = cache_call [OF erase(6) i]
  have "run_ok delay (ss @ [(w1, ts[i := Resting])])"
    using erase_timed [OF _ c(1)] found_update [of _ ts i Resting] erase(1,4) assms(3)
    by (intro step_keeps [OF assms(1) _ c(2), where ts = ts]) fastforce+
  then show ?thesis using erase by simp
next
  case (create i ts w now url ex own cu made w1)
  have i: "inv (source_world w)" using assms(1,3) create(1) by (auto simp: run_ok_def)
  have "inv (source_world w1)" using create_law [OF i create(6)] source_on_source [OF create(7)] by blast
  then show ?thesis using source_step [OF assms(1) _ create(7), of ts ts] assms(3) create by simp
next
  case (time_passes w d ts)
  have i: "inv (source_world w)" using assms(1,3) time_passes(1) by (auto simp: run_ok_def)
  have "inv (source_world (w\<lparr>store := (d, snd (store w))\<rparr>))" using i by (simp add: source_world_def)
  then show ?thesis
    using step_keeps [OF assms(1), where w = w and ts = ts and w' = "w\<lparr>store := (d, snd (store w))\<rparr>" and ts' = ts] later_law [OF time_passes(4)] fewer
      assms(3) time_passes by auto
qed

lemma run_is_ok:
  assumes "cache_run ca src room redis_now later delay ss" and "0 \<le> delay"
    and "inv (source_world (fst (hd ss)))"
    and "entries_allowed ca entries
      (\<lambda>c r e. view (recs (source_world (fst (hd ss)))) c = Some r \<and> e \<le> redis_now (fst (store (fst (hd ss)))) + cache_ttl (cache_config_of ca)) (fst (store (fst (hd ss))))"
  shows "ss \<noteq> [] \<and> run_ok delay ss"
  using assms(1,3,4)
proof (induction rule: cache_run.induct)
  case (run_start ts w)
  have "true_at recs redis_now [(w, ts)] c r (e - delay - cache_ttl (cache_config_of ca))"
    if "view (recs (source_world w)) c = Some r" "e \<le> redis_now (fst (store w)) + cache_ttl (cache_config_of ca)" for c r e
    using that assms(2) by (simp add: true_at_def)
  then have "entries_allowed ca entries (\<lambda>c r e. true_at recs redis_now [(w, ts)] c r (e - delay - cache_ttl (cache_config_of ca))) (fst (store w))"
    using run_start.prems(2) unfolding entries_allowed_def by simp
  moreover have "ts ! i \<noteq> Found r t" if "i < length ts" for i r t using run_start.hyps nth_mem [OF that] by auto
  ultimately have "run_ok delay [(w, ts)]"
    using run_start.prems(1) by (intro run_ok_I [where w = w and ts = ts]) auto
  then show ?case by simp
next
  case (run_step ss a s)
  have "hd (ss @ [s]) = hd ss" using run_nonempty [OF run_step.hyps(1)] by simp
  then show ?case using run_step run_ok_step [of delay ss "last ss" a s] by simp
qed

end

section \<open>A Redis with a clock for evaluation\<close>

text \<open>The documented behaviour of the commands; the state is the entries and the time in seconds.\<close>

type_synonym clocked = "(string \<Rightarrow> (string \<times> int) option) \<times> int"

definition clocked_command :: "string list \<Rightarrow> clocked \<Rightarrow> redis_reply option \<times> clocked" where
  "clocked_command args d =
     (case args of
        [cmd, k] \<Rightarrow>
          if cmd = ''GET''
          then (Some (case fst d k of None \<Rightarrow> Reply_nil | Some (v, e) \<Rightarrow> if snd d < e then Reply_string v else Reply_nil), d)
          else if cmd = ''DEL'' then (Some (Reply_integer 1), ((fst d)(k := None), snd d))
          else (Some Reply_status, d)
      | [cmd, k, ttl, v] \<Rightarrow>
          (case read_number stoll ttl of
             None \<Rightarrow> (Some Reply_error, d)
           | Some n \<Rightarrow> if cmd = ''SETEX'' then (Some Reply_status, ((fst d)(k \<mapsto> (v, snd d + n)), snd d)) else (Some Reply_error, d))
      | _ \<Rightarrow> (Some Reply_error, d))"

definition clocked_cache :: "clocked link_cache" where
  "clocked_cache = \<lparr>cache_config_of = cache_init default_cache_config,
     cache_server = \<lparr>redis_connect = (\<lambda>h p d. (True, d)), redis_command = clocked_command\<rparr>, cache_metrics = True\<rparr>"

definition clock_runs :: "clocked \<Rightarrow> clocked \<Rightarrow> bool" where
  "clock_runs d d' \<longleftrightarrow> fst d' = fst d \<and> snd d \<le> snd d'"

interpretation clocked: concurrent_cache memory_repo mem_inv mem_room mem_records clocked_cache fst snd "\<lambda>d. True" clock_runs
proof (unfold_locales, goal_cases)
  case 1
  show ?case by (auto simp: clocked_cache_def)
next
  case (2 d d')
  then show ?case by (simp add: clock_runs_def)
next
  case (3 d ok d')
  then show ?case by (auto simp: cache_open_def redis_open_def clocked_cache_def cache_init_def default_cache_config_def)
next
  case (4 d k rep d')
  then show ?case by (auto simp: clocked_cache_def clocked_command_def split: option.splits if_splits)
next
  case (5 d k rep d')
  then show ?case by (auto simp: clocked_cache_def clocked_command_def map_le_def split: if_splits)
next
  case (6 d k ttl v rep d')
  then show ?case by (auto simp: clocked_cache_def clocked_command_def read_int split: if_splits)
qed

text \<open>
  A lookup of \<open>abcd\<close> misses and reads the active link; an update disables it and deletes the entry; the
  lookup stores what it read.
\<close>

definition disable_abcd :: lifecycle_update where
  "disable_abcd = \<lparr>upd_status = Some Disabled, expires_at_provided = False, upd_expires_at = None, upd_owner = Some 2\<rparr>"

definition race0 :: "(clocked \<times> mem_repo) world" where
  "race0 = \<lparr>store = ((\<lambda>k. None, 100), store sample_world), metrics = init_metrics\<rparr>"

lemma race_start: "source_world race0 = sample_world\<lparr>metrics := init_metrics\<rparr>"
  by (simp add: race0_def source_world_def)

lemma clocked_open: "cache_open clocked_cache d = (True, d)"
  by (simp add: cache_open_def redis_open_def clocked_cache_def cache_init_def default_cache_config_def)

lemmas clocked_defs = clocked_cache_def clocked_command_def build_cache_key_def cache_init_def default_cache_config_def

text \<open>The calls of the race, by what they find in the two stores.\<close>

lemma clocked_get_nothing:
  assumes "fst (store w) = (\<lambda>k. None, n)"
  shows "\<exists>w1. on_cache (cache_get clocked_cache c) w = (None, w1) \<and> store w1 = store w"
  using assms by (cases "store w") (simp add: on_cache_def cache_get_def clocked_open Let_def, simp add: clocked_defs)

lemma clocked_get_entry:
  assumes "fst (store w) = (m, n)" and "m (''shortlink:'' @ c) = Some (serialize_link r, e)" and "n < e" and "cacheable r"
    and "link_code r = c"
  shows "\<exists>w1. on_cache (cache_get clocked_cache c) w = (Some r, w1)"
  using assms by (cases "store w")
    (simp add: on_cache_def cache_get_def clocked_open Let_def, auto simp: clocked_defs deserialize_serialize)

lemma clocked_set_entry:
  assumes "fst (store w) = (m, n)" and "expires_at r = None"
  shows "\<exists>w1. on_cache (cache_set clocked_cache now r) w = (True, w1) \<and>
     store w1 = ((m(''shortlink:'' @ link_code r \<mapsto> (serialize_link r, n + 3600)), n), snd (store w))"
  using assms by (cases "store w")
    (simp add: on_cache_def cache_set_def cache_write_def clocked_open Let_def entry_ttl_def,
     simp add: clocked_defs read_int in_int64_def)

lemma clocked_erase_nothing:
  assumes "fst (store w) = (\<lambda>k. None, n)"
  shows "\<exists>w1. on_cache (cache_erase clocked_cache c) w = (True, w1) \<and> store w1 = store w"
  using assms by (cases "store w") (simp add: on_cache_def cache_erase_def clocked_open Let_def, simp add: clocked_defs fun_upd_idem)

section \<open>The property\<close>

text \<open>C7: old answers are bounded. However lookups, updates and creations of several threads interleave, and
  whichever calls of Redis fail, a record that a lookup answers from the cache is one that the source had
  under that code at most the time to live, plus the time between a reading and its fill, before. This is the
  eventual consistency, bounded by the time to live, that \<open>docs/DECISIONS.md\<close> accepts under concurrency.\<close>

theorem stale_answers_bounded:
  assumes "concurrent_cache src winv room recs ca entries redis_now ready later" and "0 \<le> delay"
    and "cache_run ca src room redis_now later delay ss" and "winv (source_world (fst (hd ss)))"
    and "entries_allowed ca entries (\<lambda>c r e. view (recs (source_world (fst (hd ss)))) c = Some r \<and>
          e \<le> redis_now (fst (store (fst (hd ss)))) + cache_ttl (cache_config_of ca)) (fst (store (fst (hd ss))))"
    and "cache_step ca src room redis_now later delay (last ss) (Some r) s'"
  shows "\<exists>s\<in>set ss. view (recs (source_world (fst s))) (link_code r) = Some r \<and>
     redis_now (fst (store (fst (last ss)))) \<le> redis_now (fst (store (fst s))) + delay + cache_ttl (cache_config_of ca)"
proof -
  note ok = concurrent_cache.run_is_ok [OF assms(1,3,2,4,5)]
  have "concurrent_cache.answer_ok recs ca redis_now delay ss (Some r)"
    using concurrent_cache.run_ok_step [OF assms(1) _ _ refl assms(6)] ok by blast
  then show ?thesis
    unfolding concurrent_cache.answer_ok_def [OF assms(1)] true_at_def by fastforce
qed

text \<open>The race: after the update that disabled the link has returned, a lookup answers the active link.\<close>

lemma stale_answer_race:
  "\<exists>ss s'. cache_run clocked_cache memory_repo mem_room snd clock_runs 0 ss \<and> hd ss = (race0, [Resting, Resting]) \<and>
     set (snd (last ss)) = {Resting} \<and>
     cache_step clocked_cache memory_repo mem_room snd clock_runs 0 (last ss) (Some (sample_link 2 2 ''abcd'')) s' \<and>
     map_option link_status (view (mem_records (source_world (fst (last ss)))) ''abcd'') = Some Disabled"
proof -
  let ?r = "sample_link 2 2 ''abcd''" and ?step = "cache_step clocked_cache memory_repo mem_room snd clock_runs 0"
  have r: "link_code ?r = ''abcd''" "expires_at ?r = None" by (simp_all add: sample_link_def)
  have w0: "store race0 = ((\<lambda>k. None, 100), store sample_world)" by (simp add: race0_def)
  obtain w1 where 1: "on_cache (cache_get clocked_cache ''abcd'') race0 = (None, w1)" "store w1 = store race0"
    using clocked_get_nothing [of race0 100] w0 by auto
  obtain w2 res where 2: "on_source (repo_find memory_repo 8 ''abcd'') w1 = (Inr res, w2)" "lookup_record res = Some ?r" "store w2 = store race0"
    using 1(2) w0 by (auto simp: on_source_def memory_repo_def on_store_def mem_find_def sample_world_def)
  have w2: "mem_inv (source_world w2)" "view (mem_records (source_world w2)) ''abcd'' = Some ?r"
    using 2(3) w0 sample_inv(1) sample_view by (simp_all add: mem_inv_def source_world_def mem_records_def)
  have target: "update_target disable_abcd (Some ?r) = Some ?r"
    by (simp add: update_target_def owned_by_def disable_abcd_def sample_link_def)
  obtain v where v: "repo_update memory_repo 9 ''abcd'' disable_abcd (source_world w2) = (Inr (Some (apply_update 9 disable_abcd ?r)), v)"
    "mem_records v = replace_record (apply_update 9 disable_abcd ?r) (mem_records (source_world w2))"
    using mem.update_law [OF w2(1), of 9 "''abcd''" disable_abcd] w2(2) target by auto
  define w3 where "w3 = snd (on_source (repo_update memory_repo 9 ''abcd'' disable_abcd) w2)"
  have 3: "on_source (repo_update memory_repo 9 ''abcd'' disable_abcd) w2 = (Inr (Some (apply_update 9 disable_abcd ?r)), w3)"
    "fst (store w3) = (\<lambda>k. None, 100)" "source_world w3 = v"
    using v(1) 2(3) w0 by (simp_all add: w3_def on_source_def source_world_def)
  have off: "map_option link_status (view (mem_records (source_world w3)) ''abcd'') = Some Disabled"
    using v(2) w2(2) 3(3) by (simp add: view_replace) (simp add: apply_update_def disable_abcd_def sample_link_def)
  obtain w4 where 4: "on_cache (cache_erase clocked_cache ''abcd'') w3 = (True, w4)" "store w4 = store w3"
    using clocked_erase_nothing [OF 3(2)] by blast
  obtain w5 where 5: "on_cache (cache_set clocked_cache 10 ?r) w4 = (True, w5)"
    "fst (store w5) = ((\<lambda>k. None)(''shortlink:abcd'' \<mapsto> (serialize_link ?r, 3700)), 100)" "snd (store w5) = snd (store w4)"
    using clocked_set_entry [where w = w4 and m = "\<lambda>k. None" and n = 100 and r = ?r and now = 10] 4(2) 3(2) r by force
  obtain w6 where 6: "on_cache (cache_get clocked_cache ''abcd'') w5 = (Some ?r, w6)"
    using clocked_get_entry [OF 5(2), of "''abcd''" ?r 3700] r by (auto simp: cacheable_def in_int64_def sample_link_def)
  let ?run = "cache_run clocked_cache memory_repo mem_room snd clock_runs 0"
  let ?f = "Found ?r 100"
  have "?run [(race0, [Resting, Resting])]" by (rule run_start) simp
  moreover have "?step (race0, [Resting, Resting]) None (w1, [Missed ''abcd'', Resting])"
    using get_miss [of 0 "[Resting, Resting]", OF _ _ 1(1)] by simp
  moreover have "?step (w1, [Missed ''abcd'', Resting]) None (w2, [?f, Resting])"
    using read_found [of 0 "[Missed ''abcd'', Resting]", OF _ _ 2(1,2), where redis_now = snd] 1(2) w0 by simp
  moreover have "?step (w2, [?f, Resting]) None (w3, [?f, Changed ''abcd''])"
    using update_source [of 1 "[?f, Resting]", OF _ _ 3(1)] by simp
  moreover have "?step (w3, [?f, Changed ''abcd'']) None (w4, [?f, Resting])"
    using erase [of 1 "[?f, Changed ''abcd'']", OF _ _ 4(1)] by simp
  moreover have "?step (w4, [?f, Resting]) None (w5, [Resting, Resting])"
    using fill [of 0 "[?f, Resting]", OF _ _ 5(1)] 5(2) by simp
  ultimately have "?run ([(race0, [Resting, Resting])] @ [(w1, [Missed ''abcd'', Resting])] @ [(w2, [?f, Resting])] @
      [(w3, [?f, Changed ''abcd''])] @ [(w4, [?f, Resting])] @ [(w5, [Resting, Resting])])"
    by (simp add: run_step [where ss = "[_, _, _, _, _]", simplified] run_step [where ss = "[_, _, _, _]", simplified]
        run_step [where ss = "[_, _, _]", simplified] run_step [where ss = "[_, _]", simplified] run_step [where ss = "[_]", simplified])
  moreover have "?step (w5, [Resting, Resting]) (Some ?r) (w6, [Resting, Resting])"
    using get_hit [of 0 "[Resting, Resting]", OF _ _ 6] by simp
  moreover have "map_option link_status (view (mem_records (source_world w5)) ''abcd'') = Some Disabled"
    using off 4(2) 5(3) by (simp add: source_world_def mem_records_def)
  ultimately show ?thesis by (intro exI) auto
qed

lemma stale_answers_bounded_witness:
  "\<exists>ss s'. cache_run clocked_cache memory_repo mem_room snd clock_runs 0 ss \<and>
     cache_step clocked_cache memory_repo mem_room snd clock_runs 0 (last ss) (Some (sample_link 2 2 ''abcd'')) s' \<and>
     map_option link_status (view (mem_records (source_world (fst (last ss)))) ''abcd'') = Some Disabled \<and>
     (\<exists>s\<in>set ss. view (mem_records (source_world (fst s))) ''abcd'' = Some (sample_link 2 2 ''abcd''))"
proof -
  obtain ss s' where r: "cache_run clocked_cache memory_repo mem_room snd clock_runs 0 ss" "hd ss = (race0, [Resting, Resting])"
    "cache_step clocked_cache memory_repo mem_room snd clock_runs 0 (last ss) (Some (sample_link 2 2 ''abcd'')) s'"
    "map_option link_status (view (mem_records (source_world (fst (last ss)))) ''abcd'') = Some Disabled"
    using stale_answer_race by blast
  have "mem_inv (source_world (fst (hd ss)))" using r(2) sample_inv(1) by (simp add: race_start mem_inv_def)
  moreover have "entries_allowed clocked_cache fst (\<lambda>c r e. view (mem_records (source_world (fst (hd ss)))) c = Some r \<and>
      e \<le> snd (fst (store (fst (hd ss)))) + cache_ttl (cache_config_of clocked_cache)) (fst (store (fst (hd ss))))"
    using r(2) by (simp add: entries_allowed_def race0_def)
  ultimately show ?thesis
    using stale_answers_bounded [OF clocked.concurrent_cache_axioms order_refl r(1) _ _ r(3)] r
    by (intro exI [of _ ss] exI [of _ s']) (auto simp: sample_link_def)
qed

end
