(* ===== verification/ServerEvents.thy ===== *)
theory ServerEvents
  imports ServerProcess
begin

text \<open>
  The events of the whole server: what the messages of its connections and the poll thread do to the
  publisher, from the start of \<open>main\<close> to its end, with any store of the links. Every request for a short link that the
  server completes is one event, no other request is one, and the end of \<open>main\<close> leaves none unaccounted.
\<close>

section \<open>Serving beside the poll thread\<close>

datatype server_step = Served message | Client_polled

text \<open>A round of \<open>pollLoop\<close> between two messages, when there is a publisher.\<close>

definition poll_server ::
  "'k kafka_producer \<Rightarrow> ('s, 'k event_publisher option, 'a, 'c, 'd, 'q) api_state server_world \<Rightarrow>
   ('s, 'k event_publisher option, 'a, 'c, 'd, 'q) api_state server_world" where
  "poll_server K w = w\<lparr>app := (app w)\<lparr>publisher_state := map_option (poll_round K) (publisher_state (app w))\<rparr>\<rparr>"

fun serve_polling ::
  "'k kafka_producer \<Rightarrow> crlf_search \<Rightarrow> ('s, 'k event_publisher option, 'a, 'c, 'd, 'q) api \<Rightarrow> server_step list \<Rightarrow>
   (nat \<Rightarrow> connection) \<times> ('s, 'k event_publisher option, 'a, 'c, 'd, 'q) api_state server_world \<Rightarrow>
   ((nat \<Rightarrow> connection) \<times> ('s, 'k event_publisher option, 'a, 'c, 'd, 'q) api_state server_world) option" where
  "serve_polling K fc api [] cw = Some cw"
| "serve_polling K fc api (Client_polled # steps) (conns, w) = serve_polling K fc api steps (conns, poll_server K w)"
| "serve_polling K fc api (Served (i, s, now, took, data) # steps) (conns, w) =
     (case on_message fc (server_for api s) now took data (conns i) w of
        None \<Rightarrow> None
      | Some (acts, conn, w1) \<Rightarrow> serve_polling K fc api steps (conns(i := conn), w1))"

section \<open>Requests for short links\<close>

text \<open>The code of a request for a short link; none for any other request.\<close>

definition followed_code :: "http_request \<Rightarrow> string list" where
  "followed_code req =
     (if req_method req = M_get \<and> starts_with ''/s/'' (req_path req) \<and> drop 3 (req_path req) \<noteq> [] \<and>
         list_all not_slash (drop 3 (req_path req))
      then [drop 3 (req_path req)] else [])"

lemma followed_code_id: "followed_code (req\<lparr>request_id := rid\<rparr>) = followed_code req"
  by (simp add: followed_code_def cong: if_cong)

definition message_code ::
  "crlf_search \<Rightarrow> int \<Rightarrow> string \<Rightarrow> connection \<Rightarrow> string list" where
  "message_code fc now data conn =
     (case parse_request fc now (conn_context conn) (conn_unread conn @ data) of
        Some (Inr ok, c, rest) \<Rightarrow> if got_all c then followed_code (ctx_request c) else []
      | _ \<Rightarrow> [])"

text \<open>The codes of the short links a run was asked for, in the order of the requests.\<close>

fun followed_codes ::
  "'k kafka_producer \<Rightarrow> crlf_search \<Rightarrow> ('s, 'k event_publisher option, 'a, 'c, 'd, 'q) api \<Rightarrow> server_step list \<Rightarrow>
   (nat \<Rightarrow> connection) \<times> ('s, 'k event_publisher option, 'a, 'c, 'd, 'q) api_state server_world \<Rightarrow> string list" where
  "followed_codes K fc api [] cw = []"
| "followed_codes K fc api (Client_polled # steps) (conns, w) = followed_codes K fc api steps (conns, poll_server K w)"
| "followed_codes K fc api (Served (i, s, now, took, data) # steps) (conns, w) =
     message_code fc now data (conns i) @
     (case on_message fc (server_for api s) now took data (conns i) w of
        None \<Rightarrow> []
      | Some (acts, conn, w1) \<Rightarrow> followed_codes K fc api steps (conns(i := conn), w1))"

section \<open>Quiet handlers\<close>

definition quiet :: "('s, 'p, 'a, 'c, 'd, 'q) api_handler \<Rightarrow> bool" where
  "quiet h \<longleftrightarrow> (\<forall>req resp w e r w'. h req resp w = (e, r, w') \<longrightarrow> publisher_state w' = publisher_state w)"

named_theorems quiet_handlers \<open>handlers that publish nothing\<close>

lemma quiet_adapters [quiet_handlers]:
  "quiet (on_links f)" "quiet (on_limited_links g)" "quiet (on_counted_links h)" "quiet (on_accounts a)"
  by (auto simp: quiet_def on_links_def on_limited_links_def on_counted_links_def on_accounts_def split: prod.splits)

lemma quiet_health [quiet_handlers]: "quiet (handle_health L)" "quiet (handle_readiness L need healthy)"
  by (simp_all add: quiet_def handle_health_def handle_readiness_def Let_def split: prod.splits)

lemma quiet_with_user [quiet_handlers]:
  assumes "\<And>own clk. quiet (h own clk)"
  shows "quiet (with_user api clk h)"
  unfolding quiet_def
proof (intro allI impI)
  fix req resp w e r w'
  assume run: "with_user api clk h req resp w = (e, r, w')"
  have inner: "h own k req' resp' v = (e, r, w') \<Longrightarrow> publisher_state w' = publisher_state v" for own k req' resp' v
    using assms by (auto simp: quiet_def)
  show "publisher_state w' = publisher_state w"
    using run by (auto simp: with_user_def dest!: inner split: prod.splits sum.splits option.splits)
qed

lemma quiet_same_origin [quiet_handlers]: "quiet h \<Longrightarrow> quiet (same_origin_only h)"
  by (auto simp: quiet_def same_origin_only_def split: prod.splits bool.splits)

lemma quiet_routes [quiet_handlers]:
  "quiet (create_route api s)" "quiet (list_route api s)" "quiet (detail_route api s)" "quiet (update_route api s)"
  "quiet (statistics_route api stats s)"
  unfolding create_route_def list_route_def detail_route_def update_route_def statistics_route_def
  by (intro quiet_handlers)+

definition quiet_app :: "('s, 'p, 'a, 'c, 'd, 'q) api_state server_world handler \<Rightarrow> bool" where
  "quiet_app h \<longleftrightarrow> (\<forall>req resp w e r w'. h req resp w = (e, r, w') \<longrightarrow> publisher_state (app w') = publisher_state (app w))"

lemma quiet_on_app: "quiet h \<Longrightarrow> quiet_app (on_app h)"
  by (auto simp: quiet_def quiet_app_def on_app_def split: prod.splits)

lemma quiet_metrics: "quiet_app (metrics_route s)"
  by (simp add: quiet_app_def metrics_route_def)

text \<open>Every route is quiet, but that of the short links.\<close>

definition quiet_but_redirects ::
  "('s, 'p, 'a, 'c, 'd, 'q) api_state server_world router \<Rightarrow> bool" where
  "quiet_but_redirects rt \<longleftrightarrow>
     (\<forall>(k, h)\<in>set (exact_handlers rt) \<union> set (exact_callbacks rt). quiet_app h) \<and>
     (\<forall>(m, p, rx, h)\<in>set (regex_handlers rt) \<union> set (regex_callbacks rt).
        quiet_app h \<or> m = M_get \<and> rx = convert_to_regex ''/s/:code'')"

lemma quiet_server:
  "quiet_but_redirects (router_of (fst srv)) \<Longrightarrow> quiet_app h \<Longrightarrow> quiet_but_redirects (router_of (fst (server_get p h srv)))"
  "quiet_but_redirects (router_of (fst srv)) \<Longrightarrow> quiet_app h \<Longrightarrow> quiet_but_redirects (router_of (fst (server_post p h srv)))"
  "quiet_but_redirects (router_of (fst srv)) \<Longrightarrow> quiet_app h \<or> m = M_get \<and> p = ''/s/:code'' \<Longrightarrow>
     quiet_but_redirects (router_of (fst (server_add_route m p h srv)))"
  using set_update_subset [of "(M_get, p)" h "exact_callbacks (router_of (fst srv))"]
    set_update_subset [of "(M_post, p)" h "exact_callbacks (router_of (fst srv))"]
  by (cases srv; fastforce simp: quiet_but_redirects_def server_get_def server_post_def server_exact_def server_add_route_def
      register_callback_def add_regex_callback_def)+

lemma quiet_start: "quiet_but_redirects (router_of (fst (init_server, ms)))"
  by (simp add: quiet_but_redirects_def init_server_def init_router_def)

lemma quiet_api: "quiet_but_redirects (router_of (server_for api s))"
proof -
  have auth: "quiet_but_redirects (router_of (fst srv)) \<Longrightarrow> quiet_but_redirects (router_of (fst (register_auth_routes api s srv)))" for srv
    unfolding register_auth_routes_def Let_def by (intro quiet_server quiet_on_app quiet_handlers disjI1)
  have link: "quiet_app h \<or> M_get = M_get \<and> ''/s/:code'' = ''/s/:code''" for h by simp
  show ?thesis
    unfolding server_for_def register_api_def Let_def
    by (cases "metrics_enabled (api_settings api)"; cases "api_statistics api"; simp only: if_True if_False option.simps)
      (intro quiet_server(1,2) quiet_server(3) [OF _ link] quiet_server(3) [OF _ disjI1] auth quiet_on_app quiet_handlers quiet_metrics quiet_start)+
qed

section \<open>Which requests publish\<close>

lemma short_link_pattern: "convert_to_regex ''/s/:code'' = map Literal ''/s/'' @ [Segment]"
  using api_patterns(1) by simp

lemma match_short_link:
  "match_pieces (map Literal ''/s/'' @ [Segment]) p \<noteq> None \<Longrightarrow>
   starts_with ''/s/'' p \<and> drop 3 p \<noteq> [] \<and> list_all not_slash (drop 3 p)"
  unfolding match_literals
  by (auto split: if_splits simp: list_all_iff dropWhile_eq_Nil_conv numeral_3_eq_3)

lemma find_regex_entry:
  "find_regex rs req = Some (pat, h, req1) \<Longrightarrow>
   \<exists>rx. (req_method req, pat, rx, h) \<in> set rs \<and> match_pieces rx (req_path req) \<noteq> None"
  by (induction rs req rule: find_regex.induct)
    (auto simp del: extract_path_parameters.simps match_pieces.simps split: if_splits option.splits)

lemma route_quiet:
  assumes "find_route (router_of (server_for api s)) req = Some (pat, h, req1)" and "followed_code req = []"
  shows "quiet_app h"
proof -
  let ?rt = "router_of (server_for api s)" and ?key = "(req_method req, req_path req)"
  note quiet = quiet_api [of api s, unfolded quiet_but_redirects_def]
  have other: "quiet_app h" if "(req_method req, pat, rx, h) \<in> set (regex_callbacks ?rt)" "match_pieces rx (req_path req) \<noteq> None" for rx
  proof -
    have "quiet_app h \<or> req_method req = M_get \<and> rx = convert_to_regex ''/s/:code''" using quiet that(1) by blast
    then show ?thesis
      using match_short_link [of "req_path req"] that(2) assms(2) by (auto simp: followed_code_def short_link_pattern)
  qed
  show ?thesis
  proof (cases "map_of (exact_callbacks ?rt) ?key")
    case (Some x)
    then have "x = h" using assms(1) by (simp add: find_route_def Let_def no_exact_short_link)
    then show ?thesis using quiet map_of_SomeD [OF Some] by fastforce
  next
    case None
    then have "find_regex (regex_callbacks ?rt) req = Some (pat, h, req1)"
      using assms(1) by (simp add: find_route_def Let_def no_exact_short_link)
    then show ?thesis using other by (blast dest: find_regex_entry)
  qed
qed

lemma handler_publishes_code:
  assumes "handle_redirect pub sv clk ms req resp w = (e, r, w')"
  shows "\<exists>ev. publisher_state w' = pub ev (publisher_state w) \<and> event_code ev = get_path_parameter ''param1'' req"
  using assms by (auto simp: handle_redirect_def publish_access_event_def Let_def split: prod.splits sum.splits if_splits)

text \<open>What one request does to the publisher: one event with its code, or nothing.\<close>

definition published :: "'p publisher \<Rightarrow> string list \<Rightarrow> 'p \<Rightarrow> 'p \<Rightarrow> bool" where
  "published pub cs p p' \<longleftrightarrow> (\<exists>es. map event_code es = cs \<and> p' = fold pub es p)"

lemma published_none [simp]: "published pub [] p p' \<longleftrightarrow> p' = p"
  by (auto simp: published_def)

lemma published_one [simp]: "published pub [c] p p' \<longleftrightarrow> (\<exists>ev. event_code ev = c \<and> p' = pub ev p)"
  by (auto simp: published_def map_eq_Cons_conv intro: exI [of _ "[_]"])

lemma published_append: "published pub cs p q \<Longrightarrow> published pub ds q r \<Longrightarrow> published pub (cs @ ds) p r"
  unfolding published_def by (elim exE conjE) (rule_tac x = "es @ esa" in exI, simp)

lemma handle_request_publishes:
  assumes "handle_request (server_for api s) req resp w = (r, w')"
  shows "published (api_publisher api) (followed_code req) (publisher_state (app w)) (publisher_state (app w'))"
proof (cases "followed_code req = []")
  case True
  then show ?thesis
    using assms route_quiet [OF _ True, of api s]
    by (auto simp: handle_request_def route_def server_for_plain quiet_app_def split: option.splits prod.splits)
next
  case False
  define c where "c = drop 3 (req_path req)"
  have c: "followed_code req = [c]" "req_method req = M_get" "req_path req = ''/s/'' @ c" "c \<noteq> []" "\<forall>x\<in>set c. not_slash x"
    using False by (auto simp: followed_code_def c_def list_all_iff starts_with_iff split: if_splits)
  have param: "get_path_parameter ''param1'' (set_path_parameter ''param1'' c req) = c"
    by (simp add: get_path_parameter_def param_value_def set_path_parameter_def update_conv')
  obtain e r1 a where h: "redirect_route api s (set_path_parameter ''param1'' c req) resp (app w) = (e, r1, a)" by (metis prod_cases3)
  have "publisher_state (app w') = publisher_state a"
    using assms h short_link_route [OF c(2-5), of api s]
    by (auto simp: handle_request_def route_def server_for_plain on_app_def split: option.splits prod.splits)
  then show ?thesis using handler_publishes_code [OF h [unfolded redirect_route_def]] c(1) param by auto
qed

lemma on_request_publishes:
  assumes "on_request (server_for api s) took req w = (e, acts, w')"
  shows "published (api_publisher api) (followed_code req) (publisher_state (app w)) (publisher_state (app w'))"
proof -
  obtain rid w1 where rid: "request_id_for req w = (rid, w1)" by fastforce
  obtain r w2 where r: "handle_request (server_for api s) (req\<lparr>request_id := rid\<rparr>) (init_response (closes req)) w1 = (r, w2)"
    by fastforce
  have "app w' = app w2" using assms rid r by (auto simp: on_request_def run_callback_def server_for_plain Let_def)
  then show ?thesis
    using handle_request_publishes [OF r] request_id_for_app [OF rid] by (simp only: followed_code_id)
qed

lemma on_message_publishes:
  assumes "on_message fc (server_for api s) now took data conn w = Some (acts, conn', w')"
  shows "published (api_publisher api) (message_code fc now data conn) (publisher_state (app w)) (publisher_state (app w'))"
proof -
  obtain p c rest where p: "parse_request fc now (conn_context conn) (conn_unread conn @ data) = Some (p, c, rest)"
    using assms by (cases "parse_request fc now (conn_context conn) (conn_unread conn @ data)") (auto simp: on_message_def)
  obtain acts0 w0 where b: "bad_request w = (acts0, w0)" by fastforce
  note same = bad_request_app [OF b]
  show ?thesis
  proof (cases p)
    case (Inl e)
    then show ?thesis using assms p b same by (auto simp: on_message_def message_code_def)
  next
    case (Inr ok)
    define w1 where "w1 = (if ok then w else w0)"
    have w1: "app w1 = app w" using same by (simp add: w1_def)
    show ?thesis
    proof (cases "got_all c")
      case False
      then have "w' = w1" using assms p Inr b by (auto simp: on_message_def w1_def)
      then show ?thesis using w1 p Inr False by (simp add: message_code_def)
    next
      case True
      obtain e acts2 w2 where r: "on_request (server_for api s) took (ctx_request c) w1 = (e, acts2, w2)" by (metis prod_cases3)
      have "app w' = app w2"
        using assms p Inr b True r bad_request_app
        by (cases e) (auto simp: on_message_def w1_def split: prod.splits if_splits)
      then show ?thesis using on_request_publishes [OF r] w1 p Inr True by (simp add: message_code_def)
    qed
  qed
qed

section \<open>Runs\<close>

text \<open>A run is a sequence of publishing and polling steps of the publisher, one publication per code.\<close>

definition publications :: "publisher_step list \<Rightarrow> access_event list" where
  "publications steps = concat (map (\<lambda>st. case st of Publish e \<Rightarrow> [e] | Poll \<Rightarrow> []) steps)"

lemma publications_simps [simp]:
  "publications [] = []" "publications (Poll # steps) = publications steps"
  "publications (map Publish es @ steps) = es @ publications steps"
  by (simp_all add: publications_def comp_def)

lemma publications_count: "length (publications steps) = length (filter (\<lambda>st. st \<noteq> Poll) steps)"
proof (induction steps)
  case (Cons st steps)
  then show ?case by (cases st) (simp_all add: publications_def)
qed simp

lemma fold_publish:
  "fold (server_publisher L K cfg) es (Some p) = Some (fold (publisher_exec L K (event_settings cfg)) (map Publish es) p)"
  by (induction es arbitrary: p) (simp_all add: server_publisher_def)

lemma serve_polling_publishes:
  assumes "api_publisher api = server_publisher L K cfg" and "serve_polling K fc api steps (conns, w) = Some (conns', w')"
    and "publisher_state (app w) = Some p"
  shows "\<exists>psteps. publisher_state (app w') = Some (fold (publisher_exec L K (event_settings cfg)) psteps p) \<and>
     map event_code (publications psteps) = followed_codes K fc api steps (conns, w)"
  using assms(2,3)
proof (induction steps arbitrary: conns w p)
  case Nil
  then show ?case by (auto intro: exI [of _ "[]"])
next
  case (Cons st steps)
  show ?case
  proof (cases st)
    case Client_polled
    have "publisher_state (app (poll_server K w)) = Some (poll_round K p)" using Cons.prems(2) by (simp add: poll_server_def)
    then obtain ps where "publisher_state (app w') = Some (fold (publisher_exec L K (event_settings cfg)) ps (poll_round K p))"
      "map event_code (publications ps) = followed_codes K fc api steps (conns, poll_server K w)"
      using Cons.IH [of conns "poll_server K w"] Cons.prems(1) Client_polled by auto
    then show ?thesis using Client_polled by (intro exI [of _ "Poll # ps"]) simp
  next
    case (Served msg)
    obtain i s now took data where msg: "msg = (i, s, now, took, data)" by (metis prod_cases5)
    obtain acts conn w1 where m: "on_message fc (server_for api s) now took data (conns i) w = Some (acts, conn, w1)"
      and rest: "serve_polling K fc api steps (conns(i := conn), w1) = Some (conns', w')"
      using Cons.prems(1) Served msg by (auto split: option.splits)
    obtain es where es: "map event_code es = message_code fc now data (conns i)"
      "publisher_state (app w1) = Some (fold (publisher_exec L K (event_settings cfg)) (map Publish es) p)"
      using on_message_publishes [OF m] Cons.prems(2) by (auto simp: published_def assms(1) fold_publish)
    obtain ps where "publisher_state (app w') = Some (fold (publisher_exec L K (event_settings cfg)) ps
        (fold (publisher_exec L K (event_settings cfg)) (map Publish es) p))"
      "map event_code (publications ps) = followed_codes K fc api steps (conns(i := conn), w1)"
      using Cons.IH [OF rest es(2)] by blast
    then show ?thesis using Served msg m es(1) by (intro exI [of _ "map Publish es @ ps"]) (simp del: fun_upd_apply)
  qed
qed

lemma serve_polling_returns:
  "(\<And>i. ctx_state (conn_context (conns i)) \<noteq> Got_all) \<Longrightarrow> serve_polling K fc api steps (conns, w) \<noteq> None"
proof (induction steps arbitrary: conns w)
  case (Cons st steps)
  show ?case
  proof (cases st)
    case Client_polled
    then show ?thesis using Cons by simp
  next
    case (Served msg)
    obtain i s now took data where msg: "msg = (i, s, now, took, data)" by (metis prod_cases5)
    obtain acts conn w1 where m: "on_message fc (server_for api s) now took data (conns i) w = Some (acts, conn, w1)"
      "ctx_state (conn_context conn) \<noteq> Got_all"
      using on_message_returns [OF Cons.prems [of i]] by blast
    have "serve_polling K fc api steps (conns(i := conn), w1) \<noteq> None" using Cons.prems m(2) by (intro Cons.IH) simp
    then show ?thesis using Served msg m(1) by (simp del: fun_upd_apply)
  qed
qed simp

section \<open>The end of the run\<close>

lemma close_refused: "publisher_ok p \<Longrightarrow> refused (close_publisher K cfg p) = refused p"
  by (simp add: close_publisher_def Let_def callbacks_effect split: prod.split)

lemma started_publisher:
  assumes "start_publisher K cfg init_metrics = Some p"
  shows "make_event_publisher K (event_settings cfg) init_metrics = Inr p" and "accepted p + refused p = 0"
  using assms by (auto simp: start_publisher_def make_event_publisher_def publisher_defs init_metrics_def
      split: if_splits option.splits sum.splits)

section \<open>Properties\<close>

text \<open>C6: every request for a short link is accounted, from the start of the server to its end. Whatever
  messages the server takes on whatever connections, with whatever store of links, beside its poll
  thread, it publishes one event for every request for a short link it completes, with the request's code, and none for any other request;
  each is counted once as accepted or refused, and each accepted one is delivered, failed or outstanding. The end
  of \<open>main\<close> then closes the pool and leaves no event unaccounted when the client flushes.\<close>

theorem short_link_requests_accounted:
  assumes "reporting_producer K unreported" and "finite_results R pending"
    and "start_publisher K cfg init_metrics = Some p0" and "unreported (publisher_producer p0) = 0"
    and "api_publisher api = server_publisher L K cfg" and "publisher_state (app w) = Some p0"
  shows "\<exists>conns' w' p psteps r q.
     serve_polling K fc api steps (\<lambda>_. new_connection, w) = Some (conns', w') \<and> publisher_state (app w') = Some p \<and>
     p = fold (publisher_exec L K (event_settings cfg)) psteps p0 \<and>
     map event_code (publications psteps) = followed_codes K fc api steps (\<lambda>_. new_connection, w) \<and>
     accepted p + refused p = of_nat (length (followed_codes K fc api steps (\<lambda>_. new_connection, w))) \<and>
     accepted p = delivered p + of_nat (unreported (publisher_producer p)) \<and>
     stop_server D R K \<lparr>run_config = cfg, run_pool = pool, run_database = d, run_publisher = publisher_state (app w')\<rparr> = Some r \<and>
     free_connections (run_pool r) = [] \<and> run_publisher r = Some q \<and>
     ((\<forall>timeout k. fst (flush_producer K timeout k) = kafka_ok) \<longrightarrow>
        delivered q + refused q = of_nat (length (followed_codes K fc api steps (\<lambda>_. new_connection, w))))"
proof -
  let ?codes = "followed_codes K fc api steps (\<lambda>_. new_connection, w)"
  have "ctx_state (conn_context new_connection) \<noteq> Got_all" by (simp add: new_connection_def init_context_def)
  then obtain conns' w' where run: "serve_polling K fc api steps (\<lambda>_. new_connection, w) = Some (conns', w')"
    using serve_polling_returns [of "\<lambda>_. new_connection"] by fast
  obtain psteps where ps: "publisher_state (app w') = Some (fold (publisher_exec L K (event_settings cfg)) psteps p0)"
    "map event_code (publications psteps) = ?codes"
    using serve_polling_publishes [OF assms(5) run assms(6)] by blast
  define p where "p = fold (publisher_exec L K (event_settings cfg)) psteps p0"
  note b0 = new_publisher_balanced [OF assms(1) started_publisher(1) [OF assms(3)] assms(4)]
  have p: "reporting_producer.balanced unreported p" "accepted p + refused p = of_nat (length ?codes)"
    using reporting_producer.run_balanced [OF assms(1) b0, of L "event_settings cfg" psteps] started_publisher(2) [OF assms(3)]
    by (simp_all add: p_def publications_count [symmetric] flip: ps(2))
  let ?q = "close_publisher K (event_settings cfg) p"
  let ?r = "\<lparr>run_config = cfg, run_pool = pool, run_database = d, run_publisher = Some p\<rparr>"
  obtain d' where "destroy_pool D R pool d = Some (pool\<lparr>free_connections := []\<rparr>, d')"
    using finite_results.destroy_pool_returns [OF assms(2)] by blast
  then obtain r where r: "stop_server D R K ?r = Some r" "free_connections (run_pool r) = []" "run_publisher r = Some ?q"
    by (simp add: stop_server_def)
  have q: "reporting_producer.balanced unreported ?q" "accepted ?q = accepted p" "refused ?q = refused p"
    using reporting_producer.close_balanced [OF assms(1) p(1), of "event_settings cfg"] close_refused
      reporting_producer.balanced_ok [OF assms(1) p(1)] by simp_all
  have "delivered ?q + refused ?q = of_nat (length ?codes)" if "\<forall>timeout k. fst (flush_producer K timeout k) = kafka_ok"
    using reporting_producer.close_flushed [OF assms(1) p(1), of "event_settings cfg"] that q p(2)
    by (simp add: reporting_producer.balanced_def [OF assms(1)])
  moreover have "accepted p = delivered p + of_nat (unreported (publisher_producer p))"
    using p(1) by (simp add: reporting_producer.balanced_def [OF assms(1)])
  moreover have "publisher_state (app w') = Some p" using ps(1) by (simp add: p_def)
  ultimately show ?thesis using run p_def ps(2) p(2) r by metis
qed

text \<open>A server with links in memory and a small Kafka queue, which follows one short link and reads its metrics.\<close>

definition kafka_config :: server_config where
  "kafka_config = default_server_config\<lparr>kafka_on := True\<rparr>"

definition event_api :: "(mem_repo, nat event_publisher option, mem_auth, nat, nat, unit) api" where
  "event_api = \<lparr>api_links = \<lparr>repository = memory_repo, service_metrics = True\<rparr>, api_accounts = sample_service,
     api_limiter = None, api_publisher = server_publisher (one_document J_null []) small_queue kafka_config, api_statistics = None,
     api_json = one_document J_null [],
     api_settings = \<lparr>requires_mysql = False, metrics_enabled = True, metrics_storage = Storage_memory,
       api_auth = default_auth_http_config\<rparr>\<rparr>"

definition event_steps :: "server_step list" where
  "event_steps =
     [Served (0, sample_surroundings, 7, (0, 100000), request_text ''GET'' ''/s/abcd'' None ''HTTP/1.1'' [(''Host'', ''h'')] []),
      Client_polled,
      Served (1, sample_surroundings, 8, (0, 100000), request_text ''GET'' ''/metrics'' None ''HTTP/1.1'' [(''Host'', ''h'')] [])]"

lemma event_steps_codes:
  "message_code scan_crlf 7 (request_text ''GET'' ''/s/abcd'' None ''HTTP/1.1'' [(''Host'', ''h'')] []) new_connection = [''abcd'']"
  "message_code scan_crlf 8 (request_text ''GET'' ''/metrics'' None ''HTTP/1.1'' [(''Host'', ''h'')] []) new_connection = []"
  by code_simp+

definition event_world :: "nat event_publisher option \<Rightarrow> (mem_repo, nat event_publisher option, mem_auth, nat, nat, unit) api_state server_world" where
  "event_world p = memory_state \<lparr>request_nonce = 1, request_sequence = 0\<rparr> \<lparr>process_nonce = 7, id_sequence = 0\<rparr>
     p sample_auth_world 0 () []"

lemma short_link_requests_accounted_witness:
  "\<forall>D :: (unit, unit, unit, nat) sql_driver. \<exists>p0 conns' w' r q.
     start_publisher small_queue kafka_config init_metrics = Some p0 \<and>
     serve_polling small_queue scan_crlf event_api event_steps (\<lambda>_. new_connection, event_world (Some p0)) = Some (conns', w') \<and>
     stop_server D counted_results small_queue
       \<lparr>run_config = kafka_config, run_pool = empty_pool, run_database = 3, run_publisher = publisher_state (app w')\<rparr> = Some r \<and>
     run_publisher r = Some q \<and>
     delivered q + refused q =
       of_nat (length (followed_codes small_queue scan_crlf event_api event_steps (\<lambda>_. new_connection, event_world (Some p0))))"
proof (intro allI)
  fix D :: "(unit, unit, unit, nat) sql_driver"
  obtain p0 where p0: "start_publisher small_queue kafka_config init_metrics = Some p0" "publisher_producer p0 = 0"
    by (simp add: start_publisher_def make_event_publisher_def event_settings_def default_publisher_config_def set_all_config_none
        small_queue_def publisher_settings_def set_config_def kafka_config_def default_server_config_def)
  have flushed: "\<forall>timeout k. fst (flush_producer small_queue timeout k) = kafka_ok" by (simp add: small_queue_def)
  have parts: "api_publisher event_api = server_publisher (one_document J_null []) small_queue kafka_config"
    "publisher_state (app (event_world (Some p0))) = Some p0"
    by (simp_all add: event_api_def event_world_def memory_state_def)
  show "\<exists>p0 conns' w' r q.
     start_publisher small_queue kafka_config init_metrics = Some p0 \<and>
     serve_polling small_queue scan_crlf event_api event_steps (\<lambda>_. new_connection, event_world (Some p0)) = Some (conns', w') \<and>
     stop_server D counted_results small_queue
       \<lparr>run_config = kafka_config, run_pool = empty_pool, run_database = 3, run_publisher = publisher_state (app w')\<rparr> = Some r \<and>
     run_publisher r = Some q \<and>
     delivered q + refused q =
       of_nat (length (followed_codes small_queue scan_crlf event_api event_steps (\<lambda>_. new_connection, event_world (Some p0))))"
    using short_link_requests_accounted [OF small.reporting_producer_axioms counted.finite_results_axioms p0(1) _ parts,
        of scan_crlf event_steps D empty_pool 3] p0 flushed
    by auto
qed

end
