(* ===== verification/UnitTests.thy ===== *)
theory UnitTests
  imports ShortLinkApi DeadLetters HttpMetrics ConsumerMetrics
begin

text \<open>
  The deterministic cases of \<open>tests/minimal_test.cpp\<close>, evaluated on the model: what the test program
  expects of the code, the definitions compute. Each lemma has the name of its test function; readings of a
  clock are given, and the cases that need threads, random bytes or the JSON library are left out.
\<close>

section \<open>Router, requests and responses\<close>

definition make_request :: "string \<Rightarrow> string \<Rightarrow> http_request" where
  "make_request m path = (snd (set_method m init_request))\<lparr>req_path := path\<rparr>"

text \<open>The callbacks of the router tests record the request they get.\<close>

definition recording_callback :: "int \<Rightarrow> string \<Rightarrow> http_request list handler" where
  "recording_callback code msg req resp w = (None, set_status code msg resp, w @ [req])"

lemma test_router_exact_callback:
  "(case route (register_callback M_get ''/api/health'' (recording_callback 200 ''OK'') init_router)
      (make_request ''GET'' ''/api/health'') (init_response False) [] of
     (pattern, e, resp, w) \<Rightarrow> pattern = Some ''/api/health'' \<and> e = None \<and> status_code resp = 200 \<and> map req_path w = [''/api/health''])"
  by code_simp

lemma test_router_dynamic_callback_path_parameters:
  "(case route (add_regex_callback M_get ''/s/:code'' (recording_callback 302 ''Found'') init_router)
      (make_request ''GET'' ''/s/abc123'') (init_response False) [] of
     (pattern, e, resp, w) \<Rightarrow> pattern = Some ''/s/:code'' \<and> status_code resp = 302 \<and> map (get_path_parameter ''param1'') w = [''abc123''])"
  by code_simp

lemma test_router_no_match:
  "route (init_router :: http_request list router) (make_request ''GET'' ''/missing'') (init_response False) [] = (None, None, init_response False, [])"
  by (simp add: route_def find_route_def init_router_def)

lemma test_request_header_lookup_is_case_insensitive:
  "get_header ''X-Request-ID'' (add_request_header ''x-request-id'' ''client-id'' init_request) = ''client-id''"
  by code_simp

lemma test_same_origin_policy:
  "is_same_origin_request (add_request_header ''Origin'' ''https://links.example.test''
     (add_request_header ''X-Forwarded-Proto'' ''https'' (add_request_header ''Host'' ''links.example.test'' (make_request ''POST'' ''/api/auth/login''))))"
  "\<not> is_same_origin_request (add_request_header ''Origin'' ''https://attacker.example.test''
     (add_request_header ''X-Forwarded-Proto'' ''https'' (add_request_header ''Host'' ''links.example.test'' (make_request ''POST'' ''/api/short-links''))))"
  "\<not> is_same_origin_request (add_request_header ''Sec-Fetch-Site'' ''cross-site'' (make_request ''POST'' ''/api/short-links''))"
  "is_same_origin_request (make_request ''POST'' ''/api/short-links'')"
  by code_simp+

lemma test_request_id_validation:
  "is_valid_request_id ''client.Request_ID-01'' \<and> \<not> is_valid_request_id [] \<and> \<not> is_valid_request_id ''request id'' \<and>
   \<not> is_valid_request_id (replicate 65 CHR ''a'')"
  by code_simp

lemma test_response_json_error_escapes_body:
  "set_error_response 400 ''bad\"code'' ''Bad \"Request\"'' (init_response False) =
     (let body = ''{\"error\":{\"code\":\"bad'' @ [CHR 0x5C] @ ''\"code\",\"message\":\"Bad '' @ [CHR 0x5C] @ ''\"Request'' @ [CHR 0x5C] @ ''\"\"}}''
      in set_content_length (word_of_nat (length body)) (add_header ''Content-Type'' ''application/json; charset=utf-8''
           ((init_response False)\<lparr>status_code := 400, status_message := ''Bad \"Request\"'', resp_body := body\<rparr>)))"
  by code_simp

section \<open>Middleware\<close>

text \<open>The middleware of the test notes its calls; here in a header of the request and of the response.\<close>

definition noting :: "string \<Rightarrow> middleware" where
  "noting name = \<lparr>before_request = (\<lambda>req. Inr (req\<lparr>req_body := req_body req @ ''before-'' @ name @ '';''\<rparr>)),
     after_response = (\<lambda>resp. (None, resp\<lparr>resp_body := resp_body resp @ ''after-'' @ name @ '';''\<rparr>))\<rparr>"

lemma test_middleware_order:
  "map_sum (\<lambda>t. ()) req_body (process_before [noting ''first'', noting ''second''] init_request) = Inr ''before-first;before-second;''"
  "resp_body (process_after [noting ''first'', noting ''second''] (init_response False)) = ''after-second;after-first;''"
  by code_simp+

section \<open>Links\<close>

definition test_service :: "mem_repo link_service" where
  "test_service = \<lparr>repository = memory_repo, service_metrics = True\<rparr>"

definition fresh_links :: "mem_repo world" where
  "fresh_links = \<lparr>store = init_mem_repo, metrics = init_metrics\<rparr>"

definition test_url :: string where
  "test_url = ''https://example.com/very/long/path''"

lemma test_shortlink_service_url_validation:
  "is_valid_url ''http://example.com'' \<and> is_valid_url ''https://example.com/path'' \<and> \<not> is_valid_url ''ftp://example.com'' \<and>
   \<not> is_valid_url ''example.com'' \<and> \<not> is_valid_url []"
  by code_simp

lemma test_shortlink_service_creates_and_finds_memory_link:
  "(case create_short_link test_service (\<lambda>i. 9) test_url None 1 None fresh_links of
      (Inr (Some l), w) \<Rightarrow>
        link_code (link_of l) = ''000001'' \<and> short_url l = ''/s/000001'' \<and> original_url (link_of l) = test_url \<and>
        fst (resolve test_service (\<lambda>i. 9) ''000001'' w) = Inr \<lparr>outcome_status = Redirect_ok, outcome_url = Some test_url\<rparr>
    | _ \<Rightarrow> False)"
  by code_simp

lemma test_memory_repository_creates_unique_codes:
  "(case mem_create 9 ''https://example.com/one'' None 1 None init_mem_repo of
      (Inr (Some first), s) \<Rightarrow> (case mem_create 9 ''https://example.com/two'' None 1 None s of
         (Inr (Some second), s') \<Rightarrow> link_code first = ''000001'' \<and> link_code second = ''000002''
       | _ \<Rightarrow> False)
    | _ \<Rightarrow> False)"
  by code_simp

lemma test_shortlink_service_rejects_invalid_url:
  "create_short_link test_service (\<lambda>i. 9) ''ftp://example.com/not-supported'' None 1 None fresh_links = (Inr None, fresh_links)"
  by (simp add: create_short_link_def is_valid_url_def)

text \<open>Disabled, then active but expired; \<open>nowEpochSeconds\<close> reads 100.\<close>

lemma test_shortlink_lifecycle_disabled_and_expired:
  "(case mem_create 99 test_url None 1 None init_mem_repo of
      (Inr (Some r), s) \<Rightarrow>
        (case mem_update 99 (link_code r) \<lparr>upd_status = Some Disabled, expires_at_provided = False, upd_expires_at = None, upd_owner = None\<rparr> s of
           (off, s1) \<Rightarrow> (case mem_update 99 (link_code r)
               \<lparr>upd_status = Some Active, expires_at_provided = True, upd_expires_at = Some 99, upd_owner = None\<rparr> s1 of
             (past, s2) \<Rightarrow> off \<noteq> None \<and> past \<noteq> None \<and>
               map_sum id outcome_status (fst (resolve test_service (\<lambda>i. 100) (link_code r) (fresh_links\<lparr>store := s1\<rparr>))) = Inr Redirect_off \<and>
               map_sum id outcome_status (fst (resolve test_service (\<lambda>i. 100) (link_code r) (fresh_links\<lparr>store := s2\<rparr>))) = Inr Redirect_over))
    | _ \<Rightarrow> False)"
  by code_simp

lemma test_custom_code_and_owner_isolation:
  "(case create_short_link test_service (\<lambda>i. 9) ''https://example.com/owned'' None 42 (Some ''Owned_Code'') fresh_links of
      (Inr (Some l), w) \<Rightarrow>
        link_code (link_of l) = ''Owned_Code'' \<and> owner_id (link_of l) = 42 \<and>
        map_sum id (\<lambda>r. r \<noteq> None) (fst (service_get_for_owner test_service ''Owned_Code'' 42 w)) = Inr True \<and>
        fst (service_get_for_owner test_service ''Owned_Code'' 43 w) = Inr None \<and>
        fst (create_short_link test_service (\<lambda>i. 9) ''https://example.com/reserved'' None 42 (Some ''api'') w) = Inr None \<and>
        fst (create_short_link test_service (\<lambda>i. 9) ''https://example.com/conflict'' None 43 (Some ''Owned_Code'') w) = Inl Short_code_conflict \<and>
        fst (service_list test_service \<lparr>q_cursor = 0, q_limit = 20, q_owner = Some 43, q_status = None\<rparr> w) = Inr []
    | _ \<Rightarrow> False)"
  by code_simp

lemma test_utc_timestamp_parsing:
  "map_option format_utc_timestamp (parse_utc_timestamp ''2028-02-29T12:34:56Z'') = Some ''2028-02-29T12:34:56Z''"
  "parse_utc_timestamp ''2027-02-29T12:34:56Z'' = None"
  "parse_utc_timestamp ''2028-02-29T12:34:56+08:00'' = None"
  by code_simp+


text \<open>A repository that fails, as \<open>FailingLookupRepository\<close>.\<close>

definition failing_repo :: "'s link_repo" where
  "failing_repo = \<lparr>repo_create = (\<lambda>now u e own c w. (Inr None, w)),
     repo_find = (\<lambda>now c w. (Inl (Runtime_error ''lookup failed''), w)),
     repo_find_for_owner = (\<lambda>c own w. (Inl (Runtime_error ''lookup failed''), w)),
     repo_default_source = Source_mysql,
     repo_list = (\<lambda>q w. (Inr [], w)),
     repo_update = (\<lambda>now c u w. (Inr None, w))\<rparr>"

lemma test_redirect_error_metric_is_not_recorded_for_internal_lookup:
  "(case resolve \<lparr>repository = failing_repo, service_metrics = True\<rparr> (\<lambda>i. 9) ''failure'' fresh_links of
      (r, w) \<Rightarrow> r = Inl (Runtime_error ''lookup failed'') \<and>
        service_get \<lparr>repository = failing_repo, service_metrics = True\<rparr> 9 ''failure'' w = (Inl (Runtime_error ''lookup failed''), w) \<and>
        redirect_counters (metrics w) ! redirect_cell Redirect_error From_mysql = 1)"
  by code_simp

lemma test_redirect_handler_publishes_error_and_rethrows:
  "(case handle_redirect (\<lambda>e es. es @ [e]) \<lparr>repository = failing_repo, service_metrics = False\<rparr> (\<lambda>i. 9) 9000
       ((set_path_parameter ''param1'' ''failing'' (make_request ''GET'' ''/s/failing''))\<lparr>request_id := ''redirect-error-request''\<rparr>)
       (init_response False)
       \<lparr>link_world = fresh_links, event_id_source = \<lparr>process_nonce = 7, id_sequence = 0\<rparr>, publisher_state = []\<rparr> of
      (ex, resp, w) \<Rightarrow> ex = Some (Runtime_error ''lookup failed'') \<and>
        map (\<lambda>e. (event_result e, event_http_status e, event_request_id e, event_code e)) (publisher_state w) =
          [(Access_error, 500, ''redirect-error-request'', ''failing'')])"
  by code_simp

lemma test_memory_repository_missing_code:
  "(case mem_create 9 ''https://example.com/existing'' None 1 None init_mem_repo of
      (r, s) \<Rightarrow> map_sum id lookup_record (fst (repo_find memory_repo 9 ''missing'' (fresh_links\<lparr>store := s\<rparr>))) = Inr None)"
  by code_simp

lemma test_memory_repository_lifecycle_list:
  "(case mem_create 9 ''https://example.com/one'' None 1 None init_mem_repo of
      (Inr (Some first), s1) \<Rightarrow> (case mem_create 9 ''https://example.com/two'' None 1 None s1 of
         (Inr (Some second), s2) \<Rightarrow> (case mem_create 9 ''https://example.com/three'' None 1 None s2 of
            (Inr (Some third), s3) \<Rightarrow>
              (case mem_update 9 (link_code second) \<lparr>upd_status = Some Disabled, expires_at_provided = False, upd_expires_at = None, upd_owner = None\<rparr> s3 of
                 (r, s4) \<Rightarrow>
                   map link_id (mem_list \<lparr>q_cursor = 0, q_limit = 2, q_owner = None, q_status = None\<rparr> s4) = [link_id first, link_id second] \<and>
                   map link_id (mem_list \<lparr>q_cursor = link_id first, q_limit = 10, q_owner = None, q_status = Some Active\<rparr> s4) = [link_id third])
          | _ \<Rightarrow> False)
       | _ \<Rightarrow> False)
    | _ \<Rightarrow> False)"
  by code_simp

section \<open>Access statistics and dead letters\<close>

lemma test_access_statistics_result_semantics:
  "is_aggregated_result Access_success \<and> is_aggregated_result Access_disabled \<and> \<not> is_aggregated_result Access_not_found"
  "stats_result_index Access_success = Some 0 \<and> stats_result_index Access_error = Some 3 \<and> stats_result_index Access_not_found = None"
  by code_simp+

lemma test_access_statistics_bucket_semantics:
  "hour_bucket_start 1784304000123 = Inr 1784304000"
  "hour_bucket_start 1784307599999 = Inr 1784304000"
  "hour_bucket_start 0 = Inl (Invalid_argument ''access event timestamp must be positive'')"
  "parse_interval ''hour'' = Some Interval_hour \<and> parse_interval ''day'' = Some Interval_day \<and> parse_interval ''week'' = None"
  "bucket_seconds Interval_day = 86400"
  by code_simp+

lemma test_access_statistics_query:
  "is_valid_stats_query \<lparr>from_epoch = 1784304000, to_epoch = 1784307600, query_interval = Interval_hour\<rparr>"
  "\<not> is_valid_stats_query \<lparr>from_epoch = 1784304001, to_epoch = 1784307600, query_interval = Interval_hour\<rparr>"
  "\<not> is_valid_stats_query \<lparr>from_epoch = 1784304000, to_epoch = 1784304000 + 32 * 86400, query_interval = Interval_hour\<rparr>"
  "attempt_count [2, 1, 1, 3] = 7"
  by code_simp+

lemma test_dead_letter_envelope:
  "base64_encode ''000001'' = ''MDAwMDAx'' \<and> base64_encode ''not-json'' = ''bm90LWpzb24='' \<and>
   dead_reason_to_string Dead_invalid_json = ''invalid_json''"
  by code_simp

section \<open>Accounts\<close>

lemma test_username_and_password_rules:
  "is_valid_username ''Alice_1'' \<and> is_valid_username ''ValidUser'' \<and> \<not> is_valid_username ''9invalid'' \<and>
   \<not> is_valid_username (CHR 0xC3 # CHR 0xA9 # ''-user'')"
  "is_valid_password ''a-secure-password'' \<and> \<not> is_valid_password ''short''"
  "normalize_username ''ALICE_1'' = normalize_username ''Alice_1'' \<and> normalize_username ''Alice_1'' = ''alice_1''"
  by code_simp+

lemma test_auth_service_registration_errors:
  "register_user sv clk ''9invalid'' ''a-secure-password'' w = (Inr (auth_failure Invalid_username), w)"
  "register_user sv clk ''ValidUser'' ''short'' w = (Inr (auth_failure Invalid_password), w)"
  using test_username_and_password_rules by (simp_all add: register_user_def)

end
