(* ===== verification/Spec2Isabelle.thy ===== *)
theory Spec2Isabelle
  imports ShortLinkMetrics LinkStore LinkService RedisCache RateLimiter JsonLib AccessEvents HttpMessages Passwords AuthService AuthHttp HttpMetrics HttpContext HttpServer RedirectHandler ShortLinkApi ConsumerMetrics DeadLetters Database StatisticsWriter EventConsumer Configuration LinkSpec MySqlLinks EventPublisher PoolConcurrency StatisticsReader ServerMain TlsConnection MySqlAuth Sessions ConsumerObservability AccessPipeline ServerProcess FileUtility CacheConcurrency ServerEvents UnitTests
begin

text \<open>
  HaoShortLink: a short link service on an HTTP server of its own, and the consumer that counts
  its accesses. This library models the C++ sources under \<open>src/HttpServer\<close>,
  \<open>src/apps/shortlink_server\<close> and \<open>src/apps/shortlink_event_consumer\<close> and proves them correct
  against the services they use. Names are the sources', with a suffix where HOL has the name.

  The program. \<open>HttpServer\<close> parses the bytes of a connection (\<open>HttpContext\<close>), routes the request
  (\<open>Router\<close>) and calls a handler of \<open>ShortLinkHttpApi\<close>, \<open>AuthHttp\<close> or \<open>RedirectHandler\<close>. The
  handlers use \<open>ShortLinkService\<close> and \<open>AuthService\<close>, which use a repository: in memory, or in
  MySQL behind a Redis cache. Every redirect publishes an access event to Kafka; the consumer reads
  the events, counts each once in MySQL tables, or writes a dead letter, and then commits the
  offset; the statistics handler reads these tables. A limiter in Redis bounds the creations.

  Theories, from the bottom.

    \<^item> \<open>HSL_Prelude\<close>: strings as byte lists, exceptions as values (\<open>exn + 'a\<close>), 64-bit words, number
      texts, ordered maps. \<open>JsonLib\<close>, \<open>KafkaClient\<close>: the JSON and Kafka libraries as parameters.
    \<^item> Links: \<open>LinkStore\<close> (record, repository interface \<open>link_repo\<close>, \<open>MemoryShortLinkRepository\<close>,
      the contract \<open>link_repository\<close>), \<open>LinkSpec\<close> (a specification of the interface over sequences of
      calls), \<open>LinkService\<close> (\<open>ShortLinkService\<close>, timestamps), \<open>RedisCache\<close> (\<open>RedisShortLinkCache\<close>,
      \<open>RedisCachedShortLinkRepository\<close>), \<open>CacheConcurrency\<close> (that repository under several threads), \<open>Database\<close> (\<open>DbConnection\<close>, \<open>DbConnectionPool\<close>),
      \<open>PoolLifecycle\<close> (the end of
      connections and pool), \<open>PoolConcurrency\<close> (the pool under several threads), \<open>MySqlLinks\<close> (\<open>MySqlShortLinkRepository\<close>),
      \<open>RateLimiter\<close>.
    \<^item> Accounts: \<open>Passwords\<close>, \<open>AuthService\<close> (\<open>AuthRepository\<close>, \<open>MemoryAuthRepository\<close>, \<open>AuthService\<close>),
      \<open>AuthHttp\<close> (\<open>SameOriginPolicy\<close>, cookies, account handlers), \<open>MySqlAuth\<close> (\<open>MySqlAuthRepository\<close>).
    \<^item> HTTP: \<open>HttpMessages\<close>, \<open>HttpContext\<close> (parser), \<open>HttpMetrics\<close>, \<open>HttpServer\<close> (router, middleware,
      connections), \<open>TlsConnection\<close> (TLS), \<open>Sessions\<close> (\<open>Session\<close>, \<open>SessionStorage\<close>,
      \<open>SessionManager\<close>).
    \<^item> The API: \<open>ShortLinkMetrics\<close>, \<open>RedirectHandler\<close>, \<open>ShortLinkApi\<close>, \<open>Configuration\<close>, \<open>ServerMain\<close>
      (\<open>main.cpp\<close> and the run of the whole server over messages of many connections), \<open>ServerProcess\<close>
      (its start and end), \<open>ServerEvents\<close> (its events, from the start to the end).
    \<^item> Events: \<open>AccessEvents\<close> (event and its JSON contract), \<open>EventPublisher\<close>, \<open>ConsumerMetrics\<close>,
      \<open>DeadLetters\<close>, \<open>StatisticsWriter\<close>, \<open>EventConsumer\<close> and \<open>ConsumerObservability\<close> (\<open>main.cpp\<close> of the
      consumer and the sockets of its observability server),
      \<open>StatisticsReader\<close>, and \<open>AccessPipeline\<close> (the path of an access from the redirect to the counters).
    \<^item> \<open>FileUtility\<close>: \<open>FileUtil\<close>, which stands alone. \<open>UnitTests\<close>: the deterministic cases of
      \<open>tests/minimal_test.cpp\<close>, evaluated on the model.

  How state and effects are modelled. An object is a record, its methods are functions from state
  to state; a throwing function returns \<open>exn + 'a\<close>, and handlers the exception, the response and the new
  state. A reading of a clock is an argument (\<open>clk i\<close> is the \<open>i\<close>-th reading); \<open>std::uint64_t\<close> is a
  64-bit word and wraps, \<open>std::int64_t\<close> and \<open>int\<close> are \<open>int\<close> with the conversions of the source written out;
  \<open>std::map\<close> is an association list in key order, \<open>std::unordered_map\<close> one without. Threads appear
  where their interleaving matters: \<open>pool_step\<close> is a step relation over the threads in the pool, \<open>cache_step\<close> one over the threads in the
  cached repository, each step one call of Redis or of the source; the
  publisher's runs are sequences of publishing and polling steps, the server's runs are sequences of
  messages on connections.

  What is outside the repository is a parameter with named laws, each with an instance on which the
  laws are proved: JSON (\<open>json_laws\<close>), OpenSSL's digests (\<open>crypto_laws\<close>), Redis (\<open>redis_cache\<close>, \<open>timed_cache\<close>,
  \<open>counter_laws\<close>), MySQL (\<open>links_server\<close>, \<open>statistics_tables\<close>, \<open>statistics_source\<close>, \<open>accounts_server\<close>), Kafka
  (\<open>reporting_producer\<close>, \<open>topic_log\<close>), TLS (\<open>tls_object\<close>). The laws say what a statement, command or call that succeeds does; a call may
  also fail at any time, and the properties hold for the failing runs too.

  Interfaces are locales, interpreted on the model's definitions: \<open>link_repository\<close> (in memory),
  \<open>cached_store\<close> (a repository with a cache), \<open>auth_repository\<close> (in memory, and in MySQL by a
  \<open>sublocale\<close>), and the laws above.

  What the lemmas show. Per component: invariants of the state and that every operation keeps them
  (\<open>mem_ok\<close>, \<open>mem_auth_ok\<close>, \<open>sql_inv\<close>, \<open>cached_inv\<close>, \<open>publisher_ok\<close>); the result of every operation on every
  branch, errors included; round trips of every text format (timestamps, requests, responses, cache
  entries, events, dead letters, password hashes, configuration); the parser and every loop return.
  Across components: the MySQL repository answers as the in-memory one (\<open>mysql_equals_memory\<close>) through \<open>LinkSpec\<close>,
  the cache never changes an answer of one thread, and with several threads an answer is at most the time
  to live and the time of one lookup old (\<open>stale_answers_bounded\<close>; \<open>stale_answer_race\<close> shows that it can
  be old after an update has returned), the consumer counts each event once and commits only what is settled,
  the reported statistics are the counted events, the redirects the server answered are the accesses the
  consumer counts (\<open>redirects_counted_once\<close>), the whole server publishes and accounts one event per request for
  a short link (\<open>short_link_requests_accounted\<close>), and, in this theory, a short link can be followed
  through the whole server and only its owner's requests change it.

  Bounds and fuel. The loops of the parser, the router, the text formats and the listing are total
  functions with measures. The retry loops of the consumer count down the configured attempts. Counters
  of ids and metrics are words; the properties that need fresh ids bound the number of operations by
  \<open>2 ^ 64\<close>. \<open>on_message\<close> is an option because the parser's loop would not end in the finished
  state; \<open>serve_returns\<close> proves that the server never calls it there.

  Not modelled. The sockets, threads and event loop of the network library (a message is the bytes of
  one call of the message callback), signals, logging, the HTML pages under \<open>web\<close>, the deployment
  files, SQL migrations beyond the tables the statements read, the examples, and the tests that need threads, random bytes or a library's
  text.
\<close>

section \<open>The whole server\<close>

text \<open>C4: a short link can be followed. Whatever messages the server with links in memory has handled on
  whatever connections since its start, it has taken them all, and a \<open>GET\<close> for \<open>/s/\<close> and a code is then
  answered with one response, 302 with the original URL exactly when the link exists, is active and has not
  expired by the clock, and 404 otherwise, and the links stay as they are.\<close>

theorem short_link_followed:
  assumes "repository (api_links api) = memory_repo" and "length ms < 2 ^ 64 - 1"
    and "finds_crlf fc" and "c \<noteq> []" and "\<forall>x\<in>set c. not_slash x" and "clean_target (''/s/'' @ c) None"
    and "version \<in> {''HTTP/1.0'', ''HTTP/1.1''}" and "list_all clean_header hs"
  shows "\<exists>conns w resp w'.
     serve fc api ms (\<lambda>_. new_connection, memory_state rids eids p accts d q h) = Some (conns, w) \<and>
     on_message fc (server_for api s) now took (request_text ''GET'' (''/s/'' @ c) None version hs [] @ rest) new_connection w =
       Some (Send (append_response resp) # (if close_connection resp then [Shutdown] else []),
             \<lparr>conn_context = init_context, conn_unread = rest\<rparr>, w') \<and>
     mem_records (link_world (app w')) = mem_records (link_world (app w)) \<and>
     (case view (mem_records (link_world (app w))) c of
        Some l \<Rightarrow>
          if link_status l = Active \<and> (\<forall>t. expires_at l = Some t \<longrightarrow> clock s 1 < t)
          then status_code resp = 302 \<and> map_of (resp_headers resp) ''Location'' = Some (original_url l) \<and> resp_body resp = []
          else status_code resp = 404
      | None \<Rightarrow> status_code resp = 404)"
proof -
  let ?w0 = "memory_state rids eids p accts d q h"
  have "ctx_state (conn_context new_connection) \<noteq> Got_all" by (simp add: new_connection_def init_context_def)
  then obtain conns w where run: "serve fc api ms (\<lambda>_. new_connection, ?w0) = Some (conns, w)"
    using serve_returns [of "\<lambda>_. new_connection"] by fast
  have "mem_inv (link_world (app w))"
    using serve_within [OF assms(1) run memory_state_within] assms(2) within_inv by simp
  from redirect_message_answered [OF assms(1) this assms(3-8)] run show ?thesis by blast
qed

definition follow_message :: message where
  "follow_message =
     (0, sample_surroundings, 7, (0, 100000), request_text ''GET'' ''/s/abcd'' None ''HTTP/1.1'' [(''Host'', ''h'')] [])"

lemma follow_message_clean:
  "clean_target (''/s/'' @ ''abcd'') None" "list_all clean_header [(''Host'', ''h'')]" "\<forall>x\<in>set ''abcd''. not_slash x"
  by (simp_all add: clean_target_def target_text_def clean_header_def trimmed_def is_space_def less_eq_char_iff not_slash_def)

lemma short_link_followed_witness:
  "\<exists>conns w resp w'.
     serve scan_crlf sample_api [follow_message]
       (\<lambda>_. new_connection, memory_state \<lparr>request_nonce = 1, request_sequence = 0\<rparr> \<lparr>process_nonce = 7, id_sequence = 0\<rparr>
          [] sample_auth_world 0 () []) = Some (conns, w) \<and>
     on_message scan_crlf (server_for sample_api sample_surroundings) 8 (0, 100000)
       (request_text ''GET'' (''/s/'' @ ''abcd'') None ''HTTP/1.1'' [(''Host'', ''h'')] [] @ ''GET'') new_connection w =
       Some (Send (append_response resp) # (if close_connection resp then [Shutdown] else []),
             \<lparr>conn_context = init_context, conn_unread = ''GET''\<rparr>, w')"
proof -
  have "repository (api_links sample_api) = memory_repo" by (simp add: sample_api_def)
  moreover have "length [follow_message] < 2 ^ 64 - 1" by simp
  ultimately show ?thesis
    using short_link_followed [OF _ _ scan_crlf_finds _ follow_message_clean(3,1) _ follow_message_clean(2), of sample_api "[follow_message]"]
    by blast
qed

text \<open>C5: only its owner changes a link. Whatever messages a server handles, from a state with a link on,
  the link keeps its code, id, owner, URL and creation time, and it keeps its status and expiry too unless one
  of the messages completed a \<open>PUT\<close> request whose cookie is a valid session of the link's owner.\<close>

theorem links_change_by_owner:
  assumes "repository (api_links api) = memory_repo" and "serve fc api ms (conns, w) = Some (conns', w')"
    and "links_within n (store (link_world (app w)))" and "n + length ms < 2 ^ 64"
    and "view (mem_records (link_world (app w))) c = Some r"
  shows "\<exists>r'. view (mem_records (link_world (app w'))) c = Some r' \<and> same_link r r' \<and>
     (owner_acts fc api (owner_id r) ms (conns, w) \<or> r' = r)"
  using serve_view [OF assms] .

definition sample_server_world :: "(mem_repo, access_event list, mem_auth, nat, nat, unit) api_state server_world" where
  "sample_server_world =
     \<lparr>http_counters = [], request_id_source = \<lparr>request_nonce = 1, request_sequence = 0\<rparr>, app = sample_api_state\<rparr>"

lemma links_change_by_owner_witness:
  "\<exists>conns' w' r'. serve scan_crlf sample_api [follow_message] (\<lambda>_. new_connection, sample_server_world) = Some (conns', w') \<and>
     view (mem_records (link_world (app w'))) ''abcd'' = Some r' \<and> original_url r' = ''http://a''"
proof -
  have memory: "repository (api_links sample_api) = memory_repo" by (simp add: sample_api_def)
  have "ctx_state (conn_context new_connection) \<noteq> Got_all" by (simp add: new_connection_def init_context_def)
  then obtain conns' w' where run: "serve scan_crlf sample_api [follow_message] (\<lambda>_. new_connection, sample_server_world) = Some (conns', w')"
    using serve_returns [of "\<lambda>_. new_connection"] by fast
  have links: "link_world (app sample_server_world) = sample_world"
    by (simp add: sample_server_world_def sample_api_state_def redirect_sample_def redirect_state.defs api_state.defs)
  have "links_within 9 (store sample_world)"
    using sample_inv(1) by (simp add: links_within_def mem_inv_def sample_world_def)
  moreover obtain r where r: "view (mem_records sample_world) ''abcd'' = Some r" "original_url r = ''http://a''"
    using sample_view by (auto simp: sample_link_def)
  ultimately obtain r' where "view (mem_records (link_world (app w'))) ''abcd'' = Some r'" "same_link r r'"
    using links_change_by_owner [OF memory run, of 9 "''abcd''" r] links by auto
  then show ?thesis using run r(2) by (auto simp: same_link_def)
qed

end
